(* ===== verification/Prelude.thy ===== *)
theory Prelude imports Main "HOL-Library.Word" begin

text \<open>
  Shared vocabulary of the development: the fixed-width integers of the Go code, the byte
  strings it stores and prints (decimal, hexadecimal and big-endian encodings of the Go
  standard library), the \<open>codec\<close> contract every encoder/decoder pair of the program is an
  instance of, and the lemma collections the component theories add to.
\<close>

section \<open>Collections and types\<close>

named_theorems key_simps \<open>inequalities and injectivity of database keys\<close>
named_theorems tree_simps \<open>reads of the Merkle tree after its writes\<close>
named_theorems text_simps \<open>decimal and hexadecimal text\<close>

type_synonym u32 = "32 word"
type_synonym u64 = "64 word"
type_synonym bytes = string

section \<open>The codec contract\<close>

locale codec =
  fixes enc :: "'a \<Rightarrow> 'b" and dec :: "'b \<Rightarrow> 'a option" and wf :: "'a \<Rightarrow> bool"
  assumes dec_enc: "wf x \<Longrightarrow> dec (enc x) = Some x"
begin

lemma enc_inject: "wf x \<Longrightarrow> wf y \<Longrightarrow> enc x = enc y \<longleftrightarrow> x = y"
  by (metis dec_enc option.inject)

lemma enc_inj_on: "inj_on enc {x. wf x}"
  by (rule inj_onI) (simp add: enc_inject)

end

section \<open>Lists\<close>

lemma append_sep_inject:
  assumes "c \<notin> set xs" and "c \<notin> set xs'"
  shows "xs @ c # ys = xs' @ c # ys' \<longleftrightarrow> xs = xs' \<and> ys = ys'"
  using assms
proof (induction xs arbitrary: xs')
  case Nil
  then show ?case by (cases xs') auto
next
  case (Cons x xs)
  then show ?case by (cases xs') auto
qed

lemma of_nat_u64_inject: "i < 2 ^ 64 \<Longrightarrow> j < 2 ^ 64 \<Longrightarrow> (of_nat i :: u64) = of_nat j \<longleftrightarrow> i = j"
  by (auto simp: word_unat_eq_iff unat_of_nat)

section \<open>Big-endian integers (encoding/binary)\<close>

fun be_enc :: "nat \<Rightarrow> nat \<Rightarrow> bytes" where
  "be_enc 0 v = []"
| "be_enc (Suc n) v = be_enc n (v div 256) @ [char_of (v mod 256)]"

definition be_dec :: "bytes \<Rightarrow> nat" where
  "be_dec bs = foldl (\<lambda>a c. a * 256 + of_char c) 0 bs"

lemma length_be_enc [simp]: "length (be_enc n v) = n"
  by (induction n arbitrary: v) auto

lemma be_dec_snoc: "be_dec (bs @ [c]) = be_dec bs * 256 + of_char c"
  by (simp add: be_dec_def)

lemma be_dec_enc: "v < 256 ^ n \<Longrightarrow> be_dec (be_enc n v) = v"
proof (induction n arbitrary: v)
  case 0
  then show ?case by (simp add: be_dec_def)
next
  case (Suc n)
  have "v div 256 < 256 ^ n"
    using Suc.prems by (simp add: less_mult_imp_div_less mult.commute)
  then show ?case by (simp add: be_dec_snoc Suc.IH)
qed

interpretation be64: codec "\<lambda>w :: u64. be_enc 8 (unat w)"
    "\<lambda>bs. Some (of_nat (be_dec bs))" "\<lambda>_. True"
proof unfold_locales
  fix x :: u64
  have "unat x < 256 ^ 8" using unsigned_less [of x] by simp
  then show "Some (of_nat (be_dec (be_enc 8 (unat x)))) = Some x" by (simp add: be_dec_enc)
qed

lemma be_enc_inject: "v < 256 ^ n \<Longrightarrow> w < 256 ^ n \<Longrightarrow> be_enc n v = be_enc n w \<longleftrightarrow> v = w"
  by (metis be_dec_enc)

section \<open>Decimal text: big.Int.String, \%d, and big.Int.SetString(s, 10)\<close>

definition digit :: "nat \<Rightarrow> char" where
  "digit d = char_of (48 + d)"

fun dec_nat :: "nat \<Rightarrow> string" where
  "dec_nat n = (if n < 10 then [digit n] else dec_nat (n div 10) @ [digit (n mod 10)])"

declare dec_nat.simps [simp del]

definition dec :: "int \<Rightarrow> string" where
  "dec x = (if x < 0 then CHR ''-'' # dec_nat (nat (- x)) else dec_nat (nat x))"

definition digit_val :: "char \<Rightarrow> nat option" where
  "digit_val c = (if 48 \<le> (of_char c :: nat) \<and> of_char c \<le> (57 :: nat)
     then Some (of_char c - 48) else None)"

fun parse_digits :: "nat \<Rightarrow> string \<Rightarrow> nat option" where
  "parse_digits a [] = Some a"
| "parse_digits a (c # cs) =
     (case digit_val c of None \<Rightarrow> None | Some d \<Rightarrow> parse_digits (a * 10 + d) cs)"

definition parse_unsigned :: "string \<Rightarrow> nat option" where
  "parse_unsigned s = (if s = [] then None else parse_digits 0 s)"

text \<open>
  \<open>SetString\<close> in base 10: an optional sign, then one or more digits and nothing else.
\<close>

definition parse_dec :: "string \<Rightarrow> int option" where
  "parse_dec s = (case s of [] \<Rightarrow> None
     | c # cs \<Rightarrow>
        if c = CHR ''-'' then map_option (\<lambda>n. - int n) (parse_unsigned cs)
        else if c = CHR ''+'' then map_option int (parse_unsigned cs)
        else map_option int (parse_unsigned s))"

lemma of_char_digit: "d < 10 \<Longrightarrow> (of_char (digit d) :: nat) = 48 + d"
  by (simp add: digit_def)

lemma digit_val_digit [simp]: "d < 10 \<Longrightarrow> digit_val (digit d) = Some d"
  by (simp add: digit_val_def of_char_digit)

lemma parse_digits_append:
  "parse_digits a (xs @ ys) = Option.bind (parse_digits a xs) (\<lambda>b. parse_digits b ys)"
  by (induction a xs rule: parse_digits.induct) (auto split: option.split)

lemma parse_digits_dec_nat: "parse_digits 0 (dec_nat n) = Some n"
proof (induction n rule: dec_nat.induct)
  case (1 n)
  show ?case
  proof (cases "n < 10")
    case True
    then show ?thesis by (simp add: dec_nat.simps [of n])
  next
    case False
    then show ?thesis
      using 1 by (simp add: dec_nat.simps [of n] parse_digits_append)
  qed
qed

lemma dec_nat_neq_Nil [simp]: "dec_nat n \<noteq> []"
  by (simp add: dec_nat.simps [of n])

lemma parse_unsigned_dec_nat [text_simps, simp]: "parse_unsigned (dec_nat n) = Some n"
  by (simp add: parse_unsigned_def parse_digits_dec_nat)

lemma set_dec_nat: "c \<in> set (dec_nat n) \<Longrightarrow> \<exists>d < 10. c = digit d"
proof (induction n rule: dec_nat.induct)
  case (1 n)
  show ?case
  proof (cases "n < 10")
    case True
    then show ?thesis using "1.prems" by (auto simp: dec_nat.simps [of n])
  next
    case False
    then have "c \<in> set (dec_nat (n div 10)) \<or> c = digit (n mod 10)"
      using "1.prems" by (auto simp: dec_nat.simps [of n])
    then show ?thesis using "1.IH" False by (auto intro: exI [of _ "n mod 10"])
  qed
qed

lemma digit_neq_of_char:
  assumes "d < 10" and "(of_char c :: nat) < 48 \<or> 57 < (of_char c :: nat)"
  shows "digit d \<noteq> c"
  using assms of_char_digit [of d] by auto

lemma not_in_dec_nat:
  assumes "(of_char c :: nat) < 48 \<or> 57 < (of_char c :: nat)"
  shows "c \<notin> set (dec_nat n)"
  using set_dec_nat digit_neq_of_char [OF _ assms] by blast

lemma colon_not_in_dec_nat [simp]: "CHR '':'' \<notin> set (dec_nat n)"
  by (rule not_in_dec_nat) simp

lemma colon_not_in_dec [simp]: "CHR '':'' \<notin> set (dec x)"
  by (simp add: dec_def)

lemma hd_dec_nat_sign: "dec_nat n = c # cs \<Longrightarrow> c \<noteq> CHR ''-'' \<and> c \<noteq> CHR ''+''"
  using not_in_dec_nat [of "CHR ''-''" n] not_in_dec_nat [of "CHR ''+''" n] by auto

lemma parse_dec_dec_nat: "parse_dec (dec_nat n) = Some (int n)"
proof (cases "dec_nat n")
  case (Cons c cs)
  then have "c \<noteq> CHR ''-'' \<and> c \<noteq> CHR ''+''" by (rule hd_dec_nat_sign)
  then show ?thesis
    using Cons parse_unsigned_dec_nat [of n] by (simp add: parse_dec_def)
qed simp

lemma parse_dec_dec [text_simps, simp]: "parse_dec (dec x) = Some x"
proof (cases "x < 0")
  case True
  then show ?thesis by (simp add: dec_def parse_dec_def)
next
  case False
  then show ?thesis by (simp add: dec_def parse_dec_dec_nat)
qed

interpretation decimal: codec dec parse_dec "\<lambda>_. True"
  by unfold_locales simp

lemma dec_nat_inject [simp]: "dec_nat m = dec_nat n \<longleftrightarrow> m = n"
  by (metis option.inject parse_unsigned_dec_nat)

lemma dec_inject [simp]: "dec x = dec y \<longleftrightarrow> x = y"
  by (rule decimal.enc_inject) simp_all

lemma dec_neq_Nil [simp]: "dec x \<noteq> []"
  by (simp add: dec_def)

section \<open>Hexadecimal text (encoding/hex) and strings.TrimPrefix\<close>

definition hex_digit :: "nat \<Rightarrow> char" where
  "hex_digit d = char_of (if d < 10 then 48 + d else 87 + d)"

fun hex_encode :: "bytes \<Rightarrow> string" where
  "hex_encode [] = []"
| "hex_encode (c # cs) =
     hex_digit (of_char c div 16) # hex_digit (of_char c mod 16) # hex_encode cs"

definition hex_val :: "char \<Rightarrow> nat option" where
  "hex_val c = (let n = of_char c :: nat in
     if 48 \<le> n \<and> n \<le> 57 then Some (n - 48)
     else if 97 \<le> n \<and> n \<le> 102 then Some (n - 87)
     else if 65 \<le> n \<and> n \<le> 70 then Some (n - 55) else None)"

text \<open>\<open>hex.DecodeString\<close>: an error for a bad digit or an odd length.\<close>

fun hex_decode :: "string \<Rightarrow> bytes option" where
  "hex_decode [] = Some []"
| "hex_decode [c] = None"
| "hex_decode (c # d # cs) =
     (case (hex_val c, hex_val d, hex_decode cs) of
        (Some a, Some b, Some r) \<Rightarrow> Some (char_of (a * 16 + b) # r)
      | _ \<Rightarrow> None)"

lemma hex_val_digit: "d < 16 \<Longrightarrow> hex_val (hex_digit d) = Some d"
  by (auto simp: hex_val_def hex_digit_def Let_def)

lemma of_char_less: "(of_char c :: nat) < 256"
proof -
  have "(of_char c :: nat) mod 256 = of_char c" by simp
  then show ?thesis by (metis mod_less_divisor zero_less_numeral)
qed

lemma hex_decode_encode [text_simps, simp]: "hex_decode (hex_encode bs) = Some bs"
proof (induction bs)
  case (Cons c cs)
  have "hex_val (hex_digit (of_char c div 16)) = Some (of_char c div 16)"
    using of_char_less [of c] by (intro hex_val_digit) (simp add: less_mult_imp_div_less)
  moreover have "hex_val (hex_digit (of_char c mod 16)) = Some (of_char c mod 16)"
    by (intro hex_val_digit) simp
  moreover have "(char_of ((of_char c div 16) * 16 + of_char c mod 16 :: nat)) = c"
    by (simp only: div_mult_mod_eq) simp
  ultimately show ?case using Cons.IH by simp
qed simp

interpretation hexadecimal: codec hex_encode hex_decode "\<lambda>_. True"
  by unfold_locales simp

lemma hex_val_colon: "hex_val (CHR '':'') = None"
  by (simp add: hex_val_def)

lemma hex_decode_no_colon: "hex_decode s = Some bs \<Longrightarrow> CHR '':'' \<notin> set s"
  by (induction s arbitrary: bs rule: hex_decode.induct)
    (auto simp: hex_val_colon split: option.splits)

text \<open>\<open>strings.TrimPrefix(s, "0x")\<close>: at most one prefix is removed.\<close>

definition has_prefix :: "string \<Rightarrow> string \<Rightarrow> bool" where
  "has_prefix p s \<longleftrightarrow> take (length p) s = p"

definition trim_prefix :: "string \<Rightarrow> string \<Rightarrow> string" where
  "trim_prefix p s = (if has_prefix p s then drop (length p) s else s)"

lemma trim_prefix_append [simp]: "trim_prefix p (p @ s) = s"
  by (simp add: trim_prefix_def has_prefix_def)

lemma trim_prefix_no_colon:
  "CHR '':'' \<notin> set (trim_prefix ''0x'' s) \<Longrightarrow> CHR '':'' \<notin> set s"
  by (cases s rule: hex_decode.cases) (auto simp: trim_prefix_def has_prefix_def split: if_splits)

section \<open>Errors\<close>

text \<open>
  Go's \<open>(value, error)\<close> results are sums with the error message on the left; a nil error
  is the right injection.
\<close>

type_synonym 'a result = "string + 'a"

definition is_ok :: "'a result \<Rightarrow> bool" where
  "is_ok r = (case r of Inl _ \<Rightarrow> False | Inr _ \<Rightarrow> True)"

lemma is_ok_simps [simp]: "is_ok (Inr x)" "\<not> is_ok (Inl e)"
  by (simp_all add: is_ok_def)

lemma is_okE: "is_ok r \<Longrightarrow> (\<And>x. r = Inr x \<Longrightarrow> P) \<Longrightarrow> P"
  by (cases r) auto

end
