(* ===== verification/Types.thy ===== *)
theory Types imports Prelude begin

text \<open>
  The data types of sequencer/internal/types/types.go, one record per struct. A
  \<open>*big.Int\<close> is an \<open>int\<close>, a \<open>uint64\<close> a \<open>u64\<close>, a Go string a \<open>string\<close>. The
  fixed arrays \<open>[28]string\<close> and \<open>[28]uint64\<close> of a state update are lists, 28 long in
  every value the code builds (\<open>Sequencer\<close> proves it for the values it stores).
\<close>

record balance_state =
  bs_AccountID :: u64
  bs_TokenID :: u32
  bs_PubKeyX :: int
  bs_PubKeyY :: int
  bs_Balance :: int
  bs_Nonce :: u64

record order =
  o_MakerAddress :: string
  o_TokenID :: u32
  o_Amount :: int
  o_Price :: int
  o_IsBuy :: bool
  o_Nonce :: u64
  o_Signature :: string
  o_CircuitSignature :: string

record trade =
  t_TradeID :: string
  t_MakerOrder :: order
  t_TakerOrder :: order
  t_MatchPrice :: int
  t_MatchAmount :: int

record state_update =
  su_Index :: u64
  su_Balance :: string
  su_Nonce :: u64
  su_Path :: "string list"
  su_PathBits :: "u64 list"
  su_IsGenesis :: bool

record state_transition =
  st_OpType :: int
  st_Amount :: string
  st_QuoteAmount :: string
  st_MakerPubKeyX :: string
  st_MakerPubKeyY :: string
  st_MakerSig :: string
  st_MakerBase :: state_update
  st_MakerQuote :: state_update
  st_TakerPubKeyX :: string
  st_TakerPubKeyY :: string
  st_TakerSig :: string
  st_TakerBase :: state_update
  st_TakerQuote :: state_update

record zk_batch =
  zb_BatchID :: u64
  zb_OldRoot :: string
  zb_NewRoot :: string
  zb_WithdrawalHash :: string
  zb_DepositHash :: string
  zb_Transitions :: "state_transition list"

text \<open>The op codes of the batcher and of the circuit (the two files agree).\<close>

definition OpTrade :: int where "OpTrade = 0"
definition OpTransfer :: int where "OpTransfer = 1"
definition OpWithdraw :: int where "OpWithdraw = 2"
definition OpDeposit :: int where "OpDeposit = 3"

lemmas op_codes = OpTrade_def OpTransfer_def OpWithdraw_def OpDeposit_def

definition BatchSize :: nat where "BatchSize = 25"

text \<open>The leaf of an account's token: \<open>(AccountID * 256) + uint64(TokenID)\<close>, in 64 bits.\<close>

definition leaf_index :: "u64 \<Rightarrow> u32 \<Rightarrow> u64" where
  "leaf_index acc tok = acc * 256 + ucast tok"

lemma unat_leaf_index:
  assumes "unat acc < 2 ^ 56" and "unat tok < 256"
  shows "unat (leaf_index acc tok) = unat acc * 256 + unat tok"
proof -
  have t: "unat (ucast tok :: u64) = unat tok"
    using assms(2) by (simp add: unsigned_ucast_eq take_bit_nat_eq_self)
  have m: "unat (acc * 256) = unat acc * 256"
    using assms(1) by (simp add: unat_word_ariths)
  then show ?thesis
    using assms by (simp add: leaf_index_def unat_word_ariths t)
qed

lemma leaf_index_inject:
  assumes "unat a < 2 ^ 56" and "unat t < 256" and "unat a' < 2 ^ 56" and "unat t' < 256"
  shows "leaf_index a t = leaf_index a' t' \<longleftrightarrow> a = a' \<and> t = t'"
proof
  assume "leaf_index a t = leaf_index a' t'"
  then have "unat a * 256 + unat t = unat a' * 256 + unat t'"
    using assms by (metis unat_leaf_index)
  then have "(unat a * 256 + unat t) div 256 = (unat a' * 256 + unat t') div 256"
    and "(unat a * 256 + unat t) mod 256 = (unat a' * 256 + unat t') mod 256"
    by simp_all
  then have "unat a = unat a' \<and> unat t = unat t'"
    using assms(2,4) by simp
  then show "a = a' \<and> t = t'" by (simp add: word_unat_eq_iff)
qed simp

end
