(* ===== verification/PriceSide.thy ===== *)
theory PriceSide imports Types begin

text \<open>
  The contract of one side of an order book. The two sides of matching.go are the same
  algorithm with the price order reversed; \<open>match_loop\<close> is that algorithm for a price order
  \<open>better\<close> (a resting price is better for the taker), and the locale \<open>price_side\<close> holds the
  facts both sides share. \<open>Engine\<close> interprets it for the bids and for the asks.
\<close>

section \<open>Amounts\<close>

definition liquidity :: "order list \<Rightarrow> int" where
  "liquidity xs = sum_list (map o_Amount xs)"

definition traded :: "trade list \<Rightarrow> int" where
  "traded ts = sum_list (map t_MatchAmount ts)"

lemma liquidity_simps [simp]:
  "liquidity [] = 0" "liquidity (x # xs) = o_Amount x + liquidity xs"
  "liquidity (xs @ ys) = liquidity xs + liquidity ys"
  by (simp_all add: liquidity_def)

lemma traded_simps [simp]:
  "traded [] = 0" "traded (t # ts) = t_MatchAmount t + traded ts"
  "traded (ts @ us) = traded ts + traded us"
  by (simp_all add: traded_def)

definition live :: "order list \<Rightarrow> bool" where
  "live xs \<longleftrightarrow> (\<forall>x \<in> set xs. 0 < o_Amount x)"

lemma live_simps [simp]:
  "live []" "live (x # xs) \<longleftrightarrow> 0 < o_Amount x \<and> live xs"
  "live (xs @ ys) \<longleftrightarrow> live xs \<and> live ys"
  by (auto simp: live_def)

lemma live_liquidity: "live xs \<Longrightarrow> 0 \<le> liquidity xs"
  by (induction xs) auto

section \<open>The generic matching loop\<close>

definition mk_trade :: "(nat \<Rightarrow> int) \<Rightarrow> trade list \<Rightarrow> order \<Rightarrow> order \<Rightarrow> int \<Rightarrow> trade" where
  "mk_trade now q maker taker amount =
     \<lparr>t_TradeID = ''tr_'' @ dec (now (length q)), t_MakerOrder = maker, t_TakerOrder = taker,
      t_MatchPrice = o_Price maker, t_MatchAmount = amount\<rparr>"

lemma mk_trade_simps [simp]:
  "t_MatchAmount (mk_trade now q m t a) = a" "t_MatchPrice (mk_trade now q m t a) = o_Price m"
  "t_MakerOrder (mk_trade now q m t a) = m" "t_TakerOrder (mk_trade now q m t a) = t"
  by (simp_all add: mk_trade_def)

text \<open>
  On a live book the loop is structural: a match either consumes the best order or uses up
  the taker's remainder.
\<close>

fun match_loop ::
  "(int \<Rightarrow> int \<Rightarrow> bool) \<Rightarrow> (nat \<Rightarrow> int) \<Rightarrow> order \<Rightarrow> int \<Rightarrow> order list \<Rightarrow> trade list \<Rightarrow>
   order list \<times> int \<times> trade list" where
  "match_loop better now inc rem [] q = ([], rem, q)"
| "match_loop better now inc rem (b # bs) q =
     (if rem \<le> 0 \<or> better (o_Price inc) (o_Price b) then (b # bs, rem, q)
      else if o_Amount b \<le> rem then
        match_loop better now inc (rem - o_Amount b) bs (q @ [mk_trade now q b inc (o_Amount b)])
      else (b\<lparr>o_Amount := o_Amount b - rem\<rparr> # bs, 0, q @ [mk_trade now q b inc rem]))"

definition crossing :: "(int \<Rightarrow> int \<Rightarrow> bool) \<Rightarrow> int \<Rightarrow> order list \<Rightarrow> order list" where
  "crossing better limit xs = takeWhile (\<lambda>b. \<not> better limit (o_Price b)) xs"

lemma match_loop_queue:
  "\<exists>ts. snd (snd (match_loop better now inc rem xs q)) = q @ ts"
  by (induction better now inc rem xs q rule: match_loop.induct) auto

definition new_trades :: "trade list \<Rightarrow> trade list \<Rightarrow> trade list" where
  "new_trades q q' = drop (length q) q'"

lemma new_trades_append [simp]:
  "new_trades q (q @ ts) = ts" "new_trades (q @ [t]) (q @ t # ts) = ts" "new_trades q q = []"
  by (simp_all add: new_trades_def)

lemma match_loop_conserves:
  assumes "match_loop better now inc rem xs q = (xs', rem', q')"
  shows "\<exists>ts. q' = q @ ts \<and> rem = rem' + traded ts \<and> liquidity xs = liquidity xs' + traded ts"
  using assms
proof (induction better now inc rem xs q rule: match_loop.induct)
  case (2 better now inc rem b bs q)
  show ?case
  proof (cases "rem \<le> 0 \<or> better (o_Price inc) (o_Price b) \<or> \<not> o_Amount b \<le> rem")
    case True
    then show ?thesis using "2.prems" by (auto split: if_splits)
  next
    case False
    then obtain ts where
      "q' = (q @ [mk_trade now q b inc (o_Amount b)]) @ ts"
      "rem - o_Amount b = rem' + traded ts" "liquidity bs = liquidity xs' + traded ts"
      using 2 by auto
    then show ?thesis by (intro exI [of _ "mk_trade now q b inc (o_Amount b) # ts"]) auto
  qed
qed auto

lemma match_loop_live:
  "match_loop better now inc rem xs q = (xs', rem', q') \<Longrightarrow> live xs \<Longrightarrow> 0 \<le> rem \<Longrightarrow>
   live xs' \<and> 0 \<le> rem'"
  by (induction better now inc rem xs q rule: match_loop.induct) (auto split: if_splits)

text \<open>What remains of the book: untouched orders, and perhaps the head with less amount.\<close>

lemma match_loop_prices:
  "match_loop better now inc rem xs q = (xs', rem', q') \<Longrightarrow>
   \<exists>n. map o_Price xs' = drop n (map o_Price xs)"
proof (induction better now inc rem xs q rule: match_loop.induct)
  case (2 better now inc rem b bs q)
  show ?case
  proof (cases "rem \<le> 0 \<or> better (o_Price inc) (o_Price b) \<or> \<not> o_Amount b \<le> rem")
    case True
    then show ?thesis using "2.prems" by (intro exI [of _ 0]) (auto split: if_splits)
  next
    case False
    then obtain n where "map o_Price xs' = drop n (map o_Price bs)" using 2 by auto
    then show ?thesis by (intro exI [of _ "Suc n"]) simp
  qed
qed auto

lemma match_loop_sides:
  "match_loop better now inc rem xs q = (xs', rem', q') \<Longrightarrow>
   (\<forall>x \<in> set xs. P (o_IsBuy x) (o_Price x) (o_TokenID x)) \<Longrightarrow>
   (\<forall>x \<in> set xs'. P (o_IsBuy x) (o_Price x) (o_TokenID x))"
  by (induction better now inc rem xs q rule: match_loop.induct) (auto split: if_splits)

lemma match_loop_stops:
  "match_loop better now inc rem xs q = (xs', rem', q') \<Longrightarrow> 0 < rem' \<Longrightarrow>
   xs' = [] \<or> better (o_Price inc) (o_Price (hd xs'))"
  by (induction better now inc rem xs q rule: match_loop.induct) (auto split: if_splits)

text \<open>Each trade is at a resting price the taker accepts, for a positive amount.\<close>

definition fair_trade :: "(int \<Rightarrow> int \<Rightarrow> bool) \<Rightarrow> order \<Rightarrow> trade \<Rightarrow> bool" where
  "fair_trade better inc t \<longleftrightarrow>
     0 < t_MatchAmount t \<and> t_MatchAmount t \<le> o_Amount (t_MakerOrder t) \<and>
     t_MatchPrice t = o_Price (t_MakerOrder t) \<and> t_TakerOrder t = inc \<and>
     \<not> better (o_Price inc) (t_MatchPrice t)"

lemma match_loop_fair:
  "match_loop better now inc rem xs q = (xs', rem', q') \<Longrightarrow> live xs \<Longrightarrow>
   (\<forall>t \<in> set (new_trades q q'). fair_trade better inc t)"
proof (induction better now inc rem xs q rule: match_loop.induct)
  case (2 better now inc rem b bs q)
  show ?case
  proof (cases "rem \<le> 0 \<or> better (o_Price inc) (o_Price b) \<or> \<not> o_Amount b \<le> rem")
    case True
    then show ?thesis using "2.prems" by (auto simp: fair_trade_def new_trades_def split: if_splits)
  next
    case False
    let ?t = "mk_trade now q b inc (o_Amount b)"
    have eq: "match_loop better now inc (rem - o_Amount b) bs (q @ [?t]) = (xs', rem', q')"
      using False "2.prems" by auto
    obtain ts where ts: "q' = (q @ [?t]) @ ts"
      using match_loop_conserves [OF eq] by auto
    have "\<forall>t \<in> set (new_trades (q @ [?t]) q'). fair_trade better inc t"
      using "2.IH" False eq "2.prems" by auto
    then have "\<forall>t \<in> set ts. fair_trade better inc t" by (simp add: ts)
    moreover have "fair_trade better inc ?t" using False "2.prems" by (auto simp: fair_trade_def)
    moreover have "new_trades q q' = ?t # ts" by (simp add: ts new_trades_def)
    ultimately show ?thesis by simp
  qed
qed (auto simp: new_trades_def)

text \<open>The makers of a trade run are resting orders, in the book's order.\<close>

lemma match_loop_makers:
  "match_loop better now inc rem xs q = (xs', rem', q') \<Longrightarrow>
   \<exists>n. map t_MakerOrder (new_trades q q') = take n xs"
proof (induction better now inc rem xs q rule: match_loop.induct)
  case (2 better now inc rem b bs q)
  show ?case
  proof (cases "rem \<le> 0 \<or> better (o_Price inc) (o_Price b) \<or> \<not> o_Amount b \<le> rem")
    case True
    show ?thesis
    proof (cases "rem \<le> 0 \<or> better (o_Price inc) (o_Price b)")
      case True
      then show ?thesis using "2.prems" by (intro exI [of _ 0]) (auto simp: new_trades_def)
    next
      case False
      then show ?thesis using "2.prems" True
        by (intro exI [of _ 1]) (auto simp: new_trades_def)
    qed
  next
    case False
    let ?t = "mk_trade now q b inc (o_Amount b)"
    have eq: "match_loop better now inc (rem - o_Amount b) bs (q @ [?t]) = (xs', rem', q')"
      using False "2.prems" by auto
    obtain ts where ts: "q' = (q @ [?t]) @ ts"
      using match_loop_conserves [OF eq] by auto
    obtain n where "map t_MakerOrder (new_trades (q @ [?t]) q') = take n bs"
      using 2 False eq by auto
    then have "map t_MakerOrder ts = take n bs" by (simp add: ts)
    moreover have "new_trades q q' = ?t # ts" by (simp add: ts new_trades_def)
    ultimately show ?thesis by (intro exI [of _ "Suc n"]) simp
  qed
qed (auto simp: new_trades_def)

text \<open>
  How much is filled: everything the taker asked for, or everything that crosses its limit.
\<close>

lemma match_loop_fill:
  "match_loop better now inc rem xs q = (xs', rem', q') \<Longrightarrow> live xs \<Longrightarrow> 0 \<le> rem \<Longrightarrow>
   rem - rem' = min rem (liquidity (crossing better (o_Price inc) xs))"
proof (induction better now inc rem xs q rule: match_loop.induct)
  case (2 better now inc rem b bs q)
  have "0 \<le> liquidity (crossing better (o_Price inc) bs)"
    using "2.prems"(2) by (intro live_liquidity) (auto simp: live_def crossing_def dest: set_takeWhileD)
  then show ?case using 2 by (auto simp: crossing_def split: if_splits)
qed (auto simp: crossing_def)

section \<open>The contract\<close>

locale price_side =
  fixes better :: "int \<Rightarrow> int \<Rightarrow> bool"
    and mtch :: "(nat \<Rightarrow> int) \<Rightarrow> order \<Rightarrow> int \<Rightarrow> order list \<Rightarrow> trade list \<Rightarrow>
                 order list \<times> int \<times> trade list"
    and ins :: "order \<Rightarrow> order list \<Rightarrow> order list"
  assumes better_irrefl: "\<not> better a a"
    and better_trans: "better a b \<Longrightarrow> better b c \<Longrightarrow> better a c"
    and better_total: "\<not> better a b \<Longrightarrow> \<not> better b a \<Longrightarrow> a = b"
    and mtch_loop: "live xs \<Longrightarrow> mtch now inc rem xs q = match_loop better now inc rem xs q"
    and ins_eq: "ins x xs = takeWhile (\<lambda>b. \<not> better (o_Price x) (o_Price b)) xs @ x #
                            dropWhile (\<lambda>b. \<not> better (o_Price x) (o_Price b)) xs"
begin

definition ordered :: "order list \<Rightarrow> bool" where
  "ordered xs \<longleftrightarrow> sorted_wrt (\<lambda>p p'. \<not> better p' p) (map o_Price xs)"

lemma better_asym: "better a b \<Longrightarrow> \<not> better b a"
  using better_irrefl better_trans by metis

lemma better_mono:
  assumes "better p a" and "\<not> better b a"
  shows "better p b"
proof (cases "better a b")
  case True
  show ?thesis by (rule better_trans [OF assms(1) True])
next
  case False
  then have "a = b" using assms(2) by (rule better_total)
  then show ?thesis using assms(1) by simp
qed

lemma ordered_drop: "ordered xs \<Longrightarrow> map o_Price ys = drop n (map o_Price xs) \<Longrightarrow> ordered ys"
  unfolding ordered_def by (simp add: sorted_wrt_drop)

lemma ordered_mtch:
  "ordered xs \<Longrightarrow> live xs \<Longrightarrow> mtch now inc rem xs q = (xs', rem', q') \<Longrightarrow> ordered xs'"
  using match_loop_prices ordered_drop by (metis mtch_loop)

text \<open>The insertion keeps the order and puts a new order behind its price level.\<close>

lemma ordered_append:
  "ordered (xs @ ys) \<longleftrightarrow> ordered xs \<and> ordered ys \<and>
     (\<forall>x \<in> set xs. \<forall>y \<in> set ys. \<not> better (o_Price y) (o_Price x))"
  by (auto simp: ordered_def sorted_wrt_append)

lemma ordered_Cons:
  "ordered (x # xs) \<longleftrightarrow> (\<forall>y \<in> set xs. \<not> better (o_Price y) (o_Price x)) \<and> ordered xs"
  by (auto simp: ordered_def)

lemma dropWhile_worse:
  assumes "ordered xs" and "y \<in> set (dropWhile (\<lambda>b. \<not> better p (o_Price b)) xs)"
  shows "better p (o_Price y)"
  using assms
proof (induction xs)
  case (Cons x xs)
  show ?case
  proof (cases "better p (o_Price x)")
    case True
    show ?thesis
    proof (rule better_mono [OF True])
      have "y = x \<or> y \<in> set xs" using Cons.prems(2) True by simp
      then show "\<not> better (o_Price y) (o_Price x)"
        using Cons.prems(1) better_irrefl by (auto simp: ordered_Cons)
    qed
  next
    case False
    have "ordered xs" using Cons.prems(1) by (simp only: ordered_Cons)
    moreover have "y \<in> set (dropWhile (\<lambda>b. \<not> better p (o_Price b)) xs)"
      using Cons.prems(2) False by simp
    ultimately show ?thesis by (rule Cons.IH)
  qed
qed simp

lemma ordered_ins: "ordered xs \<Longrightarrow> ordered (ins x xs)"
proof -
  assume o: "ordered xs"
  let ?P = "\<lambda>b. \<not> better (o_Price x) (o_Price b)"
  have app: "ordered (takeWhile ?P xs @ dropWhile ?P xs)" using o by simp
  then have parts: "ordered (takeWhile ?P xs)" "ordered (dropWhile ?P xs)"
    "\<forall>a \<in> set (takeWhile ?P xs). \<forall>y \<in> set (dropWhile ?P xs). \<not> better (o_Price y) (o_Price a)"
    using ordered_append [of "takeWhile ?P xs" "dropWhile ?P xs"] by blast+
  have "\<forall>y \<in> set (dropWhile ?P xs). \<not> better (o_Price y) (o_Price x)"
  proof
    fix y assume "y \<in> set (dropWhile ?P xs)"
    with o have "better (o_Price x) (o_Price y)" by (rule dropWhile_worse)
    then show "\<not> better (o_Price y) (o_Price x)" by (rule better_asym)
  qed
  moreover have "\<forall>a \<in> set (takeWhile ?P xs). \<not> better (o_Price x) (o_Price a)"
    by (auto dest: set_takeWhileD)
  ultimately show ?thesis
    unfolding ins_eq ordered_append ordered_Cons list.set using parts by blast
qed

lemma set_ins: "set (ins x xs) = insert x (set xs)"
  by (metis (no_types, lifting) Un_insert_right ins_eq list.simps(15) set_append takeWhile_dropWhile_id)

lemma live_ins: "live (ins x xs) \<longleftrightarrow> 0 < o_Amount x \<and> live xs"
  by (auto simp: live_def set_ins)

lemma hd_ins:
  "hd (ins x xs) = (if xs = [] \<or> better (o_Price x) (o_Price (hd xs)) then x else hd xs)"
  by (cases xs) (auto simp: ins_eq)

text \<open>Time priority: the orders of the same price keep their order, the new one last.\<close>

lemma ins_price_level:
  assumes "ordered xs"
  shows "filter (\<lambda>b. o_Price b = o_Price x) (ins x xs) = filter (\<lambda>b. o_Price b = o_Price x) xs @ [x]"
proof -
  let ?P = "\<lambda>b. \<not> better (o_Price x) (o_Price b)" and ?Q = "\<lambda>b. o_Price b = o_Price x"
  have none: "filter ?Q (dropWhile ?P xs) = []"
  proof (rule filter_False, rule ballI)
    fix y assume "y \<in> set (dropWhile ?P xs)"
    with assms have "better (o_Price x) (o_Price y)" by (rule dropWhile_worse)
    then show "o_Price y \<noteq> o_Price x" using better_irrefl by metis
  qed
  have "filter ?Q xs = filter ?Q (takeWhile ?P xs @ dropWhile ?P xs)" by simp
  then have "filter ?Q xs = filter ?Q (takeWhile ?P xs)" by (simp only: filter_append none append_Nil2)
  then show ?thesis by (simp add: ins_eq none)
qed

text \<open>On an ordered side the crossing prefix is all the liquidity the limit accepts.\<close>

lemma crossing_filter:
  assumes "ordered xs"
  shows "crossing better limit xs = filter (\<lambda>b. \<not> better limit (o_Price b)) xs"
proof -
  let ?P = "\<lambda>b. \<not> better limit (o_Price b)"
  have none: "filter ?P (dropWhile ?P xs) = []"
  proof (rule filter_False, rule ballI)
    fix y assume "y \<in> set (dropWhile ?P xs)"
    with assms have "better limit (o_Price y)" by (rule dropWhile_worse)
    then show "\<not> \<not> better limit (o_Price y)" by simp
  qed
  have all: "filter ?P (takeWhile ?P xs) = takeWhile ?P xs"
    by (rule filter_True) (auto dest: set_takeWhileD)
  have "filter ?P xs = filter ?P (takeWhile ?P xs @ dropWhile ?P xs)"
    by (simp only: takeWhile_dropWhile_id)
  also have "\<dots> = takeWhile ?P xs" by (simp only: filter_append none all append_Nil2)
  finally show ?thesis by (simp only: crossing_def)
qed

lemma mtch_fill:
  assumes "live xs" "ordered xs" "0 \<le> rem" "mtch now inc rem xs q = (xs', rem', q')"
  shows "traded (new_trades q q') =
           min rem (liquidity (filter (\<lambda>b. \<not> better (o_Price inc) (o_Price b)) xs))"
proof -
  have eq: "match_loop better now inc rem xs q = (xs', rem', q')" using assms by (simp add: mtch_loop)
  then obtain ts where "q' = q @ ts" "rem = rem' + traded ts" using match_loop_conserves by blast
  then have "traded (new_trades q q') = rem - rem'" by simp
  then show ?thesis
    using match_loop_fill [OF eq assms(1,3)] assms(2) by (simp add: crossing_filter)
qed

text \<open>What is left behind never crosses the taker when the taker has something left.\<close>

lemma mtch_uncrossed:
  assumes "live xs" "ordered xs" "mtch now inc rem xs q = (xs', rem', q')" "0 < rem'"
  shows "\<forall>y \<in> set xs'. better (o_Price inc) (o_Price y)"
proof -
  have st: "xs' = [] \<or> better (o_Price inc) (o_Price (hd xs'))"
    using assms match_loop_stops mtch_loop by metis
  have "ordered xs'" using ordered_mtch [OF assms(2,1,3)] .
  moreover have "better (o_Price inc) (o_Price y)"
    if "xs' = b # bs" "y \<in> set bs" "ordered xs'" for y b bs
  proof (rule better_mono)
    show "better (o_Price inc) (o_Price b)" using st that by simp
    show "\<not> better (o_Price y) (o_Price b)" using that by (simp add: ordered_Cons)
  qed
  ultimately show ?thesis using st by (cases xs') simp_all
qed

end

end
