(* ===== verification/Field.thy ===== *)
theory Field imports Prelude begin

text \<open>
  The scalar field of BN254 and the hash over it. \<open>fr\<close> is what \<open>fr.Element.SetBigInt\<close>
  does (reduction modulo the field's order, which prover/gen\_mimc.go writes out); the MiMC
  hash \<open>mimc.NewMiMC\<close> of gnark-crypto is a parameter \<open>H\<close> of every definition that hashes
  (one fresh chain over the list of elements written). What the code relies on is the
  contract \<open>field_hash\<close>: its value is a canonical field element. The MiMC
  construction that prover/gen\_mimc.go emits is modelled here and satisfies it. Whatever
  else the code takes from gnark-crypto and crypto/sha256 is in the record \<open>crypto\<close>.
\<close>

section \<open>The field\<close>

definition fr_modulus :: int where
  "fr_modulus = 21888242871839275222246405745257275088548364400416034343698204186575808495617"

definition fr :: "int \<Rightarrow> int" where
  "fr x = x mod fr_modulus"

lemma fr_modulus_pos [simp]: "0 < fr_modulus"
  by (simp add: fr_modulus_def)

lemma fr_range [simp]: "0 \<le> fr x" "fr x < fr_modulus"
  by (simp_all add: fr_def)

lemma fr_idem [simp]: "fr (fr x) = fr x"
  by (simp add: fr_def)

lemma fr_id: "0 \<le> x \<Longrightarrow> x < fr_modulus \<Longrightarrow> fr x = x"
  by (simp add: fr_def)

lemma fr_add: "fr (fr x + y) = fr (x + y)" "fr (x + fr y) = fr (x + y)"
  by (simp_all add: fr_def mod_simps)

lemma fr_diff: "fr (fr x - y) = fr (x - y)" "fr (x - fr y) = fr (x - y)"
  by (simp_all add: fr_def mod_simps)

lemma fr_0 [simp]: "fr 0 = 0" and fr_1 [simp]: "fr 1 = 1"
  by (simp_all add: fr_def fr_modulus_def)

lemma u64_less_modulus: "uint (w :: u64) < fr_modulus"
proof -
  have "uint w < 2 ^ 64" using unsigned_less [of w] by simp
  then show ?thesis by (simp add: fr_modulus_def)
qed

lemma fr_u64 [simp]: "fr (uint (w :: u64)) = uint w"
  by (rule fr_id) (simp_all add: u64_less_modulus)

section \<open>The hash contract\<close>

definition canonical :: "(int list \<Rightarrow> int) \<Rightarrow> bool" where
  "canonical H \<longleftrightarrow> (\<forall>xs. 0 \<le> H xs \<and> H xs < fr_modulus)"

locale field_hash =
  fixes H :: "int list \<Rightarrow> int"
  assumes canon: "canonical H"
begin

lemma hash_range: "0 \<le> H xs" "H xs < fr_modulus"
  using canon by (simp_all add: canonical_def)

lemma fr_hash: "fr (H xs) = H xs"
  by (rule fr_id) (rule hash_range)+

end

lemma canonical_fr [simp]: "canonical H \<Longrightarrow> fr (H xs) = H xs"
  by (rule field_hash.fr_hash) (simp add: field_hash_def)

section \<open>The MiMC library that gen\_mimc.go emits\<close>

text \<open>
  The round constants are a Keccak-256 chain from the seed; Keccak is a parameter.
\<close>

fun mimc_constants_loop :: "(bytes \<Rightarrow> bytes) \<Rightarrow> nat \<Rightarrow> bytes \<Rightarrow> int list" where
  "mimc_constants_loop keccak 0 written = []"
| "mimc_constants_loop keccak (Suc n) written =
     (let rnd = keccak written
      in int (be_dec rnd) mod fr_modulus # mimc_constants_loop keccak n rnd)"

definition mimc_constants :: "(bytes \<Rightarrow> bytes) \<Rightarrow> int list" where
  "mimc_constants keccak = mimc_constants_loop keccak 110 (keccak ''seed'')"

definition mimc_round :: "int \<Rightarrow> int \<Rightarrow> int \<Rightarrow> int" where
  "mimc_round k c m =
     (let tmp = (m + k) mod fr_modulus;
          tmp = (tmp + c) mod fr_modulus;
          tmp2 = (tmp * tmp) mod fr_modulus;
          tmp4 = (tmp2 * tmp2) mod fr_modulus
      in (tmp4 * tmp) mod fr_modulus)"

definition mimc_encrypt :: "int list \<Rightarrow> int \<Rightarrow> int \<Rightarrow> int" where
  "mimc_encrypt cs m k = (fold (mimc_round k) cs m + k) mod fr_modulus"

fun mimc_chain :: "int list \<Rightarrow> int \<Rightarrow> int list \<Rightarrow> int" where
  "mimc_chain cs h [] = h"
| "mimc_chain cs h (d # ds) =
     (let r = mimc_encrypt cs d h
      in mimc_chain cs (((r + h) mod fr_modulus + d) mod fr_modulus) ds)"

definition mimc_hash :: "int list \<Rightarrow> int list \<Rightarrow> int" where
  "mimc_hash cs data = mimc_chain cs 0 data"

lemma mimc_chain_range:
  "0 \<le> h \<Longrightarrow> h < fr_modulus \<Longrightarrow> 0 \<le> mimc_chain cs h ds \<and> mimc_chain cs h ds < fr_modulus"
  by (induction cs h ds rule: mimc_chain.induct) (simp_all add: Let_def)

lemma mimc_hash_canonical: "canonical (mimc_hash cs)"
  using mimc_chain_range [of 0 cs] by (simp add: canonical_def mimc_hash_def)

interpretation gen_mimc: field_hash "mimc_hash cs" for cs
  by unfold_locales (rule mimc_hash_canonical)

lemma length_mimc_constants_loop: "length (mimc_constants_loop K n w) = n"
  by (induction n arbitrary: w) (simp_all add: Let_def)

lemma mimc_constants_range: "c \<in> set (mimc_constants_loop K n w) \<Longrightarrow> 0 \<le> c \<and> c < fr_modulus"
  by (induction n arbitrary: w) (auto simp: Let_def)

text \<open>
  The construction is a single chain: folding a third item into the digest of the first two
  by a second call is a different function, because the second call starts from a fresh
  state (batcher.go, the comment above mimcHash).
\<close>

lemma mimc_chain_append: "mimc_chain cs h (xs @ ys) = mimc_chain cs (mimc_chain cs h xs) ys"
  by (induction cs h xs rule: mimc_chain.induct) (simp_all add: Let_def)

text \<open>With no rounds the construction is linear.\<close>

lemma linear_chain: "mimc_chain [] h (d # ds) = mimc_chain [] ((2 * h + 2 * d) mod fr_modulus) ds"
proof -
  have "((((d + h) mod fr_modulus + h) mod fr_modulus) + d) mod fr_modulus = ((d + h) + h + d) mod fr_modulus"
    by (simp only: mod_add_left_eq)
  also have "(d + h) + h + d = 2 * h + 2 * d" by simp
  finally show ?thesis by (simp only: mimc_chain.simps mimc_encrypt_def fold_simps Let_def)
qed

lemma mod_inside: "(a * (h mod m) + c) mod m = (a * h + c) mod (m :: int)"
  by (metis mod_add_left_eq mod_mult_right_eq)

lemma linear_chain_mod: "mimc_chain [] (h mod fr_modulus) (d # ds) = mimc_chain [] h (d # ds)"
  unfolding linear_chain mod_inside ..

lemma linear_hash:
  "mimc_hash [] [a, b] = (4 * a + 2 * b) mod fr_modulus"
  "mimc_hash [] [a, b, c, d, e] = (32 * a + 16 * b + 8 * c + 4 * d + 2 * e) mod fr_modulus"
  by (simp_all only: mimc_hash_def linear_chain_mod linear_chain mod_inside mimc_chain.simps(1))
    (simp_all add: algebra_simps mod_inside)

section \<open>Third-party cryptography as parameters\<close>

text \<open>
  \<open>mimc\<close>: the digest of one MiMC chain over field elements. \<open>sha256\<close>: crypto/sha256.
  \<open>ed_SetBytes\<close>: \<open>eddsa.PublicKey.SetBytes\<close>, the affine point of a compressed key.
  \<open>ed_Verify\<close>: \<open>PublicKey.Verify(sig, msg, mimc)\<close>, \<open>None\<close> for an error.
  \<open>pt_OnCurve\<close> and \<open>pt_Bytes\<close>: \<open>PointAffine.IsOnCurve\<close> and \<open>Bytes\<close> of a point whose
  coordinates were set with \<open>SetBigInt\<close>.
\<close>

record crypto =
  mimc :: "int list \<Rightarrow> int"
  sha256 :: "bytes \<Rightarrow> bytes"
  ed_SetBytes :: "bytes \<Rightarrow> (int \<times> int) option"
  ed_Verify :: "int \<times> int \<Rightarrow> bytes \<Rightarrow> bytes \<Rightarrow> bool option"
  pt_OnCurve :: "int \<Rightarrow> int \<Rightarrow> bool"
  pt_Bytes :: "int \<Rightarrow> int \<Rightarrow> bytes"

text \<open>
  A concrete scheme, for instances at a concrete input: the emitted MiMC with no rounds, a
  digest that is its input, a one-point group and a verifier that accepts a signature whose
  first byte is 1.
\<close>

definition demo_scheme :: crypto where
  "demo_scheme =
     \<lparr>mimc = mimc_hash [], sha256 = (\<lambda>b. b), ed_SetBytes = (\<lambda>b. Some (0, 1)),
      ed_Verify = (\<lambda>pk sig msg. Some (sig ! 0 = CHR 0x01)),
      pt_OnCurve = (\<lambda>x y. True), pt_Bytes = (\<lambda>x y. be_enc 32 (nat x))\<rparr>"

definition demo_signature :: bytes where
  "demo_signature = CHR 0x01 # replicate 63 CHR 0x00"

end
