(* ===== verification/Engine.thy ===== *)
theory Engine imports PriceSide Field begin

text \<open>
  The matching engine, sequencer/internal/engine/matching.go and signature.go: one order book
  per token, price-time priority matching, and the check of an order's signature.

  The \<open>TradeQueue\<close> channel is the list of the trades sent on it, oldest first (a full
  channel blocks the sender, which no definition here observes). The clock is a parameter:
  \<open>now n\<close> is the time read for the \<open>n\<close>-th trade ever sent. A trade holds copies of both
  orders. The maker's copy shares its amount with the resting order in the Go code, so a late
  reader sees it decrease; the model keeps the amount at the time of the match, and no
  consumer reads that field (\<open>applyTrade\<close> uses the match amount).
\<close>

section \<open>State\<close>

record orderbook =
  ob_TokenID :: u32
  Bids :: "order list"
  Asks :: "order list"

record engine =
  Orderbooks :: "u32 \<rightharpoonup> orderbook"
  TradeQueue :: "trade list"

definition NewEngine :: "trade list \<Rightarrow> engine" where
  "NewEngine tradeQueue = \<lparr>Orderbooks = Map.empty, TradeQueue = tradeQueue\<rparr>"

definition getOrCreateOrderbook :: "engine \<Rightarrow> u32 \<Rightarrow> orderbook \<times> engine" where
  "getOrCreateOrderbook e tokenID =
     (case Orderbooks e tokenID of
        Some ob \<Rightarrow> (ob, e)
      | None \<Rightarrow>
          let ob = \<lparr>ob_TokenID = tokenID, Bids = [], Asks = []\<rparr>
          in (ob, e\<lparr>Orderbooks := (Orderbooks e)(tokenID \<mapsto> ob)\<rparr>))"

section \<open>Order signatures (signature.go)\<close>

definition show_bool :: "bool \<Rightarrow> string" where
  "show_bool b = (if b then ''true'' else ''false'')"

definition order_message ::
  "string \<Rightarrow> u32 \<Rightarrow> int \<Rightarrow> int \<Rightarrow> bool \<Rightarrow> u64 \<Rightarrow> string" where
  "order_message pubKeyHex tokenId amount price isBuy nonce =
     pubKeyHex @ CHR '':'' # dec (uint tokenId) @ CHR '':'' # dec amount @ CHR '':'' #
     dec price @ CHR '':'' # show_bool isBuy @ CHR '':'' # dec (uint nonce)"

definition VerifyEdDSASignature ::
  "'c crypto_scheme \<Rightarrow> string \<Rightarrow> u32 \<Rightarrow> int \<Rightarrow> int \<Rightarrow> bool \<Rightarrow> u64 \<Rightarrow> string \<Rightarrow> bool result" where
  "VerifyEdDSASignature C pubKeyHex tokenId amount price isBuy nonce sigHex =
     (case hex_decode (trim_prefix ''0x'' pubKeyHex) of
        None \<Rightarrow> Inl ''invalid pubkey hex''
      | Some pubKeyBytes \<Rightarrow>
     (case ed_SetBytes C pubKeyBytes of
        None \<Rightarrow> Inl ''failed to parse eddsa pubkey''
      | Some pubKey \<Rightarrow>
     (case hex_decode (trim_prefix ''0x'' sigHex) of
        None \<Rightarrow> Inl ''invalid signature hex''
      | Some sigBytes \<Rightarrow>
          if length sigBytes \<noteq> 64 then Inl ''invalid signature length, expected 64 bytes''
          else
            let msgStr = order_message pubKeyHex tokenId amount price isBuy nonce;
                msgHash = (sha256 C msgStr)[0 := CHR 0x00]
            in (case ed_Verify C pubKey sigBytes msgHash of
                  None \<Rightarrow> Inl ''verify error''
                | Some valid \<Rightarrow> Inr valid))))"

section \<open>Matching\<close>

text \<open>\<open>matchBids\<close>: an incoming buy against the asks; the result is (asks, remaining, queue).\<close>

function matchBids ::
  "(nat \<Rightarrow> int) \<Rightarrow> order \<Rightarrow> int \<Rightarrow> order list \<Rightarrow> trade list \<Rightarrow> order list \<times> int \<times> trade list" where
  "matchBids now incoming remaining [] q = ([], remaining, q)"
| "matchBids now incoming remaining (bestAsk # rest) q =
     (if \<not> 0 < remaining then (bestAsk # rest, remaining, q)
      else if o_Price incoming < o_Price bestAsk then (bestAsk # rest, remaining, q)
      else
        let matchAmount = (if remaining \<ge> o_Amount bestAsk then o_Amount bestAsk else remaining);
            trade = mk_trade now q bestAsk incoming matchAmount;
            remaining' = remaining - matchAmount;
            bestAsk' = bestAsk\<lparr>o_Amount := o_Amount bestAsk - matchAmount\<rparr>;
            asks' = (if o_Amount bestAsk' = 0 then rest else bestAsk' # rest)
        in matchBids now incoming remaining' asks' (q @ [trade]))"
  by pat_completeness auto
termination
  by (relation "measure (\<lambda>(now, inc, rem, xs, q). 2 * length xs + (if 0 < rem then 1 else 0))")
    (auto split: if_splits)

text \<open>\<open>matchAsks\<close>: an incoming sell against the bids.\<close>

function matchAsks ::
  "(nat \<Rightarrow> int) \<Rightarrow> order \<Rightarrow> int \<Rightarrow> order list \<Rightarrow> trade list \<Rightarrow> order list \<times> int \<times> trade list" where
  "matchAsks now incoming remaining [] q = ([], remaining, q)"
| "matchAsks now incoming remaining (bestBid # rest) q =
     (if \<not> 0 < remaining then (bestBid # rest, remaining, q)
      else if o_Price incoming > o_Price bestBid then (bestBid # rest, remaining, q)
      else
        let matchAmount = (if remaining \<ge> o_Amount bestBid then o_Amount bestBid else remaining);
            trade = mk_trade now q bestBid incoming matchAmount;
            remaining' = remaining - matchAmount;
            bestBid' = bestBid\<lparr>o_Amount := o_Amount bestBid - matchAmount\<rparr>;
            bids' = (if o_Amount bestBid' = 0 then rest else bestBid' # rest)
        in matchAsks now incoming remaining' bids' (q @ [trade]))"
  by pat_completeness auto
termination
  by (relation "measure (\<lambda>(now, inc, rem, xs, q). 2 * length xs + (if 0 < rem then 1 else 0))")
    (auto split: if_splits)

text \<open>
  The insertion: a scan for the index, then \<open>append\<close> of a nil slot, an overlapping
  \<open>copy\<close> and a store (the nil slot is written as the order itself: \<open>copy\<close> or the store
  overwrites it). The scan's counter is \<open>insertIdx\<close>.
\<close>

fun insertIdx_loop :: "(int \<Rightarrow> bool) \<Rightarrow> nat \<Rightarrow> nat \<Rightarrow> order list \<Rightarrow> nat" where
  "insertIdx_loop stop i insertIdx [] = insertIdx"
| "insertIdx_loop stop i insertIdx (b # bs) =
     (if stop (o_Price b) then insertIdx else insertIdx_loop stop (Suc i) (i + 1) bs)"

definition insert_at :: "nat \<Rightarrow> order \<Rightarrow> order list \<Rightarrow> order list" where
  "insert_at insertIdx x xs =
     (if insertIdx = length xs then xs @ [x]
      else
        let ys = xs @ [x];
            ys' = take (insertIdx + 1) ys @ take (length ys - (insertIdx + 1)) (drop insertIdx ys)
        in ys'[insertIdx := x])"

definition insertBid :: "orderbook \<Rightarrow> order \<Rightarrow> orderbook" where
  "insertBid ob order =
     ob\<lparr>Bids := insert_at (insertIdx_loop (\<lambda>p. o_Price order > p) 0 0 (Bids ob)) order (Bids ob)\<rparr>"

definition insertAsk :: "orderbook \<Rightarrow> order \<Rightarrow> orderbook" where
  "insertAsk ob order =
     ob\<lparr>Asks := insert_at (insertIdx_loop (\<lambda>p. o_Price order < p) 0 0 (Asks ob)) order (Asks ob)\<rparr>"

section \<open>ProcessOrder and snapshots\<close>

text \<open>
  The matched and possibly extended book; \<open>ob\<close> is a pointer in the Go map, so the updated
  record is stored back under the token.
\<close>

definition match_and_rest ::
  "(nat \<Rightarrow> int) \<Rightarrow> order \<Rightarrow> orderbook \<Rightarrow> trade list \<Rightarrow> orderbook \<times> trade list" where
  "match_and_rest now order ob q =
     (if o_IsBuy order then
        let (asks, remaining, q') = matchBids now order (o_Amount order) (Asks ob) q;
            ob' = ob\<lparr>Asks := asks\<rparr>
        in (if remaining > 0 then insertBid ob' (order\<lparr>o_Amount := remaining\<rparr>) else ob', q')
      else
        let (bids, remaining, q') = matchAsks now order (o_Amount order) (Bids ob) q;
            ob' = ob\<lparr>Bids := bids\<rparr>
        in (if remaining > 0 then insertAsk ob' (order\<lparr>o_Amount := remaining\<rparr>) else ob', q'))"

definition ProcessOrder ::
  "'c crypto_scheme \<Rightarrow> (nat \<Rightarrow> int) \<Rightarrow> engine \<Rightarrow> order \<Rightarrow> unit result \<times> engine" where
  "ProcessOrder C now e order =
     (if o_Amount order \<le> 0 then (Inl ''invalid order: amount must be > 0'', e)
      else if o_Price order \<le> 0 then (Inl ''invalid order: price must be > 0'', e)
      else
        case VerifyEdDSASignature C (o_MakerAddress order) (o_TokenID order) (o_Amount order)
               (o_Price order) (o_IsBuy order) (o_Nonce order) (o_Signature order) of
          Inl err \<Rightarrow> (Inl ''invalid order signature'', e)
        | Inr valid \<Rightarrow>
            if \<not> valid then (Inl ''invalid order signature'', e)
            else
              let (ob, e1) = getOrCreateOrderbook e (o_TokenID order);
                  (ob', q') = match_and_rest now order ob (TradeQueue e1)
              in (Inr (), \<lparr>Orderbooks = (Orderbooks e1)(o_TokenID order \<mapsto> ob'), TradeQueue = q'\<rparr>))"

definition SnapshotOrderbook :: "engine \<Rightarrow> u32 \<Rightarrow> (order list \<times> order list) \<times> engine" where
  "SnapshotOrderbook e tokenID =
     (let (ob, e') = getOrCreateOrderbook e tokenID in ((Bids ob, Asks ob), e'))"

section \<open>The two sides are instances of the price-side contract\<close>

lemma matchBids_loop: "live xs \<Longrightarrow> matchBids now inc rem xs q = match_loop (<) now inc rem xs q"
  by (induction "(<) :: int \<Rightarrow> int \<Rightarrow> bool" now inc rem xs q rule: match_loop.induct)
    (auto simp: Let_def)

lemma matchAsks_loop: "live xs \<Longrightarrow> matchAsks now inc rem xs q = match_loop (>) now inc rem xs q"
  by (induction "(>) :: int \<Rightarrow> int \<Rightarrow> bool" now inc rem xs q rule: match_loop.induct)
    (auto simp: Let_def)

lemma insertIdx_loop_eq:
  "insertIdx_loop stop i i xs = i + length (takeWhile (\<lambda>b. \<not> stop (o_Price b)) xs)"
  by (induction xs arbitrary: i) auto

lemma insert_at_eq: "n \<le> length xs \<Longrightarrow> insert_at n x xs = take n xs @ x # drop n xs"
  by (auto simp: insert_at_def Let_def list_update_append intro!: nth_equalityI)
    (auto simp: nth_list_update nth_append nth_Cons min_def split: nat.split)

lemma insert_scan:
  "insert_at (insertIdx_loop stop 0 0 xs) x xs =
     takeWhile (\<lambda>b. \<not> stop (o_Price b)) xs @ x # dropWhile (\<lambda>b. \<not> stop (o_Price b)) xs"
proof -
  have "insertIdx_loop stop 0 0 xs = length (takeWhile (\<lambda>b. \<not> stop (o_Price b)) xs)"
    using insertIdx_loop_eq [of stop 0 xs] by simp
  then show ?thesis
    by (simp add: insert_at_eq length_takeWhile_le takeWhile_eq_take [symmetric] dropWhile_eq_drop [symmetric])
qed

interpretation asks: price_side "(<)" matchBids
    "\<lambda>x xs. insert_at (insertIdx_loop (\<lambda>p. o_Price x < p) 0 0 xs) x xs"
  by unfold_locales (auto simp: matchBids_loop insert_scan)

interpretation bids: price_side "(>)" matchAsks
    "\<lambda>x xs. insert_at (insertIdx_loop (\<lambda>p. o_Price x > p) 0 0 xs) x xs"
  by unfold_locales (auto simp: matchAsks_loop insert_scan)

section \<open>The book invariant\<close>

text \<open>
  Bids by falling price, asks by rising price, every resting amount and price positive, each
  order on its own side of its own token's book, and no bid at or above an ask.
\<close>

definition side_ok :: "bool \<Rightarrow> u32 \<Rightarrow> order list \<Rightarrow> bool" where
  "side_ok buy tok xs \<longleftrightarrow> live xs \<and>
     (\<forall>x \<in> set xs. o_IsBuy x = buy \<and> 0 < o_Price x \<and> o_TokenID x = tok)"

definition uncrossed :: "orderbook \<Rightarrow> bool" where
  "uncrossed ob \<longleftrightarrow> (\<forall>b \<in> set (Bids ob). \<forall>a \<in> set (Asks ob). o_Price b < o_Price a)"

definition book_inv :: "u32 \<Rightarrow> orderbook \<Rightarrow> bool" where
  "book_inv tok ob \<longleftrightarrow>
     ob_TokenID ob = tok \<and> side_ok True tok (Bids ob) \<and> side_ok False tok (Asks ob) \<and>
     sorted_wrt (\<ge>) (map o_Price (Bids ob)) \<and> sorted (map o_Price (Asks ob)) \<and> uncrossed ob"

definition engine_inv :: "engine \<Rightarrow> bool" where
  "engine_inv e \<longleftrightarrow> (\<forall>tok ob. Orderbooks e tok = Some ob \<longrightarrow> book_inv tok ob)"

lemma sorted_wrt_not_less: "sorted_wrt (\<lambda>p p'. \<not> p < (p' :: int)) xs = sorted_wrt (\<ge>) xs"
  and sorted_wrt_not_greater: "sorted_wrt (\<lambda>p p'. \<not> p' < (p :: int)) xs = sorted xs"
  by (simp_all add: not_less)

lemma bids_ordered: "bids.ordered xs \<longleftrightarrow> sorted_wrt (\<ge>) (map o_Price xs)"
  by (simp add: bids.ordered_def not_less)

lemma asks_ordered: "asks.ordered xs \<longleftrightarrow> sorted (map o_Price xs)"
  by (simp add: asks.ordered_def not_less)

lemma side_ok_live: "side_ok buy tok xs \<Longrightarrow> live xs"
  by (simp add: side_ok_def)

lemma side_ok_match:
  assumes "match_loop better now inc rem xs q = (xs', rem', q')" and "side_ok buy tok xs" and "0 \<le> rem"
  shows "side_ok buy tok xs'"
proof -
  have "live xs' \<and> 0 \<le> rem'"
    by (rule match_loop_live [OF assms(1) _ assms(3)]) (rule side_ok_live [OF assms(2)])
  moreover have "\<forall>x \<in> set xs'. o_IsBuy x = buy \<and> 0 < o_Price x \<and> o_TokenID x = tok"
    by (rule match_loop_sides [OF assms(1)]) (use assms(2) in \<open>simp add: side_ok_def\<close>)
  ultimately show ?thesis by (simp only: side_ok_def)
qed

lemma side_ok_insert:
  assumes "side_ok buy tok xs" and "set ys = insert x (set xs)"
    and "0 < o_Amount x" "o_IsBuy x = buy" "0 < o_Price x" "o_TokenID x = tok"
  shows "side_ok buy tok ys"
  using assms by (auto simp: side_ok_def live_def)

lemma uncrossed_prices:
  "uncrossed ob \<longleftrightarrow> (\<forall>p \<in> o_Price ` set (Bids ob). \<forall>p' \<in> o_Price ` set (Asks ob). p < p')"
  by (simp add: uncrossed_def)

lemma book_invI:
  assumes "ob_TokenID ob = tok" "side_ok True tok (Bids ob)" "side_ok False tok (Asks ob)"
    "bids.ordered (Bids ob)" "asks.ordered (Asks ob)" "uncrossed ob"
  shows "book_inv tok ob"
  using assms by (simp only: book_inv_def bids_ordered asks_ordered)

lemma book_invE:
  assumes "book_inv tok ob"
  obtains "ob_TokenID ob = tok" "side_ok True tok (Bids ob)" "side_ok False tok (Asks ob)"
    "bids.ordered (Bids ob)" "asks.ordered (Asks ob)" "uncrossed ob"
    "live (Bids ob)" "live (Asks ob)"
  using assms unfolding book_inv_def bids_ordered asks_ordered by (blast intro: side_ok_live)

lemma match_loop_price_set:
  assumes "match_loop better now inc rem xs q = (xs', rem', q')"
  shows "o_Price ` set xs' \<subseteq> o_Price ` set xs"
proof -
  obtain n where "map o_Price xs' = drop n (map o_Price xs)" using match_loop_prices [OF assms] by blast
  then have "set (map o_Price xs') \<subseteq> set (map o_Price xs)" by (metis set_drop_subset)
  then show ?thesis by simp
qed

text \<open>The book of a token after an incoming order on one side, with the sides abstracted.\<close>

lemma match_and_rest_buy:
  assumes "o_IsBuy order" and "matchBids now order (o_Amount order) (Asks ob) q = (as', r, q')"
  shows "match_and_rest now order ob q =
    (if r > 0 then ob\<lparr>Asks := as', Bids := insert_at (insertIdx_loop (\<lambda>p. o_Price order > p) 0 0 (Bids ob))
        (order\<lparr>o_Amount := r\<rparr>) (Bids ob)\<rparr> else ob\<lparr>Asks := as'\<rparr>, q')"
  using assms by (simp add: match_and_rest_def insertBid_def)

lemma match_and_rest_sell:
  assumes "\<not> o_IsBuy order" and "matchAsks now order (o_Amount order) (Bids ob) q = (bs', r, q')"
  shows "match_and_rest now order ob q =
    (if r > 0 then ob\<lparr>Bids := bs', Asks := insert_at (insertIdx_loop (\<lambda>p. o_Price order < p) 0 0 (Asks ob))
        (order\<lparr>o_Amount := r\<rparr>) (Asks ob)\<rparr> else ob\<lparr>Bids := bs'\<rparr>, q')"
  using assms by (simp add: match_and_rest_def insertAsk_def)

lemma book_inv_buy:
  assumes inv: "book_inv (o_TokenID order) ob" and o: "0 < o_Amount order" "0 < o_Price order"
    and side: "o_IsBuy order"
  shows "book_inv (o_TokenID order) (fst (match_and_rest now order ob q))"
  using inv
proof (rule book_invE)
  assume ob: "ob_TokenID ob = o_TokenID order" "side_ok True (o_TokenID order) (Bids ob)"
    "side_ok False (o_TokenID order) (Asks ob)" "bids.ordered (Bids ob)" "asks.ordered (Asks ob)"
    "uncrossed ob" "live (Bids ob)" "live (Asks ob)"
  let ?x = "\<lambda>r. order\<lparr>o_Amount := r\<rparr>"
  let ?ins = "\<lambda>r. insert_at (insertIdx_loop (\<lambda>p. o_Price (?x r) > p) 0 0 (Bids ob)) (?x r) (Bids ob)"
  obtain ys r q' where m: "matchBids now order (o_Amount order) (Asks ob) q = (ys, r, q')"
    using prod_cases3 by blast
  have ml: "match_loop (<) now order (o_Amount order) (Asks ob) q = (ys, r, q')"
    using m by (simp only: matchBids_loop [OF \<open>live (Asks ob)\<close>])
  have ok: "side_ok False (o_TokenID order) ys"
    by (rule side_ok_match [OF ml]) (use ob o in auto)
  have ord: "asks.ordered ys"
    by (rule asks.ordered_mtch [OF \<open>asks.ordered (Asks ob)\<close> \<open>live (Asks ob)\<close> m])
  have sub: "o_Price ` set ys \<subseteq> o_Price ` set (Asks ob)" by (rule match_loop_price_set [OF ml])
  have un: "uncrossed (ob\<lparr>Asks := ys\<rparr>)"
    using \<open>uncrossed ob\<close> sub unfolding uncrossed_prices by auto
  show ?thesis
  proof (cases "0 < r")
    case True
    have beyond: "\<forall>y \<in> set ys. o_Price order < o_Price y"
      by (rule asks.mtch_uncrossed [OF \<open>live (Asks ob)\<close> \<open>asks.ordered (Asks ob)\<close> m True])
    have st: "set (?ins r) = insert (?x r) (set (Bids ob))" by (rule bids.set_ins)
    have so: "bids.ordered (?ins r)" by (rule bids.ordered_ins) (rule \<open>bids.ordered (Bids ob)\<close>)
    have sd: "side_ok True (o_TokenID order) (?ins r)"
      by (rule side_ok_insert [OF _ st]) (use True ob o side in auto)
    have "uncrossed (ob\<lparr>Asks := ys, Bids := ?ins r\<rparr>)"
      using un beyond unfolding uncrossed_def by (simp add: st [simplified])
    then show ?thesis
      using True ob ok ord so sd by (simp add: match_and_rest_buy [OF side m] book_invI)
  next
    case False
    then show ?thesis using ob ok ord un by (simp add: match_and_rest_buy [OF side m] book_invI)
  qed
qed

lemma book_inv_sell:
  assumes inv: "book_inv (o_TokenID order) ob" and o: "0 < o_Amount order" "0 < o_Price order"
    and side: "\<not> o_IsBuy order"
  shows "book_inv (o_TokenID order) (fst (match_and_rest now order ob q))"
  using inv
proof (rule book_invE)
  assume ob: "ob_TokenID ob = o_TokenID order" "side_ok True (o_TokenID order) (Bids ob)"
    "side_ok False (o_TokenID order) (Asks ob)" "bids.ordered (Bids ob)" "asks.ordered (Asks ob)"
    "uncrossed ob" "live (Bids ob)" "live (Asks ob)"
  let ?x = "\<lambda>r. order\<lparr>o_Amount := r\<rparr>"
  let ?ins = "\<lambda>r. insert_at (insertIdx_loop (\<lambda>p. o_Price (?x r) < p) 0 0 (Asks ob)) (?x r) (Asks ob)"
  obtain ys r q' where m: "matchAsks now order (o_Amount order) (Bids ob) q = (ys, r, q')"
    using prod_cases3 by blast
  have ml: "match_loop (>) now order (o_Amount order) (Bids ob) q = (ys, r, q')"
    using m by (simp only: matchAsks_loop [OF \<open>live (Bids ob)\<close>])
  have ok: "side_ok True (o_TokenID order) ys"
    by (rule side_ok_match [OF ml]) (use ob o in auto)
  have ord: "bids.ordered ys"
    by (rule bids.ordered_mtch [OF \<open>bids.ordered (Bids ob)\<close> \<open>live (Bids ob)\<close> m])
  have sub: "o_Price ` set ys \<subseteq> o_Price ` set (Bids ob)" by (rule match_loop_price_set [OF ml])
  have un: "uncrossed (ob\<lparr>Bids := ys\<rparr>)"
    using \<open>uncrossed ob\<close> sub unfolding uncrossed_prices by auto
  show ?thesis
  proof (cases "0 < r")
    case True
    have beyond: "\<forall>y \<in> set ys. o_Price order > o_Price y"
      by (rule bids.mtch_uncrossed [OF \<open>live (Bids ob)\<close> \<open>bids.ordered (Bids ob)\<close> m True])
    have st: "set (?ins r) = insert (?x r) (set (Asks ob))" by (rule asks.set_ins)
    have so: "asks.ordered (?ins r)" by (rule asks.ordered_ins) (rule \<open>asks.ordered (Asks ob)\<close>)
    have sd: "side_ok False (o_TokenID order) (?ins r)"
      by (rule side_ok_insert [OF _ st]) (use True ob o side in auto)
    have "uncrossed (ob\<lparr>Bids := ys, Asks := ?ins r\<rparr>)"
      using un beyond unfolding uncrossed_def by (simp add: st [simplified])
    then show ?thesis
      using True ob ok ord so sd by (simp add: match_and_rest_sell [OF side m] book_invI)
  next
    case False
    then show ?thesis using ob ok ord un by (simp add: match_and_rest_sell [OF side m] book_invI)
  qed
qed

lemma book_inv_match_and_rest:
  assumes "book_inv (o_TokenID order) ob" "0 < o_Amount order" "0 < o_Price order"
  shows "book_inv (o_TokenID order) (fst (match_and_rest now order ob q))"
  using assms by (cases "o_IsBuy order") (simp_all add: book_inv_buy book_inv_sell)

lemma book_inv_new: "book_inv tok \<lparr>ob_TokenID = tok, Bids = [], Asks = []\<rparr>"
  by (simp add: book_inv_def side_ok_def uncrossed_def)

definition book_of :: "engine \<Rightarrow> u32 \<Rightarrow> orderbook" where
  "book_of e tok = fst (getOrCreateOrderbook e tok)"

lemma engine_inv_book_of: "engine_inv e \<Longrightarrow> book_inv tok (book_of e tok)"
  by (auto simp: engine_inv_def book_of_def getOrCreateOrderbook_def Let_def book_inv_new
        split: option.split)

text \<open>An accepted order: the conditions, and the resulting engine.\<close>

definition accepted :: "'c crypto_scheme \<Rightarrow> order \<Rightarrow> bool" where
  "accepted C x \<longleftrightarrow> 0 < o_Amount x \<and> 0 < o_Price x \<and>
     VerifyEdDSASignature C (o_MakerAddress x) (o_TokenID x) (o_Amount x) (o_Price x)
       (o_IsBuy x) (o_Nonce x) (o_Signature x) = Inr True"

lemma ProcessOrder_rejected:
  "\<not> accepted C x \<Longrightarrow> \<exists>err. ProcessOrder C now e x = (Inl err, e)"
  by (auto simp: ProcessOrder_def accepted_def split: sum.split)

lemma ProcessOrder_accepted:
  assumes "accepted C x"
  shows "ProcessOrder C now e x =
    (Inr (), \<lparr>Orderbooks = (Orderbooks e)(o_TokenID x \<mapsto> fst (match_and_rest now x (book_of e (o_TokenID x)) (TradeQueue e))),
              TradeQueue = snd (match_and_rest now x (book_of e (o_TokenID x)) (TradeQueue e))\<rparr>)"
  using assms
  by (auto simp: ProcessOrder_def accepted_def book_of_def getOrCreateOrderbook_def Let_def
        split: option.split prod.split)

lemma ProcessOrder_inv: "engine_inv e \<Longrightarrow> engine_inv (snd (ProcessOrder C now e x))"
proof (cases "accepted C x")
  case True
  assume "engine_inv e"
  then have "book_inv (o_TokenID x) (fst (match_and_rest now x (book_of e (o_TokenID x)) (TradeQueue e)))"
    using True by (intro book_inv_match_and_rest engine_inv_book_of) (auto simp: accepted_def)
  then show ?thesis
    using \<open>engine_inv e\<close> by (auto simp: ProcessOrder_accepted [OF True] engine_inv_def)
next
  case False
  assume "engine_inv e"
  then show ?thesis using ProcessOrder_rejected [OF False, of now e] by auto
qed


section \<open>The trades on the queue\<close>

text \<open>
  What \<open>applyTrade\<close> may rely on: a positive amount at a positive price, the orders on
  opposite sides of one token, and a price between the two limits.
\<close>

definition buy_order :: "trade \<Rightarrow> order" where
  "buy_order t = (if o_IsBuy (t_MakerOrder t) then t_MakerOrder t else t_TakerOrder t)"

definition sell_order :: "trade \<Rightarrow> order" where
  "sell_order t = (if o_IsBuy (t_MakerOrder t) then t_TakerOrder t else t_MakerOrder t)"

definition trade_ok :: "trade \<Rightarrow> bool" where
  "trade_ok t \<longleftrightarrow>
     0 < t_MatchAmount t \<and> 0 < t_MatchPrice t \<and> t_MatchPrice t = o_Price (t_MakerOrder t) \<and>
     o_TokenID (t_MakerOrder t) = o_TokenID (t_TakerOrder t) \<and>
     o_IsBuy (buy_order t) \<and> \<not> o_IsBuy (sell_order t) \<and>
     t_MatchPrice t \<le> o_Price (buy_order t) \<and> o_Price (sell_order t) \<le> t_MatchPrice t \<and>
     t_MatchAmount t \<le> o_Amount (t_MakerOrder t) \<and> t_MatchAmount t \<le> o_Amount (t_TakerOrder t)"

lemma match_loop_new:
  assumes "match_loop better now inc rem xs q = (xs', rem', q')"
  shows "q' = q @ new_trades q q'" "rem = rem' + traded (new_trades q q')"
    "liquidity xs = liquidity xs' + traded (new_trades q q')"
  using match_loop_conserves [OF assms] by auto

lemma traded_member:
  assumes "t \<in> set ts" and "\<forall>u \<in> set ts. 0 < t_MatchAmount u"
  shows "t_MatchAmount t \<le> traded ts"
proof -
  obtain us vs where ts: "ts = us @ t # vs" using assms(1) by (auto dest: split_list)
  have "0 \<le> traded ws" if "set ws \<subseteq> set ts" for ws
    using assms(2) that by (fastforce simp: traded_def intro!: sum_list_nonneg intro: less_imp_le)
  then have "0 \<le> traded us" "0 \<le> traded vs" by (auto simp: ts)
  then show ?thesis by (simp add: ts)
qed

lemma match_loop_makers_in:
  assumes "match_loop better now inc rem xs q = (xs', rem', q')" and "t \<in> set (new_trades q q')"
  shows "t_MakerOrder t \<in> set xs"
proof -
  obtain n where "map t_MakerOrder (new_trades q q') = take n xs"
    using match_loop_makers [OF assms(1)] by blast
  then have "t_MakerOrder ` set (new_trades q q') \<subseteq> set xs" by (metis set_map set_take_subset)
  then show ?thesis using assms(2) by blast
qed

lemma match_loop_amounts:
  assumes m: "match_loop better now inc rem xs q = (xs', rem', q')" and l: "live xs" "0 \<le> rem"
    and t: "t \<in> set (new_trades q q')"
  shows "t_MatchAmount t \<le> rem"
proof -
  have "\<forall>u \<in> set (new_trades q q'). 0 < t_MatchAmount u"
    using match_loop_fair [OF m l(1)] by (auto simp: fair_trade_def)
  then have "t_MatchAmount t \<le> traded (new_trades q q')" by (rule traded_member [OF t])
  moreover have "0 \<le> rem'" using match_loop_live [OF m l] ..
  ultimately show ?thesis using match_loop_new(2) [OF m] by linarith
qed

lemma match_trade_ok_buy:
  assumes m: "match_loop (<) now x (o_Amount x) xs q = (xs', rem', q')"
    and ok: "side_ok False (o_TokenID x) xs" and x: "o_IsBuy x" "0 < o_Amount x" "0 < o_Price x"
    and t: "t \<in> set (new_trades q q')"
  shows "trade_ok t"
proof -
  have l: "live xs" by (rule side_ok_live [OF ok])
  have f: "fair_trade (<) x t" using match_loop_fair [OF m l] t by blast
  have mk: "t_MakerOrder t \<in> set xs" by (rule match_loop_makers_in [OF m t])
  have "t_MatchAmount t \<le> o_Amount x" by (rule match_loop_amounts [OF m l _ t]) (use x in simp)
  then show ?thesis
    using f mk ok x by (auto simp: trade_ok_def fair_trade_def side_ok_def buy_order_def sell_order_def)
qed

lemma match_trade_ok_sell:
  assumes m: "match_loop (>) now x (o_Amount x) xs q = (xs', rem', q')"
    and ok: "side_ok True (o_TokenID x) xs" and x: "\<not> o_IsBuy x" "0 < o_Amount x" "0 < o_Price x"
    and t: "t \<in> set (new_trades q q')"
  shows "trade_ok t"
proof -
  have l: "live xs" by (rule side_ok_live [OF ok])
  have f: "fair_trade (>) x t" using match_loop_fair [OF m l] t by blast
  have mk: "t_MakerOrder t \<in> set xs" by (rule match_loop_makers_in [OF m t])
  have "t_MatchAmount t \<le> o_Amount x" by (rule match_loop_amounts [OF m l _ t]) (use x in simp)
  then show ?thesis
    using f mk ok x by (auto simp: trade_ok_def fair_trade_def side_ok_def buy_order_def sell_order_def)
qed

lemma match_and_rest_queue:
  assumes "book_inv (o_TokenID x) ob" "0 < o_Amount x" "0 < o_Price x"
    and "match_and_rest now x ob q = (ob', q')"
  shows "q' = q @ new_trades q q' \<and> (\<forall>t \<in> set (new_trades q q'). trade_ok t)"
  using assms(1)
proof (rule book_invE)
  assume ob: "side_ok True (o_TokenID x) (Bids ob)" "side_ok False (o_TokenID x) (Asks ob)"
    "live (Bids ob)" "live (Asks ob)"
  show ?thesis
  proof (cases "o_IsBuy x")
    case True
    obtain ys r where m: "matchBids now x (o_Amount x) (Asks ob) q = (ys, r, q')"
      using assms(4) True by (auto simp: match_and_rest_def Let_def split: prod.splits)
    have ml: "match_loop (<) now x (o_Amount x) (Asks ob) q = (ys, r, q')"
      using m by (simp only: matchBids_loop [OF \<open>live (Asks ob)\<close>])
    show ?thesis
      using match_trade_ok_buy [OF ml ob(2) True assms(2,3)] match_loop_new(1) [OF ml] by blast
  next
    case False
    obtain ys r where m: "matchAsks now x (o_Amount x) (Bids ob) q = (ys, r, q')"
      using assms(4) False by (auto simp: match_and_rest_def Let_def split: prod.splits)
    have ml: "match_loop (>) now x (o_Amount x) (Bids ob) q = (ys, r, q')"
      using m by (simp only: matchAsks_loop [OF \<open>live (Bids ob)\<close>])
    show ?thesis
      using match_trade_ok_sell [OF ml ob(1) False assms(2,3)] match_loop_new(1) [OF ml] by blast
  qed
qed

definition queue_inv :: "engine \<Rightarrow> bool" where
  "queue_inv e \<longleftrightarrow> (\<forall>t \<in> set (TradeQueue e). trade_ok t)"

lemma ProcessOrder_queue_inv:
  assumes "engine_inv e" and "queue_inv e"
  shows "queue_inv (snd (ProcessOrder C now e x))"
proof (cases "accepted C x")
  case True
  let ?b = "book_of e (o_TokenID x)"
  obtain ob' q' where m: "match_and_rest now x ?b (TradeQueue e) = (ob', q')" by fastforce
  have "q' = TradeQueue e @ new_trades (TradeQueue e) q' \<and>
    (\<forall>t \<in> set (new_trades (TradeQueue e) q'). trade_ok t)"
    by (rule match_and_rest_queue [OF engine_inv_book_of [OF assms(1)] _ _ m])
      (use True in \<open>auto simp: accepted_def\<close>)
  then have "\<forall>t \<in> set q'. trade_ok t"
    using assms(2) unfolding queue_inv_def by (metis Un_iff set_append)
  then show ?thesis by (simp add: ProcessOrder_accepted [OF True] m queue_inv_def)
next
  case False
  then show ?thesis using ProcessOrder_rejected [OF False, of now e] assms(2) by auto
qed

section \<open>The engine as a state machine\<close>

text \<open>
  An order arrives, the API snapshots a book (which may create it), or the state loop takes
  the oldest trade off the queue.
\<close>

inductive engine_step :: "'c crypto_scheme \<Rightarrow> engine \<Rightarrow> engine \<Rightarrow> bool" for C where
  arrive: "engine_step C e (snd (ProcessOrder C now e x))"
| snap: "engine_step C e (snd (SnapshotOrderbook e tok))"
| consume: "TradeQueue e = t # q \<Longrightarrow> engine_step C e (e\<lparr>TradeQueue := q\<rparr>)"

inductive engine_reach :: "'c crypto_scheme \<Rightarrow> engine \<Rightarrow> bool" for C where
  start: "engine_reach C (NewEngine [])"
| more: "engine_reach C e \<Longrightarrow> engine_step C e e' \<Longrightarrow> engine_reach C e'"

lemma snapshot_engine:
  "Orderbooks (snd (SnapshotOrderbook e tok)) tok' =
     (if tok' = tok then Some (book_of e tok) else Orderbooks e tok')"
  "TradeQueue (snd (SnapshotOrderbook e tok)) = TradeQueue e"
  by (auto simp: SnapshotOrderbook_def getOrCreateOrderbook_def book_of_def Let_def split: option.split)

lemma engine_step_inv:
  assumes "engine_step C e e'" and "engine_inv e \<and> queue_inv e"
  shows "engine_inv e' \<and> queue_inv e'"
  using assms(1)
proof (cases rule: engine_step.cases)
  case (arrive now x)
  then show ?thesis using assms(2) by (simp add: ProcessOrder_inv ProcessOrder_queue_inv)
next
  case (snap tok)
  then show ?thesis
    using assms(2) engine_inv_book_of [of e tok] unfolding engine_inv_def queue_inv_def snap
    by (auto simp: snapshot_engine split: if_splits)
next
  case (consume t q)
  then show ?thesis using assms(2) by (auto simp: engine_inv_def queue_inv_def)
qed

lemma engine_reach_inv: "engine_reach C e \<Longrightarrow> engine_inv e \<and> queue_inv e"
proof (induction rule: engine_reach.induct)
  case start
  show ?case by (simp add: NewEngine_def engine_inv_def queue_inv_def)
next
  case (more e e')
  then show ?case using engine_step_inv by blast
qed

section \<open>A concrete book\<close>

definition demo_order :: "string \<Rightarrow> bool \<Rightarrow> int \<Rightarrow> int \<Rightarrow> order" where
  "demo_order maker buy price amount =
     \<lparr>o_MakerAddress = maker, o_TokenID = 1, o_Amount = amount, o_Price = price, o_IsBuy = buy,
      o_Nonce = 0, o_Signature = hex_encode demo_signature, o_CircuitSignature = []\<rparr>"

lemma demo_signature_trim: "trim_prefix ''0x'' (hex_encode demo_signature) = hex_encode demo_signature"
proof -
  have "hex_digit 0 \<noteq> CHR ''x''" "hex_digit 1 \<noteq> CHR ''x''" by code_simp+
  then show ?thesis by (simp add: trim_prefix_def has_prefix_def demo_signature_def)
qed

lemma demo_signature_bytes: "length demo_signature = 64" "demo_signature ! 0 = CHR 0x01"
  by (simp_all add: demo_signature_def)

lemma demo_verify:
  assumes "o_Signature x = hex_encode demo_signature"
    and "hex_decode (trim_prefix ''0x'' (o_MakerAddress x)) = Some k"
  shows "VerifyEdDSASignature demo_scheme (o_MakerAddress x) (o_TokenID x) (o_Amount x) (o_Price x)
           (o_IsBuy x) (o_Nonce x) (o_Signature x) = Inr True"
  using assms
  by (simp add: VerifyEdDSASignature_def demo_scheme_def demo_signature_trim demo_signature_bytes)

lemma demo_accepted:
  "0 < price \<Longrightarrow> 0 < amount \<Longrightarrow> accepted demo_scheme (demo_order ''aa'' buy price amount)"
  using demo_verify [of "demo_order ''aa'' buy price amount"]
  by (simp add: accepted_def demo_order_def trim_prefix_def has_prefix_def hex_val_def)

text \<open>A resting sell at 5, and a resting buy at 3.\<close>

definition demo_book :: orderbook where
  "demo_book = \<lparr>ob_TokenID = 1, Bids = [demo_order ''bb'' True 3 7],
                Asks = [demo_order ''cc'' False 5 10]\<rparr>"

definition demo_engine :: engine where
  "demo_engine = \<lparr>Orderbooks = [1 \<mapsto> demo_book], TradeQueue = []\<rparr>"

lemma demo_engine_inv: "engine_inv demo_engine"
  by (simp add: demo_engine_def engine_inv_def book_inv_def side_ok_def uncrossed_def demo_book_def
      demo_order_def)

section \<open>What an order does to its book\<close>

definition opposite :: "order \<Rightarrow> orderbook \<Rightarrow> order list" where
  "opposite x ob = (if o_IsBuy x then Asks ob else Bids ob)"

definition own_side :: "order \<Rightarrow> orderbook \<Rightarrow> order list" where
  "own_side x ob = (if o_IsBuy x then Bids ob else Asks ob)"

definition acceptable :: "order \<Rightarrow> order \<Rightarrow> bool" where
  "acceptable x y = (if o_IsBuy x then o_Price y \<le> o_Price x else o_Price x \<le> o_Price y)"

lemma own_opposite_simps [simp]:
  "o_IsBuy x \<Longrightarrow> own_side x ob = Bids ob" "\<not> o_IsBuy x \<Longrightarrow> own_side x ob = Asks ob"
  "o_IsBuy x \<Longrightarrow> opposite x ob = Asks ob" "\<not> o_IsBuy x \<Longrightarrow> opposite x ob = Bids ob"
  by (simp_all add: own_side_def opposite_def)

lemma acceptable_sides:
  "o_IsBuy x \<Longrightarrow> acceptable x = (\<lambda>y. \<not> o_Price x < o_Price y)"
  "\<not> o_IsBuy x \<Longrightarrow> acceptable x = (\<lambda>y. \<not> o_Price y < o_Price x)"
  by (auto simp: acceptable_def not_less fun_eq_iff)

lemma liquidity_insert:
  "liquidity (insert_at (insertIdx_loop s 0 0 zs) z zs) = liquidity zs + o_Amount z"
  using arg_cong [OF takeWhile_dropWhile_id [of "\<lambda>b. \<not> s (o_Price b)" zs], of liquidity]
  by (simp add: insert_scan del: takeWhile_dropWhile_id)

definition filled :: "order \<Rightarrow> orderbook \<Rightarrow> orderbook \<Rightarrow> trade list \<Rightarrow> bool" where
  "filled x ob ob' ts \<longleftrightarrow>
     traded ts = min (o_Amount x) (liquidity (filter (acceptable x) (opposite x ob))) \<and>
     liquidity (opposite x ob') = liquidity (opposite x ob) - traded ts \<and>
     liquidity (own_side x ob') = liquidity (own_side x ob) + (o_Amount x - traded ts) \<and>
     (\<exists>n. map t_MakerOrder ts = take n (opposite x ob))"

lemma filled_buy:
  assumes inv: "book_inv (o_TokenID x) ob" and x: "0 < o_Amount x" "o_IsBuy x"
    and m: "match_and_rest now x ob q = (ob', q')"
  shows "filled x ob ob' (new_trades q q')"
  using inv
proof (rule book_invE)
  assume ob: "bids.ordered (Bids ob)" "asks.ordered (Asks ob)" "live (Bids ob)" "live (Asks ob)"
  obtain ys r where m': "matchBids now x (o_Amount x) (Asks ob) q = (ys, r, q')"
    using m x(2) by (auto simp: match_and_rest_def Let_def split: prod.splits)
  have ml: "match_loop (<) now x (o_Amount x) (Asks ob) q = (ys, r, q')"
    using m' by (simp only: matchBids_loop [OF \<open>live (Asks ob)\<close>])
  have fill: "traded (new_trades q q') = min (o_Amount x) (liquidity (filter (acceptable x) (opposite x ob)))"
    using asks.mtch_fill [OF ob(4,2) _ m'] x by (simp add: acceptable_sides)
  have r: "0 \<le> r" using match_loop_live [OF ml \<open>live (Asks ob)\<close>] x by simp
  show ?thesis
    using fill match_loop_makers [OF ml] match_loop_new(2,3) [OF ml] r m x
    by (auto simp: filled_def match_and_rest_buy [OF x(2) m'] liquidity_insert split: if_splits)
qed

lemma filled_sell:
  assumes inv: "book_inv (o_TokenID x) ob" and x: "0 < o_Amount x" "\<not> o_IsBuy x"
    and m: "match_and_rest now x ob q = (ob', q')"
  shows "filled x ob ob' (new_trades q q')"
  using inv
proof (rule book_invE)
  assume ob: "bids.ordered (Bids ob)" "asks.ordered (Asks ob)" "live (Bids ob)" "live (Asks ob)"
  obtain ys r where m': "matchAsks now x (o_Amount x) (Bids ob) q = (ys, r, q')"
    using m x(2) by (auto simp: match_and_rest_def Let_def split: prod.splits)
  have ml: "match_loop (>) now x (o_Amount x) (Bids ob) q = (ys, r, q')"
    using m' by (simp only: matchAsks_loop [OF \<open>live (Bids ob)\<close>])
  have fill: "traded (new_trades q q') = min (o_Amount x) (liquidity (filter (acceptable x) (opposite x ob)))"
    using bids.mtch_fill [OF ob(3,1) _ m'] x by (simp add: acceptable_sides)
  have r: "0 \<le> r" using match_loop_live [OF ml \<open>live (Bids ob)\<close>] x by simp
  show ?thesis
    using fill match_loop_makers [OF ml] match_loop_new(2,3) [OF ml] r m x
    by (auto simp: filled_def match_and_rest_sell [OF x(2) m'] liquidity_insert split: if_splits)
qed

text \<open>The message separates its fields: a public key in hex holds no colon.\<close>

lemma show_bool_inject [simp]: "show_bool a = show_bool b \<longleftrightarrow> a = b"
  by (cases a; cases b) (simp_all add: show_bool_def)

lemma colon_not_in_show_bool [simp]: "CHR '':'' \<notin> set (show_bool b)"
  by (simp add: show_bool_def)

lemma order_message_inject:
  assumes "CHR '':'' \<notin> set pk" and "CHR '':'' \<notin> set pk'"
  shows "order_message pk tok amount price buy nonce = order_message pk' tok' amount' price' buy' nonce'
    \<longleftrightarrow> pk = pk' \<and> tok = tok' \<and> amount = amount' \<and> price = price' \<and> buy = buy' \<and> nonce = nonce'"
  using assms by (auto simp: order_message_def append_sep_inject word_uint_eq_iff)

lemma verified_key_no_colon:
  assumes "VerifyEdDSASignature C pk tok amount price buy nonce sig = Inr True"
  shows "CHR '':'' \<notin> set pk"
proof -
  obtain bs where "hex_decode (trim_prefix ''0x'' pk) = Some bs"
    using assms by (auto simp: VerifyEdDSASignature_def split: option.splits)
  then have "CHR '':'' \<notin> set (trim_prefix ''0x'' pk)" by (rule hex_decode_no_colon)
  then show ?thesis by (rule trim_prefix_no_colon)
qed

section \<open>Properties of the engine\<close>



lemma ProcessOrder_filled:
  assumes "engine_inv e" and "accepted C x"
  shows "filled x (book_of e (o_TokenID x)) (book_of (snd (ProcessOrder C now e x)) (o_TokenID x))
           (new_trades (TradeQueue e) (TradeQueue (snd (ProcessOrder C now e x))))"
proof -
  let ?b = "book_of e (o_TokenID x)"
  obtain ob' q' where m: "match_and_rest now x ?b (TradeQueue e) = (ob', q')" by fastforce
  have "filled x ?b ob' (new_trades (TradeQueue e) q')"
    using filled_buy [OF engine_inv_book_of [OF assms(1)] _ _ m]
      filled_sell [OF engine_inv_book_of [OF assms(1)] _ _ m] assms(2)
    by (cases "o_IsBuy x") (auto simp: accepted_def)
  moreover have "book_of \<lparr>Orderbooks = f(t \<mapsto> ob'), TradeQueue = q'\<rparr> t = ob'" for f t
    by (simp add: book_of_def getOrCreateOrderbook_def)
  ultimately show ?thesis by (simp add: ProcessOrder_accepted [OF assms(2)] m)
qed

text \<open>
  C15: an accepted order trades the smaller of its amount and of the whole opposite liquidity its
  limit accepts; that much leaves the opposite side, the rest of the order joins its own side,
  and the makers are a prefix of the opposite side, in book order.
\<close>
theorem ProcessOrder_fill:
  assumes "engine_inv e" and "accepted C x"
  shows "filled x (book_of e (o_TokenID x)) (book_of (snd (ProcessOrder C now e x)) (o_TokenID x))
           (new_trades (TradeQueue e) (TradeQueue (snd (ProcessOrder C now e x))))"
  by (rule ProcessOrder_filled [OF assms])

theorem ProcessOrder_fill_witness:
  "filled (demo_order ''aa'' True 6 25) demo_book
     (book_of (snd (ProcessOrder demo_scheme (\<lambda>_. 0) demo_engine (demo_order ''aa'' True 6 25))) 1)
     (TradeQueue (snd (ProcessOrder demo_scheme (\<lambda>_. 0) demo_engine (demo_order ''aa'' True 6 25))))"
proof -
  let ?x = "demo_order ''aa'' True 6 25"
  have acc: "accepted demo_scheme ?x" by (rule demo_accepted) simp_all
  have "o_TokenID ?x = 1" "book_of demo_engine 1 = demo_book" "TradeQueue demo_engine = []"
    by (simp_all add: demo_order_def demo_engine_def book_of_def getOrCreateOrderbook_def)
  then show ?thesis
    using ProcessOrder_fill [OF demo_engine_inv acc, of "\<lambda>_. 0"] by (simp add: new_trades_def)
qed

text \<open>
  Price-time priority of what rests. The remainder of an order is put behind
  every resting order of its own price, that price level otherwise keeps its order, and the side stays
  sorted by price.
\<close>
theorem insert_time_priority:
  assumes "book_inv tok ob"
  shows "filter (\<lambda>b. o_Price b = o_Price x) (Bids (insertBid ob x)) =
           filter (\<lambda>b. o_Price b = o_Price x) (Bids ob) @ [x] \<and>
         filter (\<lambda>b. o_Price b = o_Price x) (Asks (insertAsk ob x)) =
           filter (\<lambda>b. o_Price b = o_Price x) (Asks ob) @ [x] \<and>
         sorted_wrt (\<ge>) (map o_Price (Bids (insertBid ob x))) \<and>
         sorted (map o_Price (Asks (insertAsk ob x)))"
  using assms
proof (rule book_invE)
  assume ob: "bids.ordered (Bids ob)" "asks.ordered (Asks ob)"
  show ?thesis
    using bids.ins_price_level [OF ob(1), of x] asks.ins_price_level [OF ob(2), of x]
      bids.ordered_ins [OF ob(1), of x] asks.ordered_ins [OF ob(2), of x]
    by (simp add: insertBid_def insertAsk_def bids_ordered asks_ordered)
qed

theorem insert_time_priority_witness:
  "filter (\<lambda>b. o_Price b = 3) (Bids (insertBid demo_book (demo_order ''aa'' True 3 4))) =
     [demo_order ''bb'' True 3 7, demo_order ''aa'' True 3 4]"
  using insert_time_priority [of 1 demo_book "demo_order ''aa'' True 3 4"]
  by (simp add: book_inv_def side_ok_def uncrossed_def demo_book_def demo_order_def)

text \<open>
  An order is refused exactly when its amount or its price is not positive or its signature
  does not verify, and a refused order leaves the engine as it was.
\<close>
theorem ProcessOrder_refuses:
  "(fst (ProcessOrder C now e x) = Inr ()) = accepted C x \<and>
   (accepted C x \<or> snd (ProcessOrder C now e x) = e)"
proof (cases "accepted C x")
  case True
  then show ?thesis by (simp add: ProcessOrder_accepted)
next
  case False
  then show ?thesis using ProcessOrder_rejected [OF False, of now e] by auto
qed

text \<open>
  A signature covers the order. Two orders that pass verification and whose signed messages
  are the same agree on the key, token, amount, price, side and nonce, so no accepted order can
  borrow another order's message.
\<close>
theorem order_message_binds:
  assumes "accepted C x" and "accepted C y"
    and "order_message (o_MakerAddress x) (o_TokenID x) (o_Amount x) (o_Price x) (o_IsBuy x) (o_Nonce x) =
         order_message (o_MakerAddress y) (o_TokenID y) (o_Amount y) (o_Price y) (o_IsBuy y) (o_Nonce y)"
  shows "x\<lparr>o_Signature := s, o_CircuitSignature := s'\<rparr> = y\<lparr>o_Signature := s, o_CircuitSignature := s'\<rparr>"
proof -
  have nc: "CHR '':'' \<notin> set (o_MakerAddress x)" "CHR '':'' \<notin> set (o_MakerAddress y)"
    using assms(1,2) by (auto simp: accepted_def dest: verified_key_no_colon)
  note eqs = order_message_inject [THEN iffD1, OF nc assms(3)]
  show ?thesis by (rule order.equality) (use eqs in simp_all)
qed

theorem order_message_binds_witness:
  "demo_order ''aa'' True 4 9 \<lparr>o_Signature := [], o_CircuitSignature := []\<rparr> =
   demo_order ''aa'' True 4 9 \<lparr>o_CircuitSignature := ''x'', o_Signature := [], o_CircuitSignature := []\<rparr>"
proof -
  let ?x = "demo_order ''aa'' True 4 9"
  have "accepted demo_scheme (?x\<lparr>o_CircuitSignature := ''x''\<rparr>)"
    using demo_accepted [of 4 9 True] by (simp add: accepted_def)
  then show ?thesis
    using order_message_binds [OF demo_accepted [of 4 9 True], of "?x\<lparr>o_CircuitSignature := ''x''\<rparr>" "[]" "[]"]
    by simp
qed

text \<open>
  The nonce of an order is signed but never compared with anything: an order that was
  accepted once is accepted again in any later state, and fills again like a fresh order.
\<close>
theorem order_replay_accepted:
  assumes "fst (ProcessOrder C now e x) = Inr ()" and "engine_inv e'"
  shows "fst (ProcessOrder C now' e' x) = Inr () \<and>
         filled x (book_of e' (o_TokenID x)) (book_of (snd (ProcessOrder C now' e' x)) (o_TokenID x))
           (new_trades (TradeQueue e') (TradeQueue (snd (ProcessOrder C now' e' x))))"
proof -
  have acc: "accepted C x" using assms(1) ProcessOrder_rejected [of C x now e] by fastforce
  then show ?thesis using ProcessOrder_filled [OF assms(2) acc] by (simp add: ProcessOrder_accepted)
qed

theorem order_replay_accepted_witness:
  "fst (ProcessOrder demo_scheme (\<lambda>_. 1) demo_engine (demo_order ''aa'' True 6 25)) = Inr ()"
proof -
  have "fst (ProcessOrder demo_scheme (\<lambda>_. 0) demo_engine (demo_order ''aa'' True 6 25)) = Inr ()"
    by (simp add: ProcessOrder_accepted demo_accepted)
  then show ?thesis using order_replay_accepted [OF _ demo_engine_inv] by blast
qed

end
