(* ===== verification/MerkleSpec.thy ===== *)
theory MerkleSpec imports Field begin

text \<open>
  What a sparse Merkle tree promises, independent of how one is stored: the value \<open>tnode\<close>
  of each node over a leaf assignment, the authentication path of a leaf, and the folding of a
  path. The locale \<open>auth_tree\<close> is the contract of a tree implementation; the database tree
  of the sequencer (\<open>MerkleDB\<close>) and the in-memory tree of the prover (\<open>CircuitTree\<close>) are
  its two interpretations.
\<close>

section \<open>Nodes, paths and their folding\<close>

fun tnode :: "(int list \<Rightarrow> int) \<Rightarrow> (nat \<Rightarrow> int) \<Rightarrow> nat \<Rightarrow> nat \<Rightarrow> int" where
  "tnode H m 0 i = m i"
| "tnode H m (Suc l) i = H [tnode H m l (2 * i), tnode H m l (2 * i + 1)]"

definition sib :: "nat \<Rightarrow> nat" where
  "sib i = (if even i then i + 1 else i - 1)"

definition spath :: "(int list \<Rightarrow> int) \<Rightarrow> (nat \<Rightarrow> int) \<Rightarrow> nat \<Rightarrow> nat \<Rightarrow> int list" where
  "spath H m d i = map (\<lambda>l. tnode H m l (sib (i div 2 ^ l))) [0..<d]"

definition sbits :: "nat \<Rightarrow> nat \<Rightarrow> nat list" where
  "sbits d i = map (\<lambda>l. i div 2 ^ l mod 2) [0..<d]"

fun fold_path :: "(int list \<Rightarrow> int) \<Rightarrow> int \<Rightarrow> int list \<Rightarrow> nat list \<Rightarrow> int" where
  "fold_path H cur (p # ps) (b # bs) =
     fold_path H (if b = 1 then H [p, cur] else H [cur, p]) ps bs"
| "fold_path H cur _ _ = cur"

lemma length_spath [simp]: "length (spath H m d i) = d" "length (sbits d i) = d"
  by (simp_all add: spath_def sbits_def)

lemma spath_Suc: "spath H m (Suc d) i = spath H m d i @ [tnode H m d (sib (i div 2 ^ d))]"
  and sbits_Suc: "sbits (Suc d) i = sbits d i @ [i div 2 ^ d mod 2]"
  by (simp_all add: spath_def sbits_def)

lemma sib_facts:
  "sib i div 2 = i div 2" "sib i \<noteq> i" "sib (sib i) = i"
  "{i, sib i} = {2 * (i div 2), 2 * (i div 2) + 1}"
  by (auto simp: sib_def elim!: evenE oddE)

lemma tnode_canonical:
  "canonical H \<Longrightarrow> (\<And>j. 0 \<le> m j \<and> m j < fr_modulus) \<Longrightarrow> 0 \<le> tnode H m l i \<and> tnode H m l i < fr_modulus"
  by (cases l) (auto simp: canonical_def)

lemma tnode_cong:
  "(\<And>j. j div 2 ^ l = i \<Longrightarrow> m j = m' j) \<Longrightarrow> tnode H m l i = tnode H m' l i"
proof (induction l arbitrary: i)
  case (Suc l)
  have a: "m j = m' j" if "j div 2 ^ l = k" "k div 2 = i" for j k
    using Suc.prems [of j] that by (simp add: div_mult2_eq mult.commute [of 2])
  have "tnode H m l (2 * i) = tnode H m' l (2 * i)" by (rule Suc.IH) (rule a, assumption, simp)
  moreover have "tnode H m l (2 * i + 1) = tnode H m' l (2 * i + 1)" by (rule Suc.IH) (rule a, assumption, simp)
  ultimately show ?case by simp
qed simp

lemma tnode_zero: "tnode (mimc_hash []) (\<lambda>_. 0) l i = 0"
  by (induction l arbitrary: i) (simp_all add: linear_hash)

text \<open>A leaf's update changes the node above it on each level and no other.\<close>

lemma tnode_upd_other [tree_simps]:
  "j div 2 ^ l \<noteq> i \<Longrightarrow> tnode H (m(j := v)) l i = tnode H m l i"
  by (rule tnode_cong) auto

lemma fold_path_append:
  "length ps = length bs \<Longrightarrow> fold_path H cur (ps @ [p]) (bs @ [b]) =
     (let c = fold_path H cur ps bs in if b = 1 then H [p, c] else H [c, p])"
  by (induction ps bs arbitrary: cur rule: list_induct2) (auto simp: Let_def)

lemma tnode_parent:
  "tnode H m (Suc l) (k div 2) =
     (if k mod 2 = 1 then H [tnode H m l (sib k), tnode H m l k] else H [tnode H m l k, tnode H m l (sib k)])"
proof (cases "even k")
  case True
  then have "2 * (k div 2) = k" "k + 1 = sib k" by (simp_all add: sib_def)
  then have "tnode H m (Suc l) (k div 2) = H [tnode H m l k, tnode H m l (sib k)]"
    by (simp only: tnode.simps)
  then show ?thesis using True by (simp only: even_iff_mod_2_eq_zero) simp
next
  case False
  then have "2 * (k div 2) = sib k" "sib k + 1 = k" by (auto simp: sib_def elim: oddE)
  then have "tnode H m (Suc l) (k div 2) = H [tnode H m l (sib k), tnode H m l k]"
    by (simp only: tnode.simps)
  then show ?thesis using False by (simp only: odd_iff_mod_2_eq_one) simp
qed

lemma fold_spath:
  "fold_path H v (spath H m d i) (sbits d i) = tnode H (m(i := v)) d (i div 2 ^ d)"
proof (induction d)
  case (Suc d)
  let ?k = "i div 2 ^ d" and ?m = "m(i := v)"
  have s: "tnode H m d (sib ?k) = tnode H ?m d (sib ?k)"
    by (rule tnode_upd_other [symmetric]) (simp add: sib_facts(2) [symmetric])
  have k: "i div 2 ^ Suc d = ?k div 2"
    by (simp add: div_mult2_eq mult.commute [of 2])
  show ?case
    by (simp only: spath_Suc sbits_Suc fold_path_append length_spath Let_def Suc.IH k s tnode_parent)
qed (simp add: spath_def sbits_def)

lemma fold_spath_same: "fold_path H (m i) (spath H m d i) (sbits d i) = tnode H m d (i div 2 ^ d)"
  using fold_spath [of H "m i" m d i] by simp

text \<open>The bits are the binary digits of the index.\<close>

fun bits_index :: "nat list \<Rightarrow> nat" where
  "bits_index [] = 0"
| "bits_index (b # bs) = b + 2 * bits_index bs"

lemma bits_index_append: "bits_index (bs @ cs) = bits_index bs + 2 ^ length bs * bits_index cs"
  by (induction bs) (simp_all add: algebra_simps)

lemma bits_index_sbits: "bits_index (sbits d i) = i mod 2 ^ d"
proof (induction d)
  case (Suc d)
  have "bits_index (sbits (Suc d) i) = i mod 2 ^ d + 2 ^ d * (i div 2 ^ d mod 2)"
    using Suc by (simp add: sbits_def bits_index_append)
  also have "\<dots> = i mod (2 ^ d * 2)" by (simp add: mod_mult2_eq)
  finally show ?case by (simp add: mult.commute)
qed (simp add: sbits_def)

section \<open>Binding\<close>

text \<open>
  A hash into a field is not injective on all lists, so the hypothesis names the inputs it is
  needed for: those of the two foldings compared.
\<close>

fun path_inputs :: "(int list \<Rightarrow> int) \<Rightarrow> int \<Rightarrow> int list \<Rightarrow> nat list \<Rightarrow> int list list" where
  "path_inputs H cur (p # ps) (b # bs) =
     (let x = (if b = 1 then [p, cur] else [cur, p]) in x # path_inputs H (H x) ps bs)"
| "path_inputs H cur _ _ = []"

lemma fold_path_binds:
  assumes "fold_path H v ps bs = fold_path H v' ps' bs"
    and "length ps = length bs" "length ps' = length bs"
    and "inj_on H (set (path_inputs H v ps bs) \<union> set (path_inputs H v' ps' bs))"
  shows "v = v' \<and> ps = ps'"
  using assms
proof (induction bs arbitrary: v v' ps ps')
  case (Cons b bs)
  obtain p qs where ps: "ps = p # qs" using Cons.prems(2) by (cases ps) auto
  obtain p' qs' where ps': "ps' = p' # qs'" using Cons.prems(3) by (cases ps') auto
  let ?x = "if b = 1 then [p, v] else [v, p]" and ?x' = "if b = 1 then [p', v'] else [v', p']"
  have "fold_path H (H ?x) qs bs = fold_path H (H ?x') qs' bs"
    using Cons.prems(1) by (simp add: ps ps' split: if_splits)
  moreover have "inj_on H (set (path_inputs H (H ?x) qs bs) \<union> set (path_inputs H (H ?x') qs' bs))"
    using Cons.prems(4) by (rule inj_on_subset) (auto simp: ps ps' Let_def)
  ultimately have eq: "H ?x = H ?x'" "qs = qs'"
    using Cons.IH [of "H ?x" qs "H ?x'" qs'] Cons.prems(2,3) by (simp_all add: ps ps')
  have "?x = ?x'"
    using Cons.prems(4) eq(1) by (rule inj_onD) (auto simp: ps ps' Let_def)
  then show ?case using eq(2) by (auto simp: ps ps' split: if_splits)
qed simp

section \<open>The contract of an authenticated tree\<close>

locale auth_tree =
  fixes H :: "int list \<Rightarrow> int"
    and depth :: nat
    and tinv :: "'s \<Rightarrow> bool"
    and root :: "'s \<Rightarrow> int"
    and leaf :: "'s \<Rightarrow> nat \<Rightarrow> int"
    and path :: "'s \<Rightarrow> nat \<Rightarrow> int list"
    and bits :: "'s \<Rightarrow> nat \<Rightarrow> nat list"
    and set_leaf :: "nat \<Rightarrow> int \<Rightarrow> 's \<Rightarrow> 's"
    and elem :: "int \<Rightarrow> bool"
  assumes root_tnode: "tinv s \<Longrightarrow> root s = tnode H (leaf s) depth 0"
    and path_spath: "tinv s \<Longrightarrow> i < 2 ^ depth \<Longrightarrow> path s i = spath H (leaf s) depth i"
    and bits_sbits: "tinv s \<Longrightarrow> i < 2 ^ depth \<Longrightarrow> bits s i = sbits depth i"
    and tinv_set: "tinv s \<Longrightarrow> i < 2 ^ depth \<Longrightarrow> elem v \<Longrightarrow> tinv (set_leaf i v s)"
    and leaf_set: "tinv s \<Longrightarrow> i < 2 ^ depth \<Longrightarrow> elem v \<Longrightarrow> leaf (set_leaf i v s) = (leaf s)(i := v)"
begin

lemma membership:
  assumes "tinv s" "i < 2 ^ depth"
  shows "fold_path H (leaf s i) (path s i) (bits s i) = root s"
  using assms by (simp add: path_spath bits_sbits root_tnode fold_spath_same)

lemma update_root:
  assumes "tinv s" "i < 2 ^ depth" "elem v"
  shows "fold_path H v (path s i) (bits s i) = root (set_leaf i v s)"
  using assms by (simp add: path_spath bits_sbits root_tnode [OF tinv_set] leaf_set fold_spath)

lemma bits_of_index:
  assumes "tinv s" "i < 2 ^ depth"
  shows "bits_index (bits s i) = i"
  using assms by (simp add: bits_sbits bits_index_sbits)

lemma same_leaves_root: "tinv s \<Longrightarrow> tinv s' \<Longrightarrow> leaf s = leaf s' \<Longrightarrow> root s = root s'"
  by (simp add: root_tnode)

lemma opening_unique:
  assumes "tinv s" "i < 2 ^ depth" "length ps = depth"
    and "fold_path H v ps (bits s i) = root s"
    and "inj_on H (set (path_inputs H (leaf s i) (path s i) (bits s i)) \<union> set (path_inputs H v ps (bits s i)))"
  shows "v = leaf s i \<and> ps = path s i"
proof -
  have "leaf s i = v \<and> path s i = ps"
    by (rule fold_path_binds [OF _ _ _ assms(5)])
      (use assms(1-4) membership [OF assms(1,2)] in \<open>simp_all add: path_spath bits_sbits\<close>)
  then show ?thesis by simp
qed

end

end
