(* ===== verification/MerkleDB.thy ===== *)
theory MerkleDB imports MerkleSpec Types begin

unbundle bit_operations_syntax

text \<open>
  The sequencer's state tree, sequencer/internal/state/merkle\_db.go: a sparse Merkle tree
  whose nodes, balance records, account ids and metadata live in one LevelDB key space.

  \<open>mt_kv\<close> is the content of the database. A value is a byte string, or the JSON text of an
  account (\<open>val_bytes\<close> gives the text encoding/json writes; reading it back yields the record,
  so the record itself is kept). \<open>mt_get_err\<close> and \<open>mt_put_err\<close> say at which keys a read or a
  write fails with an I/O error; a batch is atomic and fails when one of its writes does. The
  two 28-element arrays of \<open>GetPath\<close> are the lists of their first \<open>mt_depth\<close> entries (the
  tree is opened with depth 28 everywhere).
\<close>

section \<open>The database\<close>

datatype dbval = VBytes bytes | VAccount balance_state

definition json_text :: "balance_state \<Rightarrow> bytes" where
  "json_text a = ''{\"AccountID\":'' @ dec (uint (bs_AccountID a)) @ '',\"TokenID\":'' @ dec (uint (bs_TokenID a)) @
     '',\"PubKeyX\":'' @ dec (bs_PubKeyX a) @ '',\"PubKeyY\":'' @ dec (bs_PubKeyY a) @
     '',\"Balance\":'' @ dec (bs_Balance a) @ '',\"Nonce\":'' @ dec (uint (bs_Nonce a)) @ ''}''"

fun val_bytes :: "dbval \<Rightarrow> bytes" where
  "val_bytes (VBytes b) = b"
| "val_bytes (VAccount a) = json_text a"

record mtree =
  mt_kv :: "bytes \<rightharpoonup> dbval"
  mt_get_err :: "bytes \<Rightarrow> bool"
  mt_put_err :: "bytes \<Rightarrow> bool"
  mt_depth :: nat
  mt_zeroHashes :: "int list"

datatype dbread = DbErr | DbNotFound | DbFound dbval

definition db_Get :: "mtree \<Rightarrow> bytes \<Rightarrow> dbread" where
  "db_Get t k =
     (if mt_get_err t k then DbErr
      else case mt_kv t k of None \<Rightarrow> DbNotFound | Some v \<Rightarrow> DbFound v)"

definition db_Put :: "mtree \<Rightarrow> bytes \<Rightarrow> dbval \<Rightarrow> unit result \<times> mtree" where
  "db_Put t k v =
     (if mt_put_err t k then (Inl ''leveldb: write'', t) else (Inr (), t\<lparr>mt_kv := (mt_kv t)(k \<mapsto> v)\<rparr>))"

definition put_all :: "(bytes \<rightharpoonup> dbval) \<Rightarrow> (bytes \<times> bytes) list \<Rightarrow> bytes \<rightharpoonup> dbval" where
  "put_all m puts = foldl (\<lambda>m (k, v). m(k \<mapsto> VBytes v)) m puts"

definition db_Write :: "mtree \<Rightarrow> (bytes \<times> bytes) list \<Rightarrow> unit result \<times> mtree" where
  "db_Write t batch =
     (if list_ex (\<lambda>(k, v). mt_put_err t k) batch then (Inl ''leveldb: write'', t)
      else (Inr (), t\<lparr>mt_kv := put_all (mt_kv t) batch\<rparr>))"

section \<open>Keys and elements\<close>

definition nodeKey :: "nat \<Rightarrow> u64 \<Rightarrow> bytes" where
  "nodeKey level index = be_enc 4 level @ be_enc 8 (unat index)"

definition balanceKey :: "u64 \<Rightarrow> u32 \<Rightarrow> bytes" where
  "balanceKey accountID tokenID = ''balance:'' @ dec (uint accountID) @ CHR '':'' # dec (uint tokenID)"

definition metaKey :: "string \<Rightarrow> bytes" where
  "metaKey key = ''meta:'' @ key"

definition pubkeyKey :: "string \<Rightarrow> bytes" where
  "pubkeyKey cleanPubKeyHex = ''pubkey:'' @ cleanPubKeyHex"

definition nextIdKey :: bytes where
  "nextIdKey = ''next_account_id''"

definition elem_Bytes :: "int \<Rightarrow> bytes" where
  "elem_Bytes x = be_enc 32 (nat x)"

definition elem_SetBytes :: "bytes \<Rightarrow> int" where
  "elem_SetBytes b = fr (int (be_dec b))"

section \<open>Nodes\<close>

fun computeZeroHashes :: "(int list \<Rightarrow> int) \<Rightarrow> nat \<Rightarrow> int list" where
  "computeZeroHashes H 0 = [0]"
| "computeZeroHashes H (Suc n) =
     (let zs = computeZeroHashes H n; b = last zs in zs @ [fr (H [b, b])])"

definition NewLevelDBMerkleTree :: "(int list \<Rightarrow> int) \<Rightarrow> (bytes \<rightharpoonup> dbval) \<Rightarrow> nat \<Rightarrow> mtree" where
  "NewLevelDBMerkleTree H db depth =
     \<lparr>mt_kv = db, mt_get_err = (\<lambda>_. False), mt_put_err = (\<lambda>_. False), mt_depth = depth,
      mt_zeroHashes = computeZeroHashes H depth\<rparr>"

definition getNode :: "mtree \<Rightarrow> nat \<Rightarrow> u64 \<Rightarrow> int" where
  "getNode t level index =
     (case db_Get t (nodeKey level index) of
        DbNotFound \<Rightarrow> mt_zeroHashes t ! level
      | DbErr \<Rightarrow> elem_SetBytes []
      | DbFound v \<Rightarrow> elem_SetBytes (val_bytes v))"

fun Update_loop ::
  "(int list \<Rightarrow> int) \<Rightarrow> mtree \<Rightarrow> nat \<Rightarrow> nat \<Rightarrow> int \<Rightarrow> u64 \<Rightarrow> (bytes \<times> bytes) list" where
  "Update_loop H t i 0 cur index = []"
| "Update_loop H t i (Suc n) cur index =
     (let siblingIndex = index XOR 1;
          sibling = getNode t i siblingIndex;
          (left, right) = (if index mod 2 = 1 then (sibling, cur) else (cur, sibling));
          cur' = fr (H [left, right]);
          index' = index div 2
      in (nodeKey (i + 1) index', elem_Bytes cur') # Update_loop H t (i + 1) n cur' index')"

definition Update :: "(int list \<Rightarrow> int) \<Rightarrow> mtree \<Rightarrow> u64 \<Rightarrow> int \<Rightarrow> unit result \<times> mtree" where
  "Update H t index leafHash =
     db_Write t ((nodeKey 0 index, elem_Bytes leafHash) # Update_loop H t 0 (mt_depth t) leafHash index)"

fun GetPath_loop :: "mtree \<Rightarrow> nat \<Rightarrow> nat \<Rightarrow> u64 \<Rightarrow> (int \<times> u64) list" where
  "GetPath_loop t i 0 index = []"
| "GetPath_loop t i (Suc n) index =
     (getNode t i (index XOR 1), index mod 2) # GetPath_loop t (i + 1) n (index div 2)"

definition GetPath :: "mtree \<Rightarrow> u64 \<Rightarrow> int list \<times> u64 list" where
  "GetPath t index =
     (map fst (GetPath_loop t 0 (mt_depth t) index), map snd (GetPath_loop t 0 (mt_depth t) index))"

definition Root :: "mtree \<Rightarrow> int" where
  "Root t = getNode t (mt_depth t) 0"

definition HashAccountLeaf :: "(int list \<Rightarrow> int) \<Rightarrow> int \<Rightarrow> int \<Rightarrow> int \<Rightarrow> int \<Rightarrow> int \<Rightarrow> int" where
  "HashAccountLeaf H index pubX pubY balance nonce =
     fr (H [fr index, fr pubX, fr pubY, fr balance, fr nonce])"

section \<open>Balances, metadata and account ids\<close>

definition GetBalance :: "mtree \<Rightarrow> u64 \<Rightarrow> u32 \<Rightarrow> balance_state option result" where
  "GetBalance t accountID tokenID =
     (case db_Get t (balanceKey accountID tokenID) of
        DbNotFound \<Rightarrow> Inr None
      | DbErr \<Rightarrow> Inl ''leveldb: read''
      | DbFound (VAccount acc) \<Rightarrow> Inr (Some acc)
      | DbFound (VBytes b) \<Rightarrow> Inl ''json: unmarshal'')"

definition account_leaf :: "(int list \<Rightarrow> int) \<Rightarrow> balance_state \<Rightarrow> int" where
  "account_leaf H acc =
     HashAccountLeaf H (uint (leaf_index (bs_AccountID acc) (bs_TokenID acc)))
       (bs_PubKeyX acc) (bs_PubKeyY acc) (bs_Balance acc) (uint (bs_Nonce acc))"

definition SetBalance :: "(int list \<Rightarrow> int) \<Rightarrow> mtree \<Rightarrow> balance_state \<Rightarrow> unit result \<times> mtree" where
  "SetBalance H t acc =
     (case db_Put t (balanceKey (bs_AccountID acc) (bs_TokenID acc)) (VAccount acc) of
        (Inl err, t') \<Rightarrow> (Inl err, t')
      | (Inr _, t') \<Rightarrow>
          Update H t' (leaf_index (bs_AccountID acc) (bs_TokenID acc)) (account_leaf H acc))"

definition SetMeta :: "mtree \<Rightarrow> string \<Rightarrow> bytes \<Rightarrow> unit result \<times> mtree" where
  "SetMeta t key value = db_Put t (metaKey key) (VBytes value)"

definition GetMeta :: "mtree \<Rightarrow> string \<Rightarrow> bytes option result" where
  "GetMeta t key =
     (case db_Get t (metaKey key) of
        DbNotFound \<Rightarrow> Inr None | DbErr \<Rightarrow> Inl ''leveldb: read'' | DbFound v \<Rightarrow> Inr (Some (val_bytes v)))"

text \<open>\<open>binary.BigEndian.Uint64\<close> reads the first eight bytes and panics on fewer.\<close>

definition read_u64 :: "bytes \<Rightarrow> u64 result" where
  "read_u64 b = (if length b < 8 then Inl ''panic: index out of range'' else Inr (of_nat (be_dec (take 8 b))))"

definition GetNextAccountID :: "mtree \<Rightarrow> u64 result \<times> mtree" where
  "GetNextAccountID t =
     (case (case db_Get t nextIdKey of
              DbFound data \<Rightarrow> read_u64 (val_bytes data)
            | DbNotFound \<Rightarrow> Inr 0
            | DbErr \<Rightarrow> Inl ''leveldb: read'') of
        Inl err \<Rightarrow> (Inl err, t)
      | Inr idx \<Rightarrow>
          (case db_Put t nextIdKey (VBytes (be_enc 8 (unat (idx + 1)))) of
             (Inl err, t') \<Rightarrow> (Inl err, t')
           | (Inr _, t') \<Rightarrow> (Inr idx, t')))"

definition GetAccountID :: "mtree \<Rightarrow> string \<Rightarrow> u64 result \<times> mtree" where
  "GetAccountID t pubKeyHex =
     (let cleanPubKeyHex = trim_prefix ''0x'' pubKeyHex
      in case db_Get t (pubkeyKey cleanPubKeyHex) of
           DbNotFound \<Rightarrow>
             (case GetNextAccountID t of
                (Inl err, t') \<Rightarrow> (Inl err, t')
              | (Inr newID, t') \<Rightarrow>
                  (Inr newID, snd (db_Put t' (pubkeyKey cleanPubKeyHex) (VBytes (be_enc 8 (unat newID))))))
         | DbErr \<Rightarrow> (Inl ''leveldb: read'', t)
         | DbFound data \<Rightarrow> (read_u64 (val_bytes data), t))"

section \<open>The key spaces are disjoint\<close>

lemma hd_be_enc: "hd (be_enc (Suc n) v) = char_of (v div 256 ^ n mod 256)"
proof (induction n arbitrary: v)
  case (Suc n)
  have "be_enc (Suc n) (v div 256) \<noteq> []" by simp
  then have "hd (be_enc (Suc (Suc n)) v) = hd (be_enc (Suc n) (v div 256))"
    unfolding be_enc.simps(2) [of "Suc n" v] by (rule hd_append2)
  then show ?case using Suc [of "v div 256"] by (simp add: div_mult2_eq)
qed simp

lemma nodeKey_hd: "l < 2 ^ 24 \<Longrightarrow> hd (nodeKey l i) = CHR 0x00"
proof -
  assume l: "l < 2 ^ 24"
  have "hd (nodeKey l i) = hd (be_enc (Suc 3) l)"
    by (simp add: nodeKey_def hd_append length_0_conv [symmetric] del: be_enc.simps length_0_conv)
  also have "\<dots> = char_of (0 :: nat)" using l by (simp only: hd_be_enc) simp
  finally show ?thesis by (simp add: char_of_def)
qed

lemma nodeKey_inject [key_simps, simp]:
  assumes "l < 2 ^ 24" "l' < 2 ^ 24"
  shows "nodeKey l i = nodeKey l' i' \<longleftrightarrow> l = l' \<and> i = i'"
proof -
  have "nodeKey l i = nodeKey l' i' \<longleftrightarrow> be_enc 4 l = be_enc 4 l' \<and> be_enc 8 (unat i) = be_enc 8 (unat i')"
    by (simp add: nodeKey_def)
  also have "\<dots> \<longleftrightarrow> l = l' \<and> i = i'"
    using be_enc_inject [of l 4 l'] be64.enc_inject [of i i'] assms by simp
  finally show ?thesis .
qed

lemma text_key_hd:
  "hd (balanceKey a tok) = CHR ''b''" "hd (metaKey key) = CHR ''m''"
  "hd (pubkeyKey pk) = CHR ''p''" "hd nextIdKey = CHR ''n''"
  by (simp_all add: balanceKey_def metaKey_def pubkeyKey_def nextIdKey_def)

lemma node_text_keys [key_simps, simp]:
  assumes "l < 2 ^ 24"
  shows "nodeKey l i \<noteq> balanceKey a tok" "nodeKey l i \<noteq> metaKey key"
    "nodeKey l i \<noteq> pubkeyKey pk" "nodeKey l i \<noteq> nextIdKey"
  by (rule notI, drule arg_cong [of _ _ hd], simp add: nodeKey_hd [OF assms] text_key_hd)+

definition text_key :: "bytes \<Rightarrow> bool" where
  "text_key k \<longleftrightarrow> (\<forall>l i. l < 2 ^ 24 \<longrightarrow> nodeKey l i \<noteq> k)"

lemma text_key_all [key_simps, simp]:
  "text_key (balanceKey a tok)" "text_key (metaKey key)" "text_key (pubkeyKey pk)" "text_key nextIdKey"
  by (simp_all add: text_key_def)

lemma text_keys [key_simps, simp]:
  "balanceKey a tok \<noteq> metaKey key" "balanceKey a tok \<noteq> pubkeyKey pk" "balanceKey a tok \<noteq> nextIdKey"
  "metaKey key \<noteq> pubkeyKey pk" "metaKey key \<noteq> nextIdKey" "pubkeyKey pk \<noteq> nextIdKey"
  by (simp_all add: balanceKey_def metaKey_def pubkeyKey_def nextIdKey_def)

lemma balanceKey_inject [key_simps, simp]:
  "balanceKey a t = balanceKey a' t' \<longleftrightarrow> a = a' \<and> t = t'"
  by (auto simp: balanceKey_def append_sep_inject word_uint_eq_iff)

lemma pubkeyKey_inject [key_simps, simp]: "pubkeyKey pk = pubkeyKey pk' \<longleftrightarrow> pk = pk'"
  and metaKey_inject [key_simps, simp]: "metaKey key = metaKey key' \<longleftrightarrow> key = key'"
  by (simp_all add: pubkeyKey_def metaKey_def)

lemma elem_roundtrip [simp]: "0 \<le> x \<Longrightarrow> x < fr_modulus \<Longrightarrow> elem_SetBytes (elem_Bytes x) = x"
proof -
  assume x: "0 \<le> x" "x < fr_modulus"
  then have "nat x < 256 ^ 32" by (simp add: fr_modulus_def)
  then have "be_dec (elem_Bytes x) = nat x" by (simp add: elem_Bytes_def be_dec_enc)
  then show ?thesis using x by (simp add: elem_SetBytes_def fr_id)
qed

lemma elem_SetBytes_range [simp]: "0 \<le> elem_SetBytes b" "elem_SetBytes b < fr_modulus"
  by (simp_all add: elem_SetBytes_def)

section \<open>Tree words as naturals\<close>

lemma unat_xor_1: "unat (w XOR 1 :: u64) = sib (unat w)"
proof -
  have "unat (w XOR 1) = unat w XOR 1" unfolding unsigned_xor_eq by simp
  then show ?thesis by (simp only: xor_one_eq) (simp add: sib_def)
qed

lemma unat_div_2: "unat (w div 2 :: u64) = unat w div 2"
  and unat_mod_2: "unat (w mod 2 :: u64) = unat w mod 2"
  by (simp_all add: unat_div_distrib unat_mod_distrib)

lemma u64_odd_iff: "(w mod 2 :: u64) = 1 \<longleftrightarrow> unat w mod 2 = 1"
  by (simp add: word_unat_eq_iff unat_mod_2)

lemma sib_range: "i < 2 ^ Suc n \<Longrightarrow> sib i < 2 ^ Suc n"
  by (auto simp: sib_def elim!: evenE)

section \<open>The tree invariant\<close>

text \<open>
  \<open>lf t j\<close> is the value of leaf \<open>j\<close>; the invariant says that every stored or default node is the
  node of the specification over these leaves, that the zero hashes are the ones computed at
  opening, and that no I/O fault is pending.
\<close>

definition lf :: "mtree \<Rightarrow> nat \<Rightarrow> int" where
  "lf t j = (if j < 2 ^ 64 then getNode t 0 (of_nat j) else 0)"

definition nodes_ok :: "(int list \<Rightarrow> int) \<Rightarrow> mtree \<Rightarrow> bool" where
  "nodes_ok H t \<longleftrightarrow>
     (\<forall>l \<le> mt_depth t. \<forall>i. unat i < 2 ^ (64 - l) \<longrightarrow> getNode t l i = tnode H (lf t) l (unat i))"

definition no_faults :: "mtree \<Rightarrow> bool" where
  "no_faults t \<longleftrightarrow> mt_get_err t = (\<lambda>_. False) \<and> mt_put_err t = (\<lambda>_. False)"

definition tree_inv :: "(int list \<Rightarrow> int) \<Rightarrow> nat \<Rightarrow> mtree \<Rightarrow> bool" where
  "tree_inv H d t \<longleftrightarrow>
     canonical H \<and> mt_depth t = d \<and> d < 64 \<and> mt_zeroHashes t = computeZeroHashes H d \<and>
     no_faults t \<and> nodes_ok H t"

definition is_elem :: "int \<Rightarrow> bool" where
  "is_elem v \<longleftrightarrow> 0 \<le> v \<and> v < fr_modulus"

lemma tree_invD:
  assumes "tree_inv H d t"
  shows "canonical H" "mt_depth t = d" "d < 64" "mt_zeroHashes t = computeZeroHashes H d"
    "no_faults t" "nodes_ok H t" "mt_get_err t k = False" "mt_put_err t k = False"
  using assms by (auto simp: tree_inv_def no_faults_def)

lemma length_computeZeroHashes [simp]: "length (computeZeroHashes H d) = Suc d"
  by (induction d) (simp_all add: Let_def)

lemma computeZeroHashes_nth:
  assumes "canonical H" and "l \<le> d"
  shows "computeZeroHashes H d ! l = tnode H (\<lambda>_. 0) l i"
  using assms(2)
proof (induction d arbitrary: l i)
  case (Suc d)
  have last: "last (computeZeroHashes H d) = computeZeroHashes H d ! d"
    by (simp add: last_conv_nth flip: length_0_conv)
  show ?case
  proof (cases "l = Suc d")
    case True
    then show ?thesis using Suc.IH [of d] assms(1) by (simp add: Let_def nth_append last)
  next
    case False
    then show ?thesis using Suc by (simp add: Let_def nth_append)
  qed
qed simp

lemma zero_hash_range:
  assumes "canonical H" and "l \<le> d"
  shows "0 \<le> computeZeroHashes H d ! l \<and> computeZeroHashes H d ! l < fr_modulus"
  unfolding computeZeroHashes_nth [OF assms, of 0] by (rule tnode_canonical [OF assms(1)]) simp

lemma getNode_range:
  assumes "tree_inv H d t" and "l \<le> d"
  shows "0 \<le> getNode t l i \<and> getNode t l i < fr_modulus"
  using zero_hash_range [OF tree_invD(1) [OF assms(1)] assms(2)] tree_invD(4) [OF assms(1)]
  by (simp add: getNode_def split: dbread.split)

lemma lf_range: "tree_inv H d t \<Longrightarrow> 0 \<le> lf t j \<and> lf t j < fr_modulus"
  using getNode_range [of H d t 0] by (simp add: lf_def)

lemma getNode_tnode:
  assumes "tree_inv H d t" "l \<le> d" "unat i < 2 ^ (64 - l)"
  shows "getNode t l i = tnode H (lf t) l (unat i)"
  using assms by (simp add: tree_inv_def nodes_ok_def)

text \<open>An empty database is the empty tree.\<close>

lemma NewLevelDBMerkleTree_inv:
  assumes "canonical H" "d < 64" "\<And>l i. l \<le> d \<Longrightarrow> db (nodeKey l i) = None"
  shows "tree_inv H d (NewLevelDBMerkleTree H db d)" and "lf (NewLevelDBMerkleTree H db d) = (\<lambda>_. 0)"
proof -
  let ?t = "NewLevelDBMerkleTree H db d"
  have g: "getNode ?t l i = computeZeroHashes H d ! l" if "l \<le> d" for l i
    using assms(3) [OF that] by (simp add: getNode_def db_Get_def NewLevelDBMerkleTree_def)
  have "computeZeroHashes H d ! 0 = 0" using computeZeroHashes_nth [OF assms(1), of 0 d 0] by simp
  then show lf: "lf ?t = (\<lambda>_. 0)" using g by (auto simp: lf_def)
  have "nodes_ok H ?t"
    using computeZeroHashes_nth [OF assms(1)] g unfolding nodes_ok_def lf
    by (simp add: NewLevelDBMerkleTree_def)
  then show "tree_inv H d ?t"
    using assms by (simp add: tree_inv_def no_faults_def NewLevelDBMerkleTree_def)
qed

section \<open>Update and GetPath meet the specification\<close>

text \<open>The word index of level \<open>l\<close> above leaf \<open>w\<close>.\<close>

lemma unat_drop_bit_u64: "unat (drop_bit l (w :: u64)) = unat w div 2 ^ l"
proof -
  have "unat w < 2 ^ 64" using unsigned_less [of w, where 'a = nat] by simp
  then show ?thesis unfolding unsigned_drop_bit_eq by (simp add: drop_bit_eq_div take_bit_nat_eq_self)
qed

lemma drop_bit_Suc_div: "drop_bit l (w :: u64) div 2 = drop_bit (Suc l) w"
  by (simp add: word_unat_eq_iff unat_div_2 unat_drop_bit_u64 div_mult2_eq mult.commute [of 2])

lemma index_range: "l < 64 \<Longrightarrow> unat (w :: u64) div 2 ^ l < 2 ^ (64 - l)"
proof -
  assume l: "l < 64"
  have "unat w < 2 ^ 64" using unsigned_less [of w] by simp
  also have "(2 :: nat) ^ 64 = 2 ^ (64 - l) * 2 ^ l" using l by (simp flip: power_add)
  finally show ?thesis by (simp add: less_mult_imp_div_less)
qed

lemma sibling_node:
  assumes "tree_inv H d t" and "l < d"
  shows "getNode t l (drop_bit l w XOR 1) = tnode H (lf t) l (sib (unat w div 2 ^ l))"
proof -
  have l: "l < 64" "l < d" using assms tree_invD(3) [OF assms(1)] by simp_all
  then obtain n where n: "64 - l = Suc n" by (cases "64 - l") auto
  have "sib (unat w div 2 ^ l) < 2 ^ (64 - l)"
    using index_range [OF l(1), of w] unfolding n by (rule sib_range)
  then show ?thesis
    using getNode_tnode [OF assms(1), of l "drop_bit l w XOR 1"] l
    by (simp add: unat_xor_1 unat_drop_bit_u64)
qed

definition node_puts :: "(int list \<Rightarrow> int) \<Rightarrow> (nat \<Rightarrow> int) \<Rightarrow> u64 \<Rightarrow> nat list \<Rightarrow> (bytes \<times> bytes) list" where
  "node_puts H m w ls =
     map (\<lambda>l. (nodeKey l (drop_bit l w), elem_Bytes (tnode H m l (unat w div 2 ^ l)))) ls"

lemma Update_loop_puts:
  assumes inv: "tree_inv H d t" and "i + n \<le> d" and "m = (lf t)(unat w := v)"
  shows "Update_loop H t i n (tnode H m i (unat w div 2 ^ i)) (drop_bit i w) =
           node_puts H m w [i + 1..<i + n + 1]"
  using assms(2)
proof (induction n arbitrary: i)
  case (Suc n)
  let ?k = "unat w div 2 ^ i"
  have "getNode t i (drop_bit i w XOR 1) = tnode H (lf t) i (sib ?k)"
    by (rule sibling_node [OF inv]) (use Suc.prems in simp)
  also have "\<dots> = tnode H m i (sib ?k)"
    unfolding assms(3) by (rule tnode_upd_other [symmetric]) (simp add: sib_facts(2) [symmetric])
  finally have s: "getNode t i (drop_bit i w XOR 1) = tnode H m i (sib ?k)" .
  have p: "fr (H (if ?k mod 2 = 1 then [tnode H m i (sib ?k), tnode H m i ?k]
                  else [tnode H m i ?k, tnode H m i (sib ?k)])) = tnode H m (Suc i) (unat w div 2 ^ Suc i)"
    using tree_invD(1) [OF inv] tnode_parent [of H m i ?k]
    by (simp add: div_mult2_eq mult.commute [of 2] del: tnode.simps)
  have range: "[i + 1..<i + Suc n + 1] = (i + 1) # [Suc i + 1..<Suc i + n + 1]"
    by (simp add: upt_rec)
  have "Update_loop H t i (Suc n) (tnode H m i ?k) (drop_bit i w) =
      (nodeKey (i + 1) (drop_bit (Suc i) w), elem_Bytes (tnode H m (Suc i) (unat w div 2 ^ Suc i))) #
      Update_loop H t (Suc i) n (tnode H m (Suc i) (unat w div 2 ^ Suc i)) (drop_bit (Suc i) w)"
    unfolding p [symmetric]
    by (simp add: Let_def s drop_bit_Suc_div u64_odd_iff unat_drop_bit_u64 del: tnode.simps)
  then show ?case
    unfolding range using Suc.IH [of "Suc i"] Suc.prems by (simp add: node_puts_def del: tnode.simps)
qed (simp add: node_puts_def)

lemma put_all_notin: "k \<notin> fst ` set puts \<Longrightarrow> put_all m puts k = m k"
  by (induction puts arbitrary: m) (auto simp: put_all_def)

lemma put_all_in:
  "distinct (map fst puts) \<Longrightarrow> (k, v) \<in> set puts \<Longrightarrow> put_all m puts k = Some (VBytes v)"
proof (induction puts arbitrary: m)
  case (Cons p puts)
  show ?case
  proof (cases "p = (k, v)")
    case True
    then have "put_all (m(k \<mapsto> VBytes v)) puts k = Some (VBytes v)"
      using Cons.prems by (subst put_all_notin) auto
    then show ?thesis using True by (simp add: put_all_def)
  next
    case False
    then have "put_all (m(fst p \<mapsto> VBytes (snd p))) puts k = Some (VBytes v)" using Cons by simp
    then show ?thesis by (cases p) (simp add: put_all_def)
  qed
qed simp

lemma distinct_node_puts:
  "distinct ls \<Longrightarrow> \<forall>l \<in> set ls. l < 2 ^ 24 \<Longrightarrow> distinct (map fst (node_puts H m w ls))"
  by (induction ls) (auto simp: node_puts_def)

lemma keys_node_puts: "fst ` set (node_puts H m w ls) = (\<lambda>l. nodeKey l (drop_bit l w)) ` set ls"
  by (simp add: node_puts_def image_image)

lemma Update_ok:
  fixes w :: u64
  assumes inv: "tree_inv H d t" and v: "is_elem v"
  defines "m \<equiv> (lf t)(unat w := v)"
  shows "Update H t w v = (Inr (), t\<lparr>mt_kv := put_all (mt_kv t) (node_puts H m w [0..<d + 1])\<rparr>)"
proof -
  have "Update_loop H t 0 d v w = node_puts H m w [1..<d + 1]"
    using Update_loop_puts [OF inv, of 0 d m w v] by (simp add: m_def)
  moreover have "[0..<d + 1] = 0 # [1..<d + 1]" by (simp add: upt_rec)
  ultimately have "(nodeKey 0 w, elem_Bytes v) # Update_loop H t 0 d v w = node_puts H m w [0..<d + 1]"
    by (simp add: node_puts_def m_def)
  then show ?thesis
    using tree_invD(2,8) [OF inv] by (simp add: Update_def db_Write_def list_ex_iff split_beta)
qed

lemma Update_node:
  assumes inv: "tree_inv H d t" and v: "is_elem v" and l: "l \<le> d"
  shows "getNode (snd (Update H t w v)) l i =
    (if i = drop_bit l w then tnode H ((lf t)(unat w := v)) l (unat i) else getNode t l i)"
proof -
  let ?m = "(lf t)(unat w := v)" and ?ps = "node_puts H ((lf t)(unat w := v)) w [0..<d + 1]"
  note d = tree_invD [OF inv]
  have small: "j < 2 ^ 24" if "j \<le> d" for j using that d(3) by simp
  have dist: "distinct (map fst ?ps)" by (rule distinct_node_puts) (use d(3) in auto)
  have e: "is_elem (tnode H ?m l j)" for j
    unfolding is_elem_def by (rule tnode_canonical [OF d(1)]) (use v lf_range [OF inv] in \<open>auto simp: is_elem_def\<close>)
  show ?thesis
  proof (cases "i = drop_bit l w")
    case True
    have "(nodeKey l i, elem_Bytes (tnode H ?m l (unat i))) \<in> set ?ps"
      using l True by (auto simp: node_puts_def unat_drop_bit_u64 intro!: image_eqI [of _ _ l])
    then have "put_all (mt_kv t) ?ps (nodeKey l i) = Some (VBytes (elem_Bytes (tnode H ?m l (unat i))))"
      by (rule put_all_in [OF dist])
    then show ?thesis
      using True d(7) e [of "unat i"] by (simp add: Update_ok [OF inv v] getNode_def db_Get_def is_elem_def)
  next
    case False
    have "nodeKey l i \<notin> fst ` set ?ps"
      using False small l by (auto simp: node_puts_def)
    then have "put_all (mt_kv t) ?ps (nodeKey l i) = mt_kv t (nodeKey l i)" by (rule put_all_notin)
    then show ?thesis
      using False by (simp add: Update_ok [OF inv v] getNode_def db_Get_def split: option.split)
  qed
qed

lemma Update_frame:
  assumes inv: "tree_inv H d t" and v: "is_elem v" and "text_key k"
  shows "mt_kv (snd (Update H t w v)) k = mt_kv t k"
proof -
  have "k \<notin> fst ` set (node_puts H ((lf t)(unat w := v)) w [0..<d + 1])"
  proof
    assume "k \<in> fst ` set (node_puts H ((lf t)(unat w := v)) w [0..<d + 1])"
    then obtain l where "l < d + 1" "k = nodeKey l (drop_bit l w)" unfolding keys_node_puts by (auto simp del: upt_Suc)
    moreover from this have "l < 2 ^ 24" using tree_invD(3) [OF inv] by simp
    ultimately show False using assms(3) unfolding text_key_def by blast
  qed
  then show ?thesis by (simp add: Update_ok [OF inv v] put_all_notin)
qed

lemma Update_lf:
  assumes "tree_inv H d t" "is_elem v"
  shows "lf (snd (Update H t w v)) = (lf t)(unat w := v)"
proof
  fix j
  show "lf (snd (Update H t w v)) j = ((lf t)(unat w := v)) j"
  proof (cases "j < 2 ^ 64")
    case True
    then have "(of_nat j = w) = (j = unat w)"
      by (auto simp: word_unat_eq_iff unat_of_nat)
    then show ?thesis
      using True by (simp add: lf_def Update_node [OF assms] unat_of_nat)
  next
    case False
    have "unat w < 2 ^ 64" using unsigned_less [of w] by simp
    then show ?thesis using False by (auto simp: lf_def)
  qed
qed

lemma Update_inv:
  assumes inv: "tree_inv H d t" and v: "is_elem v"
  shows "tree_inv H d (snd (Update H t w v))"
proof -
  let ?t = "snd (Update H t w v)"
  have "mt_depth ?t = mt_depth t" "mt_zeroHashes ?t = mt_zeroHashes t" "no_faults ?t = no_faults t"
    by (simp_all add: Update_ok [OF inv v] no_faults_def)
  moreover have "nodes_ok H ?t"
    unfolding nodes_ok_def
  proof (intro allI impI)
    fix l and i :: u64 assume l: "l \<le> mt_depth ?t" and i: "unat i < 2 ^ (64 - l)"
    have l': "l \<le> d" using l \<open>mt_depth ?t = mt_depth t\<close> tree_invD(2) [OF inv] by simp
    have "i \<noteq> drop_bit l w \<Longrightarrow> unat w div 2 ^ l \<noteq> unat i"
      by (metis unat_drop_bit_u64 word_unat_eq_iff)
    then show "getNode ?t l i = tnode H (lf ?t) l (unat i)"
      using getNode_tnode [OF inv l' i]
      by (simp add: Update_node [OF inv v l'] Update_lf [OF inv v] tnode_upd_other)
  qed
  ultimately show ?thesis using inv by (simp add: tree_inv_def)
qed

lemma GetPath_loop_spec:
  assumes "tree_inv H d t" and "i + n \<le> d"
  shows "GetPath_loop t i n (drop_bit i w) =
    map (\<lambda>l. (tnode H (lf t) l (sib (unat w div 2 ^ l)), drop_bit l w mod 2)) [i..<i + n]"
  using assms(2)
proof (induction n arbitrary: i)
  case (Suc n)
  have "[i..<i + Suc n] = i # [Suc i..<Suc i + n]" by (simp add: upt_rec)
  then show ?case
    using Suc.IH [of "Suc i"] Suc.prems sibling_node [OF assms(1), of i w]
    by (simp add: drop_bit_Suc_div)
qed simp

lemma GetPath_spec:
  assumes "tree_inv H d t"
  shows "fst (GetPath t w) = spath H (lf t) d (unat w)"
    and "map unat (snd (GetPath t w)) = sbits d (unat w)"
  using GetPath_loop_spec [OF assms, of 0 d w] tree_invD(2) [OF assms]
  by (simp_all add: GetPath_def spath_def sbits_def unat_mod_2 unat_drop_bit_u64)

lemma Root_spec: "tree_inv H d t \<Longrightarrow> Root t = tnode H (lf t) d 0"
  using getNode_tnode [of H d t d 0] tree_invD(2,3) [of H d t] by (simp add: Root_def)

lemma unat_of_nat_u64: "i < 2 ^ d \<Longrightarrow> d < 64 \<Longrightarrow> unat (of_nat i :: u64) = i"
proof -
  assume "i < 2 ^ d" "d < 64"
  moreover have "(2 :: nat) ^ d < 2 ^ 64" using \<open>d < 64\<close> by (intro power_strict_increasing) simp_all
  ultimately have "i < 2 ^ 64" by simp
  then show ?thesis by (simp add: unat_of_nat)
qed

interpretation db_tree: auth_tree H d "tree_inv H d" Root lf
    "\<lambda>t i. fst (GetPath t (of_nat i))" "\<lambda>t i. map unat (snd (GetPath t (of_nat i)))"
    "\<lambda>i v t. snd (Update H t (of_nat i) v)" is_elem
  for H d
proof unfold_locales
  fix s :: mtree and i :: nat and v :: int
  assume inv: "tree_inv H d s"
  show "Root s = tnode H (lf s) d 0" by (rule Root_spec [OF inv])
  assume "i < 2 ^ d"
  then have u: "unat (of_nat i :: u64) = i" using tree_invD(3) [OF inv] by (rule unat_of_nat_u64)
  show "fst (GetPath s (of_nat i)) = spath H (lf s) d i"
    and "map unat (snd (GetPath s (of_nat i))) = sbits d i"
    using GetPath_spec [OF inv, of "of_nat i"] by (simp_all add: u)
  assume "is_elem v"
  with inv show "tree_inv H d (snd (Update H s (of_nat i) v))"
    and "lf (snd (Update H s (of_nat i) v)) = (lf s)(i := v)"
    using Update_lf [OF inv, of v "of_nat i"] by (simp_all add: Update_inv u)
qed

section \<open>The database as a map of balances\<close>

text \<open>
  The abstract state is the map from (account, token) to the stored record. \<open>slot_ok\<close> is the
  range in which \<open>AccountID * 256 + TokenID\<close> is injective and inside a tree of depth \<open>d\<close>.
\<close>

definition balances :: "mtree \<Rightarrow> u64 \<times> u32 \<Rightarrow> balance_state option" where
  "balances t = (\<lambda>(a, tok). case mt_kv t (balanceKey a tok) of Some (VAccount acc) \<Rightarrow> Some acc | _ \<Rightarrow> None)"

definition slot_ok :: "nat \<Rightarrow> u64 \<Rightarrow> u32 \<Rightarrow> bool" where
  "slot_ok d a tok \<longleftrightarrow> 8 \<le> d \<and> unat tok < 256 \<and> unat a < 2 ^ (d - 8)"

definition leaf_value :: "(int list \<Rightarrow> int) \<Rightarrow> balance_state option \<Rightarrow> int" where
  "leaf_value H r = (case r of None \<Rightarrow> 0 | Some acc \<Rightarrow> account_leaf H acc)"

definition recs_inv :: "(int list \<Rightarrow> int) \<Rightarrow> nat \<Rightarrow> mtree \<Rightarrow> bool" where
  "recs_inv H d t \<longleftrightarrow>
     (\<forall>a tok v. mt_kv t (balanceKey a tok) = Some v \<longrightarrow> slot_ok d a tok \<and>
        (\<exists>acc. v = VAccount acc \<and> bs_AccountID acc = a \<and> bs_TokenID acc = tok)) \<and>
     (\<forall>a tok. slot_ok d a tok \<longrightarrow> lf t (unat (leaf_index a tok)) = leaf_value H (balances t (a, tok)))"

definition db_inv :: "(int list \<Rightarrow> int) \<Rightarrow> nat \<Rightarrow> mtree \<Rightarrow> bool" where
  "db_inv H d t \<longleftrightarrow> tree_inv H d t \<and> recs_inv H d t"

lemma db_inv_tree: "db_inv H d t \<Longrightarrow> tree_inv H d t"
  by (simp add: db_inv_def)

lemma slot_okD:
  assumes "slot_ok d a tok" and "d < 64"
  shows "unat (leaf_index a tok) = unat a * 256 + unat tok" "unat (leaf_index a tok) < 2 ^ d"
    "unat a < 2 ^ 56" "unat tok < 256"
proof -
  have d: "8 \<le> d" "unat tok < 256" "unat a < 2 ^ (d - 8)" using assms(1) by (simp_all add: slot_ok_def)
  have "(2 :: nat) ^ (d - 8) \<le> 2 ^ 56" using assms(2) by (intro power_increasing) simp_all
  then show a: "unat a < 2 ^ 56" using d(3) by (rule less_le_trans [rotated])
  show t: "unat tok < 256" by (rule d(2))
  show l: "unat (leaf_index a tok) = unat a * 256 + unat tok" using a t by (rule unat_leaf_index)
  have "unat a * 256 + unat tok < (unat a + 1) * 256" using d(2) by simp
  also have "\<dots> \<le> 2 ^ (d - 8) * 256" using d(3) by (intro mult_right_mono) simp_all
  also have "\<dots> = 2 ^ (d - 8) * 2 ^ 8" by simp
  also have "\<dots> = 2 ^ d" using d(1) by (simp only: power_add [symmetric] le_add_diff_inverse2)
  finally show "unat (leaf_index a tok) < 2 ^ d" by (simp only: l)
qed

lemma leaf_index_slots:
  assumes "slot_ok d a tok" "slot_ok d a' tok'" "d < 64"
  shows "unat (leaf_index a tok) = unat (leaf_index a' tok') \<longleftrightarrow> a = a' \<and> tok = tok'"
  using leaf_index_inject [of a tok a' tok'] slot_okD(3,4) [OF assms(1,3)] slot_okD(3,4) [OF assms(2,3)]
  by (simp add: word_unat_eq_iff [symmetric])

lemma account_leaf_elem: "canonical H \<Longrightarrow> is_elem (account_leaf H acc)"
  unfolding is_elem_def account_leaf_def HashAccountLeaf_def by (simp only: fr_range simp_thms)

lemma GetBalance_balances:
  assumes "db_inv H d t"
  shows "GetBalance t a tok = Inr (balances t (a, tok))"
proof -
  have "mt_kv t (balanceKey a tok) = Some v \<Longrightarrow> \<exists>acc. v = VAccount acc" for v
    using assms by (simp add: db_inv_def recs_inv_def) blast
  then show ?thesis
    using tree_invD(7) [OF db_inv_tree [OF assms]]
    by (fastforce simp: GetBalance_def db_Get_def balances_def split: option.split)
qed

text \<open>Writing a text key leaves the tree as it was.\<close>

lemma getNode_put:
  "text_key k \<Longrightarrow> l < 2 ^ 24 \<Longrightarrow> getNode (t\<lparr>mt_kv := (mt_kv t)(k \<mapsto> v)\<rparr>) l i = getNode t l i"
  by (auto simp: text_key_def getNode_def db_Get_def split: option.split)

lemma lf_put: "text_key k \<Longrightarrow> lf (t\<lparr>mt_kv := (mt_kv t)(k \<mapsto> v)\<rparr>) = lf t"
  by (rule ext) (simp add: lf_def getNode_put)

lemma tree_inv_put:
  assumes "tree_inv H d t" and k: "text_key k"
  shows "tree_inv H d (t\<lparr>mt_kv := (mt_kv t)(k \<mapsto> v)\<rparr>)"
proof -
  have "nodes_ok H (t\<lparr>mt_kv := (mt_kv t)(k \<mapsto> v)\<rparr>)"
    using assms(1) getNode_put [OF k, of _ t v] lf_put [OF k, of t v]
    by (simp add: tree_inv_def nodes_ok_def)
  then show ?thesis using assms(1) by (simp add: tree_inv_def no_faults_def)
qed

text \<open>The frame of \<open>SetBalance\<close>: the tables the other operations read.\<close>

definition same_tables :: "mtree \<Rightarrow> mtree \<Rightarrow> bool" where
  "same_tables t t' \<longleftrightarrow>
     (\<forall>pk. mt_kv t' (pubkeyKey pk) = mt_kv t (pubkeyKey pk)) \<and> mt_kv t' nextIdKey = mt_kv t nextIdKey \<and>
     (\<forall>key. mt_kv t' (metaKey key) = mt_kv t (metaKey key))"

lemma SetBalance_ok:
  assumes inv: "db_inv H d t" and slot: "slot_ok d (bs_AccountID acc) (bs_TokenID acc)"
  shows "fst (SetBalance H t acc) = Inr ()"
    and "db_inv H d (snd (SetBalance H t acc))"
    and "balances (snd (SetBalance H t acc)) = (balances t)((bs_AccountID acc, bs_TokenID acc) \<mapsto> acc)"
    and "lf (snd (SetBalance H t acc)) =
           (lf t)(unat (leaf_index (bs_AccountID acc) (bs_TokenID acc)) := account_leaf H acc)"
    and "same_tables t (snd (SetBalance H t acc))"
proof -
  let ?k = "balanceKey (bs_AccountID acc) (bs_TokenID acc)"
  let ?t1 = "t\<lparr>mt_kv := (mt_kv t)(?k \<mapsto> VAccount acc)\<rparr>"
  let ?w = "leaf_index (bs_AccountID acc) (bs_TokenID acc)"
  note tinv = db_inv_tree [OF inv] and c = tree_invD [OF db_inv_tree [OF inv]]
  have v: "is_elem (account_leaf H acc)" by (rule account_leaf_elem [OF c(1)])
  have k: "text_key ?k" by simp
  have tinv1: "tree_inv H d ?t1" by (rule tree_inv_put [OF tinv k])
  have eq: "SetBalance H t acc = Update H ?t1 ?w (account_leaf H acc)"
    using c(8) by (simp add: SetBalance_def db_Put_def)
  show "fst (SetBalance H t acc) = Inr ()" unfolding eq by (simp add: Update_ok [OF tinv1 v])
  show lf: "lf (snd (SetBalance H t acc)) = (lf t)(unat ?w := account_leaf H acc)"
    unfolding eq Update_lf [OF tinv1 v] by (simp add: lf_put [OF k])
  have tinv': "tree_inv H d (snd (SetBalance H t acc))" unfolding eq by (rule Update_inv [OF tinv1 v])
  have frame: "mt_kv (snd (SetBalance H t acc)) k' = (if k' = ?k then Some (VAccount acc) else mt_kv t k')"
    if "text_key k'" for k'
    unfolding eq by (simp add: Update_frame [OF tinv1 v that])
  have bk: "mt_kv (snd (SetBalance H t acc)) (balanceKey a tok) =
      (if a = bs_AccountID acc \<and> tok = bs_TokenID acc then Some (VAccount acc) else mt_kv t (balanceKey a tok))"
    for a tok by (subst frame) simp_all
  show bal: "balances (snd (SetBalance H t acc)) = (balances t)((bs_AccountID acc, bs_TokenID acc) \<mapsto> acc)"
    by (rule ext) (simp add: balances_def bk split_beta fun_upd_def prod_eq_iff)
  have "recs_inv H d (snd (SetBalance H t acc))"
    unfolding recs_inv_def
  proof (intro conjI allI impI)
    fix a tok v assume "mt_kv (snd (SetBalance H t acc)) (balanceKey a tok) = Some v"
    then show "slot_ok d a tok" "\<exists>acc. v = VAccount acc \<and> bs_AccountID acc = a \<and> bs_TokenID acc = tok"
      using inv slot by (auto simp: bk db_inv_def recs_inv_def split: if_splits)
  next
    fix a tok assume s: "slot_ok d a tok"
    have "lf t (unat (leaf_index a tok)) = leaf_value H (balances t (a, tok))"
      using inv s by (simp add: db_inv_def recs_inv_def)
    then show "lf (snd (SetBalance H t acc)) (unat (leaf_index a tok)) =
        leaf_value H (balances (snd (SetBalance H t acc)) (a, tok))"
      using leaf_index_slots [OF s slot c(3)] by (auto simp: lf bal leaf_value_def)
  qed
  then show "db_inv H d (snd (SetBalance H t acc))" using tinv' by (simp add: db_inv_def)
  have "mt_kv (snd (SetBalance H t acc)) (pubkeyKey pk) = mt_kv t (pubkeyKey pk)" for pk
    by (subst frame) (simp_all add: not_sym [OF text_keys(1)] not_sym [OF text_keys(2)] not_sym [OF text_keys(3)])
  moreover have "mt_kv (snd (SetBalance H t acc)) nextIdKey = mt_kv t nextIdKey"
    by (subst frame) (simp_all add: not_sym [OF text_keys(1)] not_sym [OF text_keys(2)] not_sym [OF text_keys(3)])
  moreover have "mt_kv (snd (SetBalance H t acc)) (metaKey key) = mt_kv t (metaKey key)" for key
    by (subst frame) (simp_all add: not_sym [OF text_keys(1)] not_sym [OF text_keys(2)] not_sym [OF text_keys(3)])
  ultimately show "same_tables t (snd (SetBalance H t acc))" by (simp add: same_tables_def)
qed

lemma db_inv_put:
  assumes inv: "db_inv H d t" and k: "text_key k" "\<And>a tok. k \<noteq> balanceKey a tok"
  shows "db_inv H d (t\<lparr>mt_kv := (mt_kv t)(k \<mapsto> v)\<rparr>)"
    and "balances (t\<lparr>mt_kv := (mt_kv t)(k \<mapsto> v)\<rparr>) = balances t"
    and "Root (t\<lparr>mt_kv := (mt_kv t)(k \<mapsto> v)\<rparr>) = Root t"
proof -
  let ?t = "t\<lparr>mt_kv := (mt_kv t)(k \<mapsto> v)\<rparr>"
  show b: "balances ?t = balances t"
    using k(2) by (auto simp: balances_def fun_eq_iff)
  have kv: "mt_kv ?t (balanceKey a tok) = mt_kv t (balanceKey a tok)" for a tok
    using k(2) by (auto dest: not_sym)
  have "recs_inv H d ?t" unfolding recs_inv_def b lf_put [OF k(1)] kv
    using inv by (simp add: db_inv_def recs_inv_def)
  then show "db_inv H d ?t" using tree_inv_put [OF db_inv_tree [OF inv] k(1)] by (simp add: db_inv_def)
  have "mt_depth t < 2 ^ 24" using tree_invD(2,3) [OF db_inv_tree [OF inv]] by simp
  then show "Root ?t = Root t" using getNode_put [OF k(1)] by (simp add: Root_def)
qed

lemma SetMeta_ok:
  assumes "db_inv H d t"
  shows "fst (SetMeta t key v) = Inr ()" "db_inv H d (snd (SetMeta t key v))"
    "balances (snd (SetMeta t key v)) = balances t" "Root (snd (SetMeta t key v)) = Root t"
    "GetMeta (snd (SetMeta t key v)) key' = (if key' = key then Inr (Some v) else GetMeta t key')"
proof -
  have eq: "SetMeta t key v = (Inr (), t\<lparr>mt_kv := (mt_kv t)(metaKey key \<mapsto> VBytes v)\<rparr>)"
    using tree_invD(8) [OF db_inv_tree [OF assms]] by (simp add: SetMeta_def db_Put_def)
  show "fst (SetMeta t key v) = Inr ()" by (simp add: eq)
  show "db_inv H d (snd (SetMeta t key v))" "balances (snd (SetMeta t key v)) = balances t"
    "Root (snd (SetMeta t key v)) = Root t"
    using db_inv_put [OF assms, of "metaKey key" "VBytes v"] by (simp_all add: eq not_sym [OF text_keys(1)])
  show "GetMeta (snd (SetMeta t key v)) key' = (if key' = key then Inr (Some v) else GetMeta t key')"
    using tree_invD(7) [OF db_inv_tree [OF assms]] by (simp add: eq GetMeta_def db_Get_def)
qed

section \<open>Account ids\<close>

definition next_id :: "mtree \<Rightarrow> u64" where
  "next_id t = (case mt_kv t nextIdKey of Some (VBytes b) \<Rightarrow> of_nat (be_dec b) | _ \<Rightarrow> 0)"

definition account_ids :: "mtree \<Rightarrow> string \<Rightarrow> u64 option" where
  "account_ids t pk = (case mt_kv t (pubkeyKey pk) of Some (VBytes b) \<Rightarrow> Some (of_nat (be_dec b)) | _ \<Rightarrow> None)"

definition ids_inv :: "mtree \<Rightarrow> bool" where
  "ids_inv t \<longleftrightarrow>
     no_faults t \<and>
     (\<forall>v. mt_kv t nextIdKey = Some v \<longrightarrow> (\<exists>w :: u64. v = VBytes (be_enc 8 (unat w)))) \<and>
     (\<forall>pk v. mt_kv t (pubkeyKey pk) = Some v \<longrightarrow>
        (\<exists>w :: u64. v = VBytes (be_enc 8 (unat w)) \<and> w < next_id t)) \<and>
     (\<forall>pk pk' a. account_ids t pk = Some a \<longrightarrow> account_ids t pk' = Some a \<longrightarrow> pk = pk')"

lemma of_nat_be_dec [simp]: "of_nat (be_dec (be_enc 8 (unat (w :: u64)))) = w"
proof -
  have "unat w < 256 ^ 8" using unsigned_less [of w] by simp
  then show ?thesis by (simp add: be_dec_enc)
qed

lemma read_u64_be_enc [simp]: "read_u64 (be_enc 8 (unat (w :: u64))) = Inr w"
  by (simp add: read_u64_def)

lemma ids_inv_start: "no_faults t \<Longrightarrow> (\<And>pk. mt_kv t (pubkeyKey pk) = None) \<Longrightarrow> mt_kv t nextIdKey = None \<Longrightarrow> ids_inv t"
  by (simp add: ids_inv_def account_ids_def)

definition with_id :: "mtree \<Rightarrow> string \<Rightarrow> mtree" where
  "with_id t pk = t\<lparr>mt_kv := (mt_kv t)(nextIdKey \<mapsto> VBytes (be_enc 8 (unat (next_id t + 1))),
                                      pubkeyKey pk \<mapsto> VBytes (be_enc 8 (unat (next_id t))))\<rparr>"

lemma GetNextAccountID_ok:
  assumes "ids_inv t"
  shows "GetNextAccountID t =
    (Inr (next_id t), t\<lparr>mt_kv := (mt_kv t)(nextIdKey \<mapsto> VBytes (be_enc 8 (unat (next_id t + 1))))\<rparr>)"
  using assms
  by (cases "mt_kv t nextIdKey")
    (auto simp: ids_inv_def no_faults_def GetNextAccountID_def db_Get_def db_Put_def next_id_def)

lemma GetAccountID_ok:
  fixes hex :: string
  assumes "ids_inv t"
  defines "pk \<equiv> trim_prefix ''0x'' hex"
  shows "GetAccountID t hex =
    (case account_ids t pk of Some a \<Rightarrow> (Inr a, t) | None \<Rightarrow> (Inr (next_id t), with_id t pk))"
proof (cases "mt_kv t (pubkeyKey pk)")
  case None
  then have "account_ids t pk = None" by (simp add: account_ids_def)
  then show ?thesis
    using assms(1) None
    by (simp add: GetAccountID_def Let_def db_Get_def GetNextAccountID_ok ids_inv_def no_faults_def
        db_Put_def with_id_def flip: pk_def)
next
  case (Some v)
  then obtain w :: u64 where w: "v = VBytes (be_enc 8 (unat w))" using assms(1) unfolding ids_inv_def by blast
  then have "account_ids t pk = Some w" using Some by (simp add: account_ids_def)
  then show ?thesis
    using assms(1) Some w
    by (simp add: GetAccountID_def Let_def db_Get_def ids_inv_def no_faults_def flip: pk_def)
qed

lemma with_id_tables:
  "account_ids (with_id t pk) = (account_ids t)(pk \<mapsto> next_id t)" "next_id (with_id t pk) = next_id t + 1"
  by (auto simp: with_id_def account_ids_def next_id_def fun_eq_iff text_keys(6) not_sym [OF text_keys(6)])

lemma account_ids_less: "ids_inv t \<Longrightarrow> account_ids t pk = Some a \<Longrightarrow> a < next_id t"
  by (fastforce simp: ids_inv_def account_ids_def split: option.splits dbval.splits)

lemma with_id_inv:
  assumes inv: "ids_inv t" and "account_ids t pk = None" and room: "unat (next_id t) + 1 < 2 ^ 64"
  shows "ids_inv (with_id t pk)"
proof -
  have lt: "next_id t < next_id t + 1" "a < next_id t \<Longrightarrow> a < next_id t + 1" for a
    using room by (simp_all add: word_less_nat_alt unat_word_ariths)
  have n: "mt_kv (with_id t pk) nextIdKey = Some (VBytes (be_enc 8 (unat (next_id t + 1))))"
    by (simp add: with_id_def not_sym [OF text_keys(6)])
  have p: "mt_kv (with_id t pk) (pubkeyKey pk') =
      (if pk' = pk then Some (VBytes (be_enc 8 (unat (next_id t)))) else mt_kv t (pubkeyKey pk'))" for pk'
    by (simp add: with_id_def)
  have "\<exists>w :: u64. v = VBytes (be_enc 8 (unat w)) \<and> w < next_id t + 1"
    if kv: "mt_kv (with_id t pk) (pubkeyKey pk') = Some v" for pk' v
  proof (cases "pk' = pk")
    case True
    then show ?thesis using kv lt(1) by (auto simp: p)
  next
    case False
    have "mt_kv t (pubkeyKey pk') = Some v" using kv False by (simp add: p)
    then have "\<exists>w :: u64. v = VBytes (be_enc 8 (unat w)) \<and> w < next_id t"
      using inv by (simp only: ids_inv_def)
    then show ?thesis using lt(2) by blast
  qed
  moreover have "no_faults (with_id t pk)" using inv by (simp add: ids_inv_def no_faults_def with_id_def)
  moreover have "pk1 = pk2"
    if "account_ids (with_id t pk) pk1 = Some a" "account_ids (with_id t pk) pk2 = Some a" for pk1 pk2 a
    using that inv account_ids_less [OF inv] unfolding with_id_tables ids_inv_def
    by (auto split: if_splits)
  ultimately show ?thesis unfolding ids_inv_def n with_id_tables by blast
qed

lemma with_id_db:
  assumes "db_inv H d t"
  shows "db_inv H d (with_id t pk)" "balances (with_id t pk) = balances t" "Root (with_id t pk) = Root t"
proof -
  let ?t1 = "t\<lparr>mt_kv := (mt_kv t)(nextIdKey \<mapsto> VBytes (be_enc 8 (unat (next_id t + 1))))\<rparr>"
  have eq: "with_id t pk = ?t1\<lparr>mt_kv := (mt_kv ?t1)(pubkeyKey pk \<mapsto> VBytes (be_enc 8 (unat (next_id t))))\<rparr>"
    by (simp add: with_id_def)
  have 1: "db_inv H d ?t1" "balances ?t1 = balances t" "Root ?t1 = Root t"
    using db_inv_put [OF assms, of nextIdKey] by (simp_all add: not_sym [OF text_keys(3)])
  show "db_inv H d (with_id t pk)" "balances (with_id t pk) = balances t" "Root (with_id t pk) = Root t"
    using db_inv_put [OF 1(1), of "pubkeyKey pk"] 1(2,3) unfolding eq
    by (simp_all add: not_sym [OF text_keys(2)] del: fun_upd_apply)
qed

text \<open>Every operation of the tree keeps the two invariants.\<close>

lemma same_tables_ids:
  "same_tables t t' \<Longrightarrow> no_faults t' \<Longrightarrow> ids_inv t \<Longrightarrow> ids_inv t'"
  by (simp add: same_tables_def ids_inv_def account_ids_def next_id_def)

section \<open>The root is a function of the balances\<close>

definition map_leaves :: "(int list \<Rightarrow> int) \<Rightarrow> (u64 \<times> u32 \<Rightarrow> balance_state option) \<Rightarrow> nat \<Rightarrow> int" where
  "map_leaves H B j = leaf_value H (B (of_nat (j div 256), of_nat (j mod 256)))"

definition map_root :: "(int list \<Rightarrow> int) \<Rightarrow> nat \<Rightarrow> (u64 \<times> u32 \<Rightarrow> balance_state option) \<Rightarrow> int" where
  "map_root H d B = tnode H (map_leaves H B) d 0"

lemma slot_of_leaf:
  assumes "8 \<le> d" "d < 64" "j < 2 ^ d"
  defines "a \<equiv> of_nat (j div 256) :: u64" and "tok \<equiv> of_nat (j mod 256) :: u32"
  shows "slot_ok d a tok" "unat (leaf_index a tok) = j"
proof -
  have e: "(2 :: nat) ^ d = 2 ^ (d - 8) * 2 ^ 8"
    using assms(1) by (simp only: power_add [symmetric] le_add_diff_inverse2)
  have q: "j div 256 < 2 ^ (d - 8)" using assms(3) unfolding e by (simp add: less_mult_imp_div_less)
  have a: "unat a = j div 256"
    unfolding a_def by (rule unat_of_nat_u64 [OF q]) (use assms(2) in simp)
  have "j mod 256 < 256" by simp
  then have "j mod 256 < 2 ^ 32" by (rule less_le_trans) simp
  then have t: "unat tok = j mod 256" by (simp add: tok_def unat_of_nat)
  show s: "slot_ok d a tok" using q assms(1) by (simp add: slot_ok_def a t)
  show "unat (leaf_index a tok) = j" using slot_okD(1) [OF s assms(2)] by (simp add: a t)
qed

lemma Root_map_root:
  assumes inv: "db_inv H d t" and "8 \<le> d"
  shows "Root t = map_root H d (balances t)"
proof -
  have d: "d < 64" by (rule tree_invD(3) [OF db_inv_tree [OF inv]])
  have "lf t j = map_leaves H (balances t) j" if "j < 2 ^ d" for j
    using slot_of_leaf [OF assms(2) d that] inv unfolding db_inv_def recs_inv_def map_leaves_def by metis
  then have "tnode H (lf t) d 0 = tnode H (map_leaves H (balances t)) d 0"
    by (intro tnode_cong) (simp add: div_eq_0_iff)
  then show ?thesis by (simp add: Root_spec [OF db_inv_tree [OF inv]] map_root_def)
qed

lemma New_db_inv:
  assumes "canonical H" "d < 64"
  shows "db_inv H d (NewLevelDBMerkleTree H Map.empty d)"
    "balances (NewLevelDBMerkleTree H Map.empty d) = Map.empty"
    "ids_inv (NewLevelDBMerkleTree H Map.empty d)"
proof -
  let ?t = "NewLevelDBMerkleTree H Map.empty d"
  have kv: "mt_kv ?t = Map.empty" by (simp add: NewLevelDBMerkleTree_def)
  show b: "balances ?t = Map.empty" by (rule ext) (simp add: balances_def kv split_beta)
  show "db_inv H d ?t"
    using NewLevelDBMerkleTree_inv [OF assms, of Map.empty] by (simp add: db_inv_def recs_inv_def kv b leaf_value_def)
  show "ids_inv ?t" by (rule ids_inv_start) (simp_all add: kv, simp add: no_faults_def NewLevelDBMerkleTree_def)
qed

section \<open>Writing a list of records\<close>

definition set_all :: "(int list \<Rightarrow> int) \<Rightarrow> mtree \<Rightarrow> balance_state list \<Rightarrow> mtree" where
  "set_all H t accs = foldl (\<lambda>t acc. snd (SetBalance H t acc)) t accs"

definition record_all ::
  "(u64 \<times> u32 \<Rightarrow> balance_state option) \<Rightarrow> balance_state list \<Rightarrow> u64 \<times> u32 \<Rightarrow> balance_state option" where
  "record_all B accs = foldl (\<lambda>B acc. B((bs_AccountID acc, bs_TokenID acc) \<mapsto> acc)) B accs"

lemma set_all_simps [simp]:
  "set_all H t [] = t" "set_all H t (acc # accs) = set_all H (snd (SetBalance H t acc)) accs"
  "record_all B [] = B"
  "record_all B (acc # accs) = record_all (B((bs_AccountID acc, bs_TokenID acc) \<mapsto> acc)) accs"
  by (simp_all add: set_all_def record_all_def)

lemma set_all_ok:
  assumes "db_inv H d t" and "\<forall>acc \<in> set accs. slot_ok d (bs_AccountID acc) (bs_TokenID acc)"
  shows "db_inv H d (set_all H t accs) \<and> balances (set_all H t accs) = record_all (balances t) accs"
  using assms
proof (induction accs arbitrary: t)
  case (Cons acc accs)
  have s: "slot_ok d (bs_AccountID acc) (bs_TokenID acc)" using Cons.prems by simp
  show ?case
    using Cons.IH [of "snd (SetBalance H t acc)"] Cons.prems(2) SetBalance_ok(2,3) [OF Cons.prems(1) s]
    by (simp only: set_all_simps list.set) blast
qed simp

definition demo_account :: "u64 \<Rightarrow> u32 \<Rightarrow> int \<Rightarrow> balance_state" where
  "demo_account a tok bal =
     \<lparr>bs_AccountID = a, bs_TokenID = tok, bs_PubKeyX = 3, bs_PubKeyY = 4, bs_Balance = bal, bs_Nonce = 0\<rparr>"

definition demo_db :: mtree where
  "demo_db = NewLevelDBMerkleTree (mimc_hash []) Map.empty 28"

lemma demo_db_inv [simp]: "db_inv (mimc_hash []) 28 demo_db" "ids_inv demo_db"
  by (simp_all add: demo_db_def New_db_inv mimc_hash_canonical)

lemma demo_slot [simp]:
  "slot_ok 28 (bs_AccountID (demo_account 0 tok bal)) (bs_TokenID (demo_account 0 tok bal)) \<longleftrightarrow> unat tok < 256"
  by (simp add: slot_ok_def demo_account_def)

section \<open>Properties of the state tree\<close>

text \<open>
  C9: the database tree refines a map from (account, token) to balance records. From an empty
  database, after any sequence of \<open>SetBalance\<close> calls in range, reading gives the last record
  written, and the root is the root of that map and nothing else.
\<close>
theorem state_tree_refines_map:
  assumes "canonical H" and "8 \<le> d" "d < 64"
    and "\<forall>acc \<in> set accs. slot_ok d (bs_AccountID acc) (bs_TokenID acc)"
  shows "GetBalance (set_all H (NewLevelDBMerkleTree H Map.empty d) accs) a tok =
           Inr (record_all Map.empty accs (a, tok)) \<and>
         Root (set_all H (NewLevelDBMerkleTree H Map.empty d) accs) = map_root H d (record_all Map.empty accs)"
  using set_all_ok [OF New_db_inv(1) [OF assms(1,3)] assms(4)] New_db_inv(2) [OF assms(1,3)]
    Root_map_root [OF _ assms(2)] GetBalance_balances by metis

theorem state_tree_refines_map_witness:
  "Root (set_all (mimc_hash []) (NewLevelDBMerkleTree (mimc_hash []) Map.empty 28) [demo_account 0 1 5]) =
   map_root (mimc_hash []) 28 (record_all Map.empty [demo_account 0 1 5])"
  using state_tree_refines_map [OF mimc_hash_canonical, of 28 "[demo_account 0 1 5]"] by simp

text \<open>
  The root does not depend on history. Two sequences of writes that leave the same records
  leave the same root, in whatever order and however often they wrote.
\<close>
theorem root_history_independent:
  assumes "db_inv H d t" "db_inv H d t'" "8 \<le> d"
    and "\<forall>acc \<in> set accs \<union> set accs'. slot_ok d (bs_AccountID acc) (bs_TokenID acc)"
    and "record_all (balances t) accs = record_all (balances t') accs'"
  shows "Root (set_all H t accs) = Root (set_all H t' accs')"
proof -
  have "db_inv H d (set_all H t accs) \<and> balances (set_all H t accs) = record_all (balances t) accs"
    and "db_inv H d (set_all H t' accs') \<and> balances (set_all H t' accs') = record_all (balances t') accs'"
    using set_all_ok assms(1,2,4) by blast+
  then show ?thesis using Root_map_root [OF _ assms(3)] assms(5) by metis
qed

theorem root_history_independent_witness:
  "Root (set_all (mimc_hash []) demo_db [demo_account 0 1 5, demo_account 0 2 7]) =
   Root (set_all (mimc_hash []) demo_db [demo_account 0 2 9, demo_account 0 2 7, demo_account 0 1 5])"
  by (rule root_history_independent [OF demo_db_inv(1) demo_db_inv(1)])
    (auto simp: record_all_def demo_account_def slot_ok_def)

text \<open>
  C31: the path \<open>GetPath\<close> returns before a write proves both roots: folding it over the old leaf
  value (0 for a slot never written) gives the root before the write, and folding the same path
  over the new leaf gives the root after it. This is what the circuit checks per leg.
\<close>
theorem GetPath_proves_update:
  assumes "db_inv H d t" and "slot_ok d (bs_AccountID acc) (bs_TokenID acc)"
  shows "let w = leaf_index (bs_AccountID acc) (bs_TokenID acc); (path, bits) = GetPath t w in
           fold_path H (leaf_value H (balances t (bs_AccountID acc, bs_TokenID acc))) path (map unat bits) = Root t \<and>
           fold_path H (account_leaf H acc) path (map unat bits) = Root (snd (SetBalance H t acc)) \<and>
           bits_index (map unat bits) = unat w"
proof -
  let ?w = "leaf_index (bs_AccountID acc) (bs_TokenID acc)"
  note tinv = db_inv_tree [OF assms(1)]
  note c = tree_invD [OF tinv]
  have w: "unat ?w < 2 ^ d" by (rule slot_okD(2) [OF assms(2) c(3)])
  have lf: "lf t (unat ?w) = leaf_value H (balances t (bs_AccountID acc, bs_TokenID acc))"
    using assms by (simp add: db_inv_def recs_inv_def)
  have "fold_path H (account_leaf H acc) (fst (GetPath t ?w)) (map unat (snd (GetPath t ?w))) =
      Root (snd (SetBalance H t acc))"
    using w SetBalance_ok(2,4) [OF assms]
    by (simp add: GetPath_spec [OF tinv] fold_spath Root_spec [OF db_inv_tree])
  then show ?thesis
    using db_tree.membership [OF tinv w] db_tree.bits_of_index [OF tinv w] by (simp add: split_beta lf)
qed

theorem GetPath_proves_update_witness:
  "fold_path (mimc_hash []) (account_leaf (mimc_hash []) (demo_account 0 1 5))
     (fst (GetPath demo_db 1)) (map unat (snd (GetPath demo_db 1))) =
   Root (snd (SetBalance (mimc_hash []) demo_db (demo_account 0 1 5)))"
  using GetPath_proves_update [OF demo_db_inv(1), of "demo_account 0 1 5"]
  by (simp add: split_beta) (simp add: demo_account_def leaf_index_def)

text \<open>A hash that counts the levels of a tree with one leaf; no two inputs of that tree collide.\<close>

definition level_hash :: "int list \<Rightarrow> int" where
  "level_hash xs = (if xs = [0, 0] then 0 else if length xs = 5 then 1 else (hd xs + 1) mod fr_modulus)"

lemma level_hash_canonical: "canonical level_hash"
  by (auto simp: canonical_def level_hash_def) (simp add: fr_modulus_def)

lemma level_hash_zero: "(\<And>j. j div 2 ^ l = i \<Longrightarrow> m j = 0) \<Longrightarrow> tnode level_hash m l i = 0"
proof -
  assume "\<And>j. j div 2 ^ l = i \<Longrightarrow> m j = 0"
  then have "tnode level_hash m l i = tnode level_hash (\<lambda>_. 0) l i" by (rule tnode_cong)
  also have "\<dots> = 0" by (induction l arbitrary: i) (simp_all add: level_hash_def)
  finally show ?thesis .
qed

lemma replicate_8: "replicate 8 x = [x, x, x, x, x, x, x, x]"
  by (simp add: eval_nat_numeral)

lemma level_hash_spath: "spath level_hash ((\<lambda>_. 0)(0 := v)) d 0 = replicate d 0"
proof (rule nth_equalityI)
  fix l assume "l < length (spath level_hash ((\<lambda>_. 0)(0 := v)) d 0)"
  moreover have "tnode level_hash ((\<lambda>_. 0)(0 := v)) l 1 = 0" by (rule level_hash_zero) auto
  ultimately show "spath level_hash ((\<lambda>_. 0)(0 := v)) d 0 ! l = replicate d 0 ! l"
    by (simp add: spath_def sib_def)
qed simp

definition leaf_preimage :: "balance_state \<Rightarrow> int list" where
  "leaf_preimage acc = [uint (leaf_index (bs_AccountID acc) (bs_TokenID acc)), fr (bs_PubKeyX acc),
     fr (bs_PubKeyY acc), fr (bs_Balance acc), uint (bs_Nonce acc)]"

lemma account_leaf_preimage: "canonical H \<Longrightarrow> account_leaf H acc = H (leaf_preimage acc)"
  by (simp add: account_leaf_def HashAccountLeaf_def leaf_preimage_def)

text \<open>
  C32: the root binds the balances. A record that opens the root at its slot, along whatever
  path, is the stored record up to reduction of its numbers into the field, and the path is the
  stored one, as long as the hash has no collision among the tuples the two openings hash.
\<close>
theorem root_binds_balance:
  assumes inv: "db_inv H d t" and slot: "slot_ok d (bs_AccountID acc) (bs_TokenID acc)"
    and stored: "balances t (bs_AccountID acc, bs_TokenID acc) = Some acc0"
    and path: "GetPath t (leaf_index (bs_AccountID acc) (bs_TokenID acc)) = (path, bits)"
    and opens: "length ps = d" "fold_path H (account_leaf H acc) ps (map unat bits) = Root t"
    and inj: "inj_on H ({leaf_preimage acc, leaf_preimage acc0} \<union>
                set (path_inputs H (account_leaf H acc0) path (map unat bits)) \<union>
                set (path_inputs H (account_leaf H acc) ps (map unat bits)))"
  shows "leaf_preimage acc = leaf_preimage acc0 \<and> ps = path"
proof -
  let ?w = "leaf_index (bs_AccountID acc) (bs_TokenID acc)"
  note tinv = db_inv_tree [OF inv]
  note c = tree_invD [OF tinv]
  have w: "unat ?w < 2 ^ d" by (rule slot_okD(2) [OF slot c(3)])
  have lf: "lf t (unat ?w) = account_leaf H acc0"
    using inv slot stored by (simp add: db_inv_def recs_inv_def leaf_value_def)
  have p: "fst (GetPath t (of_nat (unat ?w))) = path" "map unat (snd (GetPath t (of_nat (unat ?w)))) = map unat bits"
    by (simp_all add: path)
  have eq: "account_leaf H acc = lf t (unat ?w) \<and> ps = fst (GetPath t (of_nat (unat ?w)))"
    by (rule db_tree.opening_unique [OF tinv w opens(1)], unfold p lf)
      (use opens(2) inj in \<open>auto elim: inj_on_subset\<close>)
  then have "H (leaf_preimage acc) = H (leaf_preimage acc0)"
    by (simp add: lf account_leaf_preimage [OF c(1)])
  then have "leaf_preimage acc = leaf_preimage acc0" using inj by (auto dest: inj_onD)
  then show ?thesis using eq by (simp add: path)
qed

theorem root_binds_balance_witness:
  "\<exists>t path bits. GetPath t 0 = (path, bits) \<and> balances t (0, 0) = Some (demo_account 0 0 5) \<and>
     leaf_preimage (demo_account 0 0 5 \<lparr>bs_PubKeyX := 3 + fr_modulus\<rparr>) = leaf_preimage (demo_account 0 0 5)"
proof -
  let ?acc = "demo_account 0 0 5" and ?e = "NewLevelDBMerkleTree level_hash Map.empty 8"
  let ?x = "?acc\<lparr>bs_PubKeyX := 3 + fr_modulus\<rparr>" and ?t = "snd (SetBalance level_hash ?e ?acc)"
  have new: "db_inv level_hash 8 ?e" by (rule New_db_inv(1) [OF level_hash_canonical]) simp
  have slot: "slot_ok 8 (bs_AccountID ?acc) (bs_TokenID ?acc)" by (simp add: slot_ok_def demo_account_def)
  then have slotx: "slot_ok 8 (bs_AccountID ?x) (bs_TokenID ?x)" by simp
  note ok = SetBalance_ok [OF new slot]
  have w: "leaf_index (bs_AccountID ?x) (bs_TokenID ?x) = 0" "leaf_index (bs_AccountID ?acc) (bs_TokenID ?acc) = 0"
    by (simp_all add: leaf_index_def demo_account_def)
  have leaf: "account_leaf level_hash ?acc = 1" "account_leaf level_hash ?x = 1"
    by (simp_all add: account_leaf_def HashAccountLeaf_def level_hash_def)
  have lf0: "lf ?e = (\<lambda>_. 0)" by (rule NewLevelDBMerkleTree_inv(2) [OF level_hash_canonical]) simp_all
  have lf: "lf ?t = (\<lambda>_. 0)(0 := 1)" using ok(4) lf0 by (simp add: leaf w)
  obtain path bits where p: "GetPath ?t (leaf_index (bs_AccountID ?x) (bs_TokenID ?x)) = (path, bits)" by fastforce
  have path: "path = replicate 8 0" and bits: "map unat bits = replicate 8 0"
    using GetPath_spec [OF db_inv_tree [OF ok(2)], of "leaf_index (bs_AccountID ?x) (bs_TokenID ?x)"] p
    by (simp_all add: lf w level_hash_spath) (simp add: sbits_def numeral_eq_Suc)
  have bal: "balances ?t (bs_AccountID ?x, bs_TokenID ?x) = Some ?acc" by (simp add: ok(3))
  have opens: "fold_path level_hash (account_leaf level_hash ?x) path (map unat bits) = Root ?t"
    using GetPath_spec [OF db_inv_tree [OF ok(2)], of "leaf_index (bs_AccountID ?x) (bs_TokenID ?x)"] p
      fold_spath_same [of level_hash "lf ?t" 0 8] Root_spec [OF db_inv_tree [OF ok(2)]]
    by (simp add: w leaf lf)
  have inputs: "path_inputs level_hash 1 path (map unat bits) =
      [[1, 0], [2, 0], [3, 0], [4, 0], [5, 0], [6, 0], [7, 0], [8, 0]]"
    unfolding path bits replicate_8 by (simp add: Let_def level_hash_def fr_modulus_def)
  have pre: "leaf_preimage ?x = [0, 3, 4, 5, 0]" "leaf_preimage ?acc = [0, 3, 4, 5, 0]"
    by (simp_all add: leaf_preimage_def w) (simp_all add: demo_account_def fr_def fr_modulus_def)
  let ?hashed = "[[0, 3, 4, 5, 0], [1, 0], [2, 0], [3, 0], [4, 0], [5, 0], [6, 0], [7, 0], [8, 0]]"
  have "map level_hash ?hashed = [1, 2, 3, 4, 5, 6, 7, 8, 9]" by (simp add: level_hash_def fr_modulus_def)
  then have "distinct (map level_hash ?hashed)" by simp
  then have "inj_on level_hash (set ?hashed)" by (simp only: distinct_map)
  then have inj: "inj_on level_hash ({leaf_preimage ?x, leaf_preimage ?acc} \<union>
      set (path_inputs level_hash (account_leaf level_hash ?acc) path (map unat bits)) \<union>
      set (path_inputs level_hash (account_leaf level_hash ?x) path (map unat bits)))"
    unfolding leaf inputs pre by (rule inj_on_subset) auto
  have "length path = 8" by (simp add: path)
  then have "leaf_preimage ?x = leaf_preimage ?acc \<and> path = path"
    by (rule root_binds_balance [OF ok(2) slotx bal p _ opens inj])
  moreover have "(bs_AccountID ?x, bs_TokenID ?x) = (0, 0)" by (simp add: demo_account_def)
  ultimately show ?thesis
    using p bal unfolding w by (intro exI [of _ ?t] exI [of _ path] exI [of _ bits] conjI) simp_all
qed

text \<open>
  Account ids. A key is given an id once and keeps it, with or without its 0x prefix;
  asking again changes nothing; no other key has or loses an id; balances and root stay.
\<close>
theorem account_ids_stable:
  assumes inv: "ids_inv t" "db_inv H d t" and room: "unat (next_id t) + 1 < 2 ^ 64"
  shows "\<exists>a t'. GetAccountID t pk = (Inr a, t') \<and>
     (\<forall>pk'. trim_prefix ''0x'' pk' = trim_prefix ''0x'' pk \<longrightarrow> GetAccountID t' pk' = (Inr a, t')) \<and>
     (\<forall>pk'. pk' \<noteq> trim_prefix ''0x'' pk \<longrightarrow> account_ids t' pk' = account_ids t pk' \<and> account_ids t' pk' \<noteq> Some a) \<and>
     ids_inv t' \<and> db_inv H d t' \<and> balances t' = balances t \<and> Root t' = Root t"
proof (cases "account_ids t (trim_prefix ''0x'' pk)")
  case None
  let ?t = "with_id t (trim_prefix ''0x'' pk)"
  have g: "GetAccountID t pk = (Inr (next_id t), ?t)" using None by (simp add: GetAccountID_ok [OF inv(1)])
  have i: "ids_inv ?t" by (rule with_id_inv [OF inv(1) None room])
  have "GetAccountID ?t pk' = (Inr (next_id t), ?t)" if "trim_prefix ''0x'' pk' = trim_prefix ''0x'' pk" for pk'
    using that by (simp add: GetAccountID_ok [OF i] with_id_tables)
  moreover have "account_ids t pk' \<noteq> Some (next_id t)" for pk' using account_ids_less [OF inv(1)] by blast
  ultimately show ?thesis using g i with_id_db [OF inv(2)] by (auto simp: with_id_tables)
next
  case (Some a)
  have "account_ids t pk' \<noteq> Some a" if "pk' \<noteq> trim_prefix ''0x'' pk" for pk'
    using Some that inv(1) unfolding ids_inv_def by blast
  then show ?thesis using Some inv by (intro exI [of _ a] exI [of _ t]) (simp add: GetAccountID_ok [OF inv(1)])
qed

theorem account_ids_stable_witness:
  "\<exists>a t'. GetAccountID demo_db ''0xab'' = (Inr a, t') \<and> GetAccountID t' ''ab'' = (Inr a, t')"
proof -
  have "unat (next_id demo_db) + 1 < 2 ^ 64"
    by (simp add: next_id_def demo_db_def NewLevelDBMerkleTree_def)
  from account_ids_stable [OF demo_db_inv(2,1) this, of "''0xab''"] show ?thesis
    by (auto simp: trim_prefix_def has_prefix_def)
qed

text \<open>
  C35: \<open>SetBalance\<close> is two database writes, and only the second is checked against the first by
  nobody. If the record's write succeeds and the batch of the nodes fails, the call reports an
  error, the new record is what \<open>GetBalance\<close> returns from then on, and the root is the old one.
\<close>
theorem SetBalance_not_atomic:
  assumes "mt_put_err t (balanceKey (bs_AccountID acc) (bs_TokenID acc)) = False"
    and "mt_put_err t (nodeKey 0 (leaf_index (bs_AccountID acc) (bs_TokenID acc)))"
    and "mt_get_err t = (\<lambda>_. False)" and "mt_depth t < 2 ^ 24"
  shows "\<exists>err t'. SetBalance H t acc = (Inl err, t') \<and> Root t' = Root t \<and>
     GetBalance t' (bs_AccountID acc) (bs_TokenID acc) = Inr (Some acc)"
proof -
  let ?k = "balanceKey (bs_AccountID acc) (bs_TokenID acc)"
  let ?t = "t\<lparr>mt_kv := (mt_kv t)(?k \<mapsto> VAccount acc)\<rparr>"
  have "SetBalance H t acc = (Inl ''leveldb: write'', ?t)"
    using assms(1,2) by (simp add: SetBalance_def db_Put_def Update_def db_Write_def)
  moreover have "Root ?t = Root t" using assms(4) getNode_put [of ?k "mt_depth t" t] by (simp add: Root_def)
  ultimately show ?thesis using assms(3) by (simp add: GetBalance_def db_Get_def)
qed

theorem SetBalance_not_atomic_witness:
  "\<exists>err t'. SetBalance (mimc_hash []) (demo_db\<lparr>mt_put_err := (\<lambda>k. k = nodeKey 0 1)\<rparr>) (demo_account 0 1 5) = (Inl err, t') \<and>
     GetBalance t' 0 1 = Inr (Some (demo_account 0 1 5))"
  using SetBalance_not_atomic [of "demo_db\<lparr>mt_put_err := (\<lambda>k. k = nodeKey 0 1)\<rparr>" "demo_account 0 1 5" "mimc_hash []"]
    not_sym [OF node_text_keys(1) [of 0 1]]
  by (auto simp: demo_account_def leaf_index_def demo_db_def NewLevelDBMerkleTree_def)

text \<open>
  C36: a token id is a 32-bit number of which the tree can hold 8 bits, and nothing rejects a
  larger one. A write for token 256 of account \<open>a\<close> lands on the leaf of token 0 of account
  \<open>a + 1\<close>: the stored record of that account is still read back, but the root no longer has it.
\<close>
theorem wide_token_overwrites_neighbour:
  assumes inv: "db_inv H d t" and acc: "bs_TokenID acc = 256"
    and slot: "slot_ok d (bs_AccountID acc + 1) 0"
  shows "let t' = snd (SetBalance H t acc) in
     lf t' (unat (leaf_index (bs_AccountID acc + 1) 0)) = account_leaf H acc \<and>
     GetBalance t' (bs_AccountID acc + 1) 0 = GetBalance t (bs_AccountID acc + 1) 0"
proof -
  let ?k = "balanceKey (bs_AccountID acc) (bs_TokenID acc)"
  let ?t = "t\<lparr>mt_kv := (mt_kv t)(?k \<mapsto> VAccount acc)\<rparr>"
  note tinv = db_inv_tree [OF inv] and c = tree_invD [OF db_inv_tree [OF inv]]
  have tinv1: "tree_inv H d ?t" by (rule tree_inv_put [OF tinv]) simp
  have v: "is_elem (account_leaf H acc)" by (rule account_leaf_elem [OF c(1)])
  have eq: "SetBalance H t acc = Update H ?t (leaf_index (bs_AccountID acc) (bs_TokenID acc)) (account_leaf H acc)"
    using c(8) by (simp add: SetBalance_def db_Put_def)
  have "leaf_index (bs_AccountID acc) (bs_TokenID acc) = leaf_index (bs_AccountID acc + 1) 0"
    by (simp add: leaf_index_def acc distrib_right)
  moreover have "mt_kv (snd (SetBalance H t acc)) (balanceKey (bs_AccountID acc + 1) 0) =
      mt_kv t (balanceKey (bs_AccountID acc + 1) 0)"
    unfolding eq using Update_frame [OF tinv1 v, of "balanceKey (bs_AccountID acc + 1) 0"] by (simp add: acc)
  moreover have "mt_get_err (snd (SetBalance H t acc)) = mt_get_err t"
    unfolding eq by (simp add: Update_ok [OF tinv1 v])
  ultimately show ?thesis
    by (simp add: eq Update_lf [OF tinv1 v] GetBalance_def db_Get_def)
qed

theorem wide_token_overwrites_neighbour_witness:
  "lf (snd (SetBalance (mimc_hash []) demo_db (demo_account 0 256 5))) 256 =
   account_leaf (mimc_hash []) (demo_account 0 256 5)"
  using wide_token_overwrites_neighbour [OF demo_db_inv(1), of "demo_account 0 256 5"]
  by (simp add: demo_account_def slot_ok_def leaf_index_def Let_def)

end
