(* ===== verification/CircuitTree.thy ===== *)
theory CircuitTree imports MerkleDB begin

unbundle bit_operations_syntax

text \<open>
  The prover's in-memory sparse Merkle tree, prover/circuits/merkle.go. It keeps only the leaves
  and recomputes nodes, addressing the node above a leaf by any leaf below it. The theory shows
  that it is a second implementation of the contract \<open>auth_tree\<close>, and so agrees with the
  database tree of the sequencer on roots and paths.
\<close>

record sparse_tree =
  sp_depth :: nat
  sp_leaves :: "u64 \<rightharpoonup> int"
  sp_zeroHashes :: "int list"

fun computeZeroHashes_circuit :: "(int list \<Rightarrow> int) \<Rightarrow> nat \<Rightarrow> int list" where
  "computeZeroHashes_circuit H 0 = [0]"
| "computeZeroHashes_circuit H (Suc n) =
     (let zs = computeZeroHashes_circuit H n; b = last zs in zs @ [fr (H [b, b])])"

definition NewSparseMerkleTree :: "(int list \<Rightarrow> int) \<Rightarrow> nat \<Rightarrow> sparse_tree" where
  "NewSparseMerkleTree H depth =
     \<lparr>sp_depth = depth, sp_leaves = Map.empty, sp_zeroHashes = computeZeroHashes_circuit H depth\<rparr>"

definition sp_Update :: "sparse_tree \<Rightarrow> u64 \<Rightarrow> int \<Rightarrow> sparse_tree" where
  "sp_Update t index value = t\<lparr>sp_leaves := (sp_leaves t)(index \<mapsto> value)\<rparr>"

fun sp_getNode :: "(int list \<Rightarrow> int) \<Rightarrow> sparse_tree \<Rightarrow> u64 \<Rightarrow> nat \<Rightarrow> int" where
  "sp_getNode H t index 0 =
     (case sp_leaves t index of Some val \<Rightarrow> val | None \<Rightarrow> sp_zeroHashes t ! 0)"
| "sp_getNode H t index (Suc l) =
     (let leftChildIdx = index AND NOT (push_bit l 1);
          rightChildIdx = index OR push_bit l 1;
          left = sp_getNode H t leftChildIdx l;
          right = sp_getNode H t rightChildIdx l
      in fr (H [left, right]))"

definition sp_GetPath :: "(int list \<Rightarrow> int) \<Rightarrow> sparse_tree \<Rightarrow> u64 \<Rightarrow> int list \<times> int list" where
  "sp_GetPath H t index =
     (map (\<lambda>i. sp_getNode H t (index XOR push_bit i 1) i) [0..<sp_depth t],
      map (\<lambda>i. uint (drop_bit i index AND 1)) [0..<sp_depth t])"

definition sp_Root :: "(int list \<Rightarrow> int) \<Rightarrow> sparse_tree \<Rightarrow> int" where
  "sp_Root H t = sp_getNode H t 0 (sp_depth t)"

definition circuit_HashAccountLeaf :: "(int list \<Rightarrow> int) \<Rightarrow> int \<Rightarrow> int \<Rightarrow> int \<Rightarrow> int \<Rightarrow> int \<Rightarrow> int" where
  "circuit_HashAccountLeaf H index pubX pubY balance nonce =
     fr (H [fr index, fr pubX, fr pubY, fr balance, fr nonce])"

section \<open>Addressing\<close>

lemma bit_unat_div: "bit (unat (w :: u64) div 2 ^ l) n = bit w (l + n)"
  by (simp add: bit_simps flip: drop_bit_eq_div)
lemma push1: "bit (push_bit l 1 :: u64) n \<longleftrightarrow> n = l \<and> l < 64"
  by (auto simp: bit_simps)
lemma unat_clear: "unat (w AND NOT (push_bit l 1) :: u64) div 2 ^ l = 2 * (unat w div 2 ^ Suc l)"
proof (rule bit_eqI)
  fix n
  show "bit (unat (w AND NOT (push_bit l 1)) div 2 ^ l) n = bit (2 * (unat w div 2 ^ Suc l)) n"
    by (cases n) (auto simp: bit_unat_div bit_double_iff bit_and_iff bit_not_iff push1 bit_exp_iff possible_bit_def simp del: power_Suc dest: bit_imp_le_length)
qed
lemma unat_set: "l < 64 \<Longrightarrow> unat (w OR push_bit l 1 :: u64) div 2 ^ l = 2 * (unat w div 2 ^ Suc l) + 1"
proof (rule bit_eqI)
  fix n assume l: "l < 64"
  have "bit (2 * (unat w div 2 ^ Suc l) + 1) n \<longleftrightarrow> bit (2 * (unat w div 2 ^ Suc l)) n \<or> n = 0"
    using even_bit_succ_iff [of "2 * (unat w div 2 ^ Suc l)" n] by (simp add: add.commute)
  also have "\<dots> \<longleftrightarrow> bit w (l + n) \<or> n = 0"
    by (cases n) (simp_all add: bit_unat_div bit_double_iff del: power_Suc)
  also have "\<dots> \<longleftrightarrow> bit (unat (w OR push_bit l 1) div 2 ^ l) n"
    using l by (auto simp: bit_unat_div bit_or_iff bit_exp_iff possible_bit_def)
  finally show "bit (unat (w OR push_bit l 1) div 2 ^ l) n = bit (2 * (unat w div 2 ^ Suc l) + 1) n" ..
qed
lemma unat_flip: "l < 64 \<Longrightarrow> unat (w XOR push_bit l 1 :: u64) div 2 ^ l = (unat w div 2 ^ l) XOR 1"
proof (rule bit_eqI)
  fix n assume "l < 64"
  then show "bit (unat (w XOR push_bit l 1) div 2 ^ l) n = bit ((unat w div 2 ^ l) XOR 1) n"
    by (auto simp: bit_unat_div bit_xor_iff push1 bit_exp_iff possible_bit_def bit_1_iff bit_Suc_0_iff)
qed

lemma sib_xor: "n XOR 1 = sib n"
  by (simp only: xor_one_eq) (simp add: sib_def)

section \<open>The tree meets the contract\<close>

definition sp_leaf :: "sparse_tree \<Rightarrow> nat \<Rightarrow> int" where
  "sp_leaf t j = (if j < 2 ^ 64 then case sp_leaves t (of_nat j) of Some v \<Rightarrow> v | None \<Rightarrow> 0 else 0)"

definition sp_inv :: "(int list \<Rightarrow> int) \<Rightarrow> nat \<Rightarrow> sparse_tree \<Rightarrow> bool" where
  "sp_inv H d t \<longleftrightarrow> canonical H \<and> sp_depth t = d \<and> d < 64 \<and> sp_zeroHashes t = computeZeroHashes_circuit H d"

lemma computeZeroHashes_agree: "computeZeroHashes_circuit H d = computeZeroHashes H d"
  by (induction d) simp_all

lemma sp_getNode_tnode:
  assumes inv: "sp_inv H d t" and "l \<le> d"
  shows "sp_getNode H t w l = tnode H (sp_leaf t) l (unat w div 2 ^ l)"
  using assms(2)
proof (induction l arbitrary: w)
  case 0
  have "unat w < 2 ^ 64" using unsigned_less [of w, where 'a = nat] by simp
  moreover have "sp_zeroHashes t ! 0 = 0"
    using inv computeZeroHashes_nth [of H 0 d 0] by (simp add: sp_inv_def computeZeroHashes_agree)
  ultimately show ?case by (simp add: sp_leaf_def split: option.split)
next
  case (Suc l)
  have l: "l < 64" "l \<le> d" using Suc.prems inv by (simp_all add: sp_inv_def)
  have "canonical H" using inv by (simp add: sp_inv_def)
  then show ?case
    using Suc.IH [OF l(2)] unat_clear [of w l] unat_set [OF l(1), of w]
    by (simp add: Let_def del: power_Suc)
qed

lemma sp_GetPath_spec:
  assumes inv: "sp_inv H d t"
  shows "fst (sp_GetPath H t w) = spath H (sp_leaf t) d (unat w)"
    and "map nat (snd (sp_GetPath H t w)) = sbits d (unat w)"
proof -
  have d: "sp_depth t = d" "d < 64" using inv by (simp_all add: sp_inv_def)
  have "sp_getNode H t (w XOR push_bit i 1) i = tnode H (sp_leaf t) i (sib (unat w div 2 ^ i))" if "i < d" for i
    using sp_getNode_tnode [OF inv, of i "w XOR push_bit i 1"] unat_flip [of i w] that d(2)
    by (simp only: sib_xor)
  then show "fst (sp_GetPath H t w) = spath H (sp_leaf t) d (unat w)"
    by (simp add: sp_GetPath_def spath_def d(1))
  have "nat (uint (drop_bit i w AND 1)) = unat w div 2 ^ i mod 2" for i
    unfolding and_one_eq unat_drop_bit_u64 [symmetric] unat_mod_2 [symmetric] by simp
  then show "map nat (snd (sp_GetPath H t w)) = sbits d (unat w)"
    by (simp add: sp_GetPath_def sbits_def d(1))
qed

lemma sp_Update_leaf: "sp_leaf (sp_Update t w v) = (sp_leaf t)(unat w := v)"
proof
  fix j
  have "unat w < 2 ^ 64" using unsigned_less [of w, where 'a = nat] by simp
  moreover have "j < 2 ^ 64 \<Longrightarrow> (of_nat j = w) = (j = unat w)"
    by (auto simp: word_unat_eq_iff unat_of_nat)
  ultimately show "sp_leaf (sp_Update t w v) j = ((sp_leaf t)(unat w := v)) j"
    by (auto simp: sp_leaf_def sp_Update_def)
qed

interpretation circuit_tree: auth_tree H d "sp_inv H d" "sp_Root H" sp_leaf
    "\<lambda>t i. fst (sp_GetPath H t (of_nat i))" "\<lambda>t i. map nat (snd (sp_GetPath H t (of_nat i)))"
    "\<lambda>i v t. sp_Update t (of_nat i) v" "\<lambda>_. True"
  for H d
proof unfold_locales
  fix s :: sparse_tree and i :: nat and v :: int
  assume inv: "sp_inv H d s"
  show "sp_Root H s = tnode H (sp_leaf s) d 0"
    using sp_getNode_tnode [OF inv, of d 0] inv by (simp add: sp_Root_def sp_inv_def)
  assume "i < 2 ^ d"
  then have u: "unat (of_nat i :: u64) = i" by (rule unat_of_nat_u64) (use inv in \<open>simp add: sp_inv_def\<close>)
  show "fst (sp_GetPath H s (of_nat i)) = spath H (sp_leaf s) d i"
    and "map nat (snd (sp_GetPath H s (of_nat i))) = sbits d i"
    using sp_GetPath_spec [OF inv, of "of_nat i"] by (simp_all add: u)
  show "sp_inv H d (sp_Update s (of_nat i) v)" using inv by (simp add: sp_inv_def sp_Update_def)
  show "sp_leaf (sp_Update s (of_nat i) v) = (sp_leaf s)(i := v)" by (simp add: sp_Update_leaf u)
qed

lemma NewSparseMerkleTree_inv:
  "canonical H \<Longrightarrow> d < 64 \<Longrightarrow> sp_inv H d (NewSparseMerkleTree H d)"
  "sp_leaf (NewSparseMerkleTree H d) = (\<lambda>_. 0)"
  by (auto simp: sp_inv_def NewSparseMerkleTree_def sp_leaf_def)

lemma HashAccountLeaf_agree: "circuit_HashAccountLeaf H = HashAccountLeaf H"
  by (intro ext) (simp add: circuit_HashAccountLeaf_def HashAccountLeaf_def)

section \<open>Property\<close>

text \<open>A run of leaf writes on the in-memory tree and on the database tree.\<close>

definition sp_writes :: "sparse_tree \<Rightarrow> (u64 \<times> int) list \<Rightarrow> sparse_tree" where
  "sp_writes t ws = foldl (\<lambda>t (w, v). sp_Update t w v) t ws"

definition db_writes :: "(int list \<Rightarrow> int) \<Rightarrow> mtree \<Rightarrow> (u64 \<times> int) list \<Rightarrow> mtree" where
  "db_writes H t ws = foldl (\<lambda>t (w, v). snd (Update H t w v)) t ws"

lemma writes_agree:
  assumes "sp_inv H d s" "tree_inv H d t" "sp_leaf s = lf t" "\<forall>(w, v) \<in> set ws. is_elem v"
  shows "sp_inv H d (sp_writes s ws) \<and> tree_inv H d (db_writes H t ws) \<and> sp_leaf (sp_writes s ws) = lf (db_writes H t ws)"
  using assms
proof (induction ws arbitrary: s t)
  case (Cons p ws)
  obtain w v where p: "p = (w, v)" by fastforce
  have v: "is_elem v" using Cons.prems(4) by (simp add: p)
  have "sp_inv H d (sp_Update s w v)" using Cons.prems(1) by (simp add: sp_inv_def sp_Update_def)
  moreover have "sp_leaf (sp_Update s w v) = lf (snd (Update H t w v))"
    by (simp add: sp_Update_leaf Update_lf [OF Cons.prems(2) v] Cons.prems(3))
  ultimately show ?case
    using Cons.IH [OF _ Update_inv [OF Cons.prems(2) v]] Cons.prems(4) by (simp add: p sp_writes_def db_writes_def)
qed (simp add: sp_writes_def db_writes_def)

text \<open>
  C33: the prover's tree and the sequencer's tree agree. After the same writes to two empty trees
  they have the same root, and for every index the same path and the same direction bits.
\<close>
theorem trees_agree:
  assumes "canonical H" "d < 64" "\<forall>(w, v) \<in> set ws. is_elem v"
  shows "let s = sp_writes (NewSparseMerkleTree H d) ws; t = db_writes H (NewLevelDBMerkleTree H Map.empty d) ws in
     sp_Root H s = Root t \<and> fst (sp_GetPath H s w) = fst (GetPath t w) \<and>
     map nat (snd (sp_GetPath H s w)) = map unat (snd (GetPath t w))"
proof -
  have "tree_inv H d (NewLevelDBMerkleTree H Map.empty d)" "lf (NewLevelDBMerkleTree H Map.empty d) = (\<lambda>_. 0)"
    using NewLevelDBMerkleTree_inv [OF assms(1,2), of Map.empty] by simp_all
  from writes_agree [OF NewSparseMerkleTree_inv(1) [OF assms(1,2)] this(1) _ assms(3)] this(2)
  have i: "sp_inv H d (sp_writes (NewSparseMerkleTree H d) ws)" "tree_inv H d (db_writes H (NewLevelDBMerkleTree H Map.empty d) ws)"
    "sp_leaf (sp_writes (NewSparseMerkleTree H d) ws) = lf (db_writes H (NewLevelDBMerkleTree H Map.empty d) ws)"
    by (simp_all add: NewSparseMerkleTree_inv)
  show ?thesis
    using circuit_tree.root_tnode [OF i(1)] Root_spec [OF i(2)] sp_GetPath_spec [OF i(1), of w] GetPath_spec [OF i(2), of w]
    by (simp add: Let_def i(3))
qed

theorem trees_agree_witness:
  "sp_Root (mimc_hash []) (sp_writes (NewSparseMerkleTree (mimc_hash []) 28) [(5, 7), (6, 8)]) =
   Root (db_writes (mimc_hash []) (NewLevelDBMerkleTree (mimc_hash []) Map.empty 28) [(5, 7), (6, 8)])"
  using trees_agree [OF mimc_hash_canonical, of 28 "[(5, 7), (6, 8)]"]
  by (simp add: is_elem_def fr_modulus_def Let_def)

end
