(* ===== verification/Circuit.thy ===== *)
theory Circuit imports MerkleSpec Types "HOL-Library.Monad_Syntax" begin

text \<open>
  The state-transition circuit, prover/circuits/state\_circuit.go, as the relation it
  constrains: a definition evaluates the circuit on an assignment of its variables and is
  \<open>None\<close> when some constraint is violated.

  A \<open>frontend.Variable\<close> is an integer, read modulo the field's order. The gadgets of gnark
  (\<open>frontend.API\<close>, the MiMC gadget and the EdDSA gadget) are the record \<open>gnark\<close>, a parameter;
  \<open>gnark_laws\<close> states their documented behaviour, and \<open>fr_gnark\<close> is a concrete instance. The
  28-element arrays are lists, whose length is the well-formedness \<open>op_shape\<close>.
\<close>

section \<open>Variables and gadgets\<close>

record eddsa_public = pk_X :: int  pk_Y :: int

record eddsa_signature = sig_RX :: int  sig_RY :: int  sig_S :: int

record gnark =
  g_Add :: "int \<Rightarrow> int \<Rightarrow> int"
  g_Sub :: "int \<Rightarrow> int \<Rightarrow> int"
  g_Mul :: "int \<Rightarrow> int \<Rightarrow> int"
  g_IsZero :: "int \<Rightarrow> int"
  g_Select :: "int \<Rightarrow> int \<Rightarrow> int \<Rightarrow> int option"
  g_Or :: "int \<Rightarrow> int \<Rightarrow> int option"
  g_AssertIsEqual :: "int \<Rightarrow> int \<Rightarrow> unit option"
  g_AssertIsBoolean :: "int \<Rightarrow> unit option"
  g_AssertIsLessOrEqual :: "int \<Rightarrow> int \<Rightarrow> unit option"
  g_ToBinary :: "int \<Rightarrow> nat \<Rightarrow> unit option"
  g_mimc :: "int list \<Rightarrow> int"
  g_Verify :: "eddsa_signature \<Rightarrow> int \<Rightarrow> eddsa_public \<Rightarrow> unit option"

definition MerkleDepth :: nat where "MerkleDepth = 28"

record state_leg =
  sl_Index :: int
  sl_Balance :: int
  sl_Nonce :: int
  sl_IsGenesis :: int
  sl_Path :: "int list"
  sl_PathBits :: "int list"

record operation =
  op_OpType :: int
  op_Amount :: int
  op_QuoteAmount :: int
  op_MakerPubKey :: eddsa_public
  op_MakerSig :: eddsa_signature
  op_MakerBase :: state_leg
  op_MakerQuote :: state_leg
  op_TakerPubKey :: eddsa_public
  op_TakerSig :: eddsa_signature
  op_TakerBase :: state_leg
  op_TakerQuote :: state_leg

record transition_circuit =
  tc_OldRoot :: int
  tc_NewRoot :: int
  tc_WithdrawalHash :: int
  tc_DepositHash :: int
  tc_Ops :: "operation list"

section \<open>The circuit\<close>

definition accountLeaf :: "gnark \<Rightarrow> int \<Rightarrow> int \<Rightarrow> int \<Rightarrow> int \<Rightarrow> int \<Rightarrow> int" where
  "accountLeaf G index pubX pubY balance nonce = g_mimc G [index, pubX, pubY, balance, nonce]"

definition oldLeafHash :: "gnark \<Rightarrow> state_leg \<Rightarrow> int \<Rightarrow> int \<Rightarrow> int option" where
  "oldLeafHash G u pubX pubY = do {
     g_AssertIsBoolean G (sl_IsGenesis u);
     g_AssertIsEqual G (g_Mul G (sl_IsGenesis u) (sl_Balance u)) 0;
     g_AssertIsEqual G (g_Mul G (sl_IsGenesis u) (sl_Nonce u)) 0;
     let real = accountLeaf G (sl_Index u) pubX pubY (sl_Balance u) (sl_Nonce u);
     g_Select G (sl_IsGenesis u) 0 real
   }"

fun merkleRoot :: "gnark \<Rightarrow> int \<Rightarrow> int list \<Rightarrow> int list \<Rightarrow> int option" where
  "merkleRoot G cur (p # path) (b # bits) = do {
     left \<leftarrow> g_Select G b p cur;
     right \<leftarrow> g_Select G b cur p;
     merkleRoot G (g_mimc G [left, right]) path bits
   }"
| "merkleRoot G cur _ _ = Some cur"

definition rangeCheck :: "gnark \<Rightarrow> int \<Rightarrow> unit option" where
  "rangeCheck G val = g_ToBinary G val 252"

definition dummySigAX :: int where
  "dummySigAX = 10298319502295528021229850954227631805200385207603455133709476095367371825263"
definition dummySigAY :: int where
  "dummySigAY = 2504327762688954486123660800211611946128639234034449816647673413157039235394"
definition dummySigRX :: int where
  "dummySigRX = 19615509352750535901637443802064826507464158183993156839337785904648430343214"
definition dummySigRY :: int where
  "dummySigRY = 14649913852925992635033550000810266724942332423222322031248971935568823466398"
definition dummySigS :: int where
  "dummySigS = 1567003771490820873806856620396274719304459608209466000889389818739844298687"
definition dummySigMsg :: int where
  "dummySigMsg = 1"

lemmas dummy_fixture = dummySigAX_def dummySigAY_def dummySigRX_def dummySigRY_def dummySigS_def dummySigMsg_def

definition conditionalVerify ::
  "gnark \<Rightarrow> int \<Rightarrow> eddsa_public \<Rightarrow> eddsa_signature \<Rightarrow> int \<Rightarrow> unit option" where
  "conditionalVerify G active pubKey sig msg = do {
     ax \<leftarrow> g_Select G active (pk_X pubKey) dummySigAX;
     ay \<leftarrow> g_Select G active (pk_Y pubKey) dummySigAY;
     rx \<leftarrow> g_Select G active (sig_RX sig) dummySigRX;
     ry \<leftarrow> g_Select G active (sig_RY sig) dummySigRY;
     s \<leftarrow> g_Select G active (sig_S sig) dummySigS;
     effMsg \<leftarrow> g_Select G active msg dummySigMsg;
     g_Verify G \<lparr>sig_RX = rx, sig_RY = ry, sig_S = s\<rparr> effMsg \<lparr>pk_X = ax, pk_Y = ay\<rparr>
   }"

text \<open>
  \<open>processOperation\<close> in the code's order, its signature part (\<open>process_auth\<close>) and its state
  updates (\<open>process_legs\<close>) named apart. A leg's update is the same block four times in the
  code; \<open>process_leg\<close> is that block, with the debit's \<open>AssertIsLessOrEqual\<close> done by the caller
  between the two halves (\<open>check\<close>).
\<close>

definition process_leg ::
  "gnark \<Rightarrow> state_leg \<Rightarrow> eddsa_public \<Rightarrow> int \<Rightarrow> unit option \<Rightarrow> int \<Rightarrow> int \<Rightarrow> int \<Rightarrow> int option" where
  "process_leg G u pk active check newBal newNonce root = do {
     oldLeaf \<leftarrow> oldLeafHash G u (pk_X pk) (pk_Y pk);
     root1 \<leftarrow> merkleRoot G oldLeaf (sl_Path u) (sl_PathBits u);
     sel \<leftarrow> g_Select G active root1 root;
     g_AssertIsEqual G sel root;
     check;
     let newLeaf = accountLeaf G (sl_Index u) (pk_X pk) (pk_Y pk) newBal newNonce;
     root2 \<leftarrow> merkleRoot G newLeaf (sl_Path u) (sl_PathBits u);
     g_Select G active root2 root
   }"

definition process_auth :: "gnark \<Rightarrow> operation \<Rightarrow> int \<Rightarrow> int \<Rightarrow> unit option" where
  "process_auth G op isTrade isDeposit = do {
     let makerMsgHash = g_mimc G [op_OpType op, pk_X (op_MakerPubKey op), pk_Y (op_MakerPubKey op),
                                  sl_Index (op_MakerBase op), sl_Index (op_MakerQuote op)];
     let makerSigActive = g_Sub G 1 isDeposit;
     conditionalVerify G makerSigActive (op_MakerPubKey op) (op_MakerSig op) makerMsgHash;
     let takerMsgHash = g_mimc G [op_OpType op, pk_X (op_TakerPubKey op), pk_Y (op_TakerPubKey op),
                                  sl_Index (op_TakerBase op), sl_Index (op_TakerQuote op)];
     conditionalVerify G isTrade (op_TakerPubKey op) (op_TakerSig op) takerMsgHash
   }"

definition process_legs :: "gnark \<Rightarrow> operation \<Rightarrow> int \<Rightarrow> int \<Rightarrow> int \<Rightarrow> int \<Rightarrow> int option" where
  "process_legs G op isTrade isWithdrawal isDeposit root = do {
     let makerBaseActive = g_Sub G 1 isDeposit;
     makerDebit \<leftarrow> g_Select G makerBaseActive (op_Amount op) 0;
     root \<leftarrow> process_leg G (op_MakerBase op) (op_MakerPubKey op) makerBaseActive
               (g_AssertIsLessOrEqual G makerDebit (sl_Balance (op_MakerBase op)))
               (g_Sub G (sl_Balance (op_MakerBase op)) makerDebit)
               (g_Add G (sl_Nonce (op_MakerBase op)) (g_Sub G makerBaseActive (g_Mul G makerBaseActive isTrade)))
               root;
     makerCredit \<leftarrow> g_Select G isTrade (op_QuoteAmount op) 0;
     root \<leftarrow> process_leg G (op_MakerQuote op) (op_MakerPubKey op) isTrade (Some ())
               (g_Add G (sl_Balance (op_MakerQuote op)) makerCredit) (sl_Nonce (op_MakerQuote op)) root;
     let takerBaseActive = g_Sub G 1 isWithdrawal;
     takerCredit \<leftarrow> g_Select G takerBaseActive (op_Amount op) 0;
     root \<leftarrow> process_leg G (op_TakerBase op) (op_TakerPubKey op) takerBaseActive (Some ())
               (g_Add G (sl_Balance (op_TakerBase op)) takerCredit) (sl_Nonce (op_TakerBase op)) root;
     takerDebit \<leftarrow> g_Select G isTrade (op_QuoteAmount op) 0;
     process_leg G (op_TakerQuote op) (op_TakerPubKey op) isTrade
               (g_AssertIsLessOrEqual G takerDebit (sl_Balance (op_TakerQuote op)))
               (g_Sub G (sl_Balance (op_TakerQuote op)) takerDebit) (sl_Nonce (op_TakerQuote op)) root
   }"

definition processOperation :: "gnark \<Rightarrow> operation \<Rightarrow> int \<Rightarrow> int \<Rightarrow> int \<Rightarrow> (int \<times> int \<times> int) option" where
  "processOperation G op root currentWithdrawalHash currentDepositHash = do {
     rangeCheck G (op_Amount op);
     rangeCheck G (op_QuoteAmount op);
     let isTrade = g_IsZero G (g_Sub G (op_OpType op) OpTrade);
     let isTransfer = g_IsZero G (g_Sub G (op_OpType op) OpTransfer);
     let isWithdrawal = g_IsZero G (g_Sub G (op_OpType op) OpWithdraw);
     let isDeposit = g_IsZero G (g_Sub G (op_OpType op) OpDeposit);
     validOp \<leftarrow> g_Or G isTrade isTransfer;
     validOp \<leftarrow> g_Or G validOp isWithdrawal;
     validOp \<leftarrow> g_Or G validOp isDeposit;
     g_AssertIsEqual G validOp 1;
     process_auth G op isTrade isDeposit;
     let nextWithdrawalHash = g_mimc G [currentWithdrawalHash, sl_Index (op_MakerBase op), op_Amount op];
     currentWithdrawalHash \<leftarrow> g_Select G isWithdrawal nextWithdrawalHash currentWithdrawalHash;
     let nextDepositHash = g_mimc G [currentDepositHash, sl_Index (op_TakerBase op), op_Amount op];
     currentDepositHash \<leftarrow> g_Select G isDeposit nextDepositHash currentDepositHash;
     root \<leftarrow> process_legs G op isTrade isWithdrawal isDeposit root;
     Some (root, currentWithdrawalHash, currentDepositHash)
   }"

fun process_ops :: "gnark \<Rightarrow> operation list \<Rightarrow> int \<Rightarrow> int \<Rightarrow> int \<Rightarrow> (int \<times> int \<times> int) option" where
  "process_ops G [] root wh dh = Some (root, wh, dh)"
| "process_ops G (op # ops) root wh dh = do {
     (root, wh, dh) \<leftarrow> processOperation G op root wh dh;
     process_ops G ops root wh dh
   }"

definition Define :: "gnark \<Rightarrow> transition_circuit \<Rightarrow> unit option" where
  "Define G c = do {
     (root, wh, dh) \<leftarrow> process_ops G (take BatchSize (tc_Ops c)) (tc_OldRoot c) 0 0;
     g_AssertIsEqual G root (tc_NewRoot c);
     g_AssertIsEqual G wh (tc_WithdrawalHash c);
     g_AssertIsEqual G dh (tc_DepositHash c)
   }"

section \<open>The documented behaviour of the gadgets\<close>

definition dummy_sig :: eddsa_signature where
  "dummy_sig = \<lparr>sig_RX = dummySigRX, sig_RY = dummySigRY, sig_S = dummySigS\<rparr>"

definition dummy_pk :: eddsa_public where
  "dummy_pk = \<lparr>pk_X = dummySigAX, pk_Y = dummySigAY\<rparr>"

definition gnark_laws :: "(int list \<Rightarrow> int) \<Rightarrow> gnark \<Rightarrow> bool" where
  "gnark_laws H G \<longleftrightarrow>
     canonical H \<and>
     (\<forall>x y. g_Add G x y = fr (x + y)) \<and> (\<forall>x y. g_Sub G x y = fr (x - y)) \<and>
     (\<forall>x y. g_Mul G x y = fr (x * y)) \<and> (\<forall>x. g_IsZero G x = (if fr x = 0 then 1 else 0)) \<and>
     (\<forall>b x y. g_Select G b x y = (if fr b = 1 then Some (fr x) else if fr b = 0 then Some (fr y) else None)) \<and>
     (\<forall>a b. g_Or G a b = (if fr a \<in> {0, 1} \<and> fr b \<in> {0, 1} then Some (if fr a = 1 \<or> fr b = 1 then 1 else 0) else None)) \<and>
     (\<forall>x y. g_AssertIsEqual G x y = (if fr x = fr y then Some () else None)) \<and>
     (\<forall>x. g_AssertIsBoolean G x = (if fr x \<in> {0, 1} then Some () else None)) \<and>
     (\<forall>x y. g_AssertIsLessOrEqual G x y = (if fr x \<le> fr y then Some () else None)) \<and>
     (\<forall>x n. g_ToBinary G x n = (if fr x < 2 ^ n then Some () else None)) \<and>
     (\<forall>xs. g_mimc G xs = H (map fr xs)) \<and>
     g_Verify G dummy_sig dummySigMsg dummy_pk = Some ()"

definition fr_gnark ::
  "(int list \<Rightarrow> int) \<Rightarrow> (eddsa_signature \<Rightarrow> int \<Rightarrow> eddsa_public \<Rightarrow> bool) \<Rightarrow> gnark" where
  "fr_gnark H verify =
     \<lparr>g_Add = (\<lambda>x y. fr (x + y)), g_Sub = (\<lambda>x y. fr (x - y)), g_Mul = (\<lambda>x y. fr (x * y)),
      g_IsZero = (\<lambda>x. if fr x = 0 then 1 else 0),
      g_Select = (\<lambda>b x y. if fr b = 1 then Some (fr x) else if fr b = 0 then Some (fr y) else None),
      g_Or = (\<lambda>a b. if fr a \<in> {0, 1} \<and> fr b \<in> {0, 1} then Some (if fr a = 1 \<or> fr b = 1 then 1 else 0) else None),
      g_AssertIsEqual = (\<lambda>x y. if fr x = fr y then Some () else None),
      g_AssertIsBoolean = (\<lambda>x. if fr x \<in> {0, 1} then Some () else None),
      g_AssertIsLessOrEqual = (\<lambda>x y. if fr x \<le> fr y then Some () else None),
      g_ToBinary = (\<lambda>x n. if fr x < 2 ^ n then Some () else None),
      g_mimc = (\<lambda>xs. H (map fr xs)),
      g_Verify = (\<lambda>sig msg pk. if verify sig msg pk then Some () else None)\<rparr>"

lemma fr_gnark_laws:
  "canonical H \<Longrightarrow> verify dummy_sig dummySigMsg dummy_pk \<Longrightarrow> gnark_laws H (fr_gnark H verify)"
  by (simp add: gnark_laws_def fr_gnark_def)

locale gnark_api =
  fixes H :: "int list \<Rightarrow> int" and G :: gnark
  assumes laws: "gnark_laws H G"
begin

lemma canonH: "canonical H" using laws by (simp add: gnark_laws_def)

lemma gadgets:
  "g_Add G x y = fr (x + y)" "g_Sub G x y = fr (x - y)" "g_Mul G x y = fr (x * y)"
  "g_IsZero G x = (if fr x = 0 then 1 else 0)"
  "g_Select G b x y = (if fr b = 1 then Some (fr x) else if fr b = 0 then Some (fr y) else None)"
  "g_Or G a b = (if fr a \<in> {0, 1} \<and> fr b \<in> {0, 1} then Some (if fr a = 1 \<or> fr b = 1 then 1 else 0) else None)"
  "g_AssertIsEqual G x y = (if fr x = fr y then Some () else None)"
  "g_AssertIsBoolean G x = (if fr x \<in> {0, 1} then Some () else None)"
  "g_AssertIsLessOrEqual G x y = (if fr x \<le> fr y then Some () else None)"
  "g_ToBinary G x n = (if fr x < 2 ^ n then Some () else None)"
  "g_mimc G xs = H (map fr xs)"
  "g_Verify G dummy_sig dummySigMsg dummy_pk = Some ()"
  using laws by (simp_all add: gnark_laws_def)

end

interpretation field_gnark: gnark_api "mimc_hash cs" "fr_gnark (mimc_hash cs) (\<lambda>_ _ _. True)" for cs
  by unfold_locales (simp add: fr_gnark_laws mimc_hash_canonical)

section \<open>What the constraints mean\<close>

text \<open>
  The meaning of a leg: it is well formed, it opens a root, it writes a new one. \<open>op_shape\<close> is
  the type of the Go struct: 28-element arrays.
\<close>

definition leg_shape :: "state_leg \<Rightarrow> bool" where
  "leg_shape u \<longleftrightarrow> length (sl_Path u) = MerkleDepth \<and> length (sl_PathBits u) = MerkleDepth"

definition op_shape :: "operation \<Rightarrow> bool" where
  "op_shape op \<longleftrightarrow> leg_shape (op_MakerBase op) \<and> leg_shape (op_MakerQuote op) \<and>
     leg_shape (op_TakerBase op) \<and> leg_shape (op_TakerQuote op)"

definition leg_wf :: "state_leg \<Rightarrow> bool" where
  "leg_wf u \<longleftrightarrow>
     fr (sl_IsGenesis u) \<in> {0, 1} \<and> (fr (sl_IsGenesis u) = 1 \<longrightarrow> fr (sl_Balance u) = 0 \<and> fr (sl_Nonce u) = 0) \<and>
     (\<forall>b \<in> set (sl_PathBits u). fr b \<in> {0, 1})"

definition leg_bits :: "state_leg \<Rightarrow> nat list" where
  "leg_bits u = map (\<lambda>b. nat (fr b)) (sl_PathBits u)"

definition leg_fold :: "(int list \<Rightarrow> int) \<Rightarrow> state_leg \<Rightarrow> int \<Rightarrow> int" where
  "leg_fold H u leaf = fold_path H leaf (map fr (sl_Path u)) (leg_bits u)"

definition leg_leaf :: "(int list \<Rightarrow> int) \<Rightarrow> state_leg \<Rightarrow> eddsa_public \<Rightarrow> int \<Rightarrow> int \<Rightarrow> int" where
  "leg_leaf H u pk balance nonce = H (map fr [sl_Index u, pk_X pk, pk_Y pk, balance, nonce])"

definition leg_old :: "(int list \<Rightarrow> int) \<Rightarrow> state_leg \<Rightarrow> eddsa_public \<Rightarrow> int" where
  "leg_old H u pk = (if fr (sl_IsGenesis u) = 1 then 0 else leg_leaf H u pk (sl_Balance u) (sl_Nonce u))"

definition leg_opens :: "(int list \<Rightarrow> int) \<Rightarrow> state_leg \<Rightarrow> eddsa_public \<Rightarrow> int \<Rightarrow> bool" where
  "leg_opens H u pk root \<longleftrightarrow> leg_fold H u (leg_old H u pk) = root"

definition leg_writes :: "(int list \<Rightarrow> int) \<Rightarrow> state_leg \<Rightarrow> eddsa_public \<Rightarrow> int \<Rightarrow> int \<Rightarrow> int" where
  "leg_writes H u pk balance nonce = leg_fold H u (leg_leaf H u pk balance nonce)"

lemma fold_path_canonical:
  "canonical H \<Longrightarrow> fr cur = cur \<Longrightarrow> fr (fold_path H cur ps bs) = fold_path H cur ps bs"
  by (induction H cur ps bs rule: fold_path.induct) (auto simp: canonical_fr)

lemma fr_boolean_mult:
  assumes "fr g \<in> {0, 1}"
  shows "fr (g * x) = 0 \<longleftrightarrow> (fr g = 1 \<longrightarrow> fr x = 0)"
proof -
  have "fr (g * x) = fr (fr g * x)" by (simp add: fr_def mod_mult_left_eq)
  then show ?thesis using assms by auto
qed

context gnark_api begin

lemma oldLeafHash_eq:
  "oldLeafHash G u X Y =
     (if fr (sl_IsGenesis u) \<in> {0, 1} \<and> (fr (sl_IsGenesis u) = 1 \<longrightarrow> fr (sl_Balance u) = 0 \<and> fr (sl_Nonce u) = 0)
      then Some (leg_old H u \<lparr>pk_X = X, pk_Y = Y\<rparr>) else None)"
  using fr_boolean_mult [of "sl_IsGenesis u" "sl_Balance u"] fr_boolean_mult [of "sl_IsGenesis u" "sl_Nonce u"]
  by (auto simp: oldLeafHash_def gadgets accountLeaf_def leg_old_def leg_leaf_def canonical_fr [OF canonH] Let_def)

lemma leg_old_canonical: "fr (leg_old H u pk) = leg_old H u pk"
  by (simp add: leg_old_def leg_leaf_def canonical_fr [OF canonH])

lemma merkleRoot_eq:
  "length path = length bits \<Longrightarrow> fr cur = cur \<Longrightarrow>
   merkleRoot G cur path bits =
     (if \<forall>b \<in> set bits. fr b \<in> {0, 1} then Some (fold_path H cur (map fr path) (map (\<lambda>b. nat (fr b)) bits)) else None)"
proof (induction path bits arbitrary: cur rule: list_induct2)
  case (Cons p path b bits)
  have "fr (H xs) = H xs" for xs by (rule canonical_fr [OF canonH])
  then show ?case using Cons by (auto simp: gadgets)
qed simp

lemma process_leg_eq:
  assumes "leg_shape u" and "a \<in> {0, 1}"
  shows "process_leg G u pk a check nb nn root =
    (if leg_wf u \<and> (a = 1 \<longrightarrow> leg_opens H u pk (fr root)) \<and> check = Some ()
     then Some (if a = 1 then leg_writes H u pk nb nn else fr root) else None)"
proof -
  have sh: "length (sl_Path u) = length (sl_PathBits u)" using assms(1) by (simp add: leg_shape_def)
  have pk: "\<lparr>pk_X = pk_X pk, pk_Y = pk_Y pk\<rparr> = pk" by simp
  have fl: "fr (fold_path H (leg_old H u pk) ps bs) = fold_path H (leg_old H u pk) ps bs"
    "fr (fold_path H (H xs) ps bs) = fold_path H (H xs) ps bs" for ps bs xs
    by (rule fold_path_canonical [OF canonH] leg_old_canonical canonical_fr [OF canonH])+
  have leaf: "accountLeaf G (sl_Index u) (pk_X pk) (pk_Y pk) nb nn = leg_leaf H u pk nb nn"
    by (simp add: accountLeaf_def gadgets leg_leaf_def)
  have can: "fr (leg_leaf H u pk nb nn) = leg_leaf H u pk nb nn"
    by (simp add: leg_leaf_def canonical_fr [OF canonH])
  show ?thesis
  proof (cases "leg_wf u")
    case True
    then show ?thesis
      using assms(2)
      by (cases check)
        (auto simp: process_leg_def oldLeafHash_eq pk merkleRoot_eq [OF sh leg_old_canonical] leaf
          merkleRoot_eq [OF sh can] gadgets leg_wf_def leg_opens_def leg_writes_def leg_fold_def leg_bits_def
          fold_path_canonical [OF canonH leg_old_canonical] fold_path_canonical [OF canonH can])
  next
    case False
    then show ?thesis
      by (auto simp: process_leg_def oldLeafHash_eq pk merkleRoot_eq [OF sh leg_old_canonical] leg_wf_def)
  qed
qed

end

definition op_code :: "operation \<Rightarrow> int" where
  "op_code op = fr (op_OpType op)"

definition sig_ok :: "gnark \<Rightarrow> eddsa_public \<Rightarrow> eddsa_signature \<Rightarrow> int \<Rightarrow> bool" where
  "sig_ok G pk sig msg \<longleftrightarrow>
     g_Verify G \<lparr>sig_RX = fr (sig_RX sig), sig_RY = fr (sig_RY sig), sig_S = fr (sig_S sig)\<rparr> (fr msg)
       \<lparr>pk_X = fr (pk_X pk), pk_Y = fr (pk_Y pk)\<rparr> = Some ()"

definition auth_msg :: "(int list \<Rightarrow> int) \<Rightarrow> operation \<Rightarrow> eddsa_public \<Rightarrow> state_leg \<Rightarrow> state_leg \<Rightarrow> int" where
  "auth_msg H op pk base quote = H (map fr [op_OpType op, pk_X pk, pk_Y pk, sl_Index base, sl_Index quote])"

text \<open>The root after each of the four legs.\<close>

definition root_mb :: "(int list \<Rightarrow> int) \<Rightarrow> operation \<Rightarrow> int \<Rightarrow> int" where
  "root_mb H op r =
     (if op_code op = OpDeposit then r
      else leg_writes H (op_MakerBase op) (op_MakerPubKey op) (sl_Balance (op_MakerBase op) - op_Amount op)
             (sl_Nonce (op_MakerBase op) + (if op_code op = OpTrade then 0 else 1)))"

definition root_mq :: "(int list \<Rightarrow> int) \<Rightarrow> operation \<Rightarrow> int \<Rightarrow> int" where
  "root_mq H op r =
     (if op_code op = OpTrade
      then leg_writes H (op_MakerQuote op) (op_MakerPubKey op)
             (sl_Balance (op_MakerQuote op) + op_QuoteAmount op) (sl_Nonce (op_MakerQuote op))
      else r)"

definition root_tb :: "(int list \<Rightarrow> int) \<Rightarrow> operation \<Rightarrow> int \<Rightarrow> int" where
  "root_tb H op r =
     (if op_code op = OpWithdraw then r
      else leg_writes H (op_TakerBase op) (op_TakerPubKey op)
             (sl_Balance (op_TakerBase op) + op_Amount op) (sl_Nonce (op_TakerBase op)))"

definition root_tq :: "(int list \<Rightarrow> int) \<Rightarrow> operation \<Rightarrow> int \<Rightarrow> int" where
  "root_tq H op r =
     (if op_code op = OpTrade
      then leg_writes H (op_TakerQuote op) (op_TakerPubKey op)
             (sl_Balance (op_TakerQuote op) - op_QuoteAmount op) (sl_Nonce (op_TakerQuote op))
      else r)"

definition op_root :: "(int list \<Rightarrow> int) \<Rightarrow> operation \<Rightarrow> int \<Rightarrow> int" where
  "op_root H op r = root_tq H op (root_tb H op (root_mq H op (root_mb H op r)))"

definition auth_valid :: "(int list \<Rightarrow> int) \<Rightarrow> gnark \<Rightarrow> operation \<Rightarrow> bool" where
  "auth_valid H G op \<longleftrightarrow>
     (op_code op \<noteq> OpDeposit \<longrightarrow>
        sig_ok G (op_MakerPubKey op) (op_MakerSig op)
          (auth_msg H op (op_MakerPubKey op) (op_MakerBase op) (op_MakerQuote op))) \<and>
     (op_code op = OpTrade \<longrightarrow>
        sig_ok G (op_TakerPubKey op) (op_TakerSig op)
          (auth_msg H op (op_TakerPubKey op) (op_TakerBase op) (op_TakerQuote op)))"

definition legs_valid :: "(int list \<Rightarrow> int) \<Rightarrow> operation \<Rightarrow> int \<Rightarrow> bool" where
  "legs_valid H op r \<longleftrightarrow>
     leg_wf (op_MakerBase op) \<and> leg_wf (op_MakerQuote op) \<and> leg_wf (op_TakerBase op) \<and> leg_wf (op_TakerQuote op) \<and>
     (op_code op \<noteq> OpDeposit \<longrightarrow> leg_opens H (op_MakerBase op) (op_MakerPubKey op) r \<and>
        fr (op_Amount op) \<le> fr (sl_Balance (op_MakerBase op))) \<and>
     (op_code op = OpTrade \<longrightarrow> leg_opens H (op_MakerQuote op) (op_MakerPubKey op) (root_mb H op r)) \<and>
     (op_code op \<noteq> OpWithdraw \<longrightarrow>
        leg_opens H (op_TakerBase op) (op_TakerPubKey op) (root_mq H op (root_mb H op r))) \<and>
     (op_code op = OpTrade \<longrightarrow>
        leg_opens H (op_TakerQuote op) (op_TakerPubKey op) (root_tb H op (root_mq H op (root_mb H op r))) \<and>
        fr (op_QuoteAmount op) \<le> fr (sl_Balance (op_TakerQuote op)))"

definition op_valid :: "(int list \<Rightarrow> int) \<Rightarrow> gnark \<Rightarrow> operation \<Rightarrow> int \<Rightarrow> bool" where
  "op_valid H G op r \<longleftrightarrow>
     op_code op \<in> {OpTrade, OpTransfer, OpWithdraw, OpDeposit} \<and>
     fr (op_Amount op) < 2 ^ 252 \<and> fr (op_QuoteAmount op) < 2 ^ 252 \<and> auth_valid H G op \<and> legs_valid H op r"

definition op_wh :: "(int list \<Rightarrow> int) \<Rightarrow> operation \<Rightarrow> int \<Rightarrow> int" where
  "op_wh H op wh = (if op_code op = OpWithdraw then H (map fr [wh, sl_Index (op_MakerBase op), op_Amount op]) else fr wh)"

definition op_dh :: "(int list \<Rightarrow> int) \<Rightarrow> operation \<Rightarrow> int \<Rightarrow> int" where
  "op_dh H op dh = (if op_code op = OpDeposit then H (map fr [dh, sl_Index (op_TakerBase op), op_Amount op]) else fr dh)"

lemma neq_Some_unit: "(x :: unit option) \<noteq> Some () \<longleftrightarrow> x = None"
  by (cases x) auto

lemma fr_minus_code: "c \<in> {0, 1, 2, 3} \<Longrightarrow> fr (t - c) = 0 \<longleftrightarrow> fr t = c"
proof -
  assume "c \<in> {0, 1, 2, 3}"
  then have c: "fr c = c" by (auto simp: fr_def fr_modulus_def)
  have "fr (t - c) = 0 \<longleftrightarrow> fr t = fr c"
    by (simp add: fr_def mod_eq_dvd_iff flip: dvd_eq_mod_eq_0)
  then show ?thesis by (simp add: c)
qed

lemma leg_writes_cong:
  "fr b = fr b' \<Longrightarrow> fr n = fr n' \<Longrightarrow> leg_writes H u pk b n = leg_writes H u pk b' n'"
  by (simp add: leg_writes_def leg_leaf_def)

context gnark_api begin

lemma leg_writes_canonical: "fr (leg_writes H u pk b n) = leg_writes H u pk b n"
  unfolding leg_writes_def leg_fold_def leg_leaf_def by (rule fold_path_canonical [OF canonH canonical_fr [OF canonH]])

lemma conditionalVerify_eq:
  "a \<in> {0, 1} \<Longrightarrow> conditionalVerify G a pk sig msg =
     (if a = 1 \<longrightarrow> sig_ok G pk sig msg then Some () else None)"
proof -
  assume a: "a \<in> {0, 1}"
  have f: "fr dummySigAX = dummySigAX" "fr dummySigAY = dummySigAY" "fr dummySigRX = dummySigRX"
    "fr dummySigRY = dummySigRY" "fr dummySigS = dummySigS" "fr dummySigMsg = dummySigMsg"
    by (simp_all add: fr_def fr_modulus_def dummy_fixture)
  have "g_Verify G \<lparr>sig_RX = dummySigRX, sig_RY = dummySigRY, sig_S = dummySigS\<rparr> dummySigMsg
      \<lparr>pk_X = dummySigAX, pk_Y = dummySigAY\<rparr> = Some ()"
    using gadgets(12) by (simp add: dummy_sig_def dummy_pk_def)
  then show ?thesis using a by (auto simp: conditionalVerify_def gadgets(5) sig_ok_def f neq_Some_unit)
qed

lemma roots_canonical:
  "fr r = r \<Longrightarrow> fr (root_mb H op r) = root_mb H op r"
  "fr r = r \<Longrightarrow> fr (root_mq H op r) = root_mq H op r"
  "fr r = r \<Longrightarrow> fr (root_tb H op r) = root_tb H op r"
  "fr r = r \<Longrightarrow> fr (root_tq H op r) = root_tq H op r"
  by (simp_all add: root_mb_def root_mq_def root_tb_def root_tq_def leg_writes_canonical)

lemma op_root_canonical: "fr r = r \<Longrightarrow> fr (op_root H op r) = op_root H op r"
  by (simp add: op_root_def roots_canonical)

text \<open>Evaluation of the selectors at the flags 0 and 1.\<close>

lemma flag_simps:
  "g_Sub G 1 0 = 1" "g_Sub G 1 1 = 0" "g_Sub G 0 0 = 0" "g_Mul G 1 0 = 0" "g_Mul G 1 1 = 1" "g_Mul G 0 0 = 0"
  "g_Select G 1 x y = Some (fr x)" "g_Select G 0 x y = Some (fr y)"
  by (simp_all add: gadgets)

lemma check_simps:
  "g_AssertIsLessOrEqual G x y = Some () \<longleftrightarrow> fr x \<le> fr y" "fr 0 \<le> fr x"
  by (simp_all add: gadgets)

lemma leg_on:
  "leg_shape u \<Longrightarrow> process_leg G u pk 1 check nb nn root =
    (if leg_wf u \<and> leg_opens H u pk (fr root) \<and> check = Some () then Some (leg_writes H u pk nb nn) else None)"
  and leg_off:
  "leg_shape u \<Longrightarrow> process_leg G u pk 0 check nb nn root = (if leg_wf u \<and> check = Some () then Some (fr root) else None)"
  by (simp_all add: process_leg_eq)

lemma bind_if: "Option.bind (if P then Some x else None) f = (if P then f x else None)"
  by simp

lemma if_if: "(if P then if Q then x else None else None) = (if P \<and> Q then x else None)"
  by simp

lemma leg_writes_fr:
  "leg_writes H u pk (fr b) n = leg_writes H u pk b n" "leg_writes H u pk b (fr n) = leg_writes H u pk b n"
  by (rule leg_writes_cong; simp)+

lemma arith_fr:
  "g_Sub G x (fr y) = fr (x - y)" "g_Add G x (fr y) = fr (x + y)" "g_Sub G x 0 = fr x" "g_Add G x 0 = fr x"
  "g_Add G x 1 = fr (x + 1)"
  by (simp_all add: gadgets fr_add fr_diff)

lemmas leg_eval = process_legs_def Let_def flag_simps bind.bind_lunit check_simps leg_on leg_off bind_if if_if
  arith_fr leg_writes_fr fr_idem fr_0 fr_1 fr_range(1) leg_writes_canonical simp_thms

lemma process_legs_eq:
  assumes "op_shape op" and "fr r = r"
  shows "op_code op = OpTrade \<Longrightarrow> process_legs G op 1 0 0 r = (if legs_valid H op r then Some (op_root H op r) else None)"
    and "op_code op = OpTransfer \<Longrightarrow> process_legs G op 0 0 0 r = (if legs_valid H op r then Some (op_root H op r) else None)"
    and "op_code op = OpWithdraw \<Longrightarrow> process_legs G op 0 1 0 r = (if legs_valid H op r then Some (op_root H op r) else None)"
    and "op_code op = OpDeposit \<Longrightarrow> process_legs G op 0 0 1 r = (if legs_valid H op r then Some (op_root H op r) else None)"
proof -
  have sh: "leg_shape (op_MakerBase op)" "leg_shape (op_MakerQuote op)" "leg_shape (op_TakerBase op)"
    "leg_shape (op_TakerQuote op)" using assms(1) by (simp_all add: op_shape_def)
  have ne: "OpTrade \<noteq> OpTransfer" "OpTrade \<noteq> OpWithdraw" "OpTrade \<noteq> OpDeposit" "OpTransfer \<noteq> OpTrade"
    "OpTransfer \<noteq> OpWithdraw" "OpTransfer \<noteq> OpDeposit" "OpWithdraw \<noteq> OpTrade" "OpWithdraw \<noteq> OpTransfer"
    "OpWithdraw \<noteq> OpDeposit" "OpDeposit \<noteq> OpTrade" "OpDeposit \<noteq> OpTransfer" "OpDeposit \<noteq> OpWithdraw"
    by (simp_all add: op_codes)
  note spec = legs_valid_def op_root_def root_mb_def root_mq_def root_tb_def root_tq_def if_True if_False add_0_right
  show "op_code op = OpTrade \<Longrightarrow> process_legs G op 1 0 0 r = (if legs_valid H op r then Some (op_root H op r) else None)"
    by (simp only: leg_eval sh assms(2) spec ne) (rule if_cong; blast)
  show "op_code op = OpTransfer \<Longrightarrow> process_legs G op 0 0 0 r = (if legs_valid H op r then Some (op_root H op r) else None)"
    by (simp only: leg_eval sh assms(2) spec ne) (rule if_cong; blast)
  show "op_code op = OpWithdraw \<Longrightarrow> process_legs G op 0 1 0 r = (if legs_valid H op r then Some (op_root H op r) else None)"
    by (simp only: leg_eval sh assms(2) spec ne) (rule if_cong; blast)
  show "op_code op = OpDeposit \<Longrightarrow> process_legs G op 0 0 1 r = (if legs_valid H op r then Some (op_root H op r) else None)"
    by (simp only: leg_eval sh assms(2) spec ne) (rule if_cong; blast)
qed

lemma process_auth_eq:
  "process_auth G op (if op_code op = OpTrade then 1 else 0) (if op_code op = OpDeposit then 1 else 0) =
     (if auth_valid H G op then Some () else None)"
  by (simp add: process_auth_def Let_def flag_simps conditionalVerify_eq gadgets(11) auth_valid_def auth_msg_def op_codes)

lemma valid_code:
  "(if op_code op = OpTrade then 1 else 0 :: int) = 1 \<longleftrightarrow> op_code op = OpTrade"
  by simp

lemma processOperation_unfold:
  "processOperation G op r wh dh =
    (if fr (op_Amount op) < 2 ^ 252 \<and> fr (op_QuoteAmount op) < 2 ^ 252 \<and>
        op_code op \<in> {OpTrade, OpTransfer, OpWithdraw, OpDeposit} \<and> auth_valid H G op
     then Option.bind
       (process_legs G op (if op_code op = OpTrade then 1 else 0) (if op_code op = OpWithdraw then 1 else 0)
          (if op_code op = OpDeposit then 1 else 0) r)
       (\<lambda>root. Some (root, op_wh H op wh, op_dh H op dh))
     else None)"
proof -
  have code: "fr (op_OpType op - OpTrade) = 0 \<longleftrightarrow> op_code op = OpTrade"
    "fr (op_OpType op - OpTransfer) = 0 \<longleftrightarrow> op_code op = OpTransfer"
    "fr (op_OpType op - OpWithdraw) = 0 \<longleftrightarrow> op_code op = OpWithdraw"
    "fr (op_OpType op - OpDeposit) = 0 \<longleftrightarrow> op_code op = OpDeposit"
    by (simp_all add: op_code_def fr_minus_code op_codes)
  show ?thesis
    by (simp add: processOperation_def rangeCheck_def Let_def gadgets(2,4-7,10,11) code process_auth_eq
        op_wh_def op_dh_def canonical_fr [OF canonH])
qed

lemma processOperation_eq:
  assumes "op_shape op" and "fr r = r"
  shows "processOperation G op r wh dh =
    (if op_valid H G op r then Some (op_root H op r, op_wh H op wh, op_dh H op dh) else None)"
  using process_legs_eq [OF assms] unfolding processOperation_unfold op_valid_def
  by (auto simp: op_codes)

end

end
