(* ===== verification/CircuitSound.thy ===== *)
theory CircuitSound imports Circuit CircuitTree begin

text \<open>
  What an accepted operation does to the state the root commits to. The state is a leaf
  assignment \<open>m\<close>; a leg sits at the position its direction bits spell (\<open>leg_pos\<close>).
\<close>

section \<open>Legs against a tree\<close>

definition leg_pos :: "state_leg \<Rightarrow> nat" where
  "leg_pos u = bits_index (leg_bits u)"

definition mroot :: "(int list \<Rightarrow> int) \<Rightarrow> (nat \<Rightarrow> int) \<Rightarrow> int" where
  "mroot H m = tnode H m MerkleDepth 0"

text \<open>No two of the inputs hashed along the true path and along the claimed path collide.\<close>

definition leg_binding :: "(int list \<Rightarrow> int) \<Rightarrow> (nat \<Rightarrow> int) \<Rightarrow> state_leg \<Rightarrow> eddsa_public \<Rightarrow> bool" where
  "leg_binding H m u pk \<longleftrightarrow>
     inj_on H (set (path_inputs H (m (leg_pos u)) (spath H m MerkleDepth (leg_pos u)) (leg_bits u)) \<union>
               set (path_inputs H (leg_old H u pk) (map fr (sl_Path u)) (leg_bits u)))"

lemma sbits_bits_index:
  "\<forall>b \<in> set bs. b < 2 \<Longrightarrow> sbits (length bs) (bits_index bs) = bs \<and> bits_index bs < 2 ^ length bs"
proof (induction bs)
  case (Cons b bs)
  then have b: "b < 2" and IH: "sbits (length bs) (bits_index bs) = bs" "bits_index bs < 2 ^ length bs" by auto
  have "map (\<lambda>l. (b + 2 * bits_index bs) div 2 ^ l mod 2) [0..<Suc (length bs)] =
      (b + 2 * bits_index bs) mod 2 # map (\<lambda>l. (b + 2 * bits_index bs) div 2 ^ Suc l mod 2) [0..<length bs]"
    by (simp add: upt_conv_Cons map_Suc_upt [symmetric] comp_def del: upt_Suc power_Suc)
  moreover have "(b + 2 * bits_index bs) div 2 ^ Suc l = bits_index bs div 2 ^ l" for l
    using b by (simp add: div_mult2_eq)
  ultimately show ?case using b IH by (simp add: sbits_def del: upt_Suc power_Suc) (simp add: power_Suc)
qed (simp add: sbits_def)

lemma leg_bits_pos:
  assumes "leg_shape u" "leg_wf u"
  shows "leg_bits u = sbits MerkleDepth (leg_pos u)" "leg_pos u < 2 ^ MerkleDepth"
proof -
  have "b < 2" if "b \<in> set (leg_bits u)" for b
    using that assms(2) by (auto simp: leg_bits_def leg_wf_def)
  moreover have "length (leg_bits u) = MerkleDepth" using assms(1) by (simp add: leg_bits_def leg_shape_def)
  ultimately show "leg_bits u = sbits MerkleDepth (leg_pos u)" "leg_pos u < 2 ^ MerkleDepth"
    using sbits_bits_index [of "leg_bits u"] by (auto simp: leg_pos_def)
qed

lemma leg_sound:
  assumes "leg_shape u" "leg_wf u" and opens: "leg_opens H u pk (mroot H m)" and bind: "leg_binding H m u pk"
  shows "m (leg_pos u) = leg_old H u pk"
    and "leg_writes H u pk b n = mroot H (m(leg_pos u := leg_leaf H u pk b n))"
proof -
  note bits = leg_bits_pos [OF assms(1,2)]
  have pos: "leg_pos u div 2 ^ MerkleDepth = 0" using bits(2) by simp
  have "fold_path H (m (leg_pos u)) (spath H m MerkleDepth (leg_pos u)) (leg_bits u) = mroot H m"
    unfolding bits(1) using fold_spath_same [of H m "leg_pos u" MerkleDepth] pos by (simp add: mroot_def)
  then have "fold_path H (m (leg_pos u)) (spath H m MerkleDepth (leg_pos u)) (leg_bits u) =
      fold_path H (leg_old H u pk) (map fr (sl_Path u)) (leg_bits u)"
    using opens by (simp add: leg_opens_def leg_fold_def)
  then have eq: "m (leg_pos u) = leg_old H u pk \<and> spath H m MerkleDepth (leg_pos u) = map fr (sl_Path u)"
    by (rule fold_path_binds) (use assms(1) bind in \<open>simp_all add: leg_bits_def leg_shape_def leg_binding_def\<close>)
  then show "m (leg_pos u) = leg_old H u pk" ..
  have "leg_writes H u pk b n = fold_path H (leg_leaf H u pk b n) (spath H m MerkleDepth (leg_pos u)) (leg_bits u)"
    using eq by (simp add: leg_writes_def leg_fold_def)
  also have "\<dots> = mroot H (m(leg_pos u := leg_leaf H u pk b n))"
    unfolding bits(1) using fold_spath [of H "leg_leaf H u pk b n" m MerkleDepth "leg_pos u"] pos
    by (simp add: mroot_def)
  finally show "leg_writes H u pk b n = mroot H (m(leg_pos u := leg_leaf H u pk b n))" .
qed

text \<open>The converse: a leg built from a tree's own path opens its root and writes the updated one.\<close>

lemma leg_complete:
  assumes path: "map fr (sl_Path u) = spath H m MerkleDepth j" and bits: "leg_bits u = sbits MerkleDepth j"
    and j: "j < 2 ^ MerkleDepth" and old: "leg_old H u pk = m j"
  shows "leg_opens H u pk (mroot H m)" "leg_writes H u pk b n = mroot H (m(j := leg_leaf H u pk b n))"
  using fold_spath [of H _ m MerkleDepth j] fold_spath_same [of H m j MerkleDepth] j
  by (simp_all add: leg_opens_def leg_writes_def leg_fold_def path bits old mroot_def)

section \<open>The state after an operation\<close>

definition apply_leg :: "(int list \<Rightarrow> int) \<Rightarrow> state_leg \<Rightarrow> eddsa_public \<Rightarrow> int \<Rightarrow> int \<Rightarrow> (nat \<Rightarrow> int) \<Rightarrow> nat \<Rightarrow> int" where
  "apply_leg H u pk b n m = m(leg_pos u := leg_leaf H u pk b n)"

definition state_mb :: "(int list \<Rightarrow> int) \<Rightarrow> operation \<Rightarrow> (nat \<Rightarrow> int) \<Rightarrow> nat \<Rightarrow> int" where
  "state_mb H op m =
     (if op_code op = OpDeposit then m
      else apply_leg H (op_MakerBase op) (op_MakerPubKey op) (sl_Balance (op_MakerBase op) - op_Amount op)
             (sl_Nonce (op_MakerBase op) + (if op_code op = OpTrade then 0 else 1)) m)"

definition state_mq :: "(int list \<Rightarrow> int) \<Rightarrow> operation \<Rightarrow> (nat \<Rightarrow> int) \<Rightarrow> nat \<Rightarrow> int" where
  "state_mq H op m =
     (if op_code op = OpTrade
      then apply_leg H (op_MakerQuote op) (op_MakerPubKey op)
             (sl_Balance (op_MakerQuote op) + op_QuoteAmount op) (sl_Nonce (op_MakerQuote op)) m
      else m)"

definition state_tb :: "(int list \<Rightarrow> int) \<Rightarrow> operation \<Rightarrow> (nat \<Rightarrow> int) \<Rightarrow> nat \<Rightarrow> int" where
  "state_tb H op m =
     (if op_code op = OpWithdraw then m
      else apply_leg H (op_TakerBase op) (op_TakerPubKey op)
             (sl_Balance (op_TakerBase op) + op_Amount op) (sl_Nonce (op_TakerBase op)) m)"

definition state_tq :: "(int list \<Rightarrow> int) \<Rightarrow> operation \<Rightarrow> (nat \<Rightarrow> int) \<Rightarrow> nat \<Rightarrow> int" where
  "state_tq H op m =
     (if op_code op = OpTrade
      then apply_leg H (op_TakerQuote op) (op_TakerPubKey op)
             (sl_Balance (op_TakerQuote op) - op_QuoteAmount op) (sl_Nonce (op_TakerQuote op)) m
      else m)"

definition state_after :: "(int list \<Rightarrow> int) \<Rightarrow> operation \<Rightarrow> (nat \<Rightarrow> int) \<Rightarrow> nat \<Rightarrow> int" where
  "state_after H op m = state_tq H op (state_tb H op (state_mq H op (state_mb H op m)))"

text \<open>Each active leg finds its claimed old leaf in the state it acts on.\<close>

definition legs_found :: "(int list \<Rightarrow> int) \<Rightarrow> operation \<Rightarrow> (nat \<Rightarrow> int) \<Rightarrow> bool" where
  "legs_found H op m \<longleftrightarrow>
     (op_code op \<noteq> OpDeposit \<longrightarrow>
        m (leg_pos (op_MakerBase op)) = leg_old H (op_MakerBase op) (op_MakerPubKey op)) \<and>
     (op_code op = OpTrade \<longrightarrow>
        state_mb H op m (leg_pos (op_MakerQuote op)) = leg_old H (op_MakerQuote op) (op_MakerPubKey op)) \<and>
     (op_code op \<noteq> OpWithdraw \<longrightarrow>
        state_mq H op (state_mb H op m) (leg_pos (op_TakerBase op)) = leg_old H (op_TakerBase op) (op_TakerPubKey op)) \<and>
     (op_code op = OpTrade \<longrightarrow>
        state_tb H op (state_mq H op (state_mb H op m)) (leg_pos (op_TakerQuote op)) =
          leg_old H (op_TakerQuote op) (op_TakerPubKey op))"

definition op_binding :: "(int list \<Rightarrow> int) \<Rightarrow> operation \<Rightarrow> (nat \<Rightarrow> int) \<Rightarrow> bool" where
  "op_binding H op m \<longleftrightarrow>
     (op_code op \<noteq> OpDeposit \<longrightarrow> leg_binding H m (op_MakerBase op) (op_MakerPubKey op)) \<and>
     (op_code op = OpTrade \<longrightarrow> leg_binding H (state_mb H op m) (op_MakerQuote op) (op_MakerPubKey op)) \<and>
     (op_code op \<noteq> OpWithdraw \<longrightarrow>
        leg_binding H (state_mq H op (state_mb H op m)) (op_TakerBase op) (op_TakerPubKey op)) \<and>
     (op_code op = OpTrade \<longrightarrow>
        leg_binding H (state_tb H op (state_mq H op (state_mb H op m))) (op_TakerQuote op) (op_TakerPubKey op))"

lemma op_sound:
  assumes "op_shape op" and valid: "legs_valid H op (mroot H m)" and bind: "op_binding H op m"
  shows "legs_found H op m \<and> op_root H op (mroot H m) = mroot H (state_after H op m)"
proof -
  have sh: "leg_shape (op_MakerBase op)" "leg_shape (op_MakerQuote op)" "leg_shape (op_TakerBase op)"
    "leg_shape (op_TakerQuote op)" using assms(1) by (simp_all add: op_shape_def)
  have wf: "leg_wf (op_MakerBase op)" "leg_wf (op_MakerQuote op)" "leg_wf (op_TakerBase op)"
    "leg_wf (op_TakerQuote op)" using valid by (simp_all add: legs_valid_def)
  note sound = leg_sound [OF sh(1) wf(1)] leg_sound [OF sh(2) wf(2)] leg_sound [OF sh(3) wf(3)] leg_sound [OF sh(4) wf(4)]
  have 1: "root_mb H op (mroot H m) = mroot H (state_mb H op m)"
    "op_code op \<noteq> OpDeposit \<Longrightarrow> m (leg_pos (op_MakerBase op)) = leg_old H (op_MakerBase op) (op_MakerPubKey op)"
    using valid bind sound(1,2) by (auto simp: legs_valid_def op_binding_def root_mb_def state_mb_def apply_leg_def)
  let ?m1 = "state_mb H op m"
  have 2: "root_mq H op (mroot H ?m1) = mroot H (state_mq H op ?m1)"
    "op_code op = OpTrade \<Longrightarrow> ?m1 (leg_pos (op_MakerQuote op)) = leg_old H (op_MakerQuote op) (op_MakerPubKey op)"
    using valid bind sound(3,4) by (auto simp: legs_valid_def op_binding_def root_mq_def state_mq_def apply_leg_def 1(1))
  let ?m2 = "state_mq H op ?m1"
  have 3: "root_tb H op (mroot H ?m2) = mroot H (state_tb H op ?m2)"
    "op_code op \<noteq> OpWithdraw \<Longrightarrow> ?m2 (leg_pos (op_TakerBase op)) = leg_old H (op_TakerBase op) (op_TakerPubKey op)"
    using valid bind sound(5,6)
    by (auto simp: legs_valid_def op_binding_def root_tb_def state_tb_def apply_leg_def 1(1) 2(1))
  let ?m3 = "state_tb H op ?m2"
  have 4: "root_tq H op (mroot H ?m3) = mroot H (state_tq H op ?m3)"
    "op_code op = OpTrade \<Longrightarrow> ?m3 (leg_pos (op_TakerQuote op)) = leg_old H (op_TakerQuote op) (op_TakerPubKey op)"
    using valid bind sound(7,8)
    by (auto simp: legs_valid_def op_binding_def root_tq_def state_tq_def apply_leg_def 1(1) 2(1) 3(1))
  show ?thesis using 1 2 3 4 by (simp add: legs_found_def op_root_def state_after_def)
qed

section \<open>Whole batches\<close>

fun ops_ok :: "(int list \<Rightarrow> int) \<Rightarrow> gnark \<Rightarrow> operation list \<Rightarrow> int \<Rightarrow> bool" where
  "ops_ok H G [] r \<longleftrightarrow> True"
| "ops_ok H G (op # ops) r \<longleftrightarrow> op_valid H G op r \<and> ops_ok H G ops (op_root H op r)"

definition ops_root :: "(int list \<Rightarrow> int) \<Rightarrow> operation list \<Rightarrow> int \<Rightarrow> int" where
  "ops_root H ops r = foldl (\<lambda>r op. op_root H op r) r ops"

definition ops_wh :: "(int list \<Rightarrow> int) \<Rightarrow> operation list \<Rightarrow> int \<Rightarrow> int" where
  "ops_wh H ops wh = foldl (\<lambda>wh op. op_wh H op wh) wh ops"

definition ops_dh :: "(int list \<Rightarrow> int) \<Rightarrow> operation list \<Rightarrow> int \<Rightarrow> int" where
  "ops_dh H ops dh = foldl (\<lambda>dh op. op_dh H op dh) dh ops"

fun batch_binding :: "(int list \<Rightarrow> int) \<Rightarrow> operation list \<Rightarrow> (nat \<Rightarrow> int) \<Rightarrow> bool" where
  "batch_binding H [] m \<longleftrightarrow> True"
| "batch_binding H (op # ops) m \<longleftrightarrow> op_binding H op m \<and> batch_binding H ops (state_after H op m)"

definition states_after :: "(int list \<Rightarrow> int) \<Rightarrow> operation list \<Rightarrow> (nat \<Rightarrow> int) \<Rightarrow> nat \<Rightarrow> int" where
  "states_after H ops m = foldl (\<lambda>m op. state_after H op m) m ops"

definition circuit_shape :: "transition_circuit \<Rightarrow> bool" where
  "circuit_shape c \<longleftrightarrow> length (tc_Ops c) = BatchSize \<and> (\<forall>op \<in> set (tc_Ops c). op_shape op) \<and>
     fr (tc_OldRoot c) = tc_OldRoot c \<and> fr (tc_NewRoot c) = tc_NewRoot c \<and>
     fr (tc_WithdrawalHash c) = tc_WithdrawalHash c \<and> fr (tc_DepositHash c) = tc_DepositHash c"

context gnark_api begin

lemma process_ops_eq:
  "\<forall>op \<in> set ops. op_shape op \<Longrightarrow> fr r = r \<Longrightarrow>
   process_ops G ops r wh dh =
     (if ops_ok H G ops r then Some (ops_root H ops r, ops_wh H ops wh, ops_dh H ops dh) else None)"
proof (induction ops arbitrary: r wh dh)
  case (Cons op ops)
  then show ?case
    using op_root_canonical [OF Cons.prems(2), of op]
    by (simp add: processOperation_eq ops_root_def ops_wh_def ops_dh_def)
qed (simp add: ops_root_def ops_wh_def ops_dh_def)

lemma acc_canonical:
  "fr x = x \<Longrightarrow> fr (ops_wh H ops x) = ops_wh H ops x" "fr x = x \<Longrightarrow> fr (ops_dh H ops x) = ops_dh H ops x"
  "fr x = x \<Longrightarrow> fr (ops_root H ops x) = ops_root H ops x"
proof -
  have h: "fr (H xs) = H xs" for xs by (rule canonical_fr [OF canonH])
  show "fr x = x \<Longrightarrow> fr (ops_wh H ops x) = ops_wh H ops x"
    by (induction ops arbitrary: x) (simp_all add: ops_wh_def op_wh_def h)
  show "fr x = x \<Longrightarrow> fr (ops_dh H ops x) = ops_dh H ops x"
    by (induction ops arbitrary: x) (simp_all add: ops_dh_def op_dh_def h)
  show "fr x = x \<Longrightarrow> fr (ops_root H ops x) = ops_root H ops x"
    by (induction ops arbitrary: x) (simp_all add: ops_root_def op_root_canonical)
qed

lemma Define_eq:
  assumes "circuit_shape c"
  shows "Define G c = Some () \<longleftrightarrow>
    ops_ok H G (tc_Ops c) (tc_OldRoot c) \<and> ops_root H (tc_Ops c) (tc_OldRoot c) = tc_NewRoot c \<and>
    ops_wh H (tc_Ops c) 0 = tc_WithdrawalHash c \<and> ops_dh H (tc_Ops c) 0 = tc_DepositHash c"
proof -
  have c: "length (tc_Ops c) = BatchSize" "\<forall>op \<in> set (tc_Ops c). op_shape op" "fr (tc_OldRoot c) = tc_OldRoot c"
    "fr (tc_NewRoot c) = tc_NewRoot c" "fr (tc_WithdrawalHash c) = tc_WithdrawalHash c"
    "fr (tc_DepositHash c) = tc_DepositHash c" using assms by (simp_all add: circuit_shape_def)
  have "take BatchSize (tc_Ops c) = tc_Ops c" using c(1) by simp
  then show ?thesis
    using acc_canonical(1,2) [of 0 "tc_Ops c"] acc_canonical(3) [OF c(3), of "tc_Ops c"]
    by (simp add: Define_def process_ops_eq [OF c(2,3)] gadgets(7) c(4-6))
qed

lemma process_ops_unauthorised:
  "op \<in> set ops \<Longrightarrow> \<not> auth_valid H G op \<Longrightarrow> process_ops G ops r wh dh = None"
proof (induction ops arbitrary: r wh dh)
  case (Cons op' ops)
  show ?case
  proof (cases "op = op'")
    case True
    then show ?thesis using Cons.prems(2) by (simp add: processOperation_unfold)
  next
    case False
    then have "process_ops G ops r wh dh = None" for r wh dh using Cons by simp
    then show ?thesis by (cases "processOperation G op' r wh dh") auto
  qed
qed simp

lemma Define_unauthorised:
  "op \<in> set (take BatchSize (tc_Ops c)) \<Longrightarrow> \<not> auth_valid H G op \<Longrightarrow> Define G c = None"
  by (simp add: Define_def process_ops_unauthorised)

end

lemma ops_sound:
  assumes "\<forall>op \<in> set ops. op_shape op" "ops_ok H G ops (mroot H m)" "batch_binding H ops m"
  shows "ops_root H ops (mroot H m) = mroot H (states_after H ops m)"
  using assms
proof (induction ops arbitrary: m)
  case (Cons op ops)
  have "op_root H op (mroot H m) = mroot H (state_after H op m)"
    using op_sound [of op H m] Cons.prems by (simp add: op_valid_def)
  then show ?case using Cons by (simp add: ops_root_def states_after_def)
qed (simp add: ops_root_def states_after_def)

section \<open>A concrete operation\<close>

text \<open>A first deposit into the empty tree at position 0, under \<open>level_hash\<close>.\<close>

definition demo_leg :: "int \<Rightarrow> state_leg" where
  "demo_leg index =
     \<lparr>sl_Index = index, sl_Balance = 0, sl_Nonce = 0, sl_IsGenesis = 1, sl_Path = replicate MerkleDepth 0,
      sl_PathBits = replicate MerkleDepth 0\<rparr>"

definition demo_op :: "int \<Rightarrow> int \<Rightarrow> operation" where
  "demo_op code index =
     \<lparr>op_OpType = code, op_Amount = 0, op_QuoteAmount = 0,
      op_MakerPubKey = \<lparr>pk_X = 0, pk_Y = 0\<rparr>, op_MakerSig = \<lparr>sig_RX = 0, sig_RY = 0, sig_S = 0\<rparr>,
      op_MakerBase = demo_leg 0, op_MakerQuote = demo_leg 0,
      op_TakerPubKey = \<lparr>pk_X = 3, pk_Y = 4\<rparr>, op_TakerSig = \<lparr>sig_RX = 0, sig_RY = 0, sig_S = 0\<rparr>,
      op_TakerBase = demo_leg index, op_TakerQuote = demo_leg 0\<rparr>"

definition demo_gnark :: gnark where
  "demo_gnark = fr_gnark level_hash (\<lambda>_ _ _. True)"

lemma demo_gnark_laws [simp]: "gnark_laws level_hash demo_gnark"
  by (simp add: demo_gnark_def fr_gnark_laws level_hash_canonical)

lemma demo_leg_facts [simp]:
  "leg_shape (demo_leg i)" "leg_wf (demo_leg i)" "leg_pos (demo_leg i) = 0"
  "map fr (sl_Path (demo_leg i)) = replicate MerkleDepth 0" "leg_bits (demo_leg i) = replicate MerkleDepth 0"
  "leg_old H (demo_leg i) pk = 0"
proof -
  have "bits_index (replicate n 0) = 0" for n by (induction n) simp_all
  then show "leg_pos (demo_leg i) = 0" by (simp add: leg_pos_def leg_bits_def demo_leg_def)
qed (simp_all add: leg_shape_def leg_wf_def leg_bits_def leg_old_def demo_leg_def)

lemma demo_op_shape [simp]: "op_shape (demo_op code i)"
  by (simp add: op_shape_def demo_op_def)

lemma zero_path:
  "fold_path level_hash 0 (replicate n 0) (replicate n 0) = 0"
  "set (path_inputs level_hash 0 (replicate n 0) (replicate n 0)) \<subseteq> {[0, 0]}"
  by (induction n) (auto simp: level_hash_def Let_def)

lemma mroot_zero: "mroot level_hash (\<lambda>_. 0) = 0"
  by (simp add: mroot_def level_hash_zero)

lemma spath_zero: "spath level_hash (\<lambda>_. 0) d i = replicate d 0"
  by (rule nth_equalityI) (simp_all add: spath_def level_hash_zero)

lemma demo_deposit:
  "op_valid level_hash demo_gnark (demo_op OpDeposit i) 0" "op_binding level_hash (demo_op OpDeposit i) (\<lambda>_. 0)"
proof -
  have code: "op_code (demo_op OpDeposit i) = OpDeposit"
    by (simp add: op_code_def demo_op_def op_codes fr_def fr_modulus_def)
  have legs: "op_TakerBase (demo_op OpDeposit i) = demo_leg i" "op_MakerBase (demo_op OpDeposit i) = demo_leg 0"
    "op_MakerQuote (demo_op OpDeposit i) = demo_leg 0" "op_TakerQuote (demo_op OpDeposit i) = demo_leg 0"
    "op_Amount (demo_op OpDeposit i) = 0" "op_QuoteAmount (demo_op OpDeposit i) = 0" by (simp_all add: demo_op_def)
  show "op_valid level_hash demo_gnark (demo_op OpDeposit i) 0"
    unfolding op_valid_def auth_valid_def legs_valid_def code legs
    by (simp add: op_codes root_mb_def root_mq_def code [unfolded op_codes] leg_opens_def leg_fold_def zero_path)
  have "inj_on level_hash (set (path_inputs level_hash 0 (replicate MerkleDepth 0) (replicate MerkleDepth 0)))"
    by (rule inj_on_subset [OF _ zero_path(2)]) simp
  then show "op_binding level_hash (demo_op OpDeposit i) (\<lambda>_. 0)"
    unfolding op_binding_def code legs
    by (simp add: op_codes state_mb_def state_mq_def code [unfolded op_codes] leg_binding_def spath_zero)
qed

text \<open>
  A full batch: that first deposit, then 24 deposits to the same, now existing, leaf. Under
  \<open>level_hash\<close> an account's leaf is 1, so the state is \<open>demo_state\<close> from the first deposit on.
\<close>

definition demo_state :: "nat \<Rightarrow> int" where
  "demo_state = (\<lambda>_. 0)(0 := 1)"

definition demo_again :: operation where
  "demo_again = (demo_op OpDeposit 0)\<lparr>op_TakerBase := (demo_leg 0)\<lparr>sl_IsGenesis := 0\<rparr>\<rparr>"

definition demo_batch :: transition_circuit where
  "demo_batch = \<lparr>tc_OldRoot = 0, tc_NewRoot = 29, tc_WithdrawalHash = 0,
     tc_DepositHash = ops_dh level_hash (demo_op OpDeposit 0 # replicate 24 demo_again) 0,
     tc_Ops = demo_op OpDeposit 0 # replicate 24 demo_again\<rparr>"

lemma level_hash_step: "0 < c \<Longrightarrow> c < 100 \<Longrightarrow> level_hash [c, 0] = c + 1"
  by (simp add: level_hash_def fr_modulus_def)

lemma one_path:
  "0 < c \<Longrightarrow> c + int n < 100 \<Longrightarrow> fold_path level_hash c (replicate n 0) (replicate n 0) = c + int n \<and>
   set (path_inputs level_hash c (replicate n 0) (replicate n 0)) \<subseteq> (\<lambda>k. [k, 0]) ` {1..<100}"
proof (induction n arbitrary: c)
  case (Suc n)
  have "level_hash [c, 0] = c + 1" using Suc.prems by (intro level_hash_step) simp_all
  then show ?case using Suc.IH [of "c + 1"] Suc.prems by (auto simp: Let_def)
qed simp

lemma level_hash_inj: "inj_on level_hash ((\<lambda>k. [k, 0]) ` {1..<100})"
  by (rule inj_onI) (auto simp: level_hash_step)

lemma demo_state_facts:
  "mroot level_hash demo_state = 29" "spath level_hash demo_state MerkleDepth 0 = replicate MerkleDepth 0"
  "demo_state(0 := 1) = demo_state" "(\<lambda>_. 0)(0 := 1) = demo_state" "demo_state 0 = 1"
proof -
  show p: "spath level_hash demo_state MerkleDepth 0 = replicate MerkleDepth 0"
    by (simp add: demo_state_def level_hash_spath)
  have b: "sbits MerkleDepth 0 = replicate MerkleDepth 0"
    by (rule nth_equalityI) (simp_all add: sbits_def)
  show "mroot level_hash demo_state = 29"
    using fold_spath_same [of level_hash demo_state 0 MerkleDepth] one_path [of 1 MerkleDepth]
    unfolding p b by (simp add: mroot_def demo_state_def MerkleDepth_def)
qed (simp_all add: demo_state_def)

lemma demo_leaf: "leg_leaf level_hash u pk b n = 1"
  by (simp add: leg_leaf_def level_hash_def)

lemma demo_codes: "op_code (demo_op OpDeposit 0) = 3" "op_code demo_again = 3" "op_code (demo_op 3 0) = 3"
  by (simp_all add: op_code_def demo_again_def demo_op_def op_codes fr_def fr_modulus_def)

lemma demo_first_state: "state_after level_hash (demo_op OpDeposit 0) (\<lambda>_. 0) = demo_state"
  by (simp add: state_after_def state_mb_def state_mq_def state_tb_def state_tq_def demo_codes op_codes apply_leg_def
      demo_leaf demo_state_facts(4)) (simp add: demo_op_def demo_state_facts(4))?

lemma demo_again_facts:
  "op_shape demo_again" "op_valid level_hash demo_gnark demo_again 29" "op_binding level_hash demo_again demo_state"
  "state_after level_hash demo_again demo_state = demo_state" "op_root level_hash demo_again 29 = 29"
proof -
  let ?tb = "(demo_leg 0)\<lparr>sl_IsGenesis := 0\<rparr>"
  have legs: "op_TakerBase demo_again = ?tb" "op_MakerBase demo_again = demo_leg 0"
    "op_MakerQuote demo_again = demo_leg 0" "op_TakerQuote demo_again = demo_leg 0"
    "op_Amount demo_again = 0" "op_QuoteAmount demo_again = 0" by (simp_all add: demo_again_def demo_op_def)
  have tb: "leg_shape ?tb" "leg_wf ?tb" "leg_pos ?tb = 0" "map fr (sl_Path ?tb) = replicate MerkleDepth 0"
    "leg_bits ?tb = replicate MerkleDepth 0" "leg_old level_hash ?tb pk = 1" for pk
    using demo_leg_facts(1-5) [of 0]
    by (simp_all add: leg_shape_def leg_wf_def leg_pos_def leg_bits_def leg_old_def demo_leaf demo_leg_def)
  have fold: "fold_path level_hash 1 (replicate MerkleDepth 0) (replicate MerkleDepth 0) = 29"
    and inputs: "set (path_inputs level_hash 1 (replicate MerkleDepth 0) (replicate MerkleDepth 0)) \<subseteq> (\<lambda>k. [k, 0]) ` {1..<100}"
    using one_path [of 1 MerkleDepth] by (simp_all add: MerkleDepth_def)
  show shape: "op_shape demo_again" by (simp add: op_shape_def legs tb)
  show valid: "op_valid level_hash demo_gnark demo_again 29"
    unfolding op_valid_def auth_valid_def legs_valid_def legs
    by (simp add: op_codes root_mb_def root_mq_def demo_codes leg_opens_def leg_fold_def tb fold)
  have "inj_on level_hash (set (path_inputs level_hash 1 (replicate MerkleDepth 0) (replicate MerkleDepth 0)))"
    by (rule inj_on_subset [OF level_hash_inj inputs])
  then show bind: "op_binding level_hash demo_again demo_state"
    unfolding op_binding_def legs
    by (simp add: op_codes state_mb_def state_mq_def demo_codes leg_binding_def tb demo_state_facts)
  show st: "state_after level_hash demo_again demo_state = demo_state"
    by (simp add: state_after_def state_mb_def state_mq_def state_tb_def state_tq_def demo_codes op_codes
        apply_leg_def demo_leaf legs tb demo_state_facts(3))
  show "op_root level_hash demo_again 29 = 29"
    using op_sound [OF shape _ bind] valid st by (simp add: demo_state_facts(1) op_valid_def)
qed

lemma demo_batch_facts:
  "circuit_shape demo_batch" "ops_ok level_hash demo_gnark (tc_Ops demo_batch) 0"
  "ops_root level_hash (tc_Ops demo_batch) 0 = 29" "ops_wh level_hash (tc_Ops demo_batch) 0 = 0"
  "batch_binding level_hash (tc_Ops demo_batch) (\<lambda>_. 0)"
proof -
  have root1: "op_root level_hash (demo_op OpDeposit 0) 0 = 29"
    using op_sound [OF demo_op_shape _ demo_deposit(2)] demo_deposit(1) [of 0]
    by (simp add: mroot_zero demo_first_state demo_state_facts(1) op_valid_def)
  have "ops_ok level_hash demo_gnark (replicate n demo_again) 29 \<and> ops_root level_hash (replicate n demo_again) 29 = 29 \<and>
    batch_binding level_hash (replicate n demo_again) demo_state \<and> ops_wh level_hash (replicate n demo_again) 0 = 0" for n
    by (induction n) (simp_all add: demo_again_facts ops_root_def ops_wh_def op_wh_def demo_codes op_codes)
  then show "ops_ok level_hash demo_gnark (tc_Ops demo_batch) 0" "ops_root level_hash (tc_Ops demo_batch) 0 = 29"
    "ops_wh level_hash (tc_Ops demo_batch) 0 = 0" "batch_binding level_hash (tc_Ops demo_batch) (\<lambda>_. 0)"
    using demo_deposit root1
    by (simp_all add: demo_batch_def ops_root_def ops_wh_def op_wh_def demo_codes op_codes demo_first_state [unfolded op_codes])
  have "fr (tc_DepositHash demo_batch) = tc_DepositHash demo_batch"
    using gnark_api.acc_canonical(2) [OF gnark_api.intro [OF demo_gnark_laws], of 0] by (simp add: demo_batch_def)
  then show "circuit_shape demo_batch"
    by (simp add: circuit_shape_def) (simp add: demo_batch_def BatchSize_def demo_again_facts(1) fr_def fr_modulus_def)
qed

section \<open>Properties of the circuit\<close>

text \<open>
  C16: one operation, exactly. Under the documented behaviour of the gadgets, the constraints of
  \<open>processOperation\<close> are satisfiable at an assignment exactly when \<open>op_valid\<close> holds: a known op
  code, amounts of at most 252 bits, the signatures the op needs, well-formed legs, each active
  leg opening the root it acts on, and no debit above its balance; and the outputs are the root
  of the four leg writes and the two accumulators.
\<close>
theorem circuit_operation_exact:
  assumes "gnark_laws H G" and "op_shape op" and "fr r = r"
  shows "processOperation G op r wh dh =
    (if op_valid H G op r then Some (op_root H op r, op_wh H op wh, op_dh H op dh) else None)"
  by (rule gnark_api.processOperation_eq [OF gnark_api.intro [OF assms(1)] assms(2,3)])

theorem circuit_operation_exact_witness:
  "\<exists>out. processOperation demo_gnark (demo_op OpDeposit 0) 0 0 0 = Some out"
  using circuit_operation_exact [OF demo_gnark_laws demo_op_shape, of 0 OpDeposit 0 0 0] demo_deposit(1) [of 0]
  by simp

text \<open>
  C8: soundness of a proven batch. If the circuit accepts and the old root is the root of some
  state, then, absent collisions among the hashed inputs, the new root is the root of that state
  after the 25 operations in order, each of which found its claimed old leaves where its
  direction bits point, and the two public hashes are the accumulators over the batch.
\<close>
theorem circuit_batch_sound:
  assumes "gnark_laws H G" and "circuit_shape c" and "Define G c = Some ()"
    and "tc_OldRoot c = mroot H m" and "batch_binding H (tc_Ops c) m"
  shows "tc_NewRoot c = mroot H (states_after H (tc_Ops c) m) \<and>
    tc_WithdrawalHash c = ops_wh H (tc_Ops c) 0 \<and> tc_DepositHash c = ops_dh H (tc_Ops c) 0 \<and>
    legs_found H (hd (tc_Ops c)) m"
proof -
  have "ops_ok H G (tc_Ops c) (mroot H m) \<and> ops_root H (tc_Ops c) (mroot H m) = tc_NewRoot c \<and>
    ops_wh H (tc_Ops c) 0 = tc_WithdrawalHash c \<and> ops_dh H (tc_Ops c) 0 = tc_DepositHash c"
    using gnark_api.Define_eq [OF gnark_api.intro [OF assms(1)] assms(2)] assms(3,4) by simp
  moreover have "\<forall>op \<in> set (tc_Ops c). op_shape op" using assms(2) by (simp add: circuit_shape_def)
  moreover obtain op ops where ops: "tc_Ops c = op # ops"
    using assms(2) by (cases "tc_Ops c") (auto simp: circuit_shape_def BatchSize_def)
  moreover have "legs_found H op m"
    using op_sound [of op H m] calculation assms(5) by (simp add: op_valid_def)
  ultimately show ?thesis using ops_sound [of "tc_Ops c" H G m] assms(5) by simp
qed

theorem circuit_batch_sound_witness:
  "tc_NewRoot demo_batch = mroot level_hash (states_after level_hash (tc_Ops demo_batch) (\<lambda>_. 0))"
proof -
  have "Define demo_gnark demo_batch = Some ()"
    unfolding gnark_api.Define_eq [OF gnark_api.intro [OF demo_gnark_laws] demo_batch_facts(1)]
    using demo_batch_facts(2-4) by (simp add: demo_batch_def)
  moreover have "tc_OldRoot demo_batch = mroot level_hash (\<lambda>_. 0)" by (simp add: demo_batch_def mroot_zero)
  ultimately show ?thesis
    using circuit_batch_sound [OF demo_gnark_laws demo_batch_facts(1) _ _ demo_batch_facts(5)] by blast
qed

text \<open>
  Completeness of a batch, the converse. A batch of operations each of which is valid at
  the root it meets is accepted, with the public inputs the chain computes.
\<close>
theorem circuit_batch_complete:
  assumes "gnark_laws H G" and "circuit_shape c" and "ops_ok H G (tc_Ops c) (tc_OldRoot c)"
    and "tc_NewRoot c = ops_root H (tc_Ops c) (tc_OldRoot c)"
    and "tc_WithdrawalHash c = ops_wh H (tc_Ops c) 0" and "tc_DepositHash c = ops_dh H (tc_Ops c) 0"
  shows "Define G c = Some ()"
  using gnark_api.Define_eq [OF gnark_api.intro [OF assms(1)] assms(2)] assms(3-6) by simp

theorem circuit_batch_complete_witness: "Define demo_gnark demo_batch = Some ()"
  by (rule circuit_batch_complete [OF demo_gnark_laws demo_batch_facts(1)])
    (use demo_batch_facts(2-4) in \<open>simp_all add: demo_batch_def\<close>)

text \<open>
  C40: the direction bits of a leg are not tied to its index. A first deposit whose index is
  anything at all is accepted at any empty leaf \<open>j\<close> of the tree: the circuit checks that leaf
  \<open>j\<close> is 0 and writes there the leaf of the claimed index.
\<close>
theorem genesis_position_free:
  assumes "gnark_laws H G" and "op_shape op" and "op_code op = OpDeposit"
    and "fr (op_Amount op) < 2 ^ 252" "fr (op_QuoteAmount op) < 2 ^ 252"
    and "leg_wf (op_MakerBase op)" "leg_wf (op_MakerQuote op)" "leg_wf (op_TakerQuote op)" "leg_wf (op_TakerBase op)"
    and "fr (sl_IsGenesis (op_TakerBase op)) = 1"
    and "map fr (sl_Path (op_TakerBase op)) = spath H m MerkleDepth j"
    and "leg_bits (op_TakerBase op) = sbits MerkleDepth j" "j < 2 ^ MerkleDepth" "m j = 0" "fr (mroot H m) = mroot H m"
  shows "processOperation G op (mroot H m) wh dh =
    Some (mroot H (m(j := leg_leaf H (op_TakerBase op) (op_TakerPubKey op)
                            (sl_Balance (op_TakerBase op) + op_Amount op) (sl_Nonce (op_TakerBase op)))),
          fr wh, H (map fr [dh, sl_Index (op_TakerBase op), op_Amount op]))"
proof -
  have old: "leg_old H (op_TakerBase op) (op_TakerPubKey op) = m j"
    using assms(10,14) by (simp add: leg_old_def)
  note tb = leg_complete [OF assms(11,12,13) old]
  have "op_valid H G op (mroot H m)"
    using assms tb(1) by (simp add: op_valid_def auth_valid_def legs_valid_def root_mb_def root_mq_def op_codes)
  then show ?thesis
    using gnark_api.processOperation_eq [OF gnark_api.intro [OF assms(1)] assms(2,15)] tb(2) assms(3)
    by (simp add: op_root_def op_wh_def op_dh_def root_mb_def root_mq_def root_tb_def root_tq_def op_codes)
qed

theorem genesis_position_free_witness:
  "\<exists>r wh dh. processOperation demo_gnark (demo_op OpDeposit 777) (mroot level_hash (\<lambda>_. 0)) 0 0 = Some (r, wh, dh)"
proof -
  have code: "op_code (demo_op OpDeposit 777) = OpDeposit"
    by (simp add: op_code_def demo_op_def op_codes fr_def fr_modulus_def)
  have bits: "sbits MerkleDepth 0 = replicate MerkleDepth 0"
    by (rule nth_equalityI) (simp_all add: sbits_def)
  have l: "op_TakerBase (demo_op OpDeposit 777) = demo_leg 777" "op_MakerBase (demo_op OpDeposit 777) = demo_leg 0"
    "op_MakerQuote (demo_op OpDeposit 777) = demo_leg 0" "op_TakerQuote (demo_op OpDeposit 777) = demo_leg 0"
    "op_Amount (demo_op OpDeposit 777) = 0" "op_QuoteAmount (demo_op OpDeposit 777) = 0" by (simp_all add: demo_op_def)
  have "fr (sl_IsGenesis (demo_leg 777)) = 1" by (simp add: demo_leg_def)
  then show ?thesis
    using genesis_position_free [OF demo_gnark_laws demo_op_shape code, of "\<lambda>_. 0" 0 0 0]
    by (simp add: l spath_zero bits mroot_zero)
qed

text \<open>
  What a transfer's signature covers. The signed message holds the op code, the sender's key
  and the sender's two leaf indices; the receiver, the amount and the nonce are not in it, so a
  signature that authorises one transfer authorises any other one from the same leaf.
\<close>
theorem transfer_signature_covers_sender_only:
  assumes "op_code op = OpTransfer"
    and "other = op\<lparr>op_Amount := a, op_TakerPubKey := pk, op_TakerBase := tb, op_TakerQuote := tq,
                   op_MakerBase := (op_MakerBase op)\<lparr>sl_Balance := b, sl_Nonce := n, sl_IsGenesis := g, sl_Path := p, sl_PathBits := bs\<rparr>\<rparr>"
  shows "auth_valid H G other = auth_valid H G op"
  using assms(1) by (simp add: assms(2) auth_valid_def auth_msg_def op_code_def op_codes)

theorem transfer_signature_covers_sender_only_witness:
  "auth_valid level_hash demo_gnark ((demo_op OpTransfer 0)\<lparr>op_Amount := 9, op_TakerPubKey := \<lparr>pk_X = 8, pk_Y = 8\<rparr>,
      op_TakerBase := demo_leg 5, op_TakerQuote := demo_leg 0,
      op_MakerBase := (op_MakerBase (demo_op OpTransfer 0))\<lparr>sl_Balance := 1, sl_Nonce := 2, sl_IsGenesis := 0, sl_Path := [], sl_PathBits := []\<rparr>\<rparr>) =
   auth_valid level_hash demo_gnark (demo_op OpTransfer 0)"
proof -
  have "op_code (demo_op OpTransfer 0) = OpTransfer"
    by (simp add: op_code_def demo_op_def op_codes fr_def fr_modulus_def)
  then show ?thesis by (rule transfer_signature_covers_sender_only) (rule refl)
qed

end
