(* ===== verification/Batcher.thy ===== *)
theory Batcher imports Types Field begin

text \<open>
  The batcher, sequencer/internal/batcher/batcher.go: transitions are collected until 25 have
  arrived, then the batch is sealed under its id with the running deposit and withdrawal hashes.
  A \<open>*ZKBatch\<close> is a record; a sealed batch is never changed afterwards, so the aliasing of
  \<open>latestBatch\<close> and the history entry is invisible. \<open>None\<close> is a nil pointer. The MiMC hash is
  the parameter \<open>H\<close>.
\<close>

record batcher =
  currentBatch :: zk_batch
  latestBatch :: "zk_batch option"
  batchCounter :: u64
  batchHistory :: "u64 \<rightharpoonup> zk_batch"
  currentDepositHash :: int
  currentWithdrawalHash :: int

text \<open>\<open>&types.ZKBatch\{BatchID: id\}\<close>: every other field is Go's zero value.\<close>

definition empty_batch :: "u64 \<Rightarrow> zk_batch" where
  "empty_batch bid =
     \<lparr>zb_BatchID = bid, zb_OldRoot = [], zb_NewRoot = [], zb_WithdrawalHash = [], zb_DepositHash = [],
      zb_Transitions = []\<rparr>"

definition NewBatcher :: batcher where
  "NewBatcher =
     \<lparr>currentBatch = empty_batch 1, latestBatch = None, batchCounter = 1, batchHistory = Map.empty,
      currentDepositHash = 0, currentWithdrawalHash = 0\<rparr>"

definition mimcHash :: "(int list \<Rightarrow> int) \<Rightarrow> int list \<Rightarrow> int" where
  "mimcHash H items = fr (H (map fr items))"

text \<open>\<open>SetString(t.Amount, 10)\<close> with 0 when it does not parse.\<close>

definition amount_or_zero :: "string \<Rightarrow> int" where
  "amount_or_zero s = (case parse_dec s of Some n \<Rightarrow> n | None \<Rightarrow> 0)"

definition accumulate :: "(int list \<Rightarrow> int) \<Rightarrow> state_transition \<Rightarrow> batcher \<Rightarrow> batcher" where
  "accumulate H t b =
     (let b = (if st_OpType t = OpDeposit
               then b\<lparr>currentDepositHash :=
                        mimcHash H [currentDepositHash b, uint (su_Index (st_TakerBase t)), amount_or_zero (st_Amount t)]\<rparr>
               else b)
      in if st_OpType t = OpWithdraw
         then b\<lparr>currentWithdrawalHash :=
                  mimcHash H [currentWithdrawalHash b, uint (su_Index (st_MakerBase t)), amount_or_zero (st_Amount t)]\<rparr>
         else b)"

definition seal :: "batcher \<Rightarrow> batcher" where
  "seal b =
     (let batch = (currentBatch b)\<lparr>zb_WithdrawalHash := dec (currentWithdrawalHash b),
                                   zb_DepositHash := dec (currentDepositHash b)\<rparr>
      in b\<lparr>batchHistory := (batchHistory b)(zb_BatchID batch \<mapsto> batch), latestBatch := Some batch,
           batchCounter := batchCounter b + 1, currentBatch := empty_batch (batchCounter b + 1),
           currentDepositHash := 0, currentWithdrawalHash := 0\<rparr>)"

definition AddTransition ::
  "(int list \<Rightarrow> int) \<Rightarrow> state_transition \<Rightarrow> string \<Rightarrow> string \<Rightarrow> batcher \<Rightarrow> batcher" where
  "AddTransition H t oldRoot newRoot b =
     (let b1 = (if zb_Transitions (currentBatch b) = []
                then b\<lparr>currentBatch := (currentBatch b)\<lparr>zb_OldRoot := oldRoot\<rparr>\<rparr> else b);
          b2 = b1\<lparr>currentBatch := (currentBatch b1)\<lparr>zb_Transitions := zb_Transitions (currentBatch b1) @ [t],
                                                     zb_NewRoot := newRoot\<rparr>\<rparr>;
          b3 = accumulate H t b2
      in if length (zb_Transitions (currentBatch b3)) = BatchSize then seal b3 else b3)"

definition GetLatestBatch :: "batcher \<Rightarrow> zk_batch option" where
  "GetLatestBatch b = latestBatch b"

definition GetBatch :: "batcher \<Rightarrow> u64 \<Rightarrow> zk_batch option" where
  "GetBatch b bid = batchHistory b bid"

definition GetBatchCount :: "batcher \<Rightarrow> u64" where
  "GetBatchCount b = of_nat (card (dom (batchHistory b)))"

definition GetCurrentBatchSize :: "batcher \<Rightarrow> nat" where
  "GetCurrentBatchSize b = length (zb_Transitions (currentBatch b))"

definition batchIDToKey :: "u64 \<Rightarrow> bytes" where
  "batchIDToKey bid = be_enc 8 (unat bid)"

definition DebugDepositHash :: "batcher \<Rightarrow> string" where
  "DebugDepositHash b = dec (currentDepositHash b)"

section \<open>The batcher as a function of the transitions it received\<close>

text \<open>
  \<open>sent\<close> is everything ever added, in order, with its roots. The state of the batcher is the
  division of that list into blocks of 25: \<open>sealed_batch k\<close> is block \<open>k\<close> as a batch, the rest
  is the current one.
\<close>

type_synonym sent = "(state_transition \<times> string \<times> string) list"

definition send :: "(int list \<Rightarrow> int) \<Rightarrow> sent \<Rightarrow> batcher" where
  "send H xs = foldl (\<lambda>b (t, old, new). AddTransition H t old new b) NewBatcher xs"

definition dep_hash :: "(int list \<Rightarrow> int) \<Rightarrow> state_transition list \<Rightarrow> int" where
  "dep_hash H ts = foldl (\<lambda>h t. if st_OpType t = OpDeposit
     then mimcHash H [h, uint (su_Index (st_TakerBase t)), amount_or_zero (st_Amount t)] else h) 0 ts"

definition wd_hash :: "(int list \<Rightarrow> int) \<Rightarrow> state_transition list \<Rightarrow> int" where
  "wd_hash H ts = foldl (\<lambda>h t. if st_OpType t = OpWithdraw
     then mimcHash H [h, uint (su_Index (st_MakerBase t)), amount_or_zero (st_Amount t)] else h) 0 ts"

definition open_batch :: "u64 \<Rightarrow> sent \<Rightarrow> zk_batch" where
  "open_batch bid xs =
     \<lparr>zb_BatchID = bid, zb_OldRoot = (case xs of [] \<Rightarrow> [] | (t, old, new) # _ \<Rightarrow> old),
      zb_NewRoot = (if xs = [] then [] else snd (snd (last xs))), zb_WithdrawalHash = [], zb_DepositHash = [],
      zb_Transitions = map fst xs\<rparr>"

definition sealed_batch :: "(int list \<Rightarrow> int) \<Rightarrow> u64 \<Rightarrow> sent \<Rightarrow> zk_batch" where
  "sealed_batch H bid xs = (open_batch bid xs)\<lparr>zb_WithdrawalHash := dec (wd_hash H (map fst xs)),
                                             zb_DepositHash := dec (dep_hash H (map fst xs))\<rparr>"

text \<open>The blocks filled so far and the open rest, read off the list as it grows.\<close>

definition split_step :: "sent list \<times> sent \<Rightarrow> state_transition \<times> string \<times> string \<Rightarrow> sent list \<times> sent" where
  "split_step = (\<lambda>(bs, rs) x. if length rs + 1 = BatchSize then (bs @ [rs @ [x]], []) else (bs, rs @ [x]))"

definition split_batches :: "sent \<Rightarrow> sent list \<times> sent" where
  "split_batches xs = foldl split_step ([], []) xs"

lemma split_snoc: "split_batches (xs @ [x]) = split_step (split_batches xs) x"
  by (simp add: split_batches_def)

lemma split_props:
  "split_batches xs = (bs, rs) \<Longrightarrow> concat bs @ rs = xs \<and> (\<forall>b \<in> set bs. length b = BatchSize) \<and> length rs < BatchSize"
proof (induction xs arbitrary: bs rs rule: rev_induct)
  case Nil
  then show ?case by (simp add: split_batches_def BatchSize_def)
next
  case (snoc x xs)
  obtain bs' rs' where s: "split_batches xs = (bs', rs')" by fastforce
  show ?case using snoc.IH [OF s] snoc.prems by (auto simp: split_snoc s split_step_def split: if_splits)
qed

lemma split_count: "split_batches xs = (bs, rs) \<Longrightarrow> length bs = length xs div BatchSize"
proof -
  assume "split_batches xs = (bs, rs)"
  from split_props [OF this] have p: "concat bs @ rs = xs" "\<forall>b \<in> set bs. length b = BatchSize" "length rs < BatchSize"
    by simp_all
  have "length (concat bs) = length bs * BatchSize" using p(2) by (induction bs) simp_all
  then have "length xs = length bs * BatchSize + length rs" using arg_cong [OF p(1), of length] by simp
  then show ?thesis using p(3) by simp
qed

definition batcher_of :: "(int list \<Rightarrow> int) \<Rightarrow> sent list \<times> sent \<Rightarrow> batcher" where
  "batcher_of H = (\<lambda>(bs, rs).
     \<lparr>currentBatch = open_batch (of_nat (length bs + 1)) rs,
      latestBatch = (if bs = [] then None else Some (sealed_batch H (of_nat (length bs)) (last bs))),
      batchCounter = of_nat (length bs + 1),
      batchHistory = (\<lambda>bid. if 1 \<le> unat bid \<and> unat bid \<le> length bs
                            then Some (sealed_batch H bid (bs ! (unat bid - 1))) else None),
      currentDepositHash = dep_hash H (map fst rs),
      currentWithdrawalHash = wd_hash H (map fst rs)\<rparr>)"

lemma hash_snoc [simp]:
  "dep_hash H (ts @ [t]) = (if st_OpType t = OpDeposit
     then mimcHash H [dep_hash H ts, uint (su_Index (st_TakerBase t)), amount_or_zero (st_Amount t)] else dep_hash H ts)"
  "wd_hash H (ts @ [t]) = (if st_OpType t = OpWithdraw
     then mimcHash H [wd_hash H ts, uint (su_Index (st_MakerBase t)), amount_or_zero (st_Amount t)] else wd_hash H ts)"
  "dep_hash H [] = 0" "wd_hash H [] = 0"
  by (simp_all add: dep_hash_def wd_hash_def)

text \<open>The current batch with one more transition, before it is sealed.\<close>

definition pushed :: "(int list \<Rightarrow> int) \<Rightarrow> sent list \<Rightarrow> sent \<Rightarrow> batcher" where
  "pushed H bs rs = (batcher_of H (bs, []))\<lparr>currentBatch := open_batch (of_nat (length bs + 1)) rs,
      currentDepositHash := dep_hash H (map fst rs), currentWithdrawalHash := wd_hash H (map fst rs)\<rparr>"

lemma batcher_of_pushed: "batcher_of H (bs, rs) = pushed H bs rs"
  by (simp add: batcher_of_def pushed_def)

lemma push_transition:
  "accumulate H t
     (let b = pushed H bs rs; b1 = (if zb_Transitions (currentBatch b) = []
         then b\<lparr>currentBatch := (currentBatch b)\<lparr>zb_OldRoot := old\<rparr>\<rparr> else b)
      in b1\<lparr>currentBatch := (currentBatch b1)\<lparr>zb_Transitions := zb_Transitions (currentBatch b1) @ [t], zb_NewRoot := new\<rparr>\<rparr>) =
   pushed H bs (rs @ [(t, old, new)])"
  using hash_snoc(1,2) [of H "[]" t] hash_snoc(1,2) [of H "map fst rs" t]
  by (cases rs)
    (auto simp: pushed_def batcher_of_def accumulate_def Let_def open_batch_def op_codes split: if_splits)

lemma AddTransition_pushed:
  "AddTransition H t old new (pushed H bs rs) =
     (if length rs + 1 = BatchSize then seal (pushed H bs (rs @ [(t, old, new)])) else pushed H bs (rs @ [(t, old, new)]))"
proof -
  have "length (zb_Transitions (currentBatch (pushed H bs (rs @ [(t, old, new)])))) = length rs + 1"
    by (simp add: pushed_def open_batch_def)
  then show ?thesis
    using push_transition [of H t bs rs old new] by (simp only: AddTransition_def Let_def)
qed

lemma unat_Suc_u64: "n + 1 < 2 ^ 64 \<Longrightarrow> unat (of_nat (n + 1) :: u64) = n + 1"
  by (simp only: unat_of_nat) simp

lemma seal_pushed:
  assumes "length bs + 1 < 2 ^ 64"
  shows "seal (pushed H bs rs) = pushed H (bs @ [rs]) []"
proof -
  have bid: "of_nat (length bs + 1) + 1 = (of_nat (length (bs @ [rs]) + 1) :: u64)" by simp
  have id: "unat x = length bs + 1 \<longleftrightarrow> x = of_nat (length bs + 1)" for x :: u64
    using unat_Suc_u64 [OF assms] by (auto simp: word_unat_eq_iff)
  have hist: "(batchHistory (batcher_of H (bs, [])))(of_nat (length bs + 1) \<mapsto> sealed_batch H (of_nat (length bs + 1)) rs) =
      batchHistory (batcher_of H (bs @ [rs], []))"
  proof
    fix x :: u64
    show "((batchHistory (batcher_of H (bs, [])))(of_nat (length bs + 1) \<mapsto> sealed_batch H (of_nat (length bs + 1)) rs)) x =
        batchHistory (batcher_of H (bs @ [rs], [])) x"
      using id [of x] by (auto simp: batcher_of_def nth_append)
  qed
  have "(open_batch (of_nat (length bs + 1)) rs)\<lparr>zb_WithdrawalHash := dec (wd_hash H (map fst rs)),
      zb_DepositHash := dec (dep_hash H (map fst rs))\<rparr> = sealed_batch H (of_nat (length bs + 1)) rs"
    by (simp add: sealed_batch_def)
  then show ?thesis
    using hist by (simp add: seal_def pushed_def batcher_of_def Let_def open_batch_def empty_batch_def sealed_batch_def bid)
qed

lemma send_snoc: "send H (xs @ [(t, old, new)]) = AddTransition H t old new (send H xs)"
  by (simp add: send_def)

lemma send_batcher_of:
  "length xs div BatchSize + 1 < 2 ^ 64 \<Longrightarrow> send H xs = batcher_of H (split_batches xs)"
proof (induction xs rule: rev_induct)
  case Nil
  show ?case
    by (auto simp: send_def split_batches_def NewBatcher_def batcher_of_def empty_batch_def open_batch_def fun_eq_iff)
next
  case (snoc x xs)
  obtain t old new where x: "x = (t, old, new)" by (cases x)
  obtain bs rs where s: "split_batches xs = (bs, rs)" by fastforce
  have "length xs div BatchSize \<le> length (xs @ [x]) div BatchSize" by (intro div_le_mono) simp
  then have small: "length xs div BatchSize + 1 < 2 ^ 64" using snoc.prems by linarith
  have eq: "send H xs = pushed H bs rs" using snoc.IH [OF small] s by (simp add: batcher_of_pushed)
  have b: "length bs + 1 < 2 ^ 64" using split_count [OF s] small by simp
  show ?case
    by (simp add: x send_snoc eq AddTransition_pushed split_snoc s split_step_def seal_pushed [OF b] batcher_of_pushed)
qed

lemma card_history:
  assumes "n < 2 ^ 64"
  shows "card {bid :: u64. 1 \<le> unat bid \<and> unat bid \<le> n} = n"
proof -
  have "{bid :: u64. 1 \<le> unat bid \<and> unat bid \<le> n} = of_nat ` {1..n}"
  proof (intro equalityI subsetI)
    fix x :: u64 assume "x \<in> {bid. 1 \<le> unat bid \<and> unat bid \<le> n}"
    then show "x \<in> of_nat ` {1..n}" by (intro image_eqI [of _ _ "unat x"]) simp_all
  next
    fix x :: u64 assume "x \<in> of_nat ` {1..n}"
    then obtain k where "x = of_nat k" "1 \<le> k" "k \<le> n" by auto
    then show "x \<in> {bid. 1 \<le> unat bid \<and> unat bid \<le> n}" using assms by (simp add: unat_of_nat)
  qed
  moreover have "inj_on (of_nat :: nat \<Rightarrow> u64) {1..n}"
  proof (rule inj_onI)
    fix i j :: nat assume "i \<in> {1..n}" "j \<in> {1..n}" "(of_nat i :: u64) = of_nat j"
    then have "unat (of_nat i :: u64) = unat (of_nat j :: u64)" "i < 2 ^ 64" "j < 2 ^ 64" using assms by auto
    then show "i = j" by (simp add: unat_of_nat)
  qed
  ultimately show ?thesis by (simp add: card_image)
qed

section \<open>Properties of the batcher\<close>

definition demo_transition :: "int \<Rightarrow> state_transition" where
  "demo_transition code =
     (let u = \<lparr>su_Index = 1, su_Balance = ''0'', su_Nonce = 0, su_Path = [], su_PathBits = [], su_IsGenesis = False\<rparr>
      in \<lparr>st_OpType = code, st_Amount = ''5'', st_QuoteAmount = ''0'', st_MakerPubKeyX = ''0'', st_MakerPubKeyY = ''0'',
          st_MakerSig = [], st_MakerBase = u, st_MakerQuote = u, st_TakerPubKeyX = ''0'', st_TakerPubKeyY = ''0'',
          st_TakerSig = [], st_TakerBase = u, st_TakerQuote = u\<rparr>)"

definition demo_sent :: sent where
  "demo_sent = replicate 26 (demo_transition 3, ''r'', ''r'')"

text \<open>
  C17: the batcher loses, duplicates and reorders nothing. After any transitions, the batches with
  ids 1 to \<open>n\<close> are the \<open>n\<close> complete blocks of 25 in the order sent, each with the first old
  root, the last new root and the two hashes of exactly its own transitions; no other id has a
  batch; the count is \<open>n\<close>; the rest, fewer than 25, waits in the current batch.
\<close>
theorem batcher_blocks:
  assumes "length xs div BatchSize + 1 < 2 ^ 64"
  shows "\<exists>bs rs. concat bs @ rs = xs \<and> (\<forall>b \<in> set bs. length b = BatchSize) \<and> length rs < BatchSize \<and>
    (\<forall>k. GetBatch (send H xs) k =
       (if 1 \<le> unat k \<and> unat k \<le> length bs then Some (sealed_batch H k (bs ! (unat k - 1))) else None)) \<and>
    GetBatchCount (send H xs) = of_nat (length bs) \<and> GetCurrentBatchSize (send H xs) = length rs \<and>
    GetLatestBatch (send H xs) = (if bs = [] then None else GetBatch (send H xs) (of_nat (length bs)))"
proof -
  obtain bs rs where s: "split_batches xs = (bs, rs)" by fastforce
  have eq: "send H xs = batcher_of H (bs, rs)" using send_batcher_of [OF assms] s by simp
  have n: "length bs < 2 ^ 64" using split_count [OF s] assms by simp
  have dom: "dom (batchHistory (batcher_of H (bs, rs))) = {bid. 1 \<le> unat bid \<and> unat bid \<le> length bs}"
    by (auto simp: batcher_of_def split: if_splits)
  have "GetBatchCount (send H xs) = of_nat (length bs)"
    using card_history [OF n] by (simp add: eq GetBatchCount_def dom)
  moreover have "GetLatestBatch (send H xs) = (if bs = [] then None else GetBatch (send H xs) (of_nat (length bs)))"
    using n by (auto simp: eq GetLatestBatch_def GetBatch_def batcher_of_def unat_of_nat last_conv_nth Suc_le_eq)
  ultimately show ?thesis
    using split_props [OF s]
    by (intro exI [of _ bs] exI [of _ rs])
      (simp add: eq GetBatch_def GetCurrentBatchSize_def batcher_of_def open_batch_def)
qed

theorem batcher_blocks_witness:
  "\<exists>bs :: sent list. GetBatchCount (send (mimc_hash []) demo_sent) = of_nat (length bs) \<and> length (concat bs) \<le> 26"
proof -
  have "length demo_sent div BatchSize + 1 < 2 ^ 64" by (simp add: demo_sent_def BatchSize_def)
  from batcher_blocks [OF this] obtain bs rs where
    b: "concat bs @ rs = demo_sent" "GetBatchCount (send (mimc_hash []) demo_sent) = of_nat (length bs)" by blast
  have "length (concat bs) \<le> 26" using arg_cong [OF b(1), of length] by (simp add: demo_sent_def)
  then show ?thesis using b(2) by blast
qed

lemma block_nonempty: "\<forall>b \<in> set bs. length b = BatchSize \<Longrightarrow> k < length bs \<Longrightarrow> bs ! k \<noteq> []"
  using nth_mem [of k bs] by (force simp: BatchSize_def)

lemma unat_next: "1 \<le> unat (k + 1 :: u64) \<Longrightarrow> unat (k + 1) = unat k + 1"
proof -
  assume a: "1 \<le> unat (k + 1)"
  have "unat k < 2 ^ 64" using unsigned_less [of k, where 'a = nat] by simp
  moreover have "unat (k + 1) = (unat k + 1) mod 2 ^ 64" by (simp add: unat_word_ariths)
  ultimately show ?thesis using a by (cases "unat k + 1 = 2 ^ 64") simp_all
qed

lemma chained_blocks:
  assumes chain: "\<forall>i. i + 1 < length (concat bs @ rs) \<longrightarrow> snd (snd ((concat bs @ rs) ! i)) = fst (snd ((concat bs @ rs) ! (i + 1)))"
    and len: "\<forall>b \<in> set bs. length b = BatchSize" and k: "k + 1 < length bs"
  shows "snd (snd (last (bs ! k))) = fst (snd (hd (bs ! (k + 1))))"
proof -
  let ?xs = "concat bs @ rs"
  let ?pre = "concat (take k bs)"
  have split: "bs = take k bs @ bs ! k # bs ! (k + 1) # drop (k + 2) bs"
    using k by (metis Cons_nth_drop_Suc Suc_eq_plus1 Suc_lessD add_2_eq_Suc' append_take_drop_id)
  have ne: "bs ! k \<noteq> []" "bs ! (k + 1) \<noteq> []" using block_nonempty [OF len] k by simp_all
  have xs: "?xs = ?pre @ bs ! k @ bs ! (k + 1) @ concat (drop (k + 2) bs) @ rs"
    by (subst split) simp
  let ?i = "length ?pre + length (bs ! k) - 1"
  have "?i + 1 < length ?xs" using ne unfolding xs by (cases "bs ! k"; cases "bs ! (k + 1)") auto
  then have "snd (snd (?xs ! ?i)) = fst (snd (?xs ! (?i + 1)))" using chain by blast
  moreover have "?xs ! ?i = last (bs ! k)"
    using ne(1) unfolding xs by (cases "bs ! k" rule: rev_cases) (simp_all add: nth_append)
  moreover have "?xs ! (?i + 1) = hd (bs ! (k + 1))"
    using ne unfolding xs by (cases "bs ! k"; cases "bs ! (k + 1)") (simp_all add: nth_append)
  ultimately show ?thesis by simp
qed

text \<open>
  The roots of consecutive batches connect. If each transition starts at the root the one
  before it ended with, the old root of every sealed batch is the new root of the batch sealed
  before it, as the contract on L1 requires.
\<close>
theorem batcher_roots_chain:
  assumes "length xs div BatchSize + 1 < 2 ^ 64"
    and "\<forall>i. i + 1 < length xs \<longrightarrow> snd (snd (xs ! i)) = fst (snd (xs ! (i + 1)))"
    and "GetBatch (send H xs) k = Some b" and "GetBatch (send H xs) (k + 1) = Some b'" and "k \<noteq> 0"
  shows "zb_OldRoot b' = zb_NewRoot b"
proof -
  obtain bs rs where s: "split_batches xs = (bs, rs)" by fastforce
  have eq: "send H xs = batcher_of H (bs, rs)" using send_batcher_of [OF assms(1)] s by simp
  note p = split_props [OF s]
  have b: "1 \<le> unat k" "unat k \<le> length bs" "b = sealed_batch H k (bs ! (unat k - 1))"
    using assms(3) by (auto simp: eq GetBatch_def batcher_of_def split: if_splits)
  have b': "1 \<le> unat (k + 1)" "unat (k + 1) \<le> length bs" "b' = sealed_batch H (k + 1) (bs ! (unat (k + 1) - 1))"
    using assms(4) by (auto simp: eq GetBatch_def batcher_of_def split: if_splits)
  have u: "unat (k + 1) = unat k + 1" by (rule unat_next [OF b'(1)])
  let ?j = "unat k - 1"
  have j: "?j + 1 < length bs" "?j + 1 = unat k" using b(1) b'(2) u by simp_all
  have ne: "bs ! ?j \<noteq> []" "bs ! (?j + 1) \<noteq> []" using block_nonempty [of bs] p j by simp_all
  have "snd (snd (last (bs ! ?j))) = fst (snd (hd (bs ! (?j + 1))))"
    by (rule chained_blocks [of bs rs]) (use p assms(2) j in auto)
  moreover have "zb_NewRoot b = snd (snd (last (bs ! ?j)))"
    using ne(1) by (simp add: b(3) sealed_batch_def open_batch_def)
  moreover have "zb_OldRoot b' = fst (snd (hd (bs ! (?j + 1))))"
    using ne(2) j u by (cases "bs ! (?j + 1)") (auto simp: b'(3) sealed_batch_def open_batch_def)
  ultimately show ?thesis by simp
qed


theorem batcher_roots_chain_witness:
  "\<exists>b b'. GetBatch (send (mimc_hash []) (replicate 50 (demo_transition 3, ''r'', ''r''))) 1 = Some b \<and>
     GetBatch (send (mimc_hash []) (replicate 50 (demo_transition 3, ''r'', ''r''))) 2 = Some b' \<and>
     zb_OldRoot b' = zb_NewRoot b"
proof -
  let ?xs = "replicate 50 (demo_transition 3, ''r'', ''r'')"
  have small: "length ?xs div BatchSize + 1 < 2 ^ 64" by (simp add: BatchSize_def)
  obtain bs rs where s: "split_batches ?xs = (bs, rs)" by fastforce
  have "length bs = 2" using split_count [OF s] by (simp add: BatchSize_def)
  then obtain b b' where b: "GetBatch (send (mimc_hash []) ?xs) 1 = Some b" "GetBatch (send (mimc_hash []) ?xs) (1 + 1) = Some b'"
    using s by (simp add: send_batcher_of [OF small] GetBatch_def batcher_of_def)
  have "zb_OldRoot b' = zb_NewRoot b"
    by (rule batcher_roots_chain [OF small _ b]) simp_all
  then show ?thesis using b by simp
qed

end
