(* ===== verification/Sequencer.thy ===== *)
theory Sequencer imports MerkleDB Batcher Engine begin

text \<open>
  What turns matches, deposits and first touches into state: \<open>applyTrade\<close> and its helpers
  (sequencer/cmd/sequencer/main.go), \<open>processDeposit\<close> (deposit\_watcher.go) and \<open>openBalance\<close>
  (sequencer/internal/api/account.go). Each takes the tree and the batcher and returns them
  updated. The log lines are kept as the outcome. \<open>GetBalance\<close> returns a fresh object on every
  call, so the in-place arithmetic on \<open>Balance\<close> is an update of a local record.
\<close>

datatype outcome = Applied | Skipped string

section \<open>Helpers\<close>

definition decodePubKeyXY :: "'c crypto_scheme \<Rightarrow> string \<Rightarrow> (int \<times> int) result" where
  "decodePubKeyXY C pubKeyHex =
     (case hex_decode (trim_prefix ''0x'' pubKeyHex) of
        None \<Rightarrow> Inl ''encoding/hex''
      | Some raw \<Rightarrow> (case ed_SetBytes C raw of None \<Rightarrow> Inl ''eddsa: SetBytes'' | Some xy \<Rightarrow> Inr xy))"

definition getOrCreateBalance ::
  "'c crypto_scheme \<Rightarrow> mtree \<Rightarrow> string \<Rightarrow> u32 \<Rightarrow> balance_state result \<times> mtree" where
  "getOrCreateBalance C tree pubKeyHex tokenID =
     (case GetAccountID tree pubKeyHex of
        (Inl err, tree) \<Rightarrow> (Inl err, tree)
      | (Inr accID, tree) \<Rightarrow>
     (case GetBalance tree accID tokenID of
        Inl err \<Rightarrow> (Inl err, tree)
      | Inr (Some acc) \<Rightarrow> (Inr acc, tree)
      | Inr None \<Rightarrow>
          let (pubX, pubY) = (case decodePubKeyXY C pubKeyHex of Inl _ \<Rightarrow> (0, 0) | Inr xy \<Rightarrow> xy);
              acc = \<lparr>bs_AccountID = accID, bs_TokenID = tokenID, bs_PubKeyX = pubX, bs_PubKeyY = pubY,
                     bs_Balance = 1000000, bs_Nonce = 0\<rparr>
          in (case SetBalance (mimc C) tree acc of
                (Inl err, tree) \<Rightarrow> (Inl err, tree)
              | (Inr _, tree) \<Rightarrow> (Inr acc, tree))))"

definition compressPubKeyHex :: "'c crypto_scheme \<Rightarrow> int \<Rightarrow> int \<Rightarrow> string result" where
  "compressPubKeyHex C pubX pubY =
     (if \<not> pt_OnCurve C (fr pubX) (fr pubY) then Inl ''not on the BabyJubJub curve''
      else Inr (''0x'' @ hex_encode (pt_Bytes C (fr pubX) (fr pubY))))"

definition leg_update :: "mtree \<Rightarrow> u64 \<Rightarrow> string \<Rightarrow> u64 \<Rightarrow> bool \<Rightarrow> state_update" where
  "leg_update tree index balance nonce genesis =
     (let (path, bits) = GetPath tree index
      in \<lparr>su_Index = index, su_Balance = balance, su_Nonce = nonce, su_Path = map dec path,
          su_PathBits = bits, su_IsGenesis = genesis\<rparr>)"

definition getEmptyStateUpdate :: "mtree \<Rightarrow> u64 \<Rightarrow> state_update" where
  "getEmptyStateUpdate tree index = leg_update tree index ''0'' 0 False"

definition inactiveLegUpdate :: "mtree \<Rightarrow> u64 \<Rightarrow> state_update" where
  "inactiveLegUpdate tree index = leg_update tree index ''0'' 0 False"

definition quoteTokenForBook :: "u32 \<Rightarrow> u32" where
  "quoteTokenForBook baseToken = (if baseToken = 1 then 2 else 1)"

definition snapshotUpdate :: "mtree \<Rightarrow> balance_state \<Rightarrow> state_update" where
  "snapshotUpdate tree acc =
     leg_update tree (leaf_index (bs_AccountID acc) (bs_TokenID acc)) (dec (bs_Balance acc)) (bs_Nonce acc) False"

definition zero_sig :: string where
  "zero_sig = ''0x'' @ replicate 64 (CHR ''0'')"

section \<open>applyTrade\<close>

definition credit :: "int \<Rightarrow> balance_state \<Rightarrow> balance_state" where
  "credit n acc = acc\<lparr>bs_Balance := bs_Balance acc + n\<rparr>"

definition debit :: "int \<Rightarrow> balance_state \<Rightarrow> balance_state" where
  "debit n acc = acc\<lparr>bs_Balance := bs_Balance acc - n\<rparr>"

definition orient :: "trade \<Rightarrow> (order \<times> order) option" where
  "orient trade =
     (if \<not> o_IsBuy (t_MakerOrder trade) \<and> o_IsBuy (t_TakerOrder trade)
      then Some (t_MakerOrder trade, t_TakerOrder trade)
      else if o_IsBuy (t_MakerOrder trade) \<and> \<not> o_IsBuy (t_TakerOrder trade)
      then Some (t_TakerOrder trade, t_MakerOrder trade)
      else None)"

text \<open>From the four loaded balances on: the checks, the four leaf updates, the transition.\<close>

definition settle_fill ::
  "(int list \<Rightarrow> int) \<Rightarrow> string \<Rightarrow> string \<Rightarrow> int \<Rightarrow> int \<Rightarrow> balance_state \<Rightarrow> balance_state \<Rightarrow> balance_state \<Rightarrow>
   balance_state \<Rightarrow> mtree \<Rightarrow> batcher \<Rightarrow> outcome \<times> mtree \<times> batcher" where
  "settle_fill H makerSig takerSig matchAmount matchQuote sellerBase sellerQuote buyerBase buyerQuote tree batch =
     (if bs_Balance sellerBase < matchAmount then (Skipped ''insufficient seller base'', tree, batch)
      else if bs_Balance buyerQuote < matchQuote then (Skipped ''insufficient buyer quote'', tree, batch)
      else
        let oldRoot = dec (Root tree);
            makerBaseUpdate = snapshotUpdate tree sellerBase;
            sellerBase = debit matchAmount sellerBase
        in (case SetBalance H tree sellerBase of
              (Inl err, tree) \<Rightarrow> (Skipped ''set seller base'', tree, batch)
            | (Inr _, tree) \<Rightarrow>
        let makerQuoteUpdate = snapshotUpdate tree sellerQuote;
            sellerQuote = credit matchQuote sellerQuote
        in (case SetBalance H tree sellerQuote of
              (Inl err, tree) \<Rightarrow> (Skipped ''set seller quote'', tree, batch)
            | (Inr _, tree) \<Rightarrow>
        let takerBaseUpdate = snapshotUpdate tree buyerBase;
            buyerBase = credit matchAmount buyerBase
        in (case SetBalance H tree buyerBase of
              (Inl err, tree) \<Rightarrow> (Skipped ''set buyer base'', tree, batch)
            | (Inr _, tree) \<Rightarrow>
        let takerQuoteUpdate = snapshotUpdate tree buyerQuote;
            buyerQuote = debit matchQuote buyerQuote
        in (case SetBalance H tree buyerQuote of
              (Inl err, tree) \<Rightarrow> (Skipped ''set buyer quote'', tree, batch)
            | (Inr _, tree) \<Rightarrow>
        let newRoot = dec (Root tree);
            st = \<lparr>st_OpType = 0, st_Amount = dec matchAmount, st_QuoteAmount = dec matchQuote,
                  st_MakerPubKeyX = dec (bs_PubKeyX sellerBase), st_MakerPubKeyY = dec (bs_PubKeyY sellerBase),
                  st_MakerSig = makerSig, st_MakerBase = makerBaseUpdate, st_MakerQuote = makerQuoteUpdate,
                  st_TakerPubKeyX = dec (bs_PubKeyX buyerBase), st_TakerPubKeyY = dec (bs_PubKeyY buyerBase),
                  st_TakerSig = takerSig, st_TakerBase = takerBaseUpdate, st_TakerQuote = takerQuoteUpdate\<rparr>
        in (Applied, tree, AddTransition H st oldRoot newRoot batch))))))"

definition applyTrade :: "'c crypto_scheme \<Rightarrow> trade \<Rightarrow> mtree \<Rightarrow> batcher \<Rightarrow> outcome \<times> mtree \<times> batcher" where
  "applyTrade C trade tree batch =
     (case orient trade of
        None \<Rightarrow> (Skipped ''expected one buy and one sell'', tree, batch)
      | Some (sellOrder, buyOrder) \<Rightarrow>
          if o_CircuitSignature sellOrder = [] \<or> o_CircuitSignature buyOrder = []
          then (Skipped ''missing circuit_signature'', tree, batch)
          else
            let baseToken = o_TokenID sellOrder;
                quoteToken = (if o_TokenID sellOrder \<noteq> o_TokenID buyOrder then o_TokenID buyOrder
                              else quoteTokenForBook baseToken);
                matchAmount = t_MatchAmount trade;
                matchQuote = t_MatchAmount trade * t_MatchPrice trade
            in (case getOrCreateBalance C tree (o_MakerAddress sellOrder) baseToken of
                  (Inl err, tree) \<Rightarrow> (Skipped ''seller base'', tree, batch)
                | (Inr sellerBase, tree) \<Rightarrow>
               (case getOrCreateBalance C tree (o_MakerAddress sellOrder) quoteToken of
                  (Inl err, tree) \<Rightarrow> (Skipped ''seller quote'', tree, batch)
                | (Inr sellerQuote, tree) \<Rightarrow>
               (case getOrCreateBalance C tree (o_MakerAddress buyOrder) baseToken of
                  (Inl err, tree) \<Rightarrow> (Skipped ''buyer base'', tree, batch)
                | (Inr buyerBase, tree) \<Rightarrow>
               (case getOrCreateBalance C tree (o_MakerAddress buyOrder) quoteToken of
                  (Inl err, tree) \<Rightarrow> (Skipped ''buyer quote'', tree, batch)
                | (Inr buyerQuote, tree) \<Rightarrow>
                    settle_fill (mimc C) (o_CircuitSignature sellOrder) (o_CircuitSignature buyOrder)
                      matchAmount matchQuote sellerBase sellerQuote buyerBase buyerQuote tree batch)))))"

section \<open>Deposits and first touches\<close>

record deposit_event =
  ev_TokenId :: u32
  ev_PubKeyX :: int
  ev_PubKeyY :: int
  ev_Amount :: int

definition deposit_transition :: "int \<Rightarrow> int \<Rightarrow> int \<Rightarrow> state_update \<Rightarrow> state_update \<Rightarrow> state_transition" where
  "deposit_transition amount pubX pubY takerBaseUpdate dummyUpdate =
     \<lparr>st_OpType = 3, st_Amount = dec amount, st_QuoteAmount = ''0'', st_MakerPubKeyX = ''0'', st_MakerPubKeyY = ''0'',
      st_MakerSig = zero_sig, st_MakerBase = dummyUpdate, st_MakerQuote = dummyUpdate,
      st_TakerPubKeyX = dec pubX, st_TakerPubKeyY = dec pubY,
      st_TakerSig = zero_sig, st_TakerBase = takerBaseUpdate, st_TakerQuote = dummyUpdate\<rparr>"

definition processDeposit :: "'c crypto_scheme \<Rightarrow> deposit_event \<Rightarrow> mtree \<Rightarrow> batcher \<Rightarrow> outcome \<times> mtree \<times> batcher" where
  "processDeposit C event tree batch =
     (let oldRoot = dec (Root tree)
      in case compressPubKeyHex C (ev_PubKeyX event) (ev_PubKeyY event) of
           Inl err \<Rightarrow> (Skipped ''invalid pubkey in Deposit event'', tree, batch)
         | Inr pubHex \<Rightarrow>
      (case GetAccountID tree pubHex of
           (Inl err, tree) \<Rightarrow> (Skipped ''failed to resolve account ID'', tree, batch)
         | (Inr accID, tree) \<Rightarrow>
      (case GetBalance tree accID (ev_TokenId event) of
           Inl err \<Rightarrow> (Skipped ''failed to load account'', tree, batch)
         | Inr existing \<Rightarrow>
           let isGenesis = (existing = None);
               leafIndex = leaf_index accID (ev_TokenId event);
               balance = (case existing of None \<Rightarrow> ''0'' | Some e \<Rightarrow> dec (bs_Balance e));
               nonce = (case existing of None \<Rightarrow> 0 | Some e \<Rightarrow> bs_Nonce e);
               takerBaseUpdate = leg_update tree leafIndex balance nonce isGenesis;
               acc = (case existing of
                        Some e \<Rightarrow> e
                      | None \<Rightarrow> \<lparr>bs_AccountID = accID, bs_TokenID = ev_TokenId event, bs_PubKeyX = ev_PubKeyX event,
                                 bs_PubKeyY = ev_PubKeyY event, bs_Balance = 0, bs_Nonce = 0\<rparr>);
               acc = credit (ev_Amount event) acc
           in (case SetBalance (mimc C) tree acc of
                 (Inl err, tree) \<Rightarrow> (Skipped ''failed to apply deposit'', tree, batch)
               | (Inr _, tree) \<Rightarrow>
                   let newRoot = dec (Root tree);
                       dummyUpdate = getEmptyStateUpdate tree 99;
                       st = deposit_transition (ev_Amount event) (ev_PubKeyX event) (ev_PubKeyY event)
                              takerBaseUpdate dummyUpdate
                   in (Applied, tree, AddTransition (mimc C) st oldRoot newRoot batch)))))"

text \<open>\<open>None\<close> for the batcher is a nil pointer.\<close>

definition openBalance ::
  "'c crypto_scheme \<Rightarrow> mtree \<Rightarrow> batcher option \<Rightarrow> string \<Rightarrow> u32 \<Rightarrow> balance_state result \<times> mtree \<times> batcher option" where
  "openBalance C tree batch pubKeyHex tokenID =
     (case batch of
        None \<Rightarrow> (Inl ''openBalance: batcher is nil'', tree, batch)
      | Some b \<Rightarrow>
     (case GetAccountID tree pubKeyHex of
        (Inl err, tree) \<Rightarrow> (Inl err, tree, batch)
      | (Inr accID, tree) \<Rightarrow>
     (case GetBalance tree accID tokenID of
        Inl err \<Rightarrow> (Inl err, tree, batch)
      | Inr (Some acc) \<Rightarrow> (Inr acc, tree, batch)
      | Inr None \<Rightarrow>
     (case decodePubKeyXY C pubKeyHex of
        Inl err \<Rightarrow> (Inl ''invalid pubkey'', tree, batch)
      | Inr (pubX, pubY) \<Rightarrow>
          let leafIndex = leaf_index accID tokenID;
              oldRoot = dec (Root tree);
              takerBaseUpdate = (inactiveLegUpdate tree leafIndex)\<lparr>su_IsGenesis := True\<rparr>;
              acc = \<lparr>bs_AccountID = accID, bs_TokenID = tokenID, bs_PubKeyX = pubX, bs_PubKeyY = pubY,
                     bs_Balance = 1000000, bs_Nonce = 0\<rparr>
          in (case SetBalance (mimc C) tree acc of
                (Inl err, tree) \<Rightarrow> (Inl err, tree, batch)
              | (Inr _, tree) \<Rightarrow>
                  let newRoot = dec (Root tree);
                      dummyUpdate = inactiveLegUpdate tree 99;
                      st = deposit_transition 1000000 pubX pubY takerBaseUpdate dummyUpdate
                  in (Inr acc, tree, Some (AddTransition (mimc C) st oldRoot newRoot b)))))))"

end
