(* ===== verification/ProofInput.thy ===== *)
theory ProofInput imports Circuit Batcher begin

text \<open>
  How the prover turns a sealed batch into an assignment of the circuit's variables:
  \<open>generateProof\<close>, \<open>assignPath\<close>, \<open>assignEdDSASig\<close> and \<open>boolToVar\<close> of
  prover/cmd/prover/start.go, up to the call of groth16. Numbers travel as decimal strings;
  \<open>None\<close> is a nil big integer, for which building the witness fails. The expansion of a
  compressed signature (\<open>Signature.Assign\<close> of gnark) is the parameter \<open>expand\<close>.
\<close>

definition boolToVar :: "bool \<Rightarrow> int" where
  "boolToVar b = (if b then 1 else 0)"

text \<open>\<open>SetString(s, 16)\<close>: an optional sign and hexadecimal digits.\<close>

fun parse_hex_digits :: "nat \<Rightarrow> string \<Rightarrow> nat option" where
  "parse_hex_digits a [] = Some a"
| "parse_hex_digits a (c # cs) = (case hex_val c of None \<Rightarrow> None | Some d \<Rightarrow> parse_hex_digits (a * 16 + d) cs)"

definition parse_hex :: "string \<Rightarrow> int option" where
  "parse_hex s =
     (let (neg, t) = (case s of [] \<Rightarrow> (False, s)
                      | c # cs \<Rightarrow> if c = CHR ''-'' then (True, cs) else if c = CHR ''+'' then (False, cs) else (False, s))
      in if t = [] then None
         else map_option (\<lambda>n. if neg then - int n else int n) (parse_hex_digits 0 t))"

definition root_or_hex :: "string \<Rightarrow> int option" where
  "root_or_hex s = (case parse_dec s of Some n \<Rightarrow> Some n | None \<Rightarrow> parse_hex (trim_prefix ''0x'' s))"

definition hash_or_zero :: "string \<Rightarrow> int" where
  "hash_or_zero s = (case parse_dec s of Some n \<Rightarrow> n | None \<Rightarrow> 0)"

fun assignPath :: "string list \<Rightarrow> int list option" where
  "assignPath [] = Some []"
| "assignPath (p # ps) = do { x \<leftarrow> parse_dec p; xs \<leftarrow> assignPath ps; Some (x # xs) }"

definition zero_signature :: eddsa_signature where
  "zero_signature = \<lparr>sig_RX = 0, sig_RY = 0, sig_S = 0\<rparr>"

definition assignEdDSASig :: "(bytes \<Rightarrow> eddsa_signature) \<Rightarrow> string \<Rightarrow> eddsa_signature result" where
  "assignEdDSASig expand sigHex =
     (case hex_decode (trim_prefix ''0x'' sigHex) of
        None \<Rightarrow> Inl ''encoding/hex''
      | Some sigBytes \<Rightarrow>
          if length sigBytes \<noteq> 64 \<and> length sigBytes \<noteq> 96 then Inl ''unexpected signature length''
          else Inr (expand sigBytes))"

definition assign_sig :: "(bytes \<Rightarrow> eddsa_signature) \<Rightarrow> string \<Rightarrow> eddsa_signature" where
  "assign_sig expand sigHex =
     (case assignEdDSASig expand sigHex of Inl _ \<Rightarrow> zero_signature | Inr sig \<Rightarrow> sig)"

definition assign_leg :: "state_update \<Rightarrow> state_leg option" where
  "assign_leg u = do {
     balance \<leftarrow> parse_dec (su_Balance u);
     path \<leftarrow> assignPath (su_Path u);
     Some \<lparr>sl_Index = uint (su_Index u), sl_Balance = balance, sl_Nonce = uint (su_Nonce u),
           sl_IsGenesis = boolToVar (su_IsGenesis u), sl_Path = path, sl_PathBits = map uint (su_PathBits u)\<rparr>
   }"

definition assign_op :: "(bytes \<Rightarrow> eddsa_signature) \<Rightarrow> state_transition \<Rightarrow> operation option" where
  "assign_op expand op = do {
     amount \<leftarrow> parse_dec (st_Amount op);
     quote \<leftarrow> parse_dec (st_QuoteAmount op);
     mx \<leftarrow> parse_dec (st_MakerPubKeyX op);
     my \<leftarrow> parse_dec (st_MakerPubKeyY op);
     makerBase \<leftarrow> assign_leg (st_MakerBase op);
     makerQuote \<leftarrow> assign_leg (st_MakerQuote op);
     tx \<leftarrow> parse_dec (st_TakerPubKeyX op);
     ty \<leftarrow> parse_dec (st_TakerPubKeyY op);
     takerBase \<leftarrow> assign_leg (st_TakerBase op);
     takerQuote \<leftarrow> assign_leg (st_TakerQuote op);
     Some \<lparr>op_OpType = st_OpType op, op_Amount = amount, op_QuoteAmount = quote,
           op_MakerPubKey = \<lparr>pk_X = mx, pk_Y = my\<rparr>, op_MakerSig = assign_sig expand (st_MakerSig op),
           op_MakerBase = makerBase, op_MakerQuote = makerQuote,
           op_TakerPubKey = \<lparr>pk_X = tx, pk_Y = ty\<rparr>, op_TakerSig = assign_sig expand (st_TakerSig op),
           op_TakerBase = takerBase, op_TakerQuote = takerQuote\<rparr>
   }"

fun assign_ops :: "(bytes \<Rightarrow> eddsa_signature) \<Rightarrow> state_transition list \<Rightarrow> operation list option" where
  "assign_ops expand [] = Some []"
| "assign_ops expand (t # ts) = do { op \<leftarrow> assign_op expand t; ops \<leftarrow> assign_ops expand ts; Some (op # ops) }"

text \<open>A short batch is padded with copies of its last transition.\<close>

definition padded :: "state_transition list \<Rightarrow> state_transition list" where
  "padded ts = map (\<lambda>i. if i < length ts then ts ! i else ts ! (length ts - 1)) [0..<BatchSize]"

definition generateProof_assignment :: "(bytes \<Rightarrow> eddsa_signature) \<Rightarrow> zk_batch \<Rightarrow> transition_circuit option" where
  "generateProof_assignment expand batch =
     (if zb_Transitions batch = [] then None
      else do {
        oldRoot \<leftarrow> root_or_hex (zb_OldRoot batch);
        newRoot \<leftarrow> root_or_hex (zb_NewRoot batch);
        ops \<leftarrow> assign_ops expand (padded (zb_Transitions batch));
        Some \<lparr>tc_OldRoot = oldRoot, tc_NewRoot = newRoot,
              tc_WithdrawalHash = hash_or_zero (zb_WithdrawalHash batch),
              tc_DepositHash = hash_or_zero (zb_DepositHash batch), tc_Ops = ops\<rparr>
      })"

section \<open>Facts\<close>

lemma assignPath_dec [simp]: "assignPath (map dec xs) = Some xs"
  by (induction xs) simp_all

lemma root_or_hex_dec [simp]: "root_or_hex (dec x) = Some x"
  by (simp add: root_or_hex_def)

lemma hash_or_zero_dec [simp]: "hash_or_zero (dec x) = x"
  by (simp add: hash_or_zero_def)

lemma padded_full: "length ts = BatchSize \<Longrightarrow> padded ts = ts"
  by (rule nth_equalityI) (simp_all add: padded_def)

lemma assign_ops_length: "assign_ops expand ts = Some ops \<Longrightarrow> length ops = length ts"
  by (induction ts arbitrary: ops) (auto split: bind_splits)

lemma assign_ops_mem:
  "assign_ops expand ts = Some ops \<Longrightarrow> st \<in> set ts \<Longrightarrow> \<exists>op \<in> set ops. assign_op expand st = Some op"
  by (induction ts arbitrary: ops) (auto split: bind_splits)

lemma set_padded: "length ts \<le> BatchSize \<Longrightarrow> set ts \<subseteq> set (padded ts)"
proof
  fix st assume "length ts \<le> BatchSize" "st \<in> set ts"
  then obtain i where "i < length ts" "st = ts ! i" "i < BatchSize" by (metis in_set_conv_nth less_le_trans)
  then have "padded ts ! i = st" "i < length (padded ts)" by (simp_all add: padded_def)
  then show "st \<in> set (padded ts)" using nth_mem by metis
qed

lemma length_padded [simp]: "length (padded ts) = BatchSize"
  by (simp add: padded_def)

lemma parse_zero [simp]: "parse_dec ''0'' = Some 0"
  by (simp add: parse_dec_def parse_unsigned_def digit_val_def)

end
