(* ===== verification/Replay.thy ===== *)
theory Replay imports Sequencer begin

text \<open>
  The replay of a published transition on a local tree,
  sequencer/cmd/reconstruct-proof/replay.go: \<open>applyLeg\<close> and \<open>replayTransition\<close>.
\<close>

section \<open>Replaying a transition\<close>

definition applyLeg ::
  "(int list \<Rightarrow> int) \<Rightarrow> mtree \<Rightarrow> state_update \<Rightarrow> string \<Rightarrow> string \<Rightarrow> int \<Rightarrow> u64 \<Rightarrow> unit result \<times> mtree" where
  "applyLeg H tree su pubXStr pubYStr delta nonceDelta =
     (case parse_dec (su_Balance su) of
        None \<Rightarrow> (Inl ''invalid balance'', tree)
      | Some oldBalance \<Rightarrow>
     (case parse_dec pubXStr of
        None \<Rightarrow> (Inl ''invalid pubX'', tree)
      | Some pubX \<Rightarrow>
     (case parse_dec pubYStr of
        None \<Rightarrow> (Inl ''invalid pubY'', tree)
      | Some pubY \<Rightarrow>
          let newBalance = oldBalance + delta
          in if newBalance < 0 then (Inl ''replay produced a negative balance'', tree)
             else SetBalance H tree
               \<lparr>bs_AccountID = su_Index su div 256, bs_TokenID = ucast (su_Index su mod 256), bs_PubKeyX = pubX,
                bs_PubKeyY = pubY, bs_Balance = newBalance, bs_Nonce = su_Nonce su + nonceDelta\<rparr>)))"

text \<open>\<open>leg\<close> runs an active leg and hands the tree on; an inactive one leaves it.\<close>

definition replay_leg ::
  "bool \<Rightarrow> string \<Rightarrow> (mtree \<Rightarrow> unit result \<times> mtree) \<Rightarrow> (mtree \<Rightarrow> unit result \<times> mtree) \<Rightarrow> mtree \<Rightarrow> unit result \<times> mtree" where
  "replay_leg active msg leg rest tree =
     (if active then (case leg tree of (Inl err, tree) \<Rightarrow> (Inl msg, tree) | (Inr _, tree) \<Rightarrow> rest tree) else rest tree)"

definition replayTransition :: "(int list \<Rightarrow> int) \<Rightarrow> mtree \<Rightarrow> state_transition \<Rightarrow> unit result \<times> mtree" where
  "replayTransition H tree st =
     (case parse_dec (st_Amount st) of
        None \<Rightarrow> (Inl ''invalid amount'', tree)
      | Some amount \<Rightarrow>
     (case parse_dec (st_QuoteAmount st) of
        None \<Rightarrow> (Inl ''invalid quote_amount'', tree)
      | Some quoteAmount \<Rightarrow>
          let makerBaseActive = (st_OpType st \<noteq> OpDeposit);
              makerQuoteActive = (st_OpType st = OpTrade);
              takerBaseActive = (st_OpType st \<noteq> OpWithdraw);
              takerQuoteActive = (st_OpType st = OpTrade);
              nonceDelta = (if st_OpType st = OpTrade then 0 else 1)
          in replay_leg makerBaseActive ''maker base''
               (\<lambda>tree. applyLeg H tree (st_MakerBase st) (st_MakerPubKeyX st) (st_MakerPubKeyY st) (- amount) nonceDelta)
             (replay_leg makerQuoteActive ''maker quote''
               (\<lambda>tree. applyLeg H tree (st_MakerQuote st) (st_MakerPubKeyX st) (st_MakerPubKeyY st) quoteAmount 0)
             (replay_leg takerBaseActive ''taker base''
               (\<lambda>tree. applyLeg H tree (st_TakerBase st) (st_TakerPubKeyX st) (st_TakerPubKeyY st) amount 0)
             (replay_leg takerQuoteActive ''taker quote''
               (\<lambda>tree. applyLeg H tree (st_TakerQuote st) (st_TakerPubKeyX st) (st_TakerPubKeyY st) (- quoteAmount) 0)
             (Pair (Inr ()))))) tree))"

fun replay_transitions :: "(int list \<Rightarrow> int) \<Rightarrow> mtree \<Rightarrow> state_transition list \<Rightarrow> unit result \<times> mtree" where
  "replay_transitions H tree [] = (Inr (), tree)"
| "replay_transitions H tree (st # sts) =
     (case replayTransition H tree st of
        (Inl err, tree) \<Rightarrow> (Inl ''transition'', tree)
      | (Inr _, tree) \<Rightarrow> replay_transitions H tree sts)"

section \<open>What a leg does to the leaves\<close>

lemma account_leaf_cong:
  assumes "canonical H" "bs_AccountID r = bs_AccountID r'" "bs_TokenID r = bs_TokenID r'"
    and "fr (bs_PubKeyX r) = fr (bs_PubKeyX r')" "fr (bs_PubKeyY r) = fr (bs_PubKeyY r')"
    and "bs_Balance r = bs_Balance r'" "bs_Nonce r = bs_Nonce r'"
  shows "account_leaf H r = account_leaf H r'"
  using assms by (simp add: account_leaf_def HashAccountLeaf_def)

lemma leaf_index_split:
  assumes "slot_ok d a tok" "d < 64"
  shows "leaf_index a tok div 256 = a" "ucast (leaf_index a tok mod 256) = tok"
proof -
  have r: "unat a < 2 ^ 56" "unat tok < 256" using slot_okD [OF assms(1)] assms by (auto simp: slot_ok_def)
  have i: "unat (leaf_index a tok) = unat a * 256 + unat tok" by (rule unat_leaf_index [OF r])
  show "leaf_index a tok div 256 = a"
    using i r(2) by (simp add: word_unat_eq_iff unat_div_distrib)
  show "ucast (leaf_index a tok mod 256) = tok"
    using i r(2) by (simp add: word_unat_eq_iff unat_mod_distrib unsigned_ucast_eq take_bit_nat_eq_self)
qed

text \<open>Records that stand for the same leaf: the keys may differ by multiples of the field's order.\<close>

definition same_holding :: "balance_state \<Rightarrow> balance_state \<Rightarrow> bool" where
  "same_holding r r' \<longleftrightarrow>
     bs_AccountID r = bs_AccountID r' \<and> bs_TokenID r = bs_TokenID r' \<and> bs_Balance r = bs_Balance r' \<and>
     bs_Nonce r = bs_Nonce r' \<and> fr (bs_PubKeyX r) = fr (bs_PubKeyX r') \<and> fr (bs_PubKeyY r) = fr (bs_PubKeyY r')"

text \<open>
  A replayed tree mirrors the sequencer's: the same leaves, and a record for each of its records,
  whose keys satisfy \<open>K\<close>, as those of the transitions do (\<open>carries\<close>).
\<close>

definition carries :: "(int \<Rightarrow> bool) \<Rightarrow> state_transition \<Rightarrow> bool" where
  "carries K st \<longleftrightarrow>
     (\<forall>s \<in> {st_MakerPubKeyX st, st_MakerPubKeyY st, st_TakerPubKeyX st, st_TakerPubKeyY st}.
        \<forall>v. parse_dec s = Some v \<longrightarrow> K v)"

definition mirrors :: "(int \<Rightarrow> bool) \<Rightarrow> (int list \<Rightarrow> int) \<Rightarrow> mtree \<Rightarrow> mtree \<Rightarrow> bool" where
  "mirrors K H t r \<longleftrightarrow> db_inv H 28 r \<and> lf r = lf t \<and> (\<forall>k. rel_option same_holding (balances r k) (balances t k)) \<and>
     (\<forall>k rec. balances r k = Some rec \<longrightarrow> K (bs_PubKeyX rec) \<and> K (bs_PubKeyY rec))"

lemma mirrors_refl: "db_inv H 28 t \<Longrightarrow> balances t = Map.empty \<Longrightarrow> mirrors K H t t"
  by (simp add: mirrors_def)

lemma mirrorsD:
  assumes "mirrors K H t r"
  shows "db_inv H 28 r" "lf r = lf t"
    and "balances t k = Some acc \<Longrightarrow> \<exists>acc'. balances r k = Some acc' \<and> same_holding acc' acc \<and>
      K (bs_PubKeyX acc') \<and> K (bs_PubKeyY acc')"
proof -
  show "db_inv H 28 r" "lf r = lf t" using assms by (simp_all add: mirrors_def)
  have "rel_option same_holding (balances r k) (balances t k)" using assms unfolding mirrors_def by blast
  then have "\<exists>acc'. balances r k = Some acc' \<and> same_holding acc' acc" if "balances t k = Some acc"
    using that by (simp add: option_rel_Some2)
  then show "\<exists>acc'. balances r k = Some acc' \<and> same_holding acc' acc \<and> K (bs_PubKeyX acc') \<and> K (bs_PubKeyY acc')"
    if "balances t k = Some acc" using that assms unfolding mirrors_def by blast
qed

lemma applyLeg_mirrors:
  assumes t: "db_inv H 28 t" and r: "mirrors K H t r" and slot: "slot_ok 28 (bs_AccountID acc) (bs_TokenID acc)"
    and su: "su_Index su = leaf_index (bs_AccountID acc) (bs_TokenID acc)" "su_Balance su = dec bal"
      "su_Nonce su + nd = bs_Nonce acc"
    and keys: "K px" "K py" "fr px = fr (bs_PubKeyX acc)" "fr py = fr (bs_PubKeyY acc)"
    and bal: "bs_Balance acc = bal + delta" "0 \<le> bs_Balance acc"
  shows "\<exists>r'. applyLeg H r su (dec px) (dec py) delta nd = (Inr (), r') \<and> mirrors K H (snd (SetBalance H t acc)) r'"
proof -
  let ?rec = "\<lparr>bs_AccountID = bs_AccountID acc, bs_TokenID = bs_TokenID acc, bs_PubKeyX = px, bs_PubKeyY = py,
    bs_Balance = bs_Balance acc, bs_Nonce = bs_Nonce acc\<rparr>"
  have slot': "slot_ok 28 (bs_AccountID ?rec) (bs_TokenID ?rec)" using slot by simp
  note ok = SetBalance_ok [OF mirrorsD(1) [OF r] slot'] and ok' = SetBalance_ok [OF t slot]
  have "applyLeg H r su (dec px) (dec py) delta nd = SetBalance H r ?rec"
    using su bal leaf_index_split [OF slot] by (simp add: applyLeg_def Let_def)
  moreover have leaf: "account_leaf H ?rec = account_leaf H acc"
    by (rule account_leaf_cong) (use tree_invD(1) [OF db_inv_tree [OF t]] keys in simp_all)
  moreover have "mirrors K H (snd (SetBalance H t acc)) (snd (SetBalance H r ?rec))"
    unfolding mirrors_def
  proof (intro conjI allI impI)
    show "db_inv H 28 (snd (SetBalance H r ?rec))" by (rule ok(2))
    show "lf (snd (SetBalance H r ?rec)) = lf (snd (SetBalance H t acc))"
      unfolding ok(4) ok'(4) leaf using mirrorsD(2) [OF r] by simp
    fix k show "rel_option same_holding (balances (snd (SetBalance H r ?rec)) k) (balances (snd (SetBalance H t acc)) k)"
      unfolding ok(3) ok'(3) using r keys unfolding mirrors_def by (cases k) (simp add: same_holding_def)
  next
    fix k rec assume "balances (snd (SetBalance H r ?rec)) k = Some rec"
    then show "K (bs_PubKeyX rec)" "K (bs_PubKeyY rec)"
      unfolding ok(3) using r keys(1,2) unfolding mirrors_def by (cases k, auto split: if_splits)+
  qed
  ultimately show ?thesis using ok(1) by (cases "SetBalance H r ?rec") auto
qed

lemma replay_leg_simps [simp]:
  "replay_leg False msg leg rest tree = rest tree"
  "leg tree = (Inr (), tree') \<Longrightarrow> replay_leg True msg leg rest tree = rest tree'"
  by (simp_all add: replay_leg_def)

section \<open>Following a step\<close>

definition solvent :: "mtree \<Rightarrow> bool" where
  "solvent t \<longleftrightarrow> (\<forall>k r. balances t k = Some r \<longrightarrow> 0 \<le> bs_Balance r)"

text \<open>
  A transition replays a step: from a tree that mirrors \<open>t\<close>, the replay reaches one that mirrors
  \<open>t'\<close>.
\<close>

definition replays :: "(int list \<Rightarrow> int) \<Rightarrow> state_transition \<Rightarrow> mtree \<Rightarrow> mtree \<Rightarrow> bool" where
  "replays H st t t' \<longleftrightarrow>
     (solvent t \<longrightarrow> solvent t' \<and>
       (\<forall>K r. mirrors K H t r \<and> carries K st \<longrightarrow>
          (\<exists>r'. replayTransition H r st = (Inr (), r') \<and> mirrors K H t' r' \<and> Root r' = Root t')))"

lemma Root_mirrors: "db_inv H 28 t \<Longrightarrow> mirrors K H t r \<Longrightarrow> Root r = Root t"
  using mirrorsD(1,2) by (metis Root_spec db_inv_tree)

end
