(* ===== verification/Settlement.thy ===== *)
theory Settlement imports Replay CircuitSound ProofInput begin

text \<open>
  The sequencer meets the circuit: the transitions that \<open>applyTrade\<close>, \<open>processDeposit\<close> and
  \<open>openBalance\<close> emit, once assigned by the prover, satisfy the circuit's constraints between the
  tree's root before and after; and what these operations do to the balances.
\<close>

lemma depth_28: "MerkleDepth = 28"
  by (simp add: MerkleDepth_def)

lemma Root_mroot: "db_inv H 28 t \<Longrightarrow> Root t = mroot H (lf t)"
  by (simp add: mroot_def depth_28 Root_spec [OF db_inv_tree])

section \<open>One leg\<close>

text \<open>The variables the prover assigns for a leg the sequencer built with \<open>leg_update\<close>.\<close>

definition leg_of :: "mtree \<Rightarrow> u64 \<Rightarrow> int \<Rightarrow> u64 \<Rightarrow> bool \<Rightarrow> state_leg" where
  "leg_of t w bal nonce genesis =
     \<lparr>sl_Index = uint w, sl_Balance = bal, sl_Nonce = uint nonce, sl_IsGenesis = boolToVar genesis,
      sl_Path = fst (GetPath t w), sl_PathBits = map uint (snd (GetPath t w))\<rparr>"

lemma assign_leg_update [simp]: "assign_leg (leg_update t w (dec bal) nonce g) = Some (leg_of t w bal nonce g)"
  by (simp add: assign_leg_def leg_update_def leg_of_def split_beta)

lemma assign_zero_leg [simp]: "assign_leg (leg_update t w ''0'' 0 g) = Some (leg_of t w 0 0 g)"
  by (simp add: assign_leg_def leg_update_def leg_of_def split_beta)

lemma leg_of_tree:
  assumes inv: "db_inv H 28 t"
  shows "leg_shape (leg_of t w bal nonce g)"
    and "map fr (sl_Path (leg_of t w bal nonce g)) = spath H (lf t) 28 (unat w)"
    and "leg_bits (leg_of t w bal nonce g) = sbits 28 (unat w)"
    and "(g \<longrightarrow> bal = 0 \<and> nonce = 0) \<Longrightarrow> leg_wf (leg_of t w bal nonce g)"
proof -
  note tinv = db_inv_tree [OF inv]
  note path = GetPath_spec [OF tinv, of w]
  have len: "length (fst (GetPath t w)) = 28" using path(1) by simp
  have lenb: "length (snd (GetPath t w)) = 28" using arg_cong [OF path(2), of length] by simp
  show "leg_shape (leg_of t w bal nonce g)" by (simp add: leg_shape_def leg_of_def len lenb depth_28)
  have "fr (tnode H (lf t) l i) = tnode H (lf t) l i" for l i
    using tnode_canonical [OF tree_invD(1) [OF tinv], of "lf t" l i] lf_range [OF tinv] by (simp add: fr_id)
  then show "map fr (sl_Path (leg_of t w bal nonce g)) = spath H (lf t) 28 (unat w)"
    by (simp add: leg_of_def path(1) spath_def comp_def)
  have "leg_bits (leg_of t w bal nonce g) = map unat (snd (GetPath t w))"
    by (simp add: leg_bits_def leg_of_def comp_def)
  then show bits: "leg_bits (leg_of t w bal nonce g) = sbits 28 (unat w)" using path(2) by simp
  have "b \<in> {0, 1}" if "b \<in> set (map unat (snd (GetPath t w)))" for b
    using that unfolding path(2) by (auto simp: sbits_def)
  then have "uint b \<in> {0, 1}" if "b \<in> set (snd (GetPath t w))" for b
  proof -
    have "unat b \<in> {0, 1}" using that \<open>\<And>b. b \<in> set (map unat (snd (GetPath t w))) \<Longrightarrow> b \<in> {0, 1}\<close> by simp
    then have "b = 0 \<or> b = 1" by (simp add: word_unat_eq_iff)
    then show ?thesis by auto
  qed
  then show "leg_wf (leg_of t w bal nonce g)" if "g \<longrightarrow> bal = 0 \<and> nonce = 0"
    using that by (auto simp: leg_wf_def leg_of_def boolToVar_def)
qed

text \<open>The record a leg was read from, if any, and the record the sequencer then writes.\<close>

definition leg_reads :: "mtree \<Rightarrow> u64 \<Rightarrow> u32 \<Rightarrow> int \<Rightarrow> u64 \<Rightarrow> bool \<Rightarrow> eddsa_public \<Rightarrow> bool" where
  "leg_reads t a tok bal nonce g pk \<longleftrightarrow>
     (case balances t (a, tok) of
        None \<Rightarrow> g \<and> bal = 0 \<and> nonce = 0
      | Some r \<Rightarrow> \<not> g \<and> bal = bs_Balance r \<and> nonce = bs_Nonce r \<and>
                  fr (pk_X pk) = fr (bs_PubKeyX r) \<and> fr (pk_Y pk) = fr (bs_PubKeyY r))"

lemma leg_of_write:
  assumes inv: "db_inv H 28 t" and slot: "slot_ok 28 a tok" and reads: "leg_reads t a tok bal nonce g pk"
    and acc: "bs_AccountID acc = a" "bs_TokenID acc = tok" "fr (pk_X pk) = fr (bs_PubKeyX acc)"
      "fr (pk_Y pk) = fr (bs_PubKeyY acc)"
  defines "u \<equiv> leg_of t (leaf_index a tok) bal nonce g"
  shows "leg_shape u" "leg_wf u" "leg_opens H u pk (Root t)"
    and "fr b = fr (bs_Balance acc) \<Longrightarrow> fr n = uint (bs_Nonce acc) \<Longrightarrow>
           leg_writes H u pk b n = Root (snd (SetBalance H t acc))"
proof -
  note c = tree_invD [OF db_inv_tree [OF inv]]
  let ?w = "unat (leaf_index a tok)"
  note tree = leg_of_tree [OF inv, where w = "leaf_index a tok" and bal = bal and nonce = nonce and g = g, folded u_def]
  show "leg_shape u" by (rule tree(1))
  show "leg_wf u" by (rule tree(4)) (use reads in \<open>auto simp: leg_reads_def split: option.splits\<close>)
  have w: "?w < 2 ^ 28" by (rule slot_okD(2) [OF slot]) simp
  have "lf t ?w = leaf_value H (balances t (a, tok))" using inv slot by (simp add: db_inv_def recs_inv_def)
  also have "\<dots> = leg_old H u pk"
  proof (cases "balances t (a, tok)")
    case None
    then show ?thesis using reads by (simp add: leg_reads_def leaf_value_def leg_old_def u_def leg_of_def boolToVar_def)
  next
    case (Some r)
    then have r: "bs_AccountID r = a" "bs_TokenID r = tok"
      using inv unfolding db_inv_def recs_inv_def balances_def by (auto split: option.splits dbval.splits)
    show ?thesis
      using reads Some c(1)
      by (simp add: leg_reads_def leaf_value_def leg_old_def u_def leg_of_def boolToVar_def leg_leaf_def
          account_leaf_def HashAccountLeaf_def r)
  qed
  finally have old: "leg_old H u pk = lf t ?w" ..
  have complete: "leg_opens H u pk (mroot H (lf t))"
    "leg_writes H u pk b n = mroot H ((lf t)(?w := leg_leaf H u pk b n))" for b n
    using leg_complete [where u = u and H = H and m = "lf t" and j = ?w and pk = pk] tree(2,3) w old
    by (simp_all add: depth_28)
  show "leg_opens H u pk (Root t)" using complete(1) by (simp add: Root_mroot [OF inv])
  show "leg_writes H u pk b n = Root (snd (SetBalance H t acc))"
    if "fr b = fr (bs_Balance acc)" "fr n = uint (bs_Nonce acc)"
  proof -
    have slot': "slot_ok 28 (bs_AccountID acc) (bs_TokenID acc)" using slot acc by simp
    have "leg_leaf H u pk b n = account_leaf H acc"
      using that acc c(1) by (simp add: leg_leaf_def account_leaf_def HashAccountLeaf_def u_def leg_of_def)
    then show ?thesis
      using complete(2) [of b n] SetBalance_ok(2,4) [OF inv slot'] acc by (simp add: Root_mroot)
  qed
qed

section \<open>A fill between two accounts\<close>

definition stored :: "mtree \<Rightarrow> balance_state \<Rightarrow> bool" where
  "stored t r \<longleftrightarrow> balances t (bs_AccountID r, bs_TokenID r) = Some r"

definition same_key :: "balance_state \<Rightarrow> balance_state \<Rightarrow> bool" where
  "same_key r r' \<longleftrightarrow> fr (bs_PubKeyX r) = fr (bs_PubKeyX r') \<and> fr (bs_PubKeyY r) = fr (bs_PubKeyY r')"

text \<open>
  The four balances of a trade are the stored ones, of two different accounts in two different
  tokens, and each account has one key.
\<close>

definition fill_ready ::
  "(int list \<Rightarrow> int) \<Rightarrow> mtree \<Rightarrow> balance_state \<Rightarrow> balance_state \<Rightarrow> balance_state \<Rightarrow> balance_state \<Rightarrow> bool" where
  "fill_ready H t sb sq bb bq \<longleftrightarrow>
     db_inv H 28 t \<and> stored t sb \<and> stored t sq \<and> stored t bb \<and> stored t bq \<and>
     bs_AccountID sb = bs_AccountID sq \<and> bs_AccountID bb = bs_AccountID bq \<and> bs_AccountID sb \<noteq> bs_AccountID bb \<and>
     bs_TokenID sb = bs_TokenID bb \<and> bs_TokenID sq = bs_TokenID bq \<and> bs_TokenID sb \<noteq> bs_TokenID sq \<and>
     same_key sb sq \<and> same_key bb bq"

definition fill_t1 where "fill_t1 H t sb amount = snd (SetBalance H t (debit amount sb))"
definition fill_t2 where "fill_t2 H t sb sq amount quote = snd (SetBalance H (fill_t1 H t sb amount) (credit quote sq))"
definition fill_t3 where
  "fill_t3 H t sb sq bb amount quote = snd (SetBalance H (fill_t2 H t sb sq amount quote) (credit amount bb))"
definition fill_t4 where
  "fill_t4 H t sb sq bb bq amount quote =
     snd (SetBalance H (fill_t3 H t sb sq bb amount quote) (debit quote bq))"

definition fill_transition ::
  "(int list \<Rightarrow> int) \<Rightarrow> string \<Rightarrow> string \<Rightarrow> int \<Rightarrow> int \<Rightarrow> balance_state \<Rightarrow> balance_state \<Rightarrow> balance_state \<Rightarrow>
   balance_state \<Rightarrow> mtree \<Rightarrow> state_transition" where
  "fill_transition H makerSig takerSig amount quote sb sq bb bq t =
     \<lparr>st_OpType = 0, st_Amount = dec amount, st_QuoteAmount = dec quote,
      st_MakerPubKeyX = dec (bs_PubKeyX sb), st_MakerPubKeyY = dec (bs_PubKeyY sb),
      st_MakerSig = makerSig, st_MakerBase = snapshotUpdate t sb,
      st_MakerQuote = snapshotUpdate (fill_t1 H t sb amount) sq,
      st_TakerPubKeyX = dec (bs_PubKeyX bb), st_TakerPubKeyY = dec (bs_PubKeyY bb),
      st_TakerSig = takerSig, st_TakerBase = snapshotUpdate (fill_t2 H t sb sq amount quote) bb,
      st_TakerQuote = snapshotUpdate (fill_t3 H t sb sq bb amount quote) bq\<rparr>"

lemma credit_debit_simps [simp]:
  "bs_AccountID (credit n r) = bs_AccountID r" "bs_TokenID (credit n r) = bs_TokenID r"
  "bs_PubKeyX (credit n r) = bs_PubKeyX r" "bs_PubKeyY (credit n r) = bs_PubKeyY r"
  "bs_Nonce (credit n r) = bs_Nonce r" "bs_Balance (credit n r) = bs_Balance r + n"
  "bs_AccountID (debit n r) = bs_AccountID r" "bs_TokenID (debit n r) = bs_TokenID r"
  "bs_PubKeyX (debit n r) = bs_PubKeyX r" "bs_PubKeyY (debit n r) = bs_PubKeyY r"
  "bs_Nonce (debit n r) = bs_Nonce r" "bs_Balance (debit n r) = bs_Balance r - n"
  by (simp_all add: credit_def debit_def)

lemma stored_slot: "db_inv H 28 t \<Longrightarrow> stored t r \<Longrightarrow> slot_ok 28 (bs_AccountID r) (bs_TokenID r)"
  unfolding db_inv_def recs_inv_def stored_def balances_def by (auto split: option.splits)

lemma fill_steps:
  assumes "fill_ready H t sb sq bb bq"
  shows "db_inv H 28 (fill_t1 H t sb amount)" "db_inv H 28 (fill_t2 H t sb sq amount quote)"
    "db_inv H 28 (fill_t3 H t sb sq bb amount quote)" "db_inv H 28 (fill_t4 H t sb sq bb bq amount quote)"
    and "stored (fill_t1 H t sb amount) sq" "stored (fill_t2 H t sb sq amount quote) bb"
      "stored (fill_t3 H t sb sq bb amount quote) bq"
    and "balances (fill_t4 H t sb sq bb bq amount quote) =
      (balances t)((bs_AccountID sb, bs_TokenID sb) \<mapsto> debit amount sb, (bs_AccountID sq, bs_TokenID sq) \<mapsto> credit quote sq,
                   (bs_AccountID bb, bs_TokenID bb) \<mapsto> credit amount bb, (bs_AccountID bq, bs_TokenID bq) \<mapsto> debit quote bq)"
    and "fst (SetBalance H t (debit amount sb)) = Inr ()"
      "fst (SetBalance H (fill_t1 H t sb amount) (credit quote sq)) = Inr ()"
      "fst (SetBalance H (fill_t2 H t sb sq amount quote) (credit amount bb)) = Inr ()"
      "fst (SetBalance H (fill_t3 H t sb sq bb amount quote) (debit quote bq)) = Inr ()"
proof -
  have r: "db_inv H 28 t" "stored t sb" "stored t sq" "stored t bb" "stored t bq"
    and d: "bs_AccountID sb = bs_AccountID sq" "bs_AccountID bb = bs_AccountID bq" "bs_AccountID sb \<noteq> bs_AccountID bb"
      "bs_TokenID sb = bs_TokenID bb" "bs_TokenID sq = bs_TokenID bq" "bs_TokenID sb \<noteq> bs_TokenID sq"
    using assms unfolding fill_ready_def by blast+
  note slot = r(2-5) [THEN stored_slot [OF r(1)]]
  have s1: "slot_ok 28 (bs_AccountID (debit amount sb)) (bs_TokenID (debit amount sb))" using slot(1) by simp
  note ok1 = SetBalance_ok [OF r(1) s1, folded fill_t1_def]
  have s2: "slot_ok 28 (bs_AccountID (credit quote sq)) (bs_TokenID (credit quote sq))" using slot(2) by simp
  note ok2 = SetBalance_ok [OF ok1(2) s2, folded fill_t2_def]
  have s3: "slot_ok 28 (bs_AccountID (credit amount bb)) (bs_TokenID (credit amount bb))" using slot(3) by simp
  note ok3 = SetBalance_ok [OF ok2(2) s3, folded fill_t3_def]
  have s4: "slot_ok 28 (bs_AccountID (debit quote bq)) (bs_TokenID (debit quote bq))" using slot(4) by simp
  note ok4 = SetBalance_ok [OF ok3(2) s4, folded fill_t4_def]
  show "db_inv H 28 (fill_t1 H t sb amount)" "db_inv H 28 (fill_t2 H t sb sq amount quote)"
    "db_inv H 28 (fill_t3 H t sb sq bb amount quote)" "db_inv H 28 (fill_t4 H t sb sq bb bq amount quote)"
    by (rule ok1(2) ok2(2) ok3(2) ok4(2))+
  show "stored (fill_t1 H t sb amount) sq" "stored (fill_t2 H t sb sq amount quote) bb"
      "stored (fill_t3 H t sb sq bb amount quote) bq"
    using r(2-5) d by (auto simp: stored_def ok1(3) ok2(3) ok3(3))
  show "balances (fill_t4 H t sb sq bb bq amount quote) =
      (balances t)((bs_AccountID sb, bs_TokenID sb) \<mapsto> debit amount sb, (bs_AccountID sq, bs_TokenID sq) \<mapsto> credit quote sq,
                   (bs_AccountID bb, bs_TokenID bb) \<mapsto> credit amount bb, (bs_AccountID bq, bs_TokenID bq) \<mapsto> debit quote bq)"
    by (simp only: ok1(3) ok2(3) ok3(3) ok4(3) credit_debit_simps)
  show "fst (SetBalance H t (debit amount sb)) = Inr ()"
      "fst (SetBalance H (fill_t1 H t sb amount) (credit quote sq)) = Inr ()"
      "fst (SetBalance H (fill_t2 H t sb sq amount quote) (credit amount bb)) = Inr ()"
      "fst (SetBalance H (fill_t3 H t sb sq bb amount quote) (debit quote bq)) = Inr ()"
    by (rule ok1(1) ok2(1) ok3(1) ok4(1))+
qed

lemma settle_fill_eq:
  assumes "fill_ready H t sb sq bb bq" and "amount \<le> bs_Balance sb" "quote \<le> bs_Balance bq"
  shows "settle_fill H ms ts amount quote sb sq bb bq t batch =
    (Applied, fill_t4 H t sb sq bb bq amount quote,
     AddTransition H (fill_transition H ms ts amount quote sb sq bb bq t) (dec (Root t))
       (dec (Root (fill_t4 H t sb sq bb bq amount quote))) batch)"
proof -
  have "SetBalance H t (debit amount sb) = (Inr (), fill_t1 H t sb amount)"
    "SetBalance H (fill_t1 H t sb amount) (credit quote sq) = (Inr (), fill_t2 H t sb sq amount quote)"
    "SetBalance H (fill_t2 H t sb sq amount quote) (credit amount bb) = (Inr (), fill_t3 H t sb sq bb amount quote)"
    "SetBalance H (fill_t3 H t sb sq bb amount quote) (debit quote bq) = (Inr (), fill_t4 H t sb sq bb bq amount quote)"
    using fill_steps(9-12) [OF assms(1)]
    by (simp_all add: prod_eq_iff fill_t1_def fill_t2_def fill_t3_def fill_t4_def)
  then show ?thesis using assms(2,3) by (simp add: settle_fill_def Let_def fill_transition_def)
qed

text \<open>The operation the prover assigns for that transition.\<close>

definition fill_op ::
  "(bytes \<Rightarrow> eddsa_signature) \<Rightarrow> (int list \<Rightarrow> int) \<Rightarrow> string \<Rightarrow> string \<Rightarrow> int \<Rightarrow> int \<Rightarrow> balance_state \<Rightarrow> balance_state \<Rightarrow>
   balance_state \<Rightarrow> balance_state \<Rightarrow> mtree \<Rightarrow> operation" where
  "fill_op expand H makerSig takerSig amount quote sb sq bb bq t =
     \<lparr>op_OpType = 0, op_Amount = amount, op_QuoteAmount = quote,
      op_MakerPubKey = \<lparr>pk_X = bs_PubKeyX sb, pk_Y = bs_PubKeyY sb\<rparr>, op_MakerSig = assign_sig expand makerSig,
      op_MakerBase = leg_of t (leaf_index (bs_AccountID sb) (bs_TokenID sb)) (bs_Balance sb) (bs_Nonce sb) False,
      op_MakerQuote = leg_of (fill_t1 H t sb amount) (leaf_index (bs_AccountID sq) (bs_TokenID sq)) (bs_Balance sq) (bs_Nonce sq) False,
      op_TakerPubKey = \<lparr>pk_X = bs_PubKeyX bb, pk_Y = bs_PubKeyY bb\<rparr>, op_TakerSig = assign_sig expand takerSig,
      op_TakerBase = leg_of (fill_t2 H t sb sq amount quote) (leaf_index (bs_AccountID bb) (bs_TokenID bb)) (bs_Balance bb) (bs_Nonce bb) False,
      op_TakerQuote = leg_of (fill_t3 H t sb sq bb amount quote) (leaf_index (bs_AccountID bq) (bs_TokenID bq)) (bs_Balance bq) (bs_Nonce bq) False\<rparr>"

lemma assign_fill:
  "assign_op expand (fill_transition H ms ts amount quote sb sq bb bq t) = Some (fill_op expand H ms ts amount quote sb sq bb bq t)"
  by (simp add: assign_op_def fill_transition_def fill_op_def snapshotUpdate_def)

definition fill_funded :: "int \<Rightarrow> int \<Rightarrow> balance_state \<Rightarrow> balance_state \<Rightarrow> bool" where
  "fill_funded amount quote sb bq \<longleftrightarrow>
     0 \<le> amount \<and> amount < 2 ^ 252 \<and> 0 \<le> quote \<and> quote < 2 ^ 252 \<and>
     amount \<le> bs_Balance sb \<and> bs_Balance sb < fr_modulus \<and> quote \<le> bs_Balance bq \<and> bs_Balance bq < fr_modulus"

lemma fill_funded_fr:
  assumes "fill_funded amount quote sb bq"
  shows "fr amount = amount" "fr quote = quote" "fr (bs_Balance sb) = bs_Balance sb" "fr (bs_Balance bq) = bs_Balance bq"
  using assms by (auto simp: fill_funded_def fr_modulus_def intro!: fr_id)

lemma fill_op_valid:
  assumes ready: "fill_ready H t sb sq bb bq" and funds: "fill_funded amount quote sb bq"
    and op_def: "op = fill_op expand H ms ts amount quote sb sq bb bq t"
  shows "op_shape op" "legs_valid H op (Root t)" "op_root H op (Root t) = Root (fill_t4 H t sb sq bb bq amount quote)"
    "auth_valid H G op \<Longrightarrow> op_valid H G op (Root t)"
proof -
  note st = fill_steps [OF ready]
  have r: "db_inv H 28 t" "stored t sb" and k: "same_key sb sq" "same_key bb bq"
    using ready unfolding fill_ready_def by blast+
  have code: "op_code op = OpTrade" by (simp add: op_code_def op_def fill_op_def op_codes)
  have reads: "leg_reads x (bs_AccountID y) (bs_TokenID y) (bs_Balance y) (bs_Nonce y) False pk"
    if "stored x y" "fr (pk_X pk) = fr (bs_PubKeyX y)" "fr (pk_Y pk) = fr (bs_PubKeyY y)" for x y pk
    using that by (simp add: leg_reads_def stored_def)
  let ?mk = "\<lparr>pk_X = bs_PubKeyX sb, pk_Y = bs_PubKeyY sb\<rparr>" and ?tk = "\<lparr>pk_X = bs_PubKeyX bb, pk_Y = bs_PubKeyY bb\<rparr>"
  have keys: "fr (pk_X ?mk) = fr (bs_PubKeyX sq)" "fr (pk_Y ?mk) = fr (bs_PubKeyY sq)"
    "fr (pk_X ?tk) = fr (bs_PubKeyX bq)" "fr (pk_Y ?tk) = fr (bs_PubKeyY bq)"
    using k by (simp_all add: same_key_def)
  note L1 = leg_of_write [OF r(1) stored_slot [OF r] reads [OF r(2), of ?mk], of "debit amount sb", simplified]
  note L2 = leg_of_write [OF st(1) stored_slot [OF st(1,5)] reads [OF st(5) keys(1,2)], of "credit quote sq", simplified, OF keys(1,2) [simplified]]
  note L3 = leg_of_write [OF st(2) stored_slot [OF st(2,6)] reads [OF st(6), of ?tk], of "credit amount bb", simplified]
  note L4 = leg_of_write [OF st(3) stored_slot [OF st(3,7)] reads [OF st(7) keys(3,4)], of "debit quote bq", simplified, OF keys(3,4) [simplified]]
  show "op_shape op"
    unfolding op_shape_def op_def fill_op_def operation.simps using L1(1) L2(1) L3(1) L4(1) by blast
  have roots: "root_mb H op (Root t) = Root (fill_t1 H t sb amount)"
    "root_mq H op (Root (fill_t1 H t sb amount)) = Root (fill_t2 H t sb sq amount quote)"
    "root_tb H op (Root (fill_t2 H t sb sq amount quote)) = Root (fill_t3 H t sb sq bb amount quote)"
    "root_tq H op (Root (fill_t3 H t sb sq bb amount quote)) = Root (fill_t4 H t sb sq bb bq amount quote)"
    unfolding root_mb_def root_mq_def root_tb_def root_tq_def code
    using L1(4) L2(4) L3(4) L4(4)
    by (simp_all add: op_codes op_def fill_op_def fill_t1_def fill_t2_def fill_t3_def fill_t4_def leg_of_def)
  show "op_root H op (Root t) = Root (fill_t4 H t sb sq bb bq amount quote)"
    by (simp only: op_root_def roots)
  show valid: "legs_valid H op (Root t)"
    unfolding legs_valid_def roots code
    using L1(2,3) L2(2,3) L3(2,3) L4(2,3) funds fill_funded_fr [OF funds]
    by (simp add: op_def fill_op_def op_codes fill_funded_def leg_of_def)
  show "op_valid H G op (Root t)" if "auth_valid H G op"
    using that valid code fill_funded_fr [OF funds] funds
    by (simp add: op_valid_def) (simp add: op_def fill_op_def fill_funded_def)
qed

section \<open>A deposit or a first credit\<close>

definition deposit_op ::
  "(bytes \<Rightarrow> eddsa_signature) \<Rightarrow> mtree \<Rightarrow> mtree \<Rightarrow> u64 \<Rightarrow> int \<Rightarrow> u64 \<Rightarrow> bool \<Rightarrow> int \<Rightarrow> int \<Rightarrow> int \<Rightarrow> operation" where
  "deposit_op expand t t' w bal nonce g amount x y =
     \<lparr>op_OpType = 3, op_Amount = amount, op_QuoteAmount = 0,
      op_MakerPubKey = \<lparr>pk_X = 0, pk_Y = 0\<rparr>, op_MakerSig = assign_sig expand zero_sig,
      op_MakerBase = leg_of t' 99 0 0 False, op_MakerQuote = leg_of t' 99 0 0 False,
      op_TakerPubKey = \<lparr>pk_X = x, pk_Y = y\<rparr>, op_TakerSig = assign_sig expand zero_sig,
      op_TakerBase = leg_of t w bal nonce g, op_TakerQuote = leg_of t' 99 0 0 False\<rparr>"

lemma assign_deposit:
  "assign_op expand (deposit_transition amount x y (leg_update t w (dec bal) nonce g) (leg_update t' 99 ''0'' 0 False)) =
     Some (deposit_op expand t t' w bal nonce g amount x y)"
  "assign_op expand (deposit_transition amount x y (leg_update t w ''0'' 0 g) (leg_update t' 99 ''0'' 0 False)) =
     Some (deposit_op expand t t' w 0 0 g amount x y)"
  by (simp_all add: assign_op_def deposit_transition_def deposit_op_def)

text \<open>
  A transition records a step from one tree to another: assigned by the prover, it is valid at the
  old root and leads to the new one, moves the two accumulators as the batcher does, and replays.
\<close>

definition dep_step :: "(int list \<Rightarrow> int) \<Rightarrow> state_transition \<Rightarrow> int \<Rightarrow> int" where
  "dep_step H st h = (if st_OpType st = OpDeposit
     then mimcHash H [h, uint (su_Index (st_TakerBase st)), amount_or_zero (st_Amount st)] else fr h)"

definition wd_step :: "(int list \<Rightarrow> int) \<Rightarrow> state_transition \<Rightarrow> int \<Rightarrow> int" where
  "wd_step H st h = (if st_OpType st = OpWithdraw
     then mimcHash H [h, uint (su_Index (st_MakerBase st)), amount_or_zero (st_Amount st)] else fr h)"

definition records ::
  "(int list \<Rightarrow> int) \<Rightarrow> gnark \<Rightarrow> (bytes \<Rightarrow> eddsa_signature) \<Rightarrow> state_transition \<Rightarrow> mtree \<Rightarrow> mtree \<Rightarrow> bool" where
  "records H G expand st t t' \<longleftrightarrow>
     (\<exists>op. assign_op expand st = Some op \<and> op_shape op \<and> op_valid H G op (Root t) \<and> op_root H op (Root t) = Root t' \<and>
        (\<forall>h. op_wh H op h = wd_step H st h) \<and> (\<forall>h. op_dh H op h = dep_step H st h)) \<and>
     replays H st t t'"

lemma Root_canonical: "db_inv H 28 t \<Longrightarrow> fr (Root t) = Root t"
  using Root_spec [OF db_inv_tree] tnode_canonical [OF tree_invD(1) [OF db_inv_tree], of H 28 t "lf t"]
    lf_range [OF db_inv_tree] by (simp add: fr_id)

lemma records_step:
  assumes "gnark_laws H G" "records H G expand st t t'" "db_inv H 28 t"
  shows "\<exists>op. assign_op expand st = Some op \<and>
    processOperation G op (Root t) wh dh = Some (Root t', wd_step H st wh, dep_step H st dh)"
proof -
  obtain op where op: "assign_op expand st = Some op" "op_shape op" "op_valid H G op (Root t)" "op_root H op (Root t) = Root t'"
    "\<And>h. op_wh H op h = wd_step H st h" "\<And>h. op_dh H op h = dep_step H st h"
    using assms(2) unfolding records_def by blast
  show ?thesis
    using gnark_api.processOperation_eq [OF gnark_api.intro [OF assms(1)] op(2) Root_canonical [OF assms(3)], of wh dh] op
    by simp
qed

lemma deposit_replays:
  assumes inv: "db_inv H 28 t" and slot: "slot_ok 28 a tok"
    and reads: "leg_reads t a tok bal nonce g \<lparr>pk_X = x, pk_Y = y\<rparr>"
    and acc: "bs_AccountID acc = a" "bs_TokenID acc = tok" "fr x = fr (bs_PubKeyX acc)" "fr y = fr (bs_PubKeyY acc)"
      "bs_Balance acc = bal + amount" "bs_Nonce acc = nonce"
    and amount: "0 \<le> amount" and t': "t' = snd (SetBalance H t acc)"
    and st: "st = deposit_transition amount x y (leg_update t (leaf_index a tok) (dec bal) nonce g) dummy"
  shows "replays H st t t'"
  unfolding replays_def
proof (intro impI conjI allI)
  assume solvent: "solvent t"
  have slot': "slot_ok 28 (bs_AccountID acc) (bs_TokenID acc)" using slot acc by simp
  note ok = SetBalance_ok [OF inv slot', folded t']
  have "0 \<le> bal" using reads solvent by (auto simp: leg_reads_def solvent_def split: option.splits)
  then have pos: "0 \<le> bs_Balance acc" using acc amount by simp
  then show "solvent t'" using solvent by (auto simp: solvent_def ok(3))
  fix K r assume r: "mirrors K H t r \<and> carries K st"
  then have m: "mirrors K H t r" and K: "K x" "K y" by (simp_all add: carries_def st deposit_transition_def)
  let ?su = "leg_update t (leaf_index a tok) (dec bal) nonce g"
  obtain r' where r': "applyLeg H r ?su (dec x) (dec y) amount 0 = (Inr (), r')" "mirrors K H t' r'"
    using applyLeg_mirrors [OF inv m slot', of ?su bal 0 x y amount] acc pos K
    by (auto simp: leg_update_def split_beta t')
  have "replayTransition H r st = (Inr (), r')"
    using r'(1) by (simp add: replayTransition_def st deposit_transition_def op_codes)
  then show "\<exists>r'. replayTransition H r st = (Inr (), r') \<and> mirrors K H t' r' \<and> Root r' = Root t'"
    using r'(2) Root_mirrors [OF ok(2) r'(2)] by simp
qed

lemma deposit_records:
  assumes inv: "db_inv H 28 t" and slot: "slot_ok 28 a tok"
    and reads: "leg_reads t a tok bal nonce g \<lparr>pk_X = x, pk_Y = y\<rparr>"
    and acc: "bs_AccountID acc = a" "bs_TokenID acc = tok" "fr x = fr (bs_PubKeyX acc)" "fr y = fr (bs_PubKeyY acc)"
      "bs_Balance acc = bal + amount" "bs_Nonce acc = nonce"
    and amount: "0 \<le> amount" "amount < 2 ^ 252"
    and t': "t' = snd (SetBalance H t acc)"
    and st: "st = deposit_transition amount x y (leg_update t (leaf_index a tok) (dec bal) nonce g) (leg_update t' 99 ''0'' 0 False)"
  shows "records H G expand st t t'"
proof -
  define op where "op = deposit_op expand t t' (leaf_index a tok) bal nonce g amount x y"
  have slot': "slot_ok 28 (bs_AccountID acc) (bs_TokenID acc)" using slot acc by simp
  have inv': "db_inv H 28 t'" unfolding t' by (rule SetBalance_ok(2) [OF inv slot'])
  have amt: "fr amount = amount" using amount by (intro fr_id) (simp_all add: fr_modulus_def)
  have canon: "fr (H xs) = H xs" for xs using tree_invD(1) [OF db_inv_tree [OF inv]] by simp
  note L = leg_of_write [OF inv slot reads acc(1,2), simplified, OF acc(3,4), folded t']
  note D = leg_of_tree [OF inv', where w = 99 and bal = 0 and nonce = 0 and g = False]
  have code: "op_code op = OpDeposit" by (simp add: op_def op_code_def deposit_op_def op_codes fr_def fr_modulus_def)
  have fields: "op_TakerBase op = leg_of t (leaf_index a tok) bal nonce g" "op_TakerPubKey op = \<lparr>pk_X = x, pk_Y = y\<rparr>"
    "op_MakerBase op = leg_of t' 99 0 0 False" "op_MakerQuote op = leg_of t' 99 0 0 False"
    "op_TakerQuote op = leg_of t' 99 0 0 False" "op_Amount op = amount" "op_QuoteAmount op = 0"
    by (simp_all add: op_def deposit_op_def)
  have "assign_op expand st = Some op" by (simp add: st op_def assign_deposit)
  moreover have "op_shape op" using L(1) D(1) by (simp add: op_shape_def fields)
  moreover have "op_valid H G op (Root t)"
    using L(2,3) D(4) amount
    by (simp add: op_valid_def auth_valid_def legs_valid_def code fields op_codes root_mb_def root_mq_def
        code [unfolded op_codes] amt)
  moreover have wb: "leg_writes H (op_TakerBase op) (op_TakerPubKey op) (sl_Balance (op_TakerBase op) + op_Amount op) (sl_Nonce (op_TakerBase op)) = Root t'"
    unfolding fields using L(4) acc(5,6) by (simp add: leg_of_def)
  then have "op_root H op (Root t) = Root t'"
    by (simp add: op_root_def root_mb_def root_mq_def root_tb_def root_tq_def code op_codes code [unfolded op_codes])
  moreover have "op_wh H op h = wd_step H st h" "op_dh H op h = dep_step H st h" for h
    by (simp_all add: op_wh_def op_dh_def wd_step_def dep_step_def code op_codes code [unfolded op_codes] fields st
        deposit_transition_def leg_update_def leg_of_def split_beta mimcHash_def amount_or_zero_def amt canon)
  moreover have "replays H st t t'" by (rule deposit_replays [OF inv slot reads acc amount(1) t' st])
  ultimately show ?thesis unfolding records_def by blast
qed

text \<open>The account of a key: the one it has, or the next free id.\<close>

definition account_for :: "mtree \<Rightarrow> string \<Rightarrow> u64" where
  "account_for t hex = (case account_ids t (trim_prefix ''0x'' hex) of Some a \<Rightarrow> a | None \<Rightarrow> next_id t)"

definition opened :: "mtree \<Rightarrow> string \<Rightarrow> mtree" where
  "opened t hex = (case account_ids t (trim_prefix ''0x'' hex) of
     Some a \<Rightarrow> t | None \<Rightarrow> with_id t (trim_prefix ''0x'' hex))"

lemma opened_facts:
  assumes "db_inv H d t" "ids_inv t"
  shows "GetAccountID t hex = (Inr (account_for t hex), opened t hex)" "db_inv H d (opened t hex)"
    "balances (opened t hex) = balances t" "Root (opened t hex) = Root t" "lf (opened t hex) = lf t"
proof -
  have "lf (with_id t pk) = lf t" for pk
  proof -
    have "with_id t pk = (t\<lparr>mt_kv := (mt_kv t)(nextIdKey \<mapsto> VBytes (be_enc 8 (unat (next_id t + 1))))\<rparr>)
      \<lparr>mt_kv := (mt_kv (t\<lparr>mt_kv := (mt_kv t)(nextIdKey \<mapsto> VBytes (be_enc 8 (unat (next_id t + 1))))\<rparr>))
         (pubkeyKey pk \<mapsto> VBytes (be_enc 8 (unat (next_id t))))\<rparr>"
      by (simp add: with_id_def)
    then show ?thesis by (simp only: lf_put [OF text_key_all(3)] lf_put [OF text_key_all(4)])
  qed
  then show "lf (opened t hex) = lf t" by (simp add: opened_def split: option.split)
qed (use with_id_db [OF assms(1)] assms(1) in
  \<open>auto simp: GetAccountID_ok [OF assms(2)] account_for_def opened_def split: option.split\<close>)

lemma records_opened:
  assumes "db_inv H d t" "ids_inv t" "records H G expand st (opened t hex) t'"
  shows "records H G expand st t t'"
  using assms(3) opened_facts(3-5) [OF assms(1,2), of hex] by (simp add: records_def replays_def solvent_def mirrors_def)

definition deposit_record :: "mtree \<Rightarrow> u64 \<Rightarrow> u32 \<Rightarrow> int \<Rightarrow> int \<Rightarrow> balance_state" where
  "deposit_record t a tok x y =
     (case balances t (a, tok) of
        Some e \<Rightarrow> e
      | None \<Rightarrow> \<lparr>bs_AccountID = a, bs_TokenID = tok, bs_PubKeyX = x, bs_PubKeyY = y, bs_Balance = 0, bs_Nonce = 0\<rparr>)"

lemma stored_ids:
  "db_inv H d t \<Longrightarrow> balances t (a, tok) = Some r \<Longrightarrow> bs_AccountID r = a \<and> bs_TokenID r = tok"
  unfolding db_inv_def recs_inv_def balances_def by (auto split: option.splits dbval.splits)

definition key_matches :: "mtree \<Rightarrow> u64 \<Rightarrow> u32 \<Rightarrow> int \<Rightarrow> int \<Rightarrow> bool" where
  "key_matches t a tok x y \<longleftrightarrow>
     (case balances t (a, tok) of None \<Rightarrow> True | Some r \<Rightarrow> fr x = fr (bs_PubKeyX r) \<and> fr y = fr (bs_PubKeyY r))"

lemma dec_0: "dec 0 = ''0''"
proof -
  have "char_of (48 :: nat) = CHR ''0''" by code_simp
  then show ?thesis by (simp add: dec_def dec_nat.simps digit_def)
qed

lemma room_for_id: "slot_ok 28 a tok \<Longrightarrow> a = account_for t hex \<Longrightarrow> ids_inv t \<Longrightarrow> ids_inv (opened t hex)"
proof -
  assume slot: "slot_ok 28 a tok" and a: "a = account_for t hex" and inv: "ids_inv t"
  have "unat a < 2 ^ 20" using slot by (simp add: slot_ok_def)
  then show "ids_inv (opened t hex)"
    using inv a with_id_inv [OF inv] by (auto simp: account_for_def opened_def split: option.splits)
qed

lemma SetBalance_run:
  assumes "db_inv H 28 t" "ids_inv t" "slot_ok 28 (bs_AccountID acc) (bs_TokenID acc)"
  obtains t' where "SetBalance H t acc = (Inr (), t')" "t' = snd (SetBalance H t acc)" "db_inv H 28 t'" "ids_inv t'"
    "balances t' = (balances t)((bs_AccountID acc, bs_TokenID acc) \<mapsto> acc)" "account_ids t' = account_ids t"
proof -
  note ok = SetBalance_ok [OF assms(1,3)]
  have "no_faults (snd (SetBalance H t acc))" using db_inv_tree [OF ok(2)] by (simp add: tree_inv_def)
  then have "ids_inv (snd (SetBalance H t acc))" by (rule same_tables_ids [OF ok(5) _ assms(2)])
  moreover have "account_ids (snd (SetBalance H t acc)) = account_ids t"
    using ok(5) by (simp add: same_tables_def account_ids_def fun_eq_iff)
  ultimately show ?thesis using that [OF _ refl ok(2) _ ok(3)] ok(1) by (simp add: prod_eq_iff)
qed

text \<open>The two ways a deposit enters, with the transition each emits.\<close>

lemma processDeposit_run:
  assumes inv: "db_inv (mimc C) 28 t" "ids_inv t"
    and hex: "compressPubKeyHex C (ev_PubKeyX ev) (ev_PubKeyY ev) = Inr hex"
    and a: "a = account_for t hex" and slot: "slot_ok 28 a (ev_TokenId ev)"
    and key: "key_matches t a (ev_TokenId ev) (ev_PubKeyX ev) (ev_PubKeyY ev)"
    and amount: "0 \<le> ev_Amount ev" "ev_Amount ev < 2 ^ 252"
  shows "\<exists>t' st. processDeposit C ev t b = (Applied, t', AddTransition (mimc C) st (dec (Root t)) (dec (Root t')) b) \<and>
     balances t' = (balances t)((a, ev_TokenId ev) \<mapsto>
        credit (ev_Amount ev) (deposit_record t a (ev_TokenId ev) (ev_PubKeyX ev) (ev_PubKeyY ev))) \<and>
     db_inv (mimc C) 28 t' \<and> ids_inv t' \<and> account_for t' hex = a \<and> records (mimc C) G expand st t t' \<and>
     wd_step (mimc C) st = fr \<and>
     dep_step (mimc C) st = (\<lambda>h. mimcHash (mimc C) [h, uint (leaf_index a (ev_TokenId ev)), ev_Amount ev])"
proof -
  let ?tok = "ev_TokenId ev" and ?H = "mimc C" and ?t = "opened t hex"
  let ?r = "deposit_record t a ?tok (ev_PubKeyX ev) (ev_PubKeyY ev)"
  let ?acc = "credit (ev_Amount ev) ?r" and ?g = "balances t (a, ?tok) = None"
  note o = opened_facts [OF inv, of hex]
  have ids: "bs_AccountID ?r = a" "bs_TokenID ?r = ?tok"
    using stored_ids [OF inv(1)] by (auto simp: deposit_record_def split: option.split)
  have slot': "slot_ok 28 (bs_AccountID ?acc) (bs_TokenID ?acc)" using slot ids by simp
  obtain t' where set: "SetBalance ?H ?t ?acc = (Inr (), t')" and t': "t' = snd (SetBalance ?H ?t ?acc)"
    and post: "db_inv ?H 28 t'" "ids_inv t'" "balances t' = (balances ?t)((bs_AccountID ?acc, bs_TokenID ?acc) \<mapsto> ?acc)"
      "account_ids t' = account_ids ?t"
    by (rule SetBalance_run [OF o(2) room_for_id [OF slot a inv(2)] slot'])
  have "account_for t' hex = a"
    using a post(4) by (auto simp: account_for_def opened_def with_id_tables split: option.splits)
  note post = post this
  let ?tb = "leg_update ?t (leaf_index a ?tok) (dec (bs_Balance ?r)) (bs_Nonce ?r) ?g"
  define st where "st = deposit_transition (ev_Amount ev) (ev_PubKeyX ev) (ev_PubKeyY ev) ?tb (leg_update t' 99 ''0'' 0 False)"
  have run: "processDeposit C ev t b = (Applied, t', AddTransition ?H st (dec (Root t)) (dec (Root t')) b)"
    using o(1) GetBalance_balances [OF o(2), of a ?tok] set unfolding st_def
    by (cases "balances t (a, ?tok)")
      (simp_all add: processDeposit_def hex Let_def o(3) a [symmetric] deposit_record_def dec_0 getEmptyStateUpdate_def)
  have reads: "leg_reads ?t a ?tok (bs_Balance ?r) (bs_Nonce ?r) ?g \<lparr>pk_X = ev_PubKeyX ev, pk_Y = ev_PubKeyY ev\<rparr>"
    using key by (auto simp: leg_reads_def o(3) deposit_record_def key_matches_def split: option.splits)
  have keys: "fr (ev_PubKeyX ev) = fr (bs_PubKeyX ?acc)" "fr (ev_PubKeyY ev) = fr (bs_PubKeyY ?acc)"
    using key by (auto simp: deposit_record_def key_matches_def split: option.splits)
  have "records ?H G expand st ?t t'"
    by (rule deposit_records [OF o(2) slot reads _ _ keys _ _ amount t' st_def]) (simp_all add: ids)
  then have "records ?H G expand st t t'" by (rule records_opened [OF inv])
  moreover have "wd_step ?H st = fr" "dep_step ?H st = (\<lambda>h. mimcHash ?H [h, uint (leaf_index a ?tok), ev_Amount ev])"
    by (simp_all add: fun_eq_iff wd_step_def dep_step_def st_def deposit_transition_def op_codes leg_update_def split_beta amount_or_zero_def)
  ultimately show ?thesis using run post ids o(3) by auto
qed

lemma openBalance_run:
  assumes inv: "db_inv (mimc C) 28 t" "ids_inv t"
    and a: "a = account_for t hex" and slot: "slot_ok 28 a tok" and new: "balances t (a, tok) = None"
    and key: "decodePubKeyXY C hex = Inr (x, y)"
  shows "\<exists>acc t' st. openBalance C t (Some b) hex tok =
       (Inr acc, t', Some (AddTransition (mimc C) st (dec (Root t)) (dec (Root t')) b)) \<and>
     bs_Balance acc = 1000000 \<and> balances t' = (balances t)((a, tok) \<mapsto> acc) \<and>
     db_inv (mimc C) 28 t' \<and> ids_inv t' \<and> records (mimc C) G expand st t t' \<and>
     wd_step (mimc C) st = fr \<and> dep_step (mimc C) st = (\<lambda>h. mimcHash (mimc C) [h, uint (leaf_index a tok), 1000000])"
proof -
  let ?H = "mimc C" and ?t = "opened t hex"
  let ?acc = "\<lparr>bs_AccountID = a, bs_TokenID = tok, bs_PubKeyX = x, bs_PubKeyY = y, bs_Balance = 1000000, bs_Nonce = 0\<rparr>"
  note o = opened_facts [OF inv, of hex]
  have slot': "slot_ok 28 (bs_AccountID ?acc) (bs_TokenID ?acc)" using slot by simp
  obtain t' where set: "SetBalance ?H ?t ?acc = (Inr (), t')" and t': "t' = snd (SetBalance ?H ?t ?acc)"
    and post: "db_inv ?H 28 t'" "ids_inv t'" "balances t' = (balances ?t)((bs_AccountID ?acc, bs_TokenID ?acc) \<mapsto> ?acc)"
    by (rule SetBalance_run [OF o(2) room_for_id [OF slot a inv(2)] slot'])
  let ?tb = "leg_update ?t (leaf_index a tok) (dec 0) 0 True"
  define st where "st = deposit_transition 1000000 x y ?tb (leg_update t' 99 ''0'' 0 False)"
  have run: "openBalance C t (Some b) hex tok = (Inr ?acc, t', Some (AddTransition ?H st (dec (Root t)) (dec (Root t')) b))"
    using o(1) GetBalance_balances [OF o(2), of a tok] set new unfolding st_def
    by (simp add: openBalance_def Let_def o(3,4) a [symmetric] key)
      (simp add: inactiveLegUpdate_def leg_update_def split_beta dec_0)
  have reads: "leg_reads ?t a tok 0 0 True \<lparr>pk_X = x, pk_Y = y\<rparr>" by (simp add: leg_reads_def o(3) new)
  have "records ?H G expand st ?t t'"
    by (rule deposit_records [OF o(2) slot reads _ _ _ _ _ _ _ _ t' st_def]) simp_all
  then have "records ?H G expand st t t'" by (rule records_opened [OF inv])
  moreover have "wd_step ?H st = fr" "dep_step ?H st = (\<lambda>h. mimcHash ?H [h, uint (leaf_index a tok), 1000000])"
    by (simp_all add: fun_eq_iff wd_step_def dep_step_def st_def deposit_transition_def op_codes leg_update_def split_beta amount_or_zero_def)
  ultimately show ?thesis using run post o(3) by (intro exI [of _ ?acc] exI [of _ t'] exI [of _ st]) simp
qed

section \<open>Properties of settlement\<close>

text \<open>
  C15: a deposit is provable. For a valid L1 event, on a new or an existing balance,
  \<open>processDeposit\<close> credits exactly the amount to the depositor's slot, and the transition it adds
  to the batch satisfies the circuit between the root before and the root after, the deposit
  accumulator taking in the slot and the amount.
\<close>
theorem processDeposit_provable:
  assumes laws: "gnark_laws (mimc C) G" and inv: "db_inv (mimc C) 28 t" "ids_inv t"
    and hex: "compressPubKeyHex C (ev_PubKeyX ev) (ev_PubKeyY ev) = Inr hex"
    and a: "a = account_for t hex" and slot: "slot_ok 28 a (ev_TokenId ev)"
    and key: "key_matches t a (ev_TokenId ev) (ev_PubKeyX ev) (ev_PubKeyY ev)"
    and amount: "0 \<le> ev_Amount ev" "ev_Amount ev < 2 ^ 252"
  shows "\<exists>t' st op. processDeposit C ev t b = (Applied, t', AddTransition (mimc C) st (dec (Root t)) (dec (Root t')) b) \<and>
     balances t' = (balances t)((a, ev_TokenId ev) \<mapsto>
        credit (ev_Amount ev) (deposit_record t a (ev_TokenId ev) (ev_PubKeyX ev) (ev_PubKeyY ev))) \<and>
     assign_op expand st = Some op \<and>
     processOperation G op (Root t) wh dh =
       Some (Root t', fr wh, mimcHash (mimc C) [dh, uint (leaf_index a (ev_TokenId ev)), ev_Amount ev])"
  using processDeposit_run [OF inv hex a slot key amount, of b G expand] records_step [OF laws _ inv(1), of expand _ _ wh dh]
  by metis

definition demo_gnark_mimc :: gnark where
  "demo_gnark_mimc = fr_gnark (mimc_hash []) (\<lambda>_ _ _. True)"

lemma demo_mimc_laws: "gnark_laws (mimc demo_scheme) demo_gnark_mimc" "mimc demo_scheme = mimc_hash []"
  by (simp_all add: demo_gnark_mimc_def demo_scheme_def fr_gnark_laws mimc_hash_canonical)

lemma demo_db_empty: "balances demo_db = Map.empty" "account_ids demo_db pk = None" "next_id demo_db = 0"
  using New_db_inv(2) [OF mimc_hash_canonical, of 28 "[]"]
  by (simp_all add: demo_db_def account_ids_def next_id_def NewLevelDBMerkleTree_def)

theorem processDeposit_provable_witness:
  "\<exists>t' st. processDeposit demo_scheme \<lparr>ev_TokenId = 1, ev_PubKeyX = 3, ev_PubKeyY = 4, ev_Amount = 5\<rparr> demo_db NewBatcher =
     (Applied, t', AddTransition (mimc_hash []) st (dec (Root demo_db)) (dec (Root t')) NewBatcher)"
proof -
  let ?ev = "\<lparr>ev_TokenId = 1, ev_PubKeyX = 3, ev_PubKeyY = 4, ev_Amount = 5\<rparr>"
  obtain hex where hex: "compressPubKeyHex demo_scheme (ev_PubKeyX ?ev) (ev_PubKeyY ?ev) = Inr hex"
    by (simp add: compressPubKeyHex_def demo_scheme_def)
  have a: "account_for demo_db hex = 0" by (simp add: account_for_def demo_db_empty)
  show ?thesis
    using processDeposit_provable [OF demo_mimc_laws(1) _ demo_db_inv(2) hex refl, of NewBatcher "\<lambda>_. zero_signature" 0 0]
    by (simp add: a demo_mimc_laws(2) slot_ok_def key_matches_def demo_db_empty) blast
qed

text \<open>
  C16: a first credit is provable. \<open>openBalance\<close> on a key it has not seen for a token credits the
  1,000,000 test units through the batcher, as a deposit the circuit accepts.
\<close>
theorem openBalance_provable:
  assumes laws: "gnark_laws (mimc C) G" and inv: "db_inv (mimc C) 28 t" "ids_inv t"
    and a: "a = account_for t hex" and slot: "slot_ok 28 a tok" and new: "balances t (a, tok) = None"
    and key: "decodePubKeyXY C hex = Inr (x, y)"
  shows "\<exists>acc t' st op. openBalance C t (Some b) hex tok =
       (Inr acc, t', Some (AddTransition (mimc C) st (dec (Root t)) (dec (Root t')) b)) \<and>
     bs_Balance acc = 1000000 \<and> balances t' = (balances t)((a, tok) \<mapsto> acc) \<and>
     assign_op expand st = Some op \<and>
     processOperation G op (Root t) wh dh = Some (Root t', fr wh, mimcHash (mimc C) [dh, uint (leaf_index a tok), 1000000])"
  using openBalance_run [OF inv a slot new key, of b G expand] records_step [OF laws _ inv(1), of expand _ _ wh dh]
  by metis

theorem openBalance_provable_witness:
  "\<exists>acc t' b'. openBalance demo_scheme demo_db (Some NewBatcher) ''aa'' 1 = (Inr acc, t', b') \<and> bs_Balance acc = 1000000"
proof -
  have a: "account_for demo_db ''aa'' = 0" by (simp add: account_for_def demo_db_empty)
  have "decodePubKeyXY demo_scheme ''aa'' = Inr (0, 1)"
    by (simp add: decodePubKeyXY_def demo_scheme_def trim_prefix_def has_prefix_def hex_val_def)
  from openBalance_provable [OF demo_mimc_laws(1) _ demo_db_inv(2) refl _ _ this, of 1 NewBatcher "\<lambda>_. zero_signature" 0 0]
  show ?thesis by (auto simp: a demo_mimc_laws(2) slot_ok_def demo_db_empty)
qed

end
