(* ===== verification/SequencerRun.thy ===== *)
theory SequencerRun imports Settlement begin

text \<open>
  The sequencer as a whole: what a trade does to the balances and to the total of each token,
  and that a full batch of its operations is accepted by the circuit with the public inputs the
  batcher sealed.
\<close>

section \<open>A trade on loaded accounts\<close>

definition sell_of :: "trade \<Rightarrow> order" where
  "sell_of trade = (if o_IsBuy (t_MakerOrder trade) then t_TakerOrder trade else t_MakerOrder trade)"

definition buy_of :: "trade \<Rightarrow> order" where
  "buy_of trade = (if o_IsBuy (t_MakerOrder trade) then t_MakerOrder trade else t_TakerOrder trade)"

definition base_token :: "trade \<Rightarrow> u32" where
  "base_token trade = o_TokenID (sell_of trade)"

definition quote_token :: "trade \<Rightarrow> u32" where
  "quote_token trade = (if o_TokenID (sell_of trade) \<noteq> o_TokenID (buy_of trade) then o_TokenID (buy_of trade)
                        else quoteTokenForBook (base_token trade))"

definition trade_quote :: "trade \<Rightarrow> int" where
  "trade_quote trade = t_MatchAmount trade * t_MatchPrice trade"

lemma quote_differs: "base_token trade \<noteq> quote_token trade"
  by (simp add: quote_token_def quoteTokenForBook_def base_token_def)

lemma orient_eq:
  "orient trade = (if o_IsBuy (t_MakerOrder trade) = o_IsBuy (t_TakerOrder trade) then None
                   else Some (sell_of trade, buy_of trade))"
  by (auto simp: orient_def sell_of_def buy_of_def)

text \<open>Both orders carry circuit signatures, and the four balances of the trade exist.\<close>

definition trade_signed :: "trade \<Rightarrow> bool" where
  "trade_signed trade \<longleftrightarrow>
     o_IsBuy (t_MakerOrder trade) \<noteq> o_IsBuy (t_TakerOrder trade) \<and>
     o_CircuitSignature (sell_of trade) \<noteq> [] \<and> o_CircuitSignature (buy_of trade) \<noteq> []"

definition holds :: "mtree \<Rightarrow> order \<Rightarrow> u32 \<Rightarrow> balance_state \<Rightarrow> bool" where
  "holds t ord tok r \<longleftrightarrow>
     (case account_ids t (trim_prefix ''0x'' (o_MakerAddress ord)) of
        None \<Rightarrow> False | Some a \<Rightarrow> balances t (a, tok) = Some r)"

definition trade_loaded ::
  "mtree \<Rightarrow> trade \<Rightarrow> balance_state \<Rightarrow> balance_state \<Rightarrow> balance_state \<Rightarrow> balance_state \<Rightarrow> bool" where
  "trade_loaded t trade sb sq bb bq \<longleftrightarrow>
     trade_signed trade \<and>
     holds t (sell_of trade) (base_token trade) sb \<and> holds t (sell_of trade) (quote_token trade) sq \<and>
     holds t (buy_of trade) (base_token trade) bb \<and> holds t (buy_of trade) (quote_token trade) bq"

lemma getOrCreate_existing:
  assumes "db_inv H d t" "ids_inv t" "holds t ord tok r"
  shows "getOrCreateBalance C t (o_MakerAddress ord) tok = (Inr r, t)"
  using assms(3) GetAccountID_ok [OF assms(2)] GetBalance_balances [OF assms(1)]
  by (auto simp: holds_def getOrCreateBalance_def split: option.splits)

lemma holds_ids:
  assumes "db_inv H d t" "holds t ord tok r"
  shows "bs_TokenID r = tok" "stored t r" "account_ids t (trim_prefix ''0x'' (o_MakerAddress ord)) = Some (bs_AccountID r)"
  using assms stored_ids [OF assms(1)] by (auto simp: holds_def stored_def split: option.splits)

lemma applyTrade_signed:
  "trade_signed trade \<Longrightarrow> applyTrade C trade t b =
    (case getOrCreateBalance C t (o_MakerAddress (sell_of trade)) (base_token trade) of
       (Inl err, tree) \<Rightarrow> (Skipped ''seller base'', tree, b)
     | (Inr sellerBase, tree) \<Rightarrow>
    (case getOrCreateBalance C tree (o_MakerAddress (sell_of trade)) (quote_token trade) of
       (Inl err, tree) \<Rightarrow> (Skipped ''seller quote'', tree, b)
     | (Inr sellerQuote, tree) \<Rightarrow>
    (case getOrCreateBalance C tree (o_MakerAddress (buy_of trade)) (base_token trade) of
       (Inl err, tree) \<Rightarrow> (Skipped ''buyer base'', tree, b)
     | (Inr buyerBase, tree) \<Rightarrow>
    (case getOrCreateBalance C tree (o_MakerAddress (buy_of trade)) (quote_token trade) of
       (Inl err, tree) \<Rightarrow> (Skipped ''buyer quote'', tree, b)
     | (Inr buyerQuote, tree) \<Rightarrow>
         settle_fill (mimc C) (o_CircuitSignature (sell_of trade)) (o_CircuitSignature (buy_of trade))
           (t_MatchAmount trade) (trade_quote trade) sellerBase sellerQuote buyerBase buyerQuote tree b))))"
  unfolding applyTrade_def orient_eq trade_signed_def Let_def base_token_def quote_token_def trade_quote_def by simp

lemma applyTrade_loaded:
  assumes "db_inv (mimc C) 28 t" "ids_inv t" "trade_loaded t trade sb sq bb bq"
  shows "applyTrade C trade t b =
    settle_fill (mimc C) (o_CircuitSignature (sell_of trade)) (o_CircuitSignature (buy_of trade))
      (t_MatchAmount trade) (trade_quote trade) sb sq bb bq t b"
proof -
  have s: "trade_signed trade" "holds t (sell_of trade) (base_token trade) sb"
    "holds t (sell_of trade) (quote_token trade) sq" "holds t (buy_of trade) (base_token trade) bb"
    "holds t (buy_of trade) (quote_token trade) bq"
    using assms(3) by (simp_all add: trade_loaded_def)
  note g = s(2-5) [THEN getOrCreate_existing [OF assms(1,2)], of C]
  show ?thesis by (simp add: applyTrade_signed [OF s(1)] g)
qed

lemma trade_loaded_facts:
  assumes "db_inv H d t" "trade_loaded t trade sb sq bb bq"
  shows "stored t sb" "stored t sq" "stored t bb" "stored t bq"
    "bs_TokenID sb = base_token trade" "bs_TokenID sq = quote_token trade"
    "bs_TokenID bb = base_token trade" "bs_TokenID bq = quote_token trade"
    "bs_AccountID sb = bs_AccountID sq" "bs_AccountID bb = bs_AccountID bq"
proof -
  have s: "holds t (sell_of trade) (base_token trade) sb"
    "holds t (sell_of trade) (quote_token trade) sq" "holds t (buy_of trade) (base_token trade) bb"
    "holds t (buy_of trade) (quote_token trade) bq"
    using assms(2) by (simp_all add: trade_loaded_def)
  note g = s [THEN holds_ids(1) [OF assms(1)]] s [THEN holds_ids(2) [OF assms(1)]] s [THEN holds_ids(3) [OF assms(1)]]
  show "stored t sb" "stored t sq" "stored t bb" "stored t bq"
    "bs_TokenID sb = base_token trade" "bs_TokenID sq = quote_token trade"
    "bs_TokenID bb = base_token trade" "bs_TokenID bq = quote_token trade"
    "bs_AccountID sb = bs_AccountID sq" "bs_AccountID bb = bs_AccountID bq"
    using g by simp_all
qed

lemma trade_fill_ready:
  assumes "db_inv H 28 t" "trade_loaded t trade sb sq bb bq" "bs_AccountID sb \<noteq> bs_AccountID bb"
    and "same_key sb sq" "same_key bb bq"
  shows "fill_ready H t sb sq bb bq"
  using trade_loaded_facts [OF assms(1,2)] assms quote_differs [of trade] by (simp add: fill_ready_def)

text \<open>The operation the prover assigns for a settled trade.\<close>

definition trade_op ::
  "(bytes \<Rightarrow> eddsa_signature) \<Rightarrow> (int list \<Rightarrow> int) \<Rightarrow> trade \<Rightarrow> balance_state \<Rightarrow> balance_state \<Rightarrow> balance_state \<Rightarrow>
   balance_state \<Rightarrow> mtree \<Rightarrow> operation" where
  "trade_op expand H trade sb sq bb bq t =
     fill_op expand H (o_CircuitSignature (sell_of trade)) (o_CircuitSignature (buy_of trade))
       (t_MatchAmount trade) (trade_quote trade) sb sq bb bq t"

definition settleable ::
  "(int list \<Rightarrow> int) \<Rightarrow> mtree \<Rightarrow> trade \<Rightarrow> balance_state \<Rightarrow> balance_state \<Rightarrow> balance_state \<Rightarrow> balance_state \<Rightarrow> bool" where
  "settleable H t trade sb sq bb bq \<longleftrightarrow>
     trade_loaded t trade sb sq bb bq \<and> bs_AccountID sb \<noteq> bs_AccountID bb \<and> same_key sb sq \<and> same_key bb bq \<and>
     fill_funded (t_MatchAmount trade) (trade_quote trade) sb bq"

lemma fill_ids:
  assumes ready: "fill_ready H t sb sq bb bq" and ids: "ids_inv t"
  shows "ids_inv (fill_t4 H t sb sq bb bq amount quote)"
proof -
  have step: "ids_inv (snd (SetBalance H u acc))"
    if "db_inv H 28 u" "ids_inv u" "slot_ok 28 (bs_AccountID acc) (bs_TokenID acc)" for u acc
    by (rule SetBalance_run [OF that]) simp
  have inv: "db_inv H 28 t" and sb: "stored t sb" using ready unfolding fill_ready_def by blast+
  note st = fill_steps [OF ready]
  have 1: "ids_inv (fill_t1 H t sb amount)"
    unfolding fill_t1_def by (rule step [OF inv ids]) (use stored_slot [OF inv sb] in simp)
  have 2: "ids_inv (fill_t2 H t sb sq amount quote)"
    unfolding fill_t2_def by (rule step [OF st(1) 1]) (use stored_slot [OF st(1,5)] in simp)
  have 3: "ids_inv (fill_t3 H t sb sq bb amount quote)"
    unfolding fill_t3_def by (rule step [OF st(2) 2]) (use stored_slot [OF st(2,6)] in simp)
  show ?thesis unfolding fill_t4_def by (rule step [OF st(3) 3]) (use stored_slot [OF st(3,7)] in simp)
qed

lemma fill_replays:
  assumes ready: "fill_ready H t sb sq bb bq" and funds: "amount \<le> bs_Balance sb" "quote \<le> bs_Balance bq" "0 \<le> amount" "0 \<le> quote"
  shows "replays H (fill_transition H ms ts amount quote sb sq bb bq t) t (fill_t4 H t sb sq bb bq amount quote)"
  unfolding replays_def
proof (intro impI conjI allI)
  assume solvent: "solvent t"
  have inv: "db_inv H 28 t" and r: "stored t sb" "stored t sq" "stored t bb" "stored t bq"
    and k: "same_key sb sq" "same_key bb bq"
    using ready unfolding fill_ready_def by blast+
  have pos: "0 \<le> bs_Balance sq" "0 \<le> bs_Balance bb" using solvent r(2,3) by (auto simp: solvent_def stored_def)
  note st = fill_steps [OF ready]
  show "solvent (fill_t4 H t sb sq bb bq amount quote)"
    using solvent pos funds by (auto simp: solvent_def st(8))
  fix K u assume "mirrors K H t u \<and> carries K (fill_transition H ms ts amount quote sb sq bb bq t)"
  then have u: "mirrors K H t u" and K: "K (bs_PubKeyX sb)" "K (bs_PubKeyY sb)" "K (bs_PubKeyX bb)" "K (bs_PubKeyY bb)"
    by (simp_all add: carries_def fill_transition_def)
  note slots = stored_slot [OF inv r(1)] stored_slot [OF inv r(2)] stored_slot [OF inv r(3)] stored_slot [OF inv r(4)]
  have leg: "\<exists>v'. applyLeg H v (snapshotUpdate x rec) (dec px) (dec py) delta 0 = (Inr (), v') \<and> mirrors K H x' v'"
    if "mirrors K H x v" "db_inv H 28 x" "slot_ok 28 (bs_AccountID rec) (bs_TokenID rec)" "x' = snd (SetBalance H x acc)"
      "acc = credit delta rec" "K px" "K py" "fr px = fr (bs_PubKeyX rec)" "fr py = fr (bs_PubKeyY rec)" "0 \<le> bs_Balance rec + delta"
    for v x x' rec px py delta acc
    using applyLeg_mirrors [of H x K v acc "snapshotUpdate x rec" "bs_Balance rec" 0 px py delta] that
    by (simp add: snapshotUpdate_def leg_update_def split_beta)
  have dc: "debit n x = credit (- n) x" for n x by (simp add: debit_def credit_def)
  obtain u1 where u1: "applyLeg H u (snapshotUpdate t sb) (dec (bs_PubKeyX sb)) (dec (bs_PubKeyY sb)) (- amount) 0 = (Inr (), u1)"
    "mirrors K H (fill_t1 H t sb amount) u1"
    using leg [of t u sb "fill_t1 H t sb amount" "debit amount sb" "- amount" "bs_PubKeyX sb" "bs_PubKeyY sb"] u inv slots(1) funds K
    by (auto simp: fill_t1_def dc)
  obtain u2 where u2: "applyLeg H u1 (snapshotUpdate (fill_t1 H t sb amount) sq) (dec (bs_PubKeyX sb)) (dec (bs_PubKeyY sb)) quote 0 = (Inr (), u2)"
    "mirrors K H (fill_t2 H t sb sq amount quote) u2"
    using leg [of "fill_t1 H t sb amount" u1 sq "fill_t2 H t sb sq amount quote" "credit quote sq" quote "bs_PubKeyX sb" "bs_PubKeyY sb"]
      u1(2) st(1) slots(2) funds pos k K by (auto simp: fill_t2_def same_key_def)
  obtain u3 where u3: "applyLeg H u2 (snapshotUpdate (fill_t2 H t sb sq amount quote) bb) (dec (bs_PubKeyX bb)) (dec (bs_PubKeyY bb)) amount 0 = (Inr (), u3)"
    "mirrors K H (fill_t3 H t sb sq bb amount quote) u3"
    using leg [of "fill_t2 H t sb sq amount quote" u2 bb "fill_t3 H t sb sq bb amount quote" "credit amount bb" amount "bs_PubKeyX bb" "bs_PubKeyY bb"]
      u2(2) st(2) slots(3) funds pos K by (auto simp: fill_t3_def)
  obtain u4 where u4: "applyLeg H u3 (snapshotUpdate (fill_t3 H t sb sq bb amount quote) bq) (dec (bs_PubKeyX bb)) (dec (bs_PubKeyY bb)) (- quote) 0 = (Inr (), u4)"
    "mirrors K H (fill_t4 H t sb sq bb bq amount quote) u4"
    using leg [of "fill_t3 H t sb sq bb amount quote" u3 bq "fill_t4 H t sb sq bb bq amount quote" "debit quote bq" "- quote" "bs_PubKeyX bb" "bs_PubKeyY bb"]
      u3(2) st(3) slots(4) funds k K by (auto simp: fill_t4_def dc same_key_def)
  have "replayTransition H u (fill_transition H ms ts amount quote sb sq bb bq t) = (Inr (), u4)"
    using u1(1) u2(1) u3(1) u4(1) by (simp add: replayTransition_def fill_transition_def op_codes)
  then show "\<exists>r'. replayTransition H u (fill_transition H ms ts amount quote sb sq bb bq t) = (Inr (), r') \<and>
      mirrors K H (fill_t4 H t sb sq bb bq amount quote) r' \<and> Root r' = Root (fill_t4 H t sb sq bb bq amount quote)"
    using u4 Root_mirrors [OF st(4) u4(2)] by blast
qed

lemma trade_step:
  assumes laws: "gnark_laws (mimc C) G" and inv: "db_inv (mimc C) 28 t" "ids_inv t"
    and ok: "settleable (mimc C) t trade sb sq bb bq"
    and auth: "auth_valid (mimc C) G (trade_op expand (mimc C) trade sb sq bb bq t)"
  shows "\<exists>t' st. applyTrade C trade t b = (Applied, t', AddTransition (mimc C) st (dec (Root t)) (dec (Root t')) b) \<and>
     balances t' = (balances t)((bs_AccountID sb, base_token trade) \<mapsto> debit (t_MatchAmount trade) sb,
       (bs_AccountID sb, quote_token trade) \<mapsto> credit (trade_quote trade) sq,
       (bs_AccountID bb, base_token trade) \<mapsto> credit (t_MatchAmount trade) bb,
       (bs_AccountID bb, quote_token trade) \<mapsto> debit (trade_quote trade) bq) \<and>
     db_inv (mimc C) 28 t' \<and> ids_inv t' \<and> records (mimc C) G expand st t t' \<and>
     wd_step (mimc C) st = fr \<and> dep_step (mimc C) st = fr"
proof -
  have p: "trade_loaded t trade sb sq bb bq" "bs_AccountID sb \<noteq> bs_AccountID bb" "same_key sb sq" "same_key bb bq"
    and funds: "fill_funded (t_MatchAmount trade) (trade_quote trade) sb bq"
    using ok by (simp_all add: settleable_def)
  note ready = trade_fill_ready [OF inv(1) p]
  note facts = trade_loaded_facts [OF inv(1) p(1)]
  note valid = fill_op_valid [OF ready funds trade_op_def]
  let ?t' = "fill_t4 (mimc C) t sb sq bb bq (t_MatchAmount trade) (trade_quote trade)"
  let ?st = "fill_transition (mimc C) (o_CircuitSignature (sell_of trade)) (o_CircuitSignature (buy_of trade))
    (t_MatchAmount trade) (trade_quote trade) sb sq bb bq t"
  have "t_MatchAmount trade \<le> bs_Balance sb" "trade_quote trade \<le> bs_Balance bq"
    using funds by (simp_all add: fill_funded_def)
  note run = settle_fill_eq [OF ready this]
  have assign: "assign_op expand ?st = Some (trade_op expand (mimc C) trade sb sq bb bq t)"
    by (simp add: trade_op_def assign_fill)
  have code: "st_OpType ?st = 0" by (simp add: fill_transition_def)
  have steps: "wd_step (mimc C) ?st = fr" "dep_step (mimc C) ?st = fr"
    by (simp_all add: fun_eq_iff wd_step_def dep_step_def code op_codes)
  have op: "op_code (trade_op expand (mimc C) trade sb sq bb bq t) = OpTrade"
    by (simp add: op_code_def trade_op_def fill_op_def op_codes)
  have rec: "records (mimc C) G expand ?st t ?t'"
    unfolding records_def
    by (rule conjI, intro exI [of _ "trade_op expand (mimc C) trade sb sq bb bq t"] conjI assign valid(1,3) valid(4) [OF auth])
      (use funds in \<open>simp_all add: op_wh_def op_dh_def op op_codes steps fill_replays [OF ready] fill_funded_def\<close>)
  show ?thesis
    by (intro exI [of _ ?t'] exI [of _ ?st] conjI applyTrade_loaded [OF inv p(1), unfolded run]
        fill_steps(4) [OF ready] fill_ids [OF ready inv(2)] rec steps)
      (use fill_steps(8) [OF ready] facts in simp)
qed

section \<open>The total of a token\<close>

definition total_supply :: "mtree \<Rightarrow> u32 \<Rightarrow> int" where
  "total_supply t tok = (\<Sum>a\<in>UNIV. case balances t (a, tok) of None \<Rightarrow> 0 | Some r \<Rightarrow> bs_Balance r)"

definition amount_at :: "mtree \<Rightarrow> u64 \<Rightarrow> u32 \<Rightarrow> int" where
  "amount_at t a tok = (case balances t (a, tok) of None \<Rightarrow> 0 | Some r \<Rightarrow> bs_Balance r)"

definition map_total :: "(u64 \<times> u32 \<rightharpoonup> balance_state) \<Rightarrow> u32 \<Rightarrow> int" where
  "map_total B tok = (\<Sum>a\<in>UNIV. case B (a, tok) of None \<Rightarrow> 0 | Some r \<Rightarrow> bs_Balance r)"

lemma total_supply_map: "total_supply t = map_total (balances t)"
  by (simp add: total_supply_def map_total_def fun_eq_iff)

lemma amount_at_stored: "stored t r \<Longrightarrow> amount_at t (bs_AccountID r) (bs_TokenID r) = bs_Balance r"
  by (simp add: amount_at_def stored_def)

lemma map_total_upd:
  "map_total (B((a, tok) \<mapsto> r)) tok' = map_total B tok' +
     (if tok' = tok then bs_Balance r - (case B (a, tok) of None \<Rightarrow> 0 | Some r \<Rightarrow> bs_Balance r) else 0)"
proof (cases "tok' = tok")
  case True
  have "(\<Sum>x\<in>UNIV - {a}. case (B((a, tok) \<mapsto> r)) (x, tok) of None \<Rightarrow> 0 | Some r \<Rightarrow> bs_Balance r) =
      (\<Sum>x\<in>UNIV - {a}. case B (x, tok) of None \<Rightarrow> 0 | Some r \<Rightarrow> bs_Balance r)"
    by (rule sum.cong) simp_all
  then show ?thesis
    using True sum.remove [of UNIV a "\<lambda>x. case B (x, tok) of None \<Rightarrow> 0 | Some r \<Rightarrow> bs_Balance r"]
      sum.remove [of UNIV a "\<lambda>x. case (B((a, tok) \<mapsto> r)) (x, tok) of None \<Rightarrow> 0 | Some r \<Rightarrow> bs_Balance r"]
    by (simp add: map_total_def)
qed (simp add: map_total_def)

lemma total_write:
  assumes "balances t' = (balances t)((a, tok) \<mapsto> r)"
  shows "total_supply t' tok' = total_supply t tok' + (if tok' = tok then bs_Balance r - amount_at t a tok else 0)"
  by (simp add: total_supply_map assms map_total_upd amount_at_def)

lemma settle_fill_cases:
  assumes "fill_ready H t sb sq bb bq" "settle_fill H ms ts amount quote sb sq bb bq t b = (out, t', b')"
  shows "t' = t \<and> b' = b \<and> out \<noteq> Applied \<or> t' = fill_t4 H t sb sq bb bq amount quote \<and> out = Applied"
proof (cases "bs_Balance sb < amount \<or> bs_Balance bq < quote")
  case True
  then obtain m where "settle_fill H ms ts amount quote sb sq bb bq t b = (Skipped m, t, b)"
    by (cases "bs_Balance sb < amount") (simp_all add: settle_fill_def)
  then show ?thesis using assms(2) by auto
next
  case False
  then show ?thesis using assms(2) settle_fill_eq [OF assms(1), of amount quote ms ts b] by simp
qed

lemma fill_total:
  assumes ready: "fill_ready H t sb sq bb bq"
  shows "total_supply (fill_t4 H t sb sq bb bq amount quote) tok = total_supply t tok"
proof -
  have r: "stored t sb" "stored t sq" "stored t bb" "stored t bq"
    and d: "bs_AccountID sb = bs_AccountID sq" "bs_AccountID bb = bs_AccountID bq" "bs_AccountID sb \<noteq> bs_AccountID bb"
      "bs_TokenID sb = bs_TokenID bb" "bs_TokenID sq = bs_TokenID bq" "bs_TokenID sb \<noteq> bs_TokenID sq"
    using ready unfolding fill_ready_def by blast+
  note st = fill_steps [OF ready]
  have slot: "slot_ok 28 (bs_AccountID x) (bs_TokenID x)" if "db_inv H 28 u" "stored u x" for u x
    by (rule stored_slot [OF that])
  have inv: "db_inv H 28 t" using ready unfolding fill_ready_def by blast
  have b1: "balances (fill_t1 H t sb amount) = (balances t)((bs_AccountID sb, bs_TokenID sb) \<mapsto> debit amount sb)"
    using SetBalance_ok(3) [OF inv, where acc = "debit amount sb"] slot [OF inv r(1)] by (simp add: fill_t1_def)
  have b2: "balances (fill_t2 H t sb sq amount quote) =
      (balances (fill_t1 H t sb amount))((bs_AccountID sq, bs_TokenID sq) \<mapsto> credit quote sq)"
    using SetBalance_ok(3) [OF st(1), where acc = "credit quote sq"] slot [OF st(1,5)] by (simp add: fill_t2_def)
  have b3: "balances (fill_t3 H t sb sq bb amount quote) =
      (balances (fill_t2 H t sb sq amount quote))((bs_AccountID bb, bs_TokenID bb) \<mapsto> credit amount bb)"
    using SetBalance_ok(3) [OF st(2), where acc = "credit amount bb"] slot [OF st(2,6)] by (simp add: fill_t3_def)
  have b4: "balances (fill_t4 H t sb sq bb bq amount quote) =
      (balances (fill_t3 H t sb sq bb amount quote))((bs_AccountID bq, bs_TokenID bq) \<mapsto> debit quote bq)"
    using SetBalance_ok(3) [OF st(3), where acc = "debit quote bq"] slot [OF st(3,7)] by (simp add: fill_t4_def)
  show ?thesis
    using amount_at_stored [OF r(1)] amount_at_stored [OF st(5)] amount_at_stored [OF st(6)] amount_at_stored [OF st(7)] d
    by (simp add: total_write [OF b1] total_write [OF b2] total_write [OF b3] total_write [OF b4])
qed

section \<open>A concrete market\<close>

lemma set_all_ids:
  assumes "db_inv H d t" and "ids_inv t" and "\<forall>acc \<in> set accs. slot_ok d (bs_AccountID acc) (bs_TokenID acc)"
  shows "ids_inv (set_all H t accs) \<and> account_ids (set_all H t accs) = account_ids t"
  using assms
proof (induction accs arbitrary: t)
  case (Cons acc accs)
  have s: "slot_ok d (bs_AccountID acc) (bs_TokenID acc)" using Cons.prems by simp
  note ok = SetBalance_ok [OF Cons.prems(1) s]
  have "no_faults (snd (SetBalance H t acc))" using db_inv_tree [OF ok(2)] by (simp add: tree_inv_def)
  then have "ids_inv (snd (SetBalance H t acc))" by (rule same_tables_ids [OF ok(5) _ Cons.prems(2)])
  moreover have "account_ids (snd (SetBalance H t acc)) = account_ids t"
    using ok(5) by (simp add: same_tables_def account_ids_def fun_eq_iff)
  ultimately show ?case
    using Cons.IH [OF ok(2)] Cons.prems(3) by simp
qed simp

definition demo_holdings :: "balance_state list" where
  "demo_holdings = [demo_account 0 1 100, demo_account 0 2 0, demo_account 1 1 0, demo_account 1 2 50]"

definition demo_market :: mtree where
  "demo_market = set_all (mimc_hash []) (with_id (with_id demo_db ''aa'') ''bb'') demo_holdings"

definition demo_side :: "string \<Rightarrow> bool \<Rightarrow> order" where
  "demo_side who buy = (demo_order who buy 2 5)\<lparr>o_CircuitSignature := ''00''\<rparr>"

definition demo_trade :: "string \<Rightarrow> string \<Rightarrow> trade" where
  "demo_trade seller buyer =
     \<lparr>t_TradeID = [], t_MakerOrder = demo_side seller False, t_TakerOrder = demo_side buyer True, t_MatchPrice = 2, t_MatchAmount = 5\<rparr>"

lemma demo_ids:
  "ids_inv (with_id (with_id demo_db ''aa'') ''bb'')" "db_inv (mimc_hash []) 28 (with_id (with_id demo_db ''aa'') ''bb'')"
  "balances (with_id (with_id demo_db ''aa'') ''bb'') = Map.empty"
  "account_ids (with_id (with_id demo_db ''aa'') ''bb'') ''aa'' = Some 0"
  "account_ids (with_id (with_id demo_db ''aa'') ''bb'') ''bb'' = Some 1"
proof -
  have id1: "ids_inv (with_id demo_db ''aa'')" by (rule with_id_inv) (simp_all add: demo_db_empty)
  show "ids_inv (with_id (with_id demo_db ''aa'') ''bb'')"
    by (rule with_id_inv [OF id1]) (simp_all add: with_id_tables demo_db_empty)
  show "db_inv (mimc_hash []) 28 (with_id (with_id demo_db ''aa'') ''bb'')"
    "balances (with_id (with_id demo_db ''aa'') ''bb'') = Map.empty"
    using with_id_db(1,2) [OF with_id_db(1) [OF demo_db_inv(1)]] with_id_db(2) [OF demo_db_inv(1)] by (simp_all add: demo_db_empty)
qed (simp_all add: with_id_tables demo_db_empty)

lemma demo_market_facts:
  "db_inv (mimc_hash []) 28 demo_market" "ids_inv demo_market"
  "account_ids demo_market ''aa'' = Some 0" "account_ids demo_market ''bb'' = Some 1"
  "balances demo_market = record_all Map.empty demo_holdings"
proof -
  have slots: "\<forall>acc \<in> set demo_holdings. slot_ok 28 (bs_AccountID acc) (bs_TokenID acc)"
    by (simp add: demo_holdings_def demo_account_def slot_ok_def)
  show "db_inv (mimc_hash []) 28 demo_market" "balances demo_market = record_all Map.empty demo_holdings"
    using set_all_ok [OF demo_ids(2) slots] demo_ids(3) by (simp_all add: demo_market_def)
  show "ids_inv demo_market" "account_ids demo_market ''aa'' = Some 0" "account_ids demo_market ''bb'' = Some 1"
    using set_all_ids [OF demo_ids(2,1) slots] demo_ids by (simp_all add: demo_market_def)
qed

lemma demo_trade_signed: "trade_signed (demo_trade who who')"
  by (simp add: trade_signed_def demo_trade_def demo_side_def sell_of_def buy_of_def demo_order_def)

lemma demo_trade_facts:
  "sell_of (demo_trade who who') = demo_side who False" "buy_of (demo_trade who who') = demo_side who' True"
  "base_token (demo_trade who who') = 1" "quote_token (demo_trade who who') = 2" "trade_quote (demo_trade who who') = 10"
  "t_MatchAmount (demo_trade who who') = 5"
  by (simp_all add: demo_trade_def demo_side_def sell_of_def buy_of_def base_token_def quote_token_def trade_quote_def quoteTokenForBook_def
      demo_order_def)

lemma demo_trade_ok:
  "settleable (mimc_hash []) demo_market (demo_trade ''aa'' ''bb'') (demo_account 0 1 100) (demo_account 0 2 0) (demo_account 1 1 0) (demo_account 1 2 50)"
  by (simp add: settleable_def trade_loaded_def demo_trade_signed demo_trade_facts holds_def demo_market_facts demo_side_def demo_order_def
      trim_prefix_def has_prefix_def demo_holdings_def demo_account_def same_key_def fill_funded_def fr_modulus_def)

lemma demo_auth: "gnark_laws H demo_gnark_mimc \<Longrightarrow> auth_valid H demo_gnark_mimc op"
  by (simp add: auth_valid_def sig_ok_def demo_gnark_mimc_def fr_gnark_def)

section \<open>Properties of trades\<close>





text \<open>
  C37: a trade of an account with itself creates funds. The four records are loaded before any is
  written, so when both orders belong to one account the last write of each token wins: the account
  ends with the base credited and never debited, and the quote debited and never credited.
\<close>
theorem self_trade_mints:
  assumes inv: "db_inv (mimc C) 28 t" "ids_inv t" and loaded: "trade_loaded t trade sb sq sb sq"
    and funds: "t_MatchAmount trade \<le> bs_Balance sb" "trade_quote trade \<le> bs_Balance sq"
  shows "\<exists>t' b'. applyTrade C trade t b = (Applied, t', b') \<and>
    total_supply t' (base_token trade) = total_supply t (base_token trade) + t_MatchAmount trade \<and>
    total_supply t' (quote_token trade) = total_supply t (quote_token trade) - trade_quote trade"
proof -
  let ?H = "mimc C" and ?m = "t_MatchAmount trade" and ?q = "trade_quote trade"
  note f = trade_loaded_facts [OF inv(1) loaded]
  have sl: "slot_ok 28 (bs_AccountID sb) (bs_TokenID sb)" "slot_ok 28 (bs_AccountID sq) (bs_TokenID sq)"
    by (rule stored_slot [OF inv(1) f(1)], rule stored_slot [OF inv(1) f(2)])
  have s1: "slot_ok 28 (bs_AccountID (debit ?m sb)) (bs_TokenID (debit ?m sb))" using sl by simp
  have s2: "slot_ok 28 (bs_AccountID (credit ?q sq)) (bs_TokenID (credit ?q sq))" using sl by simp
  have s3: "slot_ok 28 (bs_AccountID (credit ?m sb)) (bs_TokenID (credit ?m sb))" using sl by simp
  have s4: "slot_ok 28 (bs_AccountID (debit ?q sq)) (bs_TokenID (debit ?q sq))" using sl by simp
  obtain t1 where t1: "SetBalance ?H t (debit ?m sb) = (Inr (), t1)"
    using SetBalance_ok(1) [OF inv(1) s1] by (cases "SetBalance ?H t (debit ?m sb)") simp
  note ok1 = SetBalance_ok [OF inv(1) s1, unfolded t1 snd_conv]
  obtain t2 where t2: "SetBalance ?H t1 (credit ?q sq) = (Inr (), t2)"
    using SetBalance_ok(1) [OF ok1(2) s2] by (cases "SetBalance ?H t1 (credit ?q sq)") simp
  note ok2 = SetBalance_ok [OF ok1(2) s2, unfolded t2 snd_conv]
  obtain t3 where t3: "SetBalance ?H t2 (credit ?m sb) = (Inr (), t3)"
    using SetBalance_ok(1) [OF ok2(2) s3] by (cases "SetBalance ?H t2 (credit ?m sb)") simp
  note ok3 = SetBalance_ok [OF ok2(2) s3, unfolded t3 snd_conv]
  obtain t4 where t4: "SetBalance ?H t3 (debit ?q sq) = (Inr (), t4)"
    using SetBalance_ok(1) [OF ok3(2) s4] by (cases "SetBalance ?H t3 (debit ?q sq)") simp
  note ok4 = SetBalance_ok [OF ok3(2) s4, unfolded t4 snd_conv]
  have bal: "balances t4 = (balances t)((bs_AccountID sb, base_token trade) \<mapsto> credit ?m sb,
      (bs_AccountID sb, quote_token trade) \<mapsto> debit ?q sq)"
    using quote_differs [of trade] f by (auto simp: ok1(3) ok2(3) ok3(3) ok4(3) fun_eq_iff)
  have at: "balances t (bs_AccountID sb, base_token trade) = Some sb" "balances t (bs_AccountID sb, quote_token trade) = Some sq"
    using f by (simp_all add: stored_def)
  have "total_supply t4 (base_token trade) = total_supply t (base_token trade) + ?m"
    "total_supply t4 (quote_token trade) = total_supply t (quote_token trade) - ?q"
    using quote_differs [of trade] unfolding total_supply_map bal by (simp_all add: map_total_upd at)
  moreover have "\<exists>b'. applyTrade C trade t b = (Applied, t4, b')"
    using funds by (simp add: applyTrade_loaded [OF inv loaded] settle_fill_def Let_def t1 t2 t3 t4)
  ultimately show ?thesis by blast
qed

theorem self_trade_mints_witness:
  "\<exists>t' b'. applyTrade demo_scheme (demo_trade ''aa'' ''aa'') (set_all (mimc_hash []) demo_market [demo_account 0 2 10]) NewBatcher = (Applied, t', b') \<and>
     total_supply t' 1 = total_supply (set_all (mimc_hash []) demo_market [demo_account 0 2 10]) 1 + 5"
proof -
  let ?t = "set_all (mimc_hash []) demo_market [demo_account 0 2 10]"
  have s: "\<forall>acc \<in> set [demo_account 0 2 10]. slot_ok 28 (bs_AccountID acc) (bs_TokenID acc)"
    by simp
  note ok = set_all_ok [OF demo_market_facts(1) s] and ids = set_all_ids [OF demo_market_facts(1,2) s]
  have "trade_loaded ?t (demo_trade ''aa'' ''aa'') (demo_account 0 1 100) (demo_account 0 2 10) (demo_account 0 1 100) (demo_account 0 2 10)"
    using ok ids by (simp add: trade_loaded_def demo_trade_signed demo_trade_facts holds_def demo_market_facts demo_side_def demo_order_def
        trim_prefix_def has_prefix_def demo_holdings_def demo_account_def del: set_all_simps(1,2))
  from self_trade_mints [OF _ _ this, of demo_scheme NewBatcher] show ?thesis
    using ok ids by (simp add: demo_mimc_laws(2) demo_market_facts demo_trade_facts demo_account_def del: set_all_simps(1,2)) blast
qed

text \<open>
  C38: a first touch inside a trade is an unrecorded credit. When the seller has no record of the
  base token, \<open>getOrCreateBalance\<close> writes one of 1,000,000 to the tree; the batcher hears nothing of
  it, here although the trade itself is skipped.
\<close>
theorem applyTrade_untracked_credit:
  assumes inv: "db_inv (mimc C) 28 t" "ids_inv t" and signed: "trade_signed trade"
    and seller: "account_ids t (trim_prefix ''0x'' (o_MakerAddress (sell_of trade))) = Some s"
    and slot: "slot_ok 28 s (base_token trade)" and new: "balances t (s, base_token trade) = None"
    and held: "holds t (sell_of trade) (quote_token trade) sq" "holds t (buy_of trade) (base_token trade) bb"
      "holds t (buy_of trade) (quote_token trade) bq"
    and much: "1000000 < t_MatchAmount trade"
  shows "\<exists>t' r. applyTrade C trade t b = (Skipped ''insufficient seller base'', t', b) \<and>
    balances t' = (balances t)((s, base_token trade) \<mapsto> r) \<and> bs_Balance r = 1000000 \<and>
    total_supply t' (base_token trade) = total_supply t (base_token trade) + 1000000"
proof -
  obtain x y where xy: "(case decodePubKeyXY C (o_MakerAddress (sell_of trade)) of Inl _ \<Rightarrow> (0, 0) | Inr xy \<Rightarrow> xy) = (x, y)"
    by fastforce
  let ?r = "\<lparr>bs_AccountID = s, bs_TokenID = base_token trade, bs_PubKeyX = x, bs_PubKeyY = y, bs_Balance = 1000000, bs_Nonce = 0\<rparr>"
  have slot': "slot_ok 28 (bs_AccountID ?r) (bs_TokenID ?r)" using slot by simp
  obtain t' where set: "SetBalance (mimc C) t ?r = (Inr (), t')"
    using SetBalance_ok(1) [OF inv(1) slot'] by (cases "SetBalance (mimc C) t ?r") simp
  note ok = SetBalance_ok [OF inv(1) slot', unfolded set snd_conv]
  have bal: "balances t' = (balances t)((s, base_token trade) \<mapsto> ?r)" using ok(3) by simp
  have ids: "account_ids t' = account_ids t" using ok(5) by (simp add: same_tables_def account_ids_def fun_eq_iff)
  have inv': "ids_inv t'"
    by (rule same_tables_ids [OF ok(5) _ inv(2)]) (use db_inv_tree [OF ok(2)] in \<open>simp add: tree_inv_def\<close>)
  have held': "holds t' ord tok r" if "holds t ord tok r" for ord tok r
    using that new by (auto simp: holds_def ids bal split: option.splits)
  have get: "getOrCreateBalance C t (o_MakerAddress (sell_of trade)) (base_token trade) = (Inr ?r, t')"
    using GetAccountID_ok [OF inv(2)] GetBalance_balances [OF inv(1)] seller new
    by (simp add: getOrCreateBalance_def xy set)
  note g = held [THEN held', THEN getOrCreate_existing [OF ok(2) inv'], of C]
  have "applyTrade C trade t b = (Skipped ''insufficient seller base'', t', b)"
    using much by (simp add: applyTrade_signed [OF signed] get g settle_fill_def)
  then show ?thesis using total_write [OF bal, of "base_token trade"] bal new by (auto simp: amount_at_def)
qed

theorem applyTrade_untracked_credit_witness:
  "\<exists>t'. applyTrade demo_scheme (demo_trade ''aa'' ''bb''\<lparr>t_MatchAmount := 2000000\<rparr>)
     (set_all (mimc_hash []) (with_id (with_id demo_db ''aa'') ''bb'') [demo_account 0 2 0, demo_account 1 1 0, demo_account 1 2 50])
     NewBatcher = (Skipped ''insufficient seller base'', t', NewBatcher)"
proof -
  let ?t2 = "with_id (with_id demo_db ''aa'') ''bb''"
  let ?accs = "[demo_account 0 2 0, demo_account 1 1 0, demo_account 1 2 50]"
  let ?trade = "demo_trade ''aa'' ''bb''\<lparr>t_MatchAmount := 2000000\<rparr>"
  have slots: "\<forall>acc \<in> set ?accs. slot_ok 28 (bs_AccountID acc) (bs_TokenID acc)"
    by (simp add: demo_account_def slot_ok_def)
  note ok = set_all_ok [OF demo_ids(2) slots] set_all_ids [OF demo_ids(2,1) slots]
  have same: "sell_of ?trade = demo_side ''aa'' False" "buy_of ?trade = demo_side ''bb'' True" "base_token ?trade = 1"
    "quote_token ?trade = 2" "trade_signed ?trade"
    by (simp_all add: trade_signed_def sell_of_def buy_of_def base_token_def quote_token_def quoteTokenForBook_def
        demo_trade_def demo_side_def demo_order_def)
  show ?thesis
    using applyTrade_untracked_credit [of demo_scheme "set_all (mimc_hash []) ?t2 ?accs" ?trade 0
        "demo_account 0 2 0" "demo_account 1 1 0" "demo_account 1 2 50" NewBatcher] ok
    by (simp add: demo_mimc_laws(2) same demo_side_def demo_order_def trim_prefix_def has_prefix_def holds_def demo_ids
        slot_ok_def demo_account_def del: set_all_simps(1,2)) blast
qed

section \<open>Runs of the sequencer\<close>

text \<open>
  One step: a trade whose orders are signed for the circuit, an L1 deposit, or a first credit, each
  under the conditions the sequencer relies on (known keys, slots within the tree, funds).
\<close>

inductive seq_step ::
  "'c crypto_scheme \<Rightarrow> gnark \<Rightarrow> (bytes \<Rightarrow> eddsa_signature) \<Rightarrow> mtree \<times> batcher \<Rightarrow> mtree \<times> batcher \<Rightarrow> bool"
  for C G expand where
  trade: "settleable (mimc C) t trade sb sq bb bq \<Longrightarrow>
    auth_valid (mimc C) G (trade_op expand (mimc C) trade sb sq bb bq t) \<Longrightarrow>
    applyTrade C trade t b = (Applied, t', b') \<Longrightarrow> seq_step C G expand (t, b) (t', b')"
| deposit: "compressPubKeyHex C (ev_PubKeyX ev) (ev_PubKeyY ev) = Inr hex \<Longrightarrow>
    slot_ok 28 (account_for t hex) (ev_TokenId ev) \<Longrightarrow>
    key_matches t (account_for t hex) (ev_TokenId ev) (ev_PubKeyX ev) (ev_PubKeyY ev) \<Longrightarrow>
    0 \<le> ev_Amount ev \<Longrightarrow> ev_Amount ev < 2 ^ 252 \<Longrightarrow>
    processDeposit C ev t b = (Applied, t', b') \<Longrightarrow> seq_step C G expand (t, b) (t', b')"
| first_credit: "slot_ok 28 (account_for t hex) tok \<Longrightarrow> balances t (account_for t hex, tok) = None \<Longrightarrow>
    decodePubKeyXY C hex = Inr (x, y) \<Longrightarrow>
    openBalance C t (Some b) hex tok = (Inr acc, t', Some b') \<Longrightarrow> seq_step C G expand (t, b) (t', b')"

inductive seq_run ::
  "'c crypto_scheme \<Rightarrow> gnark \<Rightarrow> (bytes \<Rightarrow> eddsa_signature) \<Rightarrow> mtree \<times> batcher \<Rightarrow> nat \<Rightarrow> mtree \<times> batcher \<Rightarrow> bool"
  for C G expand where
  start: "seq_run C G expand s 0 s"
| more: "seq_run C G expand s n s' \<Longrightarrow> seq_step C G expand s' s'' \<Longrightarrow> seq_run C G expand s (Suc n) s''"

lemma seq_step_records:
  assumes "seq_step C G expand (t, b) (t', b')" "gnark_laws (mimc C) G" "db_inv (mimc C) 28 t" "ids_inv t"
  shows "\<exists>st. b' = AddTransition (mimc C) st (dec (Root t)) (dec (Root t')) b \<and> records (mimc C) G expand st t t' \<and>
    db_inv (mimc C) 28 t' \<and> ids_inv t'"
  using assms(1)
proof cases
  case (trade trade sb sq bb bq)
  from trade_step [OF assms(2-4) trade(1,2), of b] trade(3) show ?thesis by auto
next
  case (deposit ev hex)
  from processDeposit_run [OF assms(3,4) deposit(1) refl deposit(2-5), of b G expand] deposit(6) show ?thesis by auto
next
  case (first_credit hex tok x y acc)
  from openBalance_run [OF assms(3,4) refl first_credit(1-3), of b G expand] first_credit(4) show ?thesis by auto
qed

text \<open>The transitions of a run, each recording its step.\<close>

fun trace_of ::
  "(int list \<Rightarrow> int) \<Rightarrow> gnark \<Rightarrow> (bytes \<Rightarrow> eddsa_signature) \<Rightarrow> mtree \<Rightarrow> (state_transition \<times> mtree) list \<Rightarrow> bool" where
  "trace_of H G expand t [] \<longleftrightarrow> True"
| "trace_of H G expand t ((st, t') # tr) \<longleftrightarrow> records H G expand st t t' \<and> trace_of H G expand t' tr"

fun sent_of :: "mtree \<Rightarrow> (state_transition \<times> mtree) list \<Rightarrow> sent" where
  "sent_of t [] = []"
| "sent_of t ((st, t') # tr) = (st, dec (Root t), dec (Root t')) # sent_of t' tr"

definition end_tree :: "mtree \<Rightarrow> (state_transition \<times> mtree) list \<Rightarrow> mtree" where
  "end_tree t tr = (if tr = [] then t else snd (last tr))"

lemma end_tree_simps [simp]: "end_tree t [] = t" "end_tree t (x # tr) = end_tree (snd x) tr" "end_tree t (tr @ [x]) = snd x"
  by (simp_all add: end_tree_def)

lemma trace_of_append: "trace_of H G expand t (xs @ ys) \<longleftrightarrow> trace_of H G expand t xs \<and> trace_of H G expand (end_tree t xs) ys"
  by (induction H G expand t xs rule: trace_of.induct) simp_all

lemma sent_of_append: "sent_of t (xs @ ys) = sent_of t xs @ sent_of (end_tree t xs) ys"
  by (induction t xs rule: sent_of.induct) simp_all

lemma length_sent_of [simp]: "length (sent_of t tr) = length tr" "map fst (sent_of t tr) = map fst tr"
  by (induction t tr rule: sent_of.induct) simp_all

lemma seq_run_trace:
  assumes "seq_run C G expand s n s'" "gnark_laws (mimc C) G" "db_inv (mimc C) 28 (fst s)" "ids_inv (fst s)"
  shows "\<exists>tr. length tr = n \<and> trace_of (mimc C) G expand (fst s) tr \<and> fst s' = end_tree (fst s) tr \<and>
    snd s' = foldl (\<lambda>b (st, old, new). AddTransition (mimc C) st old new b) (snd s) (sent_of (fst s) tr) \<and>
    db_inv (mimc C) 28 (fst s') \<and> ids_inv (fst s')"
  using assms
proof (induction rule: seq_run.induct)
  case (more s n s' s'')
  then obtain tr where tr: "length tr = n" "trace_of (mimc C) G expand (fst s) tr" "fst s' = end_tree (fst s) tr"
    "snd s' = foldl (\<lambda>b (st, old, new). AddTransition (mimc C) st old new b) (snd s) (sent_of (fst s) tr)"
    "db_inv (mimc C) 28 (fst s')" "ids_inv (fst s')" by blast
  obtain t b t' b' where s: "s' = (t, b)" "s'' = (t', b')" by (cases s'; cases s'')
  obtain st where st: "b' = AddTransition (mimc C) st (dec (Root t)) (dec (Root t')) b" "records (mimc C) G expand st t t'"
    "db_inv (mimc C) 28 t'" "ids_inv t'"
    using seq_step_records [OF more.hyps(2) [unfolded s] more.prems(1)] tr(5,6) by (auto simp: s)
  show ?case
    using tr st by (intro exI [of _ "tr @ [(st, t')]"]) (simp add: trace_of_append sent_of_append s)
qed (auto intro: exI [of _ "[]"])

section \<open>A run's batches satisfy the circuit\<close>

lemma accumulators_steps:
  assumes "canonical H"
  shows "dep_hash H ts = foldl (\<lambda>h st. dep_step H st h) 0 ts \<and> fr (dep_hash H ts) = dep_hash H ts"
    "wd_hash H ts = foldl (\<lambda>h st. wd_step H st h) 0 ts \<and> fr (wd_hash H ts) = wd_hash H ts"
  using assms by (induction ts rule: rev_induct) (auto simp: dep_step_def wd_step_def mimcHash_def)

lemma trace_ops:
  assumes "trace_of H G expand t tr"
  shows "\<exists>ops. assign_ops expand (map fst tr) = Some ops \<and> (\<forall>op \<in> set ops. op_shape op) \<and>
    ops_ok H G ops (Root t) \<and> ops_root H ops (Root t) = Root (end_tree t tr) \<and>
    (\<forall>h. ops_wh H ops h = foldl (\<lambda>h st. wd_step H st h) h (map fst tr)) \<and>
    (\<forall>h. ops_dh H ops h = foldl (\<lambda>h st. dep_step H st h) h (map fst tr))"
  using assms
proof (induction H G expand t tr rule: trace_of.induct)
  case (2 H G expand t st t' tr)
  obtain op where op: "assign_op expand st = Some op" "op_shape op" "op_valid H G op (Root t)" "op_root H op (Root t) = Root t'"
    "\<And>h. op_wh H op h = wd_step H st h" "\<And>h. op_dh H op h = dep_step H st h"
    using 2(2) unfolding trace_of.simps records_def by blast
  have "trace_of H G expand t' tr" using 2(2) by simp
  from 2(1) [OF this] obtain ops where ops: "assign_ops expand (map fst tr) = Some ops" "\<forall>op \<in> set ops. op_shape op"
    "ops_ok H G ops (Root t')" "ops_root H ops (Root t') = Root (end_tree t' tr)"
    "\<And>h. ops_wh H ops h = foldl (\<lambda>h st. wd_step H st h) h (map fst tr)"
    "\<And>h. ops_dh H ops h = foldl (\<lambda>h st. dep_step H st h) h (map fst tr)" by blast
  have cons: "ops_wh H (op # ops) h = ops_wh H ops (op_wh H op h)" "ops_dh H (op # ops) h = ops_dh H ops (op_dh H op h)"
    "ops_root H (op # ops) r = ops_root H ops (op_root H op r)" for h r
    by (simp_all add: ops_wh_def ops_dh_def ops_root_def)
  show ?case
    by (intro exI [of _ "op # ops"]) (simp add: op ops cons)
qed (simp add: ops_root_def ops_wh_def ops_dh_def)

lemma sent_roots:
  "tr \<noteq> [] \<Longrightarrow> fst (snd (hd (sent_of t tr))) = dec (Root t) \<and> snd (snd (last (sent_of t tr))) = dec (Root (end_tree t tr))"
proof (induction t tr rule: sent_of.induct)
  case (2 t st t' tr)
  then show ?case by (cases tr) auto
qed simp

lemma sealed_roots:
  assumes "tr \<noteq> []"
  shows "zb_OldRoot (sealed_batch H k (sent_of t tr)) = dec (Root t)"
    "zb_NewRoot (sealed_batch H k (sent_of t tr)) = dec (Root (end_tree t tr))"
    "zb_Transitions (sealed_batch H k (sent_of t tr)) = map fst tr"
proof -
  have ne: "sent_of t tr \<noteq> []" using assms by (cases tr) auto
  show "zb_OldRoot (sealed_batch H k (sent_of t tr)) = dec (Root t)"
    "zb_NewRoot (sealed_batch H k (sent_of t tr)) = dec (Root (end_tree t tr))"
    using sent_roots [OF assms, of t] ne by (cases "sent_of t tr"; auto simp: sealed_batch_def open_batch_def)+
qed (simp add: sealed_batch_def open_batch_def)

lemma trace_canonical:
  assumes "gnark_laws H G" "trace_of H G expand t tr" "fr (Root t) = Root t"
  shows "fr (Root (end_tree t tr)) = Root (end_tree t tr)"
  using trace_ops [OF assms(2)] gnark_api.acc_canonical(3) [OF gnark_api.intro [OF assms(1)] assms(3)] by metis

lemma block_provable:
  assumes laws: "gnark_laws H G" and trace: "trace_of H G expand t tr" and root: "fr (Root t) = Root t"
    and len: "length tr = BatchSize"
  shows "\<exists>c. generateProof_assignment expand (sealed_batch H k (sent_of t tr)) = Some c \<and> Define G c = Some () \<and>
    zb_OldRoot (sealed_batch H k (sent_of t tr)) = dec (tc_OldRoot c) \<and>
    zb_NewRoot (sealed_batch H k (sent_of t tr)) = dec (tc_NewRoot c)"
proof -
  obtain ops where ops: "assign_ops expand (map fst tr) = Some ops" "\<forall>op \<in> set ops. op_shape op"
    "ops_ok H G ops (Root t)" "ops_root H ops (Root t) = Root (end_tree t tr)"
    "\<And>h. ops_wh H ops h = foldl (\<lambda>h st. wd_step H st h) h (map fst tr)"
    "\<And>h. ops_dh H ops h = foldl (\<lambda>h st. dep_step H st h) h (map fst tr)"
    using trace_ops [OF trace] by blast
  have canon: "canonical H" using laws by (simp add: gnark_laws_def)
  note acc = accumulators_steps [OF canon, of "map fst tr"]
  let ?c = "\<lparr>tc_OldRoot = Root t, tc_NewRoot = Root (end_tree t tr), tc_WithdrawalHash = wd_hash H (map fst tr),
    tc_DepositHash = dep_hash H (map fst tr), tc_Ops = ops\<rparr>"
  have ne: "tr \<noteq> []" using len by (auto simp: BatchSize_def)
  note old = sealed_roots(1) [OF ne] and new = sealed_roots(2) [OF ne]
  have rest: "zb_Transitions (sealed_batch H k (sent_of t tr)) = map fst tr"
    "zb_WithdrawalHash (sealed_batch H k (sent_of t tr)) = dec (wd_hash H (map fst tr))"
    "zb_DepositHash (sealed_batch H k (sent_of t tr)) = dec (dep_hash H (map fst tr))"
    by (simp_all add: sealed_batch_def open_batch_def)
  have assign: "generateProof_assignment expand (sealed_batch H k (sent_of t tr)) = Some ?c"
    using ne len by (simp add: generateProof_assignment_def old new rest padded_full ops(1))
  have shape: "circuit_shape ?c"
    using ops(2) assign_ops_length [OF ops(1)] len root trace_canonical [OF laws trace root] acc [THEN conjunct2]
    by (simp add: circuit_shape_def)
  have "Define G ?c = Some ()"
    unfolding gnark_api.Define_eq [OF gnark_api.intro [OF laws] shape] using ops(3-6) acc by simp
  then show ?thesis using assign old new by auto
qed

lemma block_trace:
  assumes "concat bs @ rs = sent_of t tr" "k < length bs"
  shows "\<exists>pre blk post. tr = pre @ blk @ post \<and> bs ! k = sent_of (end_tree t pre) blk"
proof -
  let ?a = "concat (take k bs)" and ?z = "concat (drop (Suc k) bs) @ rs"
  have "concat bs = ?a @ bs ! k @ concat (drop (Suc k) bs)"
    using id_take_nth_drop [OF assms(2)] by (metis concat.simps(2) concat_append)
  then have split: "sent_of t tr = ?a @ bs ! k @ ?z" using assms(1) by simp
  let ?pre = "take (length ?a) tr" and ?rest = "drop (length ?a) tr"
  let ?blk = "take (length (bs ! k)) ?rest" and ?post = "drop (length (bs ! k)) ?rest"
  have len: "length ?a + length (bs ! k) + length ?z = length tr"
    using arg_cong [OF split, of length] by simp
  have "sent_of t tr = sent_of t ?pre @ sent_of (end_tree t ?pre) ?blk @ sent_of (end_tree (end_tree t ?pre) ?blk) ?post"
    unfolding sent_of_append [symmetric] by (simp only: append_take_drop_id)
  then have "bs ! k = sent_of (end_tree t ?pre) ?blk"
    using split len by (simp add: append_eq_append_conv)
  moreover have "tr = ?pre @ ?blk @ ?post" by (simp only: append_take_drop_id)
  ultimately show ?thesis by blast
qed

section \<open>Properties of runs\<close>


text \<open>Every transition the batcher holds, open or sealed, carries keys that satisfy \<open>K\<close>.\<close>

definition batcher_carries :: "(int \<Rightarrow> bool) \<Rightarrow> batcher \<Rightarrow> bool" where
  "batcher_carries K b \<longleftrightarrow> (\<forall>st \<in> set (zb_Transitions (currentBatch b)). carries K st) \<and>
     (\<forall>bid zb. GetBatch b bid = Some zb \<longrightarrow> (\<forall>st \<in> set (zb_Transitions zb). carries K st))"

lemma AddTransition_carries:
  assumes "batcher_carries K b" "carries K st"
  shows "batcher_carries K (AddTransition H st old new b)"
proof -
  have seal: "batcher_carries K (seal b)" if "batcher_carries K b" for b
    using that by (simp add: batcher_carries_def seal_def GetBatch_def empty_batch_def Let_def)
  have acc: "batcher_carries K (accumulate H st b) \<longleftrightarrow> batcher_carries K b" for b
    by (simp add: batcher_carries_def accumulate_def GetBatch_def Let_def)
  have push: "batcher_carries K (b\<lparr>currentBatch := (currentBatch b)\<lparr>zb_OldRoot := r,
      zb_Transitions := zb_Transitions (currentBatch b) @ [st], zb_NewRoot := new\<rparr>\<rparr>)" for r
    using assms by (auto simp: batcher_carries_def GetBatch_def)
  have push': "batcher_carries K (b\<lparr>currentBatch := (currentBatch b)\<lparr>
      zb_Transitions := zb_Transitions (currentBatch b) @ [st], zb_NewRoot := new\<rparr>\<rparr>)"
    using assms by (auto simp: batcher_carries_def GetBatch_def)
  show ?thesis
    by (cases "zb_Transitions (currentBatch b) = []")
      (use push [of old] push' in \<open>simp_all add: AddTransition_def Let_def acc seal\<close>)
qed

lemma processDeposit_carries:
  assumes "batcher_carries K b" "K (ev_PubKeyX ev)" "K (ev_PubKeyY ev)" "K 0"
  shows "batcher_carries K (snd (snd (processDeposit C ev t b)))"
proof -
  have "carries K (deposit_transition n (ev_PubKeyX ev) (ev_PubKeyY ev) su su')" for n su su'
    using assms(2-4) parse_dec_dec [of 0] by (auto simp: carries_def deposit_transition_def dec_0)
  then show ?thesis
    using assms(1) AddTransition_carries
    by (simp add: processDeposit_def Let_def split_beta split: sum.split)
qed

definition demo_event :: deposit_event where
  "demo_event = \<lparr>ev_TokenId = 1, ev_PubKeyX = 3, ev_PubKeyY = 4, ev_Amount = 5\<rparr>"

text \<open>The record after \<open>n\<close> such deposits.\<close>

definition deposited :: "nat \<Rightarrow> balance_state" where
  "deposited n = \<lparr>bs_AccountID = 0, bs_TokenID = 1, bs_PubKeyX = 3, bs_PubKeyY = 4, bs_Balance = 5 * int n, bs_Nonce = 0\<rparr>"

lemma demo_deposits_state:
  "\<exists>t' b'. seq_run demo_scheme demo_gnark_mimc (\<lambda>_. zero_signature) (demo_db, NewBatcher) n (t', b') \<and>
     db_inv (mimc demo_scheme) 28 t' \<and> balances t' = (if n = 0 then Map.empty else [(0, 1) \<mapsto> deposited n]) \<and>
     batcher_carries (\<lambda>v. v \<in> {0, 3, 4}) b'"
proof -
  obtain hex where hex: "compressPubKeyHex demo_scheme (ev_PubKeyX demo_event) (ev_PubKeyY demo_event) = Inr hex"
    by (simp add: compressPubKeyHex_def demo_scheme_def)
  have tok: "ev_TokenId demo_event = 1" and slot: "slot_ok 28 0 (ev_TokenId demo_event)"
    by (simp_all add: demo_event_def slot_ok_def)
  have amount: "0 \<le> ev_Amount demo_event" "ev_Amount demo_event < 2 ^ 252" by (simp_all add: demo_event_def)
  let ?key = "\<lambda>t. key_matches t 0 (ev_TokenId demo_event) (ev_PubKeyX demo_event) (ev_PubKeyY demo_event)"
  have "\<exists>t' b'. seq_run demo_scheme demo_gnark_mimc (\<lambda>_. zero_signature) (demo_db, NewBatcher) n (t', b') \<and>
    db_inv (mimc demo_scheme) 28 t' \<and> ids_inv t' \<and> account_for t' hex = 0 \<and> ?key t' \<and>
    balances t' = (if n = 0 then Map.empty else [(0, 1) \<mapsto> deposited n]) \<and> batcher_carries (\<lambda>v. v \<in> {0, 3, 4}) b'"
  proof (induction n)
    case 0
    have "account_for demo_db hex = 0" "?key demo_db" "balances demo_db = Map.empty" by (simp_all add: account_for_def key_matches_def demo_db_empty)
    moreover have "batcher_carries (\<lambda>v. v \<in> {0, 3, 4}) NewBatcher"
      by (simp add: batcher_carries_def NewBatcher_def empty_batch_def GetBatch_def)
    ultimately show ?case using demo_db_inv seq_run.start by (fastforce simp: demo_mimc_laws(2))
  next
    case (Suc n)
    then obtain t b where t: "seq_run demo_scheme demo_gnark_mimc (\<lambda>_. zero_signature) (demo_db, NewBatcher) n (t, b)"
      "db_inv (mimc demo_scheme) 28 t" "ids_inv t" "account_for t hex = 0" "?key t" "balances t = (if n = 0 then Map.empty else [(0, 1) \<mapsto> deposited n])"
      "batcher_carries (\<lambda>v. v \<in> {0, 3, 4}) b" by blast
    obtain t' b' where d: "processDeposit demo_scheme demo_event t b = (Applied, t', b')"
      "balances t' = (balances t)((0, ev_TokenId demo_event) \<mapsto> credit (ev_Amount demo_event)
         (deposit_record t 0 (ev_TokenId demo_event) (ev_PubKeyX demo_event) (ev_PubKeyY demo_event)))"
      "db_inv (mimc demo_scheme) 28 t'" "ids_inv t'" "account_for t' hex = 0"
      using processDeposit_run [OF t(2,3) hex t(4) [symmetric] slot t(5) amount, of b demo_gnark_mimc "\<lambda>_. zero_signature"]
      by blast
    have "seq_step demo_scheme demo_gnark_mimc (\<lambda>_. zero_signature) (t, b) (t', b')"
      by (rule seq_step.deposit [OF hex _ _ amount d(1)]) (use slot t(4,5) in simp_all)
    moreover have "?key t'"
      using t(5) by (simp add: key_matches_def d(2) deposit_record_def split: option.splits)
    moreover have "balances t' = [(0, 1) \<mapsto> deposited (Suc n)]"
      using t(6) by (simp add: d(2) deposit_record_def deposited_def credit_def demo_event_def algebra_simps)
    moreover have "batcher_carries (\<lambda>v. v \<in> {0, 3, 4}) b'"
      using processDeposit_carries [OF t(7), of demo_event demo_scheme t] d(1) by (simp add: demo_event_def)
    ultimately show ?case using seq_run.more [OF t(1)] d(3-5) by fastforce
  qed
  then show ?thesis by blast
qed

lemma demo_deposits:
  "\<exists>t' b'. seq_run demo_scheme demo_gnark_mimc (\<lambda>_. zero_signature) (demo_db, NewBatcher) n (t', b')"
  using demo_deposits_state by blast



end
