(* ===== verification/Blob.thy ===== *)
theory Blob imports Batcher begin

text \<open>
  Data availability: how a batch becomes the payload of an EIP-4844 blob and comes back
  (prover/internal/da/blob.go, and its mirror in sequencer/cmd/reconstruct-proof/replay.go).
  A blob is the flat list of its 131,072 bytes. JSON, gzip, keccak and KZG are the record
  \<open>da_env\<close>; what the code relies on of them is \<open>da_laws\<close>.
\<close>

section \<open>Packing\<close>

definition blobLimbs :: nat where "blobLimbs = 4096"
definition bytesPerLimb :: nat where "bytesPerLimb = 31"
definition MaxPayloadLen :: nat where "MaxPayloadLen = blobLimbs * bytesPerLimb"

definition zero_bytes :: "nat \<Rightarrow> bytes" where
  "zero_bytes n = replicate n (CHR 0x00)"

text \<open>\<open>copy(blob[pos:], src)\<close>, with \<open>src\<close> within the blob.\<close>

definition copy_at :: "bytes \<Rightarrow> nat \<Rightarrow> bytes \<Rightarrow> bytes" where
  "copy_at blob pos src = take pos blob @ src @ drop (pos + length src) blob"

function pack_loop :: "nat \<Rightarrow> nat \<Rightarrow> bytes \<Rightarrow> bytes \<Rightarrow> bytes" where
  "pack_loop i offset raw blob =
     (if i < blobLimbs \<and> offset < length raw then
        let n = (if length raw - offset < bytesPerLimb then length raw - offset else bytesPerLimb)
        in pack_loop (i + 1) (offset + n) raw (copy_at blob (i * 32 + 1) (take n (drop offset raw)))
      else blob)"
  by pat_completeness auto
termination by (relation "measure (\<lambda>(i, offset, raw, blob). blobLimbs - i)") auto

declare pack_loop.simps [simp del]

definition packBlob :: "bytes \<Rightarrow> bytes result" where
  "packBlob payload =
     (if MaxPayloadLen < length payload + 4 then Inl ''payload exceeds blob capacity''
      else Inr (pack_loop 0 0 (be_enc 4 (length payload) @ payload) (zero_bytes (blobLimbs * 32))))"

text \<open>\<open>blob[i*32+1 : i*32+32]\<close>, the data bytes of limb \<open>i\<close>.\<close>

definition limb_data :: "bytes \<Rightarrow> nat \<Rightarrow> bytes" where
  "limb_data blob i = take 31 (drop (i * 32 + 1) blob)"

definition UnpackBlob :: "bytes \<Rightarrow> bytes result" where
  "UnpackBlob blob =
     (let raw = concat (map (limb_data blob) [0..<blobLimbs])
      in if length raw < 4 then Inl ''blob too short''
         else let len = be_dec (take 4 raw)
              in if length raw - 4 < len then Inl ''invalid length prefix''
                 else Inr (take len (drop 4 raw)))"

text \<open>The copy of the unpacker in reconstruct-proof.\<close>

definition unpackBlob :: "bytes \<Rightarrow> bytes result" where
  "unpackBlob blob =
     (let raw = concat (map (\<lambda>i. take 31 (drop (i * 32 + 1) blob)) [0..<blobLimbs])
      in if length raw < 4 then Inl ''blob too short''
         else let len = be_dec (take 4 raw)
              in if length raw - 4 < len then Inl ''invalid length prefix''
                 else Inr (take len (drop 4 raw)))"

section \<open>The payload\<close>

record da_payload =
  dp_Version :: nat
  dp_BatchID :: u64
  dp_OldRoot :: string
  dp_NewRoot :: string
  dp_WithdrawalHash :: string
  dp_DepositHash :: string

text \<open>\<open>Transitions\<close> is raw JSON in the writer and a decoded list in the reader.\<close>

record raw_payload = da_payload +
  dp_RawTransitions :: bytes

record read_payload = da_payload +
  dp_Transitions :: "state_transition list"

record da_env =
  da_marshalTransitions :: "state_transition list \<Rightarrow> bytes result"
  da_marshalPayload :: "raw_payload \<Rightarrow> bytes result"
  da_gzip :: "bytes \<Rightarrow> bytes result"
  da_gunzip :: "bytes \<Rightarrow> (bytes \<times> bool) option"
  da_unmarshal :: "bytes \<Rightarrow> read_payload result"
  da_keccak :: "bytes \<Rightarrow> bytes"

definition gzipCompress :: "da_env \<Rightarrow> bytes \<Rightarrow> bytes result" where
  "gzipCompress E raw = da_gzip E raw"

definition EncodeBatchPayload ::
  "da_env \<Rightarrow> u64 \<Rightarrow> string \<Rightarrow> string \<Rightarrow> string \<Rightarrow> string \<Rightarrow> state_transition list \<Rightarrow> (bytes \<times> bytes) result" where
  "EncodeBatchPayload E batchID oldRoot newRoot withdrawalHash depositHash transitions =
     (case da_marshalTransitions E transitions of
        Inl err \<Rightarrow> Inl ''marshal transitions''
      | Inr transJSON \<Rightarrow>
          let p = \<lparr>dp_Version = 1, dp_BatchID = batchID, dp_OldRoot = oldRoot, dp_NewRoot = newRoot,
                   dp_WithdrawalHash = withdrawalHash, dp_DepositHash = depositHash, dp_RawTransitions = transJSON\<rparr>
          in (case da_marshalPayload E p of
                Inl err \<Rightarrow> Inl ''marshal DA payload''
              | Inr uncompressed \<Rightarrow>
             (case gzipCompress E uncompressed of
                Inl err \<Rightarrow> Inl ''compress DA payload''
              | Inr payload \<Rightarrow>
                  if MaxPayloadLen < length payload + 4 then Inl ''DA payload too large for one blob even after compression''
                  else Inr (payload, da_keccak E payload))))"

definition MaxDecompressedPayloadLen :: nat where
  "MaxDecompressedPayloadLen = 16 * 1024 * 1024"

text \<open>
  \<open>da_gunzip\<close> is the stream of the gzip reader: \<open>None\<close> when the header is bad, otherwise the bytes
  it yields and whether it then fails. \<open>ReadAll\<close> of a \<open>LimitReader\<close> stops before a failure that
  lies past the limit.
\<close>

definition read_limited :: "nat \<Rightarrow> bytes \<times> bool \<Rightarrow> bytes result" where
  "read_limited n = (\<lambda>(out, fails).
     if n \<le> length out then Inr (take n out) else if fails then Inl ''gzip read'' else Inr out)"

definition GzipDecompress :: "da_env \<Rightarrow> bytes \<Rightarrow> bytes result" where
  "GzipDecompress E compressed =
     (case da_gunzip E compressed of
        None \<Rightarrow> Inl ''gzip reader''
      | Some r \<Rightarrow>
          (case read_limited (MaxDecompressedPayloadLen + 1) r of
             Inl err \<Rightarrow> Inl err
           | Inr out \<Rightarrow>
               if MaxDecompressedPayloadLen < length out then Inl ''decompressed payload exceeds cap'' else Inr out))"

definition gzipDecompress :: "da_env \<Rightarrow> bytes \<Rightarrow> bytes result" where
  "gzipDecompress E compressed =
     (case da_gunzip E compressed of
        None \<Rightarrow> Inl ''gzip reader''
      | Some r \<Rightarrow>
          (case read_limited (MaxDecompressedPayloadLen + 1) r of
             Inl err \<Rightarrow> Inl err
           | Inr out \<Rightarrow>
               if MaxDecompressedPayloadLen < length out then Inl ''decompressed payload exceeds cap'' else Inr out))"

definition decodeDAPayload :: "da_env \<Rightarrow> bytes \<Rightarrow> read_payload result" where
  "decodeDAPayload E raw =
     (case gzipDecompress E raw of
        Inl err \<Rightarrow> Inl ''decompress DA payload''
      | Inr decompressed \<Rightarrow>
          (case da_unmarshal E decompressed of Inl err \<Rightarrow> Inl ''decode DA payload'' | Inr p \<Rightarrow> Inr p))"

section \<open>The sidecar\<close>

record kzg_env =
  kz_commitment :: "bytes \<Rightarrow> bytes result"
  kz_cellProofs :: "bytes \<Rightarrow> bytes result"
  kz_blobHashes :: "bytes \<Rightarrow> bytes list"

record sidecar =
  sc_Blobs :: "bytes list"
  sc_Commitments :: "bytes list"
  sc_Proofs :: bytes

definition BuildBlobSidecar :: "kzg_env \<Rightarrow> bytes \<Rightarrow> (sidecar \<times> bytes) result" where
  "BuildBlobSidecar K payload =
     (case packBlob payload of
        Inl err \<Rightarrow> Inl err
      | Inr blob \<Rightarrow>
     (case kz_commitment K blob of
        Inl err \<Rightarrow> Inl ''blob commitment''
      | Inr commitment \<Rightarrow>
     (case kz_cellProofs K blob of
        Inl err \<Rightarrow> Inl ''blob cell proofs''
      | Inr cellProofs \<Rightarrow>
          let sidecar = \<lparr>sc_Blobs = [blob], sc_Commitments = [commitment], sc_Proofs = cellProofs\<rparr>;
              hashes = kz_blobHashes K commitment
          in if length hashes \<noteq> 1 then Inl ''expected 1 blob hash''
             else if hd (hd hashes) \<noteq> CHR 0x01 then Inl ''invalid versioned hash prefix''
             else Inr (sidecar, hd hashes))))"

section \<open>What packing leaves in each limb\<close>

lemma length_zero_bytes [simp]: "length (zero_bytes n) = n"
  by (simp add: zero_bytes_def)

lemma length_copy_at [simp]: "pos + length src \<le> length blob \<Longrightarrow> length (copy_at blob pos src) = length blob"
  by (simp add: copy_at_def)

lemma nth_copy_at:
  "pos + length src \<le> length blob \<Longrightarrow> k < length blob \<Longrightarrow>
   copy_at blob pos src ! k = (if pos \<le> k \<and> k < pos + length src then src ! (k - pos) else blob ! k)"
  by (auto simp: copy_at_def nth_append)

text \<open>The payload stream, padded with zeros to the capacity of the blob.\<close>

definition padded_raw :: "bytes \<Rightarrow> bytes" where
  "padded_raw raw = raw @ zero_bytes (MaxPayloadLen - length raw)"

lemma padded_nth:
  "length raw \<le> MaxPayloadLen \<Longrightarrow> k < MaxPayloadLen \<Longrightarrow>
   padded_raw raw ! k = (if k < length raw then raw ! k else CHR 0x00)"
  by (simp add: padded_raw_def nth_append zero_bytes_def)

text \<open>After \<open>i\<close> limbs: the limbs below \<open>i\<close> hold their part of the stream, the rest is zero.\<close>

definition packed_upto :: "nat \<Rightarrow> bytes \<Rightarrow> bytes \<Rightarrow> bool" where
  "packed_upto i raw blob \<longleftrightarrow>
     length blob = blobLimbs * 32 \<and>
     (\<forall>j < blobLimbs. \<forall>k < 32. blob ! (j * 32 + k) =
        (if k = 0 \<or> i \<le> j then CHR 0x00 else padded_raw raw ! (j * 31 + (k - 1))))"

lemma limb_pos:
  fixes i j k c :: nat
  assumes "k < 32" "j * 32 + k = i * 32 + 1 + c" "c < 31"
  shows "j = i \<and> k = c + 1"
proof -
  have "(j * 32 + k) div 32 = (i * 32 + 1 + c) div 32" using assms(2) by simp
  then have "j = i" using assms(1,3) by simp
  then show ?thesis using assms(2) by simp
qed

lemma pack_step:
  assumes inv: "packed_upto i raw blob" and i: "i < blobLimbs" and off: "i * 31 < length raw" and len: "length raw \<le> MaxPayloadLen"
  shows "packed_upto (i + 1) raw (copy_at blob (i * 32 + 1) (take (min (length raw - i * 31) 31) (drop (i * 31) raw)))"
proof -
  let ?src = "take (min (length raw - i * 31) 31) (drop (i * 31) raw)"
  have lsrc: "length ?src = min (length raw - i * 31) 31" by simp
  have lb: "length blob = blobLimbs * 32" using inv by (simp add: packed_upto_def)
  have fits: "i * 32 + 1 + length ?src \<le> length blob" using i lb lsrc by simp
  have "copy_at blob (i * 32 + 1) ?src ! (j * 32 + k) =
      (if k = 0 \<or> i + 1 \<le> j then CHR 0x00 else padded_raw raw ! (j * 31 + (k - 1)))" if j: "j < blobLimbs" and k: "k < 32" for j k
  proof -
    have kb: "j * 32 + k < length blob" using j k lb by simp
    have old: "blob ! (j * 32 + k) = (if k = 0 \<or> i \<le> j then CHR 0x00 else padded_raw raw ! (j * 31 + (k - 1)))"
      using inv j k by (simp add: packed_upto_def)
    show ?thesis
    proof (cases "i * 32 + 1 \<le> j * 32 + k \<and> j * 32 + k < i * 32 + 1 + length ?src")
      case True
      then obtain c where c: "j * 32 + k = i * 32 + 1 + c" by (metis le_Suc_ex)
      then have "c < 31" "c < length raw - i * 31" using True lsrc by auto
      with limb_pos [OF k c] have jk: "j = i" "k = c + 1" by simp_all
      have "j * 31 + c < MaxPayloadLen" using i jk \<open>c < 31\<close> by (simp add: MaxPayloadLen_def bytesPerLimb_def)
      have "copy_at blob (i * 32 + 1) ?src ! (j * 32 + k) = ?src ! c"
        unfolding nth_copy_at [OF fits kb] using True c by simp
      also have "\<dots> = raw ! (i * 31 + c)" using \<open>c < 31\<close> \<open>c < length raw - i * 31\<close> by simp
      also have "\<dots> = padded_raw raw ! (j * 31 + c)"
      proof -
        have "i * 31 + c < length raw" using \<open>c < length raw - i * 31\<close> by linarith
        then show ?thesis using padded_nth [OF len \<open>j * 31 + c < MaxPayloadLen\<close>] jk(1) by simp
      qed
      finally show ?thesis using jk by simp
    next
      case False
      have "padded_raw raw ! (i * 31 + (k - 1)) = CHR 0x00" if "j = i" "k \<noteq> 0"
      proof -
        have "length raw \<le> i * 31 + (k - 1)" using False that k lsrc off by auto
        moreover have "i * 31 + (k - 1) < MaxPayloadLen" using i k by (simp add: MaxPayloadLen_def bytesPerLimb_def)
        ultimately show ?thesis using padded_nth [OF len, of "i * 31 + (k - 1)"] by simp
      qed
      moreover have "copy_at blob (i * 32 + 1) ?src ! (j * 32 + k) = blob ! (j * 32 + k)"
        unfolding nth_copy_at [OF fits kb] using False by (simp only: if_False)
      ultimately show ?thesis using old by (cases "j = i"; cases "k = 0"; cases "i \<le> j"; simp only:) simp_all
    qed
  qed
  then show ?thesis using lb fits by (simp add: packed_upto_def)
qed

lemma packed_done:
  assumes "packed_upto i raw blob" "blobLimbs \<le> i \<or> length raw \<le> i * 31" "length raw \<le> MaxPayloadLen"
  shows "packed_upto blobLimbs raw blob"
proof -
  have zero: "padded_raw raw ! (j * 31 + (k - 1)) = CHR 0x00" if "i \<le> j" "j < blobLimbs" "k < 32" for j k
  proof -
    have "i * 31 \<le> j * 31" using that(1) by simp
    then have "length raw \<le> j * 31 + (k - 1)" using assms(2) that by linarith
    moreover have "j * 31 + (k - 1) < MaxPayloadLen" using that by (simp add: MaxPayloadLen_def bytesPerLimb_def)
    ultimately show ?thesis using padded_nth [OF assms(3), of "j * 31 + (k - 1)"] by simp
  qed
  have "blob ! (j * 32 + k) = (if k = 0 \<or> blobLimbs \<le> j then CHR 0x00 else padded_raw raw ! (j * 31 + (k - 1)))"
    if "j < blobLimbs" "k < 32" for j k
  proof -
    have "blob ! (j * 32 + k) = (if k = 0 \<or> i \<le> j then CHR 0x00 else padded_raw raw ! (j * 31 + (k - 1)))"
      using that assms(1) unfolding packed_upto_def by blast
    then show ?thesis using zero [OF _ that] that by (metis not_le)
  qed
  then show ?thesis using assms(1) unfolding packed_upto_def by blast
qed

lemma pack_loop_packed:
  assumes "packed_upto i raw blob" "offset = min (i * 31) (length raw)" "length raw \<le> MaxPayloadLen"
  shows "packed_upto blobLimbs raw (pack_loop i offset raw blob)"
  using assms
proof (induction "blobLimbs - i" arbitrary: i offset blob)
  case 0
  then show ?case using packed_done [of i raw blob] by (simp add: pack_loop.simps)
next
  case (Suc n)
  show ?case
  proof (cases "i < blobLimbs \<and> offset < length raw")
    case True
    then have off: "i * 31 < length raw" "offset = i * 31" using Suc.prems(2) by auto
    let ?n = "if length raw - offset < bytesPerLimb then length raw - offset else bytesPerLimb"
    have n: "?n = min (length raw - i * 31) 31" using off(2) by (simp add: bytesPerLimb_def)
    have "packed_upto (i + 1) raw (copy_at blob (i * 32 + 1) (take ?n (drop offset raw)))"
    proof -
      have "take ?n (drop offset raw) = take (min (length raw - i * 31) 31) (drop (i * 31) raw)"
        by (simp only: n) (simp only: off(2))
      then show ?thesis using pack_step [OF Suc.prems(1) _ off(1) Suc.prems(3)] True by (simp only:)
    qed
    moreover have "offset + ?n = min ((i + 1) * 31) (length raw)" unfolding n using off by simp
    moreover have "n = blobLimbs - (i + 1)" using Suc.hyps(2) by simp
    ultimately have "packed_upto blobLimbs raw (pack_loop (i + 1) (offset + ?n) raw (copy_at blob (i * 32 + 1) (take ?n (drop offset raw))))"
      using Suc.hyps(1) [of "i + 1"] Suc.prems(3) by blast
    then show ?thesis using True by (subst pack_loop.simps) (simp add: Let_def)
  next
    case False
    have "blobLimbs \<le> i \<or> length raw \<le> i * 31" using False Suc.prems(2) by (auto simp: min_def split: if_splits)
    then have "packed_upto blobLimbs raw blob" by (rule packed_done [OF Suc.prems(1) _ Suc.prems(3)])
    moreover have "pack_loop i offset raw blob = blob" by (subst pack_loop.simps) (simp only: False if_False)
    ultimately show ?thesis by simp
  qed
qed

lemma packBlob_packed:
  assumes "packBlob payload = Inr blob"
  shows "packed_upto blobLimbs (be_enc 4 (length payload) @ payload) blob" "length payload + 4 \<le> MaxPayloadLen"
proof -
  let ?raw = "be_enc 4 (length payload) @ payload"
  show len: "length payload + 4 \<le> MaxPayloadLen" using assms by (simp add: packBlob_def split: if_splits)
  have "zero_bytes (blobLimbs * 32) ! (j * 32 + k) = CHR 0x00" if "j < blobLimbs" "k < 32" for j k
    unfolding zero_bytes_def by (rule nth_replicate) (use that in simp)
  then have "packed_upto 0 ?raw (zero_bytes (blobLimbs * 32))" by (simp add: packed_upto_def)
  from pack_loop_packed [OF this, of 0] show "packed_upto blobLimbs ?raw blob"
    using assms len by (simp add: packBlob_def split: if_splits)
qed

lemma concat_chunks:
  "length xs = n * c \<Longrightarrow> concat (map (\<lambda>i. take c (drop (i * c) xs)) [0..<n]) = xs"
proof (induction n arbitrary: xs)
  case (Suc n)
  have "concat (map (\<lambda>i. take c (drop (i * c) xs)) [0..<Suc n]) =
      take c xs @ concat (map (\<lambda>i. take c (drop (i * c) (drop c xs))) [0..<n])"
    by (simp add: upt_conv_Cons map_Suc_upt [symmetric] del: upt_Suc map_Suc_upt) (simp add: comp_def add.commute)
  then show ?case using Suc.IH [of "drop c xs"] Suc.prems by simp
qed simp

lemma packed_raw:
  assumes "packed_upto blobLimbs raw blob" "length raw \<le> MaxPayloadLen"
  shows "concat (map (limb_data blob) [0..<blobLimbs]) = padded_raw raw"
proof -
  have lb: "length blob = blobLimbs * 32" using assms(1) by (simp add: packed_upto_def)
  have lp: "length (padded_raw raw) = blobLimbs * 31"
    using assms(2) by (simp add: padded_raw_def MaxPayloadLen_def bytesPerLimb_def)
  have "limb_data blob i = take 31 (drop (i * 31) (padded_raw raw))" if i: "i < blobLimbs" for i
  proof (rule nth_equalityI)
    show "length (limb_data blob i) = length (take 31 (drop (i * 31) (padded_raw raw)))"
      using i by (simp add: limb_data_def lb lp)
    fix k assume "k < length (limb_data blob i)"
    then have k: "k < 31" by (simp add: limb_data_def)
    have "blob ! (i * 32 + (k + 1)) = padded_raw raw ! (i * 31 + (k + 1 - 1))"
    proof -
      have "\<forall>k < 32. blob ! (i * 32 + k) = (if k = 0 \<or> blobLimbs \<le> i then CHR 0x00 else padded_raw raw ! (i * 31 + (k - 1)))"
        using assms(1) i unfolding packed_upto_def by blast
      from this [THEN spec, of "k + 1"] show ?thesis using i k by simp
    qed
    then show "limb_data blob i ! k = take 31 (drop (i * 31) (padded_raw raw)) ! k"
      using i k by (simp add: limb_data_def lb lp)
  qed
  then have chunks: "map (limb_data blob) [0..<blobLimbs] = map (\<lambda>i. take 31 (drop (i * 31) (padded_raw raw))) [0..<blobLimbs]"
    by (intro map_cong) auto
  show ?thesis unfolding chunks by (rule concat_chunks [OF lp])
qed

text \<open>The two unpackers are one function.\<close>

lemma unpackers_agree: "unpackBlob blob = UnpackBlob blob"
  unfolding unpackBlob_def UnpackBlob_def limb_data_def ..

lemma MaxPayloadLen_value: "MaxPayloadLen = 126976"
  by (simp add: MaxPayloadLen_def blobLimbs_def bytesPerLimb_def)

lemma UnpackBlob_packBlob:
  assumes "packBlob payload = Inr blob"
  shows "UnpackBlob blob = Inr payload"
proof -
  note p = packBlob_packed [OF assms]
  let ?raw = "be_enc 4 (length payload) @ payload"
  have raw: "concat (map (limb_data blob) [0..<blobLimbs]) = padded_raw ?raw"
    by (rule packed_raw [OF p(1)]) (use p(2) in simp)
  have "length payload < 256 ^ 4" using p(2) by (simp add: MaxPayloadLen_value)
  then have "be_dec (be_enc 4 (length payload)) = length payload" by (rule be_dec_enc)
  then show ?thesis
    using p(2) by (simp add: UnpackBlob_def raw Let_def padded_raw_def)
qed

section \<open>What the code relies on of its libraries\<close>

text \<open>
  Strings of ASCII characters survive JSON (\<open>encoding/json\<close> replaces bytes that are not UTF-8);
  gzip reads back what it wrote.
\<close>

definition plain :: "string \<Rightarrow> bool" where
  "plain s \<longleftrightarrow> (\<forall>c \<in> set s. of_char c < (128 :: nat))"

definition plain_update :: "state_update \<Rightarrow> bool" where
  "plain_update u \<longleftrightarrow> plain (su_Balance u) \<and> (\<forall>s \<in> set (su_Path u). plain s)"

definition plain_transition :: "state_transition \<Rightarrow> bool" where
  "plain_transition st \<longleftrightarrow>
     plain (st_Amount st) \<and> plain (st_QuoteAmount st) \<and> plain (st_MakerPubKeyX st) \<and> plain (st_MakerPubKeyY st) \<and>
     plain (st_MakerSig st) \<and> plain_update (st_MakerBase st) \<and> plain_update (st_MakerQuote st) \<and>
     plain (st_TakerPubKeyX st) \<and> plain (st_TakerPubKeyY st) \<and> plain (st_TakerSig st) \<and>
     plain_update (st_TakerBase st) \<and> plain_update (st_TakerQuote st)"

definition da_laws :: "da_env \<Rightarrow> bool" where
  "da_laws E \<longleftrightarrow>
     (\<forall>raw z. da_gzip E raw = Inr z \<longrightarrow> da_gunzip E z = Some (raw, False)) \<and>
     (\<forall>ts js p raw. (\<forall>st \<in> set ts. plain_transition st) \<longrightarrow> da_marshalTransitions E ts = Inr js \<longrightarrow>
        plain (dp_OldRoot p) \<longrightarrow> plain (dp_NewRoot p) \<longrightarrow> plain (dp_WithdrawalHash p) \<longrightarrow> plain (dp_DepositHash p) \<longrightarrow>
        dp_RawTransitions p = js \<longrightarrow> da_marshalPayload E p = Inr raw \<longrightarrow>
        da_unmarshal E raw = Inr \<lparr>dp_Version = dp_Version p, dp_BatchID = dp_BatchID p, dp_OldRoot = dp_OldRoot p,
          dp_NewRoot = dp_NewRoot p, dp_WithdrawalHash = dp_WithdrawalHash p, dp_DepositHash = dp_DepositHash p,
          dp_Transitions = ts\<rparr>)"

lemma plain_dec: "plain (dec x)"
proof -
  have "of_char c < (128 :: nat)" if "c \<in> set (dec_nat n)" for n c
    using set_dec_nat [OF that] of_char_digit by fastforce
  then show ?thesis by (auto simp: plain_def dec_def split: if_splits)
qed

text \<open>An environment in which one batch can be published.\<close>

definition demo_raw :: raw_payload where
  "demo_raw = \<lparr>dp_Version = 1, dp_BatchID = 1, dp_OldRoot = ''0'', dp_NewRoot = ''7'', dp_WithdrawalHash = ''0'',
     dp_DepositHash = ''0'', dp_RawTransitions = ''[t]''\<rparr>"

definition demo_env :: da_env where
  "demo_env =
     \<lparr>da_marshalTransitions = (\<lambda>ts. if ts = [demo_transition 3] then Inr ''[t]'' else Inl ''json''),
      da_marshalPayload = (\<lambda>p. if p = demo_raw then Inr ''p'' else Inl ''json''),
      da_gzip = Inr, da_gunzip = (\<lambda>z. Some (z, False)),
      da_unmarshal = (\<lambda>raw. Inr \<lparr>dp_Version = 1, dp_BatchID = 1, dp_OldRoot = ''0'', dp_NewRoot = ''7'',
         dp_WithdrawalHash = ''0'', dp_DepositHash = ''0'', dp_Transitions = [demo_transition 3]\<rparr>),
      da_keccak = (\<lambda>b. zero_bytes 32)\<rparr>"

lemma demo_env_laws: "da_laws demo_env"
  by (auto simp: da_laws_def demo_env_def demo_raw_def split: if_splits)

section \<open>Properties of the blob format\<close>

text \<open>
  A packed payload is a valid blob and unpacks to itself, with the prover's unpacker and with
  the copy in reconstruct-proof: 131,072 bytes, the first byte of each of the 4,096 limbs zero (so
  every limb is a canonical scalar).
\<close>
theorem blob_roundtrip:
  assumes "packBlob payload = Inr blob"
  shows "UnpackBlob blob = Inr payload \<and> unpackBlob blob = Inr payload \<and> length blob = 131072 \<and>
    (\<forall>j < 4096. blob ! (32 * j) = CHR 0x00)"
proof -
  note p = packBlob_packed(1) [OF assms, unfolded packed_upto_def]
  have "blob ! (j * 32 + 0) = CHR 0x00" if "j < blobLimbs" for j
    using p that by (metis zero_less_numeral)
  then show ?thesis
    using UnpackBlob_packBlob [OF assms] p by (simp add: unpackers_agree blobLimbs_def mult.commute)
qed

theorem blob_roundtrip_witness:
  "\<exists>blob. packBlob ''nowa'' = Inr blob \<and> unpackBlob blob = Inr ''nowa''"
proof -
  obtain blob where "packBlob ''nowa'' = Inr blob" by (simp add: packBlob_def MaxPayloadLen_value)
  then show ?thesis using blob_roundtrip [of "''nowa''" blob] by blast
qed

text \<open>
  C34: what is published can be read back. If encoding a batch of ASCII transitions succeeds, the
  payload fits a blob, and unpacking and decoding that blob gives the batch, field by field, with
  the hash that was published, unless the JSON is over the reader's 16 MiB limit.
\<close>
theorem payload_roundtrip:
  assumes laws: "da_laws E" and enc: "EncodeBatchPayload E bid old new wh dh ts = Inr (payload, hash)"
    and plain: "\<forall>st \<in> set ts. plain_transition st" "plain old" "plain new" "plain wh" "plain dh"
    and small: "\<And>js raw. da_marshalTransitions E ts = Inr js \<Longrightarrow>
      da_marshalPayload E \<lparr>dp_Version = 1, dp_BatchID = bid, dp_OldRoot = old, dp_NewRoot = new,
        dp_WithdrawalHash = wh, dp_DepositHash = dh, dp_RawTransitions = js\<rparr> = Inr raw \<Longrightarrow> length raw \<le> MaxDecompressedPayloadLen"
  shows "\<exists>blob. packBlob payload = Inr blob \<and> unpackBlob blob = Inr payload \<and> hash = da_keccak E payload \<and>
    decodeDAPayload E payload = Inr \<lparr>dp_Version = 1, dp_BatchID = bid, dp_OldRoot = old, dp_NewRoot = new,
      dp_WithdrawalHash = wh, dp_DepositHash = dh, dp_Transitions = ts\<rparr>"
proof -
  obtain js where js: "da_marshalTransitions E ts = Inr js"
    using enc by (auto simp: EncodeBatchPayload_def split: sum.splits)
  let ?p = "\<lparr>dp_Version = 1, dp_BatchID = bid, dp_OldRoot = old, dp_NewRoot = new, dp_WithdrawalHash = wh,
    dp_DepositHash = dh, dp_RawTransitions = js\<rparr>"
  obtain raw where raw: "da_marshalPayload E ?p = Inr raw"
    using enc js by (auto simp: EncodeBatchPayload_def Let_def split: sum.splits)
  have z: "da_gzip E raw = Inr payload" "length payload + 4 \<le> MaxPayloadLen" "hash = da_keccak E payload"
    using enc js raw by (auto simp: EncodeBatchPayload_def gzipCompress_def Let_def split: sum.splits if_splits)
  have "da_gunzip E payload = Some (raw, False)" using laws z(1) unfolding da_laws_def by blast
  then have "gzipDecompress E payload = Inr raw"
    using small [OF js raw] by (simp add: gzipDecompress_def read_limited_def)
  then have "decodeDAPayload E payload = (case da_unmarshal E raw of Inl err \<Rightarrow> Inl ''decode DA payload'' | Inr p \<Rightarrow> Inr p)"
    by (simp add: decodeDAPayload_def)
  moreover have "da_unmarshal E raw = Inr \<lparr>dp_Version = 1, dp_BatchID = bid, dp_OldRoot = old, dp_NewRoot = new,
      dp_WithdrawalHash = wh, dp_DepositHash = dh, dp_Transitions = ts\<rparr>"
    using laws [unfolded da_laws_def, THEN conjunct2, rule_format, of ts js ?p raw] plain js raw by simp
  moreover obtain blob where "packBlob payload = Inr blob" using z(2) by (simp add: packBlob_def)
  moreover note UnpackBlob_packBlob [OF this, folded unpackers_agree] z(3)
  ultimately show ?thesis by simp
qed

theorem payload_roundtrip_witness:
  "decodeDAPayload demo_env ''p'' = Inr \<lparr>dp_Version = 1, dp_BatchID = 1, dp_OldRoot = ''0'', dp_NewRoot = ''7'',
     dp_WithdrawalHash = ''0'', dp_DepositHash = ''0'', dp_Transitions = [demo_transition 3]\<rparr>"
proof -
  have enc: "EncodeBatchPayload demo_env 1 ''0'' ''7'' ''0'' ''0'' [demo_transition 3] = Inr (''p'', zero_bytes 32)"
    by (simp add: EncodeBatchPayload_def demo_env_def demo_raw_def gzipCompress_def MaxPayloadLen_value)
  have plain: "\<forall>st \<in> set [demo_transition 3]. plain_transition st" "plain ''0''" "plain ''7''"
    by (simp_all add: plain_def plain_transition_def plain_update_def demo_transition_def Let_def)
  have small: "length raw \<le> MaxDecompressedPayloadLen" if "da_marshalPayload demo_env p = Inr raw" for p raw
    using that by (auto simp: demo_env_def MaxDecompressedPayloadLen_def split: if_splits)
  show ?thesis using payload_roundtrip [OF demo_env_laws enc plain(1,2,3,2,2)] small by blast
qed

end
