(* ===== verification/GoText.thy ===== *)
theory GoText imports Prelude begin

text \<open>
  What the API servers and the prover use of \<open>strings\<close> and \<open>strconv\<close>: \<open>TrimSpace\<close> on UTF-8 bytes,
  \<open>ParseUint\<close> in base 10, and \<open>Sscanf\<close> with \<open>%d\<close>.
\<close>

section \<open>TrimSpace\<close>

text \<open>The UTF-8 encodings of the runes \<open>unicode.IsSpace\<close> accepts.\<close>

definition space_runes :: "string list" where
  "space_runes =
     [[CHR 0x09], [CHR 0x0A], [CHR 0x0B], [CHR 0x0C], [CHR 0x0D], [CHR 0x20],
      [CHR 0xC2, CHR 0x85], [CHR 0xC2, CHR 0xA0], [CHR 0xE1, CHR 0x9A, CHR 0x80],
      [CHR 0xE2, CHR 0x80, CHR 0x80], [CHR 0xE2, CHR 0x80, CHR 0x81], [CHR 0xE2, CHR 0x80, CHR 0x82],
      [CHR 0xE2, CHR 0x80, CHR 0x83], [CHR 0xE2, CHR 0x80, CHR 0x84], [CHR 0xE2, CHR 0x80, CHR 0x85],
      [CHR 0xE2, CHR 0x80, CHR 0x86], [CHR 0xE2, CHR 0x80, CHR 0x87], [CHR 0xE2, CHR 0x80, CHR 0x88],
      [CHR 0xE2, CHR 0x80, CHR 0x89], [CHR 0xE2, CHR 0x80, CHR 0x8A], [CHR 0xE2, CHR 0x80, CHR 0xA8],
      [CHR 0xE2, CHR 0x80, CHR 0xA9], [CHR 0xE2, CHR 0x80, CHR 0xAF], [CHR 0xE2, CHR 0x81, CHR 0x9F],
      [CHR 0xE3, CHR 0x80, CHR 0x80]]"

fun trim_left :: "string list \<Rightarrow> string \<Rightarrow> string" where
  "trim_left runes [] = []"
| "trim_left runes (c # cs) =
     (case List.find (\<lambda>r. r \<noteq> [] \<and> has_prefix r (c # cs)) runes of
        Some r \<Rightarrow> trim_left runes (drop (length r - 1) cs)
      | None \<Rightarrow> c # cs)"

definition TrimSpace :: "string \<Rightarrow> string" where
  "TrimSpace s = rev (trim_left (map rev space_runes) (rev (trim_left space_runes s)))"

lemma find_space_None:
  assumes "\<forall>c \<in> set cs. 0x20 < (of_char c :: nat) \<and> of_char c < (0x80 :: nat)"
  shows "List.find (\<lambda>r. r \<noteq> [] \<and> has_prefix r cs) space_runes = None"
    "List.find (\<lambda>r. r \<noteq> [] \<and> has_prefix r cs) (map rev space_runes) = None"
proof -
  have "\<not> (r \<noteq> [] \<and> has_prefix r cs)" if "r \<in> set space_runes \<union> set (map rev space_runes)" for r
  proof
    assume r: "r \<noteq> [] \<and> has_prefix r cs"
    then have "hd r \<in> set cs" by (cases r; cases cs) (auto simp: has_prefix_def)
    then have "0x20 < (of_char (hd r) :: nat)" "of_char (hd r) < (0x80 :: nat)" using assms by auto
    then show False using that by (auto simp: space_runes_def)
  qed
  then show "List.find (\<lambda>r. r \<noteq> [] \<and> has_prefix r cs) space_runes = None"
    "List.find (\<lambda>r. r \<noteq> [] \<and> has_prefix r cs) (map rev space_runes) = None"
    unfolding find_None_iff by blast+
qed

lemma TrimSpace_plain: "\<forall>c \<in> set s. 0x20 < (of_char c :: nat) \<and> of_char c < (0x80 :: nat) \<Longrightarrow> TrimSpace s = s"
proof -
  assume s: "\<forall>c \<in> set s. 0x20 < (of_char c :: nat) \<and> of_char c < (0x80 :: nat)"
  have "trim_left space_runes s = s" using find_space_None(1) [OF s] by (cases s) auto
  moreover have "trim_left (map rev space_runes) (rev s) = rev s"
  proof (cases "rev s")
    case (Cons c cs)
    have "\<forall>c \<in> set (rev s). 0x20 < (of_char c :: nat) \<and> of_char c < (0x80 :: nat)" using s by simp
    from find_space_None(2) [OF this] show ?thesis unfolding Cons by simp
  qed simp
  ultimately show ?thesis by (simp add: TrimSpace_def)
qed

section \<open>ParseUint\<close>

text \<open>\<open>strconv.ParseUint(s, 10, bits)\<close>: \<open>None\<close> is a syntax or a range error.\<close>

definition ParseUint :: "string \<Rightarrow> nat \<Rightarrow> nat option" where
  "ParseUint s bits = (case parse_unsigned s of None \<Rightarrow> None | Some v \<Rightarrow> if v < 2 ^ bits then Some v else None)"

lemma ParseUint_dec: "ParseUint (dec_nat n) bits = (if n < 2 ^ bits then Some n else None)"
  by (simp add: ParseUint_def)

section \<open>Sscanf\<close>

text \<open>\<open>Sscanf(s, "%d")\<close> into a uint64: spaces, digits, and whatever follows is ignored.\<close>

definition scan_uint :: "string \<Rightarrow> u64 result" where
  "scan_uint s =
     (let ds = takeWhile (\<lambda>c. digit_val c \<noteq> None) (trim_left (removeAll [CHR 0x0A] space_runes) s)
      in case parse_unsigned ds of
           None \<Rightarrow> Inl ''expected integer''
         | Some n \<Rightarrow> if n < 2 ^ 64 then Inr (of_nat n) else Inl ''integer overflow'')"

lemma takeWhile_dec: "takeWhile (\<lambda>c. digit_val c \<noteq> None) (dec_nat n) = dec_nat n"
proof -
  have "digit_val c \<noteq> None" if "c \<in> set (dec_nat n)" for c
    using set_dec_nat [OF that] by auto
  then show ?thesis by (simp add: takeWhile_eq_all_conv)
qed

lemma trim_left_dec: "trim_left (removeAll [CHR 0x0A] space_runes) (dec_nat n) = dec_nat n"
proof -
  have "\<forall>c \<in> set (dec_nat n). 0x20 < (of_char c :: nat) \<and> of_char c < (0x80 :: nat)"
    using set_dec_nat of_char_digit by fastforce
  from find_space_None(1) [OF this] have "\<not> (\<exists>r. r \<in> set space_runes \<and> r \<noteq> [] \<and> has_prefix r (dec_nat n))"
    by (auto simp: find_None_iff)
  then have "List.find (\<lambda>r. r \<noteq> [] \<and> has_prefix r (dec_nat n)) (removeAll [CHR 0x0A] space_runes) = None"
    by (auto simp: find_None_iff)
  then show ?thesis by (cases "dec_nat n") auto
qed

lemma scan_uint_dec: "scan_uint (dec_nat (unat n)) = Inr n"
  using unsigned_less [of n, where 'a = nat] unfolding scan_uint_def trim_left_dec takeWhile_dec Let_def by simp

end
