(* ===== verification/ServerAPI.thy ===== *)
theory ServerAPI imports GoText Settlement begin

text \<open>
  The sequencer's HTTP API, sequencer/internal/api/server.go: one definition per handler on the
  state the server shares with the process (engine, tree, batcher), and the routing of \<open>Start\<close>.
  A request carries its query as \<open>URL.Query().Get\<close> and its body as \<open>encoding/json\<close> decodes it;
  a response is its status, the CORS headers and the value that is encoded. Each handler is one
  step: the interleaving of the calls of two requests is not modelled.
\<close>

section \<open>Requests and responses\<close>

record order_request =
  rq_MakerAddress :: string
  rq_TokenID :: u32
  rq_Amount :: string
  rq_Price :: string
  rq_IsBuy :: bool
  rq_Nonce :: u64
  rq_Signature :: string
  rq_CircuitSignature :: string

record order_view =
  ov_MakerAddress :: string
  ov_TokenID :: u32
  ov_Amount :: string
  ov_Price :: string
  ov_IsBuy :: bool
  ov_Nonce :: u64

record account_view =
  av_TokenID :: u32
  av_AccountID :: u64
  av_Index :: u64
  av_Balance :: string
  av_Nonce :: u64
  av_PubKeyX :: string
  av_PubKeyY :: string

record proof_output =
  po_PubKey :: string
  po_AccountID :: u64
  po_TokenID :: u32
  po_Index :: u64
  po_Balance :: string
  po_Nonce :: u64
  po_PubKeyX :: string
  po_PubKeyY :: string
  po_Siblings :: "string list"
  po_PathBits :: "u64 list"

text \<open>\<open>hr_Order\<close> and \<open>hr_PubKey\<close> are what \<open>json.NewDecoder(r.Body).Decode\<close> leaves in its target.\<close>

record http_request =
  hr_Method :: string
  hr_Path :: string
  hr_Query :: "string \<Rightarrow> string"
  hr_Order :: "order_request option"
  hr_PubKey :: string

datatype api_body =
    Empty
  | ErrorText string
  | OrderAccepted
  | OrderbookBody u32 "order_view list" "order_view list"
  | AccountBody string account_view account_view
  | BalanceBody string u64 u32 string u64 bool
  | ProofBody proof_output
  | BatchBody zk_batch
  | CountBody u64

record http_response =
  re_Headers :: "(string \<times> string) list"
  re_Status :: nat
  re_Body :: api_body

record server =
  sv_engine :: engine
  sv_batcher :: batcher
  sv_tree :: "mtree option"

definition NewServer :: "engine \<Rightarrow> batcher \<Rightarrow> mtree option \<Rightarrow> server" where
  "NewServer eng batch tree = \<lparr>sv_engine = eng, sv_batcher = batch, sv_tree = tree\<rparr>"

definition writeCORS :: "string \<Rightarrow> (string \<times> string) list" where
  "writeCORS methods =
     [(''Access-Control-Allow-Origin'', ''*''), (''Access-Control-Allow-Methods'', methods),
      (''Access-Control-Allow-Headers'', ''Content-Type'')]"

definition reply :: "string \<Rightarrow> nat \<Rightarrow> api_body \<Rightarrow> http_response" where
  "reply methods status body = \<lparr>re_Headers = writeCORS methods, re_Status = status, re_Body = body\<rparr>"

definition http_error :: "string \<Rightarrow> nat \<Rightarrow> string \<Rightarrow> http_response" where
  "http_error methods status msg = reply methods status (ErrorText msg)"

definition orderToView :: "order \<Rightarrow> order_view" where
  "orderToView o' =
     \<lparr>ov_MakerAddress = o_MakerAddress o', ov_TokenID = o_TokenID o', ov_Amount = dec (o_Amount o'),
      ov_Price = dec (o_Price o'), ov_IsBuy = o_IsBuy o', ov_Nonce = o_Nonce o'\<rparr>"

section \<open>Orders\<close>

definition order_of :: "order_request \<Rightarrow> int \<Rightarrow> int \<Rightarrow> order" where
  "order_of req amount price =
     \<lparr>o_MakerAddress = rq_MakerAddress req, o_TokenID = rq_TokenID req, o_Amount = amount, o_Price = price,
      o_IsBuy = rq_IsBuy req, o_Nonce = rq_Nonce req, o_Signature = rq_Signature req,
      o_CircuitSignature = rq_CircuitSignature req\<rparr>"

definition handleOrder ::
  "'c crypto_scheme \<Rightarrow> (nat \<Rightarrow> int) \<Rightarrow> http_request \<Rightarrow> server \<Rightarrow> http_response \<times> server" where
  "handleOrder C now r s =
     (let cors = ''POST, OPTIONS''
      in if hr_Method r = ''OPTIONS'' then (reply cors 200 Empty, s)
      else if hr_Method r \<noteq> ''POST'' then (http_error cors 405 ''Only POST is allowed'', s)
      else case hr_Order r of
        None \<Rightarrow> (http_error cors 400 ''Invalid JSON payload'', s)
      | Some req \<Rightarrow>
     (case parse_dec (rq_Amount req) of
        None \<Rightarrow> (http_error cors 400 ''Invalid amount format'', s)
      | Some amount \<Rightarrow>
     (case parse_dec (rq_Price req) of
        None \<Rightarrow> (http_error cors 400 ''Invalid price format'', s)
      | Some price \<Rightarrow>
          let order = order_of req amount price
          in if o_CircuitSignature order = [] then (http_error cors 400 ''circuit_signature required'', s)
          else (case ProcessOrder C now (sv_engine s) order of
                  (Inl err, e) \<Rightarrow> (http_error cors 400 err, s\<lparr>sv_engine := e\<rparr>)
                | (Inr _, e) \<Rightarrow> (reply cors 200 OrderAccepted, s\<lparr>sv_engine := e\<rparr>)))))"

text \<open>The \<open>token_id\<close> parameter of the read handlers: 1 when absent.\<close>

definition query_token :: "string \<Rightarrow> u32 option" where
  "query_token q = (if q = [] then Some 1 else map_option of_nat (ParseUint q 32))"

definition handleOrderbook :: "http_request \<Rightarrow> server \<Rightarrow> http_response \<times> server" where
  "handleOrderbook r s =
     (let cors = ''GET, OPTIONS''
      in if hr_Method r = ''OPTIONS'' then (reply cors 200 Empty, s)
      else if hr_Method r \<noteq> ''GET'' then (http_error cors 405 ''Only GET is allowed'', s)
      else case query_token (hr_Query r ''token_id'') of
        None \<Rightarrow> (http_error cors 400 ''invalid token_id'', s)
      | Some tokenID \<Rightarrow>
          let ((bids, asks), e) = SnapshotOrderbook (sv_engine s) tokenID
          in (reply cors 200 (OrderbookBody tokenID (map orderToView bids) (map orderToView asks)), s\<lparr>sv_engine := e\<rparr>))"

section \<open>Accounts\<close>

text \<open>A token parameter of \<open>/account\<close>: the default when absent or malformed.\<close>

definition token_or :: "u32 \<Rightarrow> string \<Rightarrow> u32" where
  "token_or dflt q = (if q = [] then dflt else case ParseUint q 32 of None \<Rightarrow> dflt | Some v \<Rightarrow> of_nat v)"

definition view_account :: "u32 \<Rightarrow> balance_state \<Rightarrow> account_view" where
  "view_account tokenID acc =
     \<lparr>av_TokenID = tokenID, av_AccountID = bs_AccountID acc, av_Index = leaf_index (bs_AccountID acc) (bs_TokenID acc),
      av_Balance = dec (bs_Balance acc), av_Nonce = bs_Nonce acc,
      av_PubKeyX = dec (bs_PubKeyX acc), av_PubKeyY = dec (bs_PubKeyY acc)\<rparr>"

definition open_view ::
  "'c crypto_scheme \<Rightarrow> string \<Rightarrow> u32 \<Rightarrow> mtree \<Rightarrow> batcher \<Rightarrow> account_view result \<times> mtree \<times> batcher" where
  "open_view C pubKey tokenID tree batch =
     (case openBalance C tree (Some batch) pubKey tokenID of
        (Inl err, tree, b) \<Rightarrow> (Inl err, tree, (case b of None \<Rightarrow> batch | Some b \<Rightarrow> b))
      | (Inr acc, tree, b) \<Rightarrow> (Inr (view_account tokenID acc), tree, (case b of None \<Rightarrow> batch | Some b \<Rightarrow> b)))"

definition request_key :: "http_request \<Rightarrow> string" where
  "request_key r =
     (let pubKey = TrimSpace (hr_Query r ''pubkey'')
      in if pubKey = [] \<and> hr_Method r = ''POST'' then TrimSpace (hr_PubKey r) else pubKey)"

definition handleAccount :: "'c crypto_scheme \<Rightarrow> http_request \<Rightarrow> server \<Rightarrow> http_response \<times> server" where
  "handleAccount C r s =
     (let cors = ''GET, POST, OPTIONS''
      in if hr_Method r = ''OPTIONS'' then (reply cors 200 Empty, s)
      else if hr_Method r \<noteq> ''GET'' \<and> hr_Method r \<noteq> ''POST'' then (http_error cors 405 ''GET or POST only'', s)
      else case sv_tree s of
        None \<Rightarrow> (http_error cors 503 ''state tree unavailable'', s)
      | Some tree \<Rightarrow>
          let pubKey = request_key r
          in if pubKey = [] then (http_error cors 400 ''pubkey required'', s)
          else
            let baseID = token_or 1 (hr_Query r ''base_token''); quoteID = token_or 2 (hr_Query r ''quote_token'')
            in (case open_view C pubKey baseID tree (sv_batcher s) of
                  (Inl err, tree, batch) \<Rightarrow> (http_error cors 500 err, s\<lparr>sv_tree := Some tree, sv_batcher := batch\<rparr>)
                | (Inr base, tree, batch) \<Rightarrow>
               (case open_view C pubKey quoteID tree batch of
                  (Inl err, tree, batch) \<Rightarrow> (http_error cors 500 err, s\<lparr>sv_tree := Some tree, sv_batcher := batch\<rparr>)
                | (Inr quote, tree, batch) \<Rightarrow>
                    (reply cors 200 (AccountBody pubKey base quote), s\<lparr>sv_tree := Some tree, sv_batcher := batch\<rparr>))))"

definition handleBalance :: "http_request \<Rightarrow> server \<Rightarrow> http_response \<times> server" where
  "handleBalance r s =
     (let cors = ''GET, OPTIONS''
      in if hr_Method r = ''OPTIONS'' then (reply cors 200 Empty, s)
      else if hr_Method r \<noteq> ''GET'' then (http_error cors 405 ''Only GET is allowed'', s)
      else case sv_tree s of
        None \<Rightarrow> (http_error cors 503 ''state tree unavailable'', s)
      | Some tree \<Rightarrow>
          let pubKey = TrimSpace (hr_Query r ''pubkey'')
          in if pubKey = [] then (http_error cors 400 ''pubkey required'', s)
          else (case query_token (hr_Query r ''token_id'') of
             None \<Rightarrow> (http_error cors 400 ''invalid token_id'', s)
           | Some tokenID \<Rightarrow>
          (case GetAccountID tree pubKey of
             (Inl err, tree) \<Rightarrow> (http_error cors 500 err, s\<lparr>sv_tree := Some tree\<rparr>)
           | (Inr accID, tree) \<Rightarrow>
          (case GetBalance tree accID tokenID of
             Inl err \<Rightarrow> (http_error cors 500 err, s\<lparr>sv_tree := Some tree\<rparr>)
           | Inr acc \<Rightarrow>
               (reply cors 200 (BalanceBody pubKey accID tokenID
                  (case acc of None \<Rightarrow> ''0'' | Some a \<Rightarrow> dec (bs_Balance a))
                  (case acc of None \<Rightarrow> 0 | Some a \<Rightarrow> bs_Nonce a) (acc \<noteq> None)),
                s\<lparr>sv_tree := Some tree\<rparr>)))))"

text \<open>The value \<open>/proof\<close> returns; reconstruct-proof builds the same one.\<close>

definition proof_value :: "mtree \<Rightarrow> string \<Rightarrow> u64 \<Rightarrow> u32 \<Rightarrow> balance_state option \<Rightarrow> proof_output" where
  "proof_value tree pubkey accID tokenID acc =
     (let index = leaf_index accID tokenID;
          (path, bits) = GetPath tree index
      in \<lparr>po_PubKey = pubkey, po_AccountID = accID, po_TokenID = tokenID, po_Index = index,
          po_Balance = (case acc of None \<Rightarrow> ''0'' | Some a \<Rightarrow> dec (bs_Balance a)),
          po_Nonce = (case acc of None \<Rightarrow> 0 | Some a \<Rightarrow> bs_Nonce a),
          po_PubKeyX = (case acc of None \<Rightarrow> ''0'' | Some a \<Rightarrow> dec (bs_PubKeyX a)),
          po_PubKeyY = (case acc of None \<Rightarrow> ''0'' | Some a \<Rightarrow> dec (bs_PubKeyY a)),
          po_Siblings = map dec path, po_PathBits = bits\<rparr>)"

definition handleProof :: "http_request \<Rightarrow> server \<Rightarrow> http_response \<times> server" where
  "handleProof r s =
     (let cors = ''GET, OPTIONS''
      in if hr_Method r = ''OPTIONS'' then (reply cors 200 Empty, s)
      else if hr_Method r \<noteq> ''GET'' then (http_error cors 405 ''Only GET is allowed'', s)
      else case sv_tree s of
        None \<Rightarrow> (http_error cors 503 ''state tree unavailable'', s)
      | Some tree \<Rightarrow>
          let pubKey = TrimSpace (hr_Query r ''pubkey'')
          in if pubKey = [] then (http_error cors 400 ''pubkey required'', s)
          else (case query_token (hr_Query r ''token_id'') of
             None \<Rightarrow> (http_error cors 400 ''invalid token_id'', s)
           | Some tokenID \<Rightarrow>
          (case GetAccountID tree pubKey of
             (Inl err, tree) \<Rightarrow> (http_error cors 500 err, s\<lparr>sv_tree := Some tree\<rparr>)
           | (Inr accID, tree) \<Rightarrow>
          (case GetBalance tree accID tokenID of
             Inl err \<Rightarrow> (http_error cors 500 err, s\<lparr>sv_tree := Some tree\<rparr>)
           | Inr acc \<Rightarrow>
               (reply cors 200 (ProofBody (proof_value tree pubKey accID tokenID acc)), s\<lparr>sv_tree := Some tree\<rparr>)))))"

section \<open>Batches\<close>

definition handleBatchLatest :: "http_request \<Rightarrow> server \<Rightarrow> http_response \<times> server" where
  "handleBatchLatest r s =
     (let cors = ''GET, OPTIONS''
      in if hr_Method r = ''OPTIONS'' then (reply cors 200 Empty, s)
      else if hr_Method r \<noteq> ''GET'' then (http_error cors 405 ''Only GET is allowed'', s)
      else case GetLatestBatch (sv_batcher s) of
        None \<Rightarrow> (http_error cors 404 ''No batches available yet'', s)
      | Some b \<Rightarrow> (reply cors 200 (BatchBody b), s))"

definition handleBatchCount :: "http_request \<Rightarrow> server \<Rightarrow> http_response \<times> server" where
  "handleBatchCount r s =
     (let cors = ''GET, OPTIONS''
      in if hr_Method r = ''OPTIONS'' then (reply cors 200 Empty, s)
      else if hr_Method r \<noteq> ''GET'' then (http_error cors 405 ''Only GET is allowed'', s)
      else (reply cors 200 (CountBody (GetBatchCount (sv_batcher s))), s))"

definition handleBatchByID :: "http_request \<Rightarrow> server \<Rightarrow> http_response \<times> server" where
  "handleBatchByID r s =
     (let cors = ''GET, OPTIONS''
      in if hr_Method r = ''OPTIONS'' then (reply cors 200 Empty, s)
      else if hr_Method r \<noteq> ''GET'' then (http_error cors 405 ''Only GET is allowed'', s)
      else
        let idStr = drop (length ''/batch/'') (hr_Path r)
        in if idStr = [] then (http_error cors 400 ''Missing batch ID'', s)
        else (case ParseUint idStr 64 of
           None \<Rightarrow> (http_error cors 400 ''Invalid batch ID: must be a non-negative integer'', s)
         | Some bid \<Rightarrow>
        (case GetBatch (sv_batcher s) (of_nat bid) of
           None \<Rightarrow> (http_error cors 404 (''Batch '' @ dec_nat bid @ '' not found''), s)
         | Some b \<Rightarrow> (reply cors 200 (BatchBody b), s))))"

text \<open>
  The routes of \<open>Start\<close>, for a clean path: exact patterns first, then the subtree \<open>/batch/\<close>, whose
  bare prefix the mux redirects; any other path is the mux's 404.
\<close>

definition route :: "'c crypto_scheme \<Rightarrow> (nat \<Rightarrow> int) \<Rightarrow> http_request \<Rightarrow> server \<Rightarrow> http_response \<times> server" where
  "route C now r s =
     (let p = hr_Path r
      in if p = ''/order'' then handleOrder C now r s
      else if p = ''/orderbook'' then handleOrderbook r s
      else if p = ''/balance'' then handleBalance r s
      else if p = ''/account'' then handleAccount C r s
      else if p = ''/proof'' then handleProof r s
      else if p = ''/batch/latest'' then handleBatchLatest r s
      else if p = ''/batch/count'' then handleBatchCount r s
      else if has_prefix ''/batch/'' p then handleBatchByID r s
      else if p = ''/batch'' then (\<lparr>re_Headers = [], re_Status = 301, re_Body = Empty\<rparr>, s)
      else (\<lparr>re_Headers = [], re_Status = 404, re_Body = ErrorText ''404 page not found''\<rparr>, s))"

section \<open>What a request can change\<close>

definition same_books :: "engine \<Rightarrow> engine \<Rightarrow> bool" where
  "same_books e e' \<longleftrightarrow> TradeQueue e' = TradeQueue e \<and> (\<forall>tok. book_of e' tok = book_of e tok)"

lemma same_books_refl [simp]: "same_books e e"
  by (simp add: same_books_def)

lemma same_books_snapshot: "same_books e (snd (SnapshotOrderbook e tok))"
proof -
  have "Orderbooks e tok' = Some ob \<Longrightarrow> book_of e tok' = ob" for tok' ob
    by (simp add: book_of_def getOrCreateOrderbook_def)
  moreover have "Orderbooks e tok' = None \<Longrightarrow> book_of e tok' = \<lparr>ob_TokenID = tok', Bids = [], Asks = []\<rparr>" for tok'
    by (simp add: book_of_def getOrCreateOrderbook_def Let_def)
  ultimately show ?thesis
    unfolding same_books_def book_of_def [of "snd (SnapshotOrderbook e tok)"] getOrCreateOrderbook_def
    by (auto simp: snapshot_engine Let_def split: option.split)
qed

text \<open>The trees a read handler can leave: the same tree, or the key's id allocated.\<close>

definition reads :: "(int list \<Rightarrow> int) \<Rightarrow> server \<Rightarrow> server \<Rightarrow> bool" where
  "reads H s s' \<longleftrightarrow>
     sv_batcher s' = sv_batcher s \<and> same_books (sv_engine s) (sv_engine s') \<and>
     (case sv_tree s of None \<Rightarrow> sv_tree s' = None
      | Some t \<Rightarrow> \<exists>t'. sv_tree s' = Some t' \<and> db_inv H 28 t' \<and> ids_inv t' \<and> balances t' = balances t \<and> Root t' = Root t \<and>
          (\<forall>w. GetPath t' w = GetPath t w))"

definition server_inv :: "(int list \<Rightarrow> int) \<Rightarrow> server \<Rightarrow> bool" where
  "server_inv H s \<longleftrightarrow>
     (case sv_tree s of None \<Rightarrow> True | Some t \<Rightarrow> db_inv H 28 t \<and> ids_inv t \<and> unat (next_id t) + 1 < 2 ^ 64)"

lemma reads_refl: "server_inv H s \<Longrightarrow> reads H s s"
  by (auto simp: server_inv_def reads_def split: option.split)

lemma reads_engine: "server_inv H s \<Longrightarrow> same_books (sv_engine s) e \<Longrightarrow> reads H s (s\<lparr>sv_engine := e\<rparr>)"
  by (auto simp: server_inv_def reads_def split: option.split)

lemma GetPath_same_lf:
  assumes "db_inv H 28 t" "db_inv H 28 t'" "lf t' = lf t"
  shows "GetPath t' w = GetPath t w"
proof -
  note p = GetPath_spec [OF db_inv_tree [OF assms(1)], of w] GetPath_spec [OF db_inv_tree [OF assms(2)], of w]
  have "map unat (snd (GetPath t' w)) = map unat (snd (GetPath t w))" using p(2,4) by simp
  then have "snd (GetPath t' w) = snd (GetPath t w)"
    by (rule map_injective) (rule injI, simp add: word_unat_eq_iff)
  moreover have "fst (GetPath t' w) = fst (GetPath t w)" using p(1,3) assms(3) by simp
  ultimately show ?thesis by (simp add: prod_eq_iff)
qed

lemma reads_tree:
  assumes "server_inv H s" "sv_tree s = Some t"
  shows "reads H s (s\<lparr>sv_tree := Some (opened t key)\<rparr>)"
proof -
  have inv: "db_inv H 28 t" "ids_inv t" "unat (next_id t) + 1 < 2 ^ 64" using assms by (simp_all add: server_inv_def)
  note o = opened_facts [OF inv(1,2), of key]
  have "ids_inv (opened t key)" using inv(2,3) with_id_inv [OF inv(2)] by (auto simp: opened_def split: option.split)
  then show ?thesis using o GetPath_same_lf [OF inv(1) o(2,5)] by (simp add: reads_def assms(2))
qed

lemmas handler_defs = handleOrderbook_def handleBalance_def handleProof_def handleBatchLatest_def handleBatchCount_def
  handleBatchByID_def

lemma lookup_reads:
  assumes "server_inv H s" "sv_tree s = Some t"
  shows "GetAccountID t key = (Inr (account_for t key), opened t key)"
    "GetBalance (opened t key) a tok = Inr (balances t (a, tok))"
proof -
  have inv: "db_inv H 28 t" "ids_inv t" using assms by (simp_all add: server_inv_def)
  show "GetAccountID t key = (Inr (account_for t key), opened t key)"
    "GetBalance (opened t key) a tok = Inr (balances t (a, tok))"
    using opened_facts(1-3) [OF inv, of key] GetBalance_balances [of H 28 "opened t key"] by simp_all
qed

text \<open>
  Only orders and account openings change state. Whatever its path, method and parameters, a
  request to any other route leaves the order books, the queued trades, every batch, every balance,
  the root and every Merkle path as they were; at most it allocates an id for a new key.
\<close>
theorem read_requests_keep_state:
  assumes inv: "server_inv H s" and path: "hr_Path r \<noteq> ''/order''" "hr_Path r \<noteq> ''/account''"
  shows "reads H s (snd (route C now r s))"
proof -
  have book: "reads H s (snd (handleOrderbook r s))"
    using reads_refl [OF inv] reads_engine [OF inv same_books_snapshot]
    by (auto simp: handleOrderbook_def Let_def split: option.split prod.split) (metis snd_conv)
  have lookup: "reads H s (snd (handleBalance r s))" "reads H s (snd (handleProof r s))"
    using reads_refl [OF inv] reads_tree [OF inv] lookup_reads [OF inv]
    by (auto simp: handleBalance_def handleProof_def Let_def split: option.split)
  have batch: "snd (handleBatchLatest r s) = s" "snd (handleBatchCount r s) = s" "snd (handleBatchByID r s) = s"
    by (auto simp: handleBatchLatest_def handleBatchCount_def handleBatchByID_def Let_def split: option.split)
  show ?thesis using path book lookup batch reads_refl [OF inv] by (simp add: route_def Let_def)
qed

theorem read_requests_keep_state_witness:
  "reads (mimc_hash []) \<lparr>sv_engine = NewEngine [], sv_batcher = NewBatcher, sv_tree = Some demo_db\<rparr>
     (snd (route demo_scheme int \<lparr>hr_Method = ''GET'', hr_Path = ''/proof'', hr_Query = (\<lambda>k. if k = ''pubkey'' then ''aa'' else []),
        hr_Order = None, hr_PubKey = []\<rparr> \<lparr>sv_engine = NewEngine [], sv_batcher = NewBatcher, sv_tree = Some demo_db\<rparr>))"
  by (rule read_requests_keep_state) (simp_all add: server_inv_def demo_db_empty)

text \<open>
  The order route accepts exactly what the engine accepts. A POST succeeds if and only if its
  body decodes, amount and price are decimal, the circuit signature is present and the engine takes
  the order; any request that does not succeed leaves the whole server as it was.
\<close>
theorem order_request_outcome:
  assumes "hr_Method r = ''POST''"
  shows "(re_Status (fst (handleOrder C now r s)) = 200 \<longleftrightarrow>
      (\<exists>req amount price. hr_Order r = Some req \<and> parse_dec (rq_Amount req) = Some amount \<and>
         parse_dec (rq_Price req) = Some price \<and> rq_CircuitSignature req \<noteq> [] \<and> accepted C (order_of req amount price))) \<and>
    (re_Status (fst (handleOrder C now r s)) \<noteq> 200 \<longrightarrow> snd (handleOrder C now r s) = s)"
proof -
  have ok: "\<exists>e. ProcessOrder C now (sv_engine s) x = (Inr (), e)" if "accepted C x" for x
    using ProcessOrder_accepted [OF that, of now "sv_engine s"] by simp
  have bad: "\<exists>err. ProcessOrder C now (sv_engine s) x = (Inl err, sv_engine s)" if "\<not> accepted C x" for x
    by (rule ProcessOrder_rejected [OF that])
  show ?thesis
  proof (cases "\<exists>req amount price. hr_Order r = Some req \<and> parse_dec (rq_Amount req) = Some amount \<and>
         parse_dec (rq_Price req) = Some price \<and> rq_CircuitSignature req \<noteq> []")
    case True
    then obtain req amount price where q: "hr_Order r = Some req" "parse_dec (rq_Amount req) = Some amount"
      "parse_dec (rq_Price req) = Some price" "rq_CircuitSignature req \<noteq> []" by blast
    have "o_CircuitSignature (order_of req amount price) \<noteq> []" using q(4) by (simp add: order_of_def)
    then show ?thesis
      using ok [of "order_of req amount price"] bad [of "order_of req amount price"] assms q
      by (cases "accepted C (order_of req amount price)") (auto simp: handleOrder_def Let_def reply_def http_error_def)
  next
    case False
    then show ?thesis
      using assms by (auto simp: handleOrder_def Let_def reply_def http_error_def order_of_def split: option.split)
  qed
qed

definition demo_post :: http_request where
  "demo_post = \<lparr>hr_Method = ''POST'', hr_Path = ''/order'', hr_Query = (\<lambda>_. []),
     hr_Order = Some \<lparr>rq_MakerAddress = ''aa'', rq_TokenID = 1, rq_Amount = dec 5, rq_Price = dec 2, rq_IsBuy = True, rq_Nonce = 0,
       rq_Signature = hex_encode demo_signature, rq_CircuitSignature = ''00''\<rparr>, hr_PubKey = []\<rparr>"

theorem order_request_outcome_witness:
  "re_Status (fst (handleOrder demo_scheme int demo_post \<lparr>sv_engine = NewEngine [], sv_batcher = NewBatcher, sv_tree = None\<rparr>)) = 200"
proof -
  have "accepted demo_scheme (order_of (the (hr_Order demo_post)) 5 2)"
    using demo_accepted [of 2 5 True] by (simp add: accepted_def demo_post_def order_of_def demo_order_def)
  then show ?thesis
    using order_request_outcome [of demo_post demo_scheme int "\<lparr>sv_engine = NewEngine [], sv_batcher = NewBatcher, sv_tree = None\<rparr>"]
    by (simp add: demo_post_def)
qed

end
