(* ===== verification/Reconstruct.thy ===== *)
theory Reconstruct imports Blob SequencerRun ServerAPI begin

text \<open>
  The tool that rebuilds the state tree from L1 data alone, sequencer/cmd/reconstruct-proof:
  replay.go, main.go, rollup.go and blobscan.go. The contract's getters and the HTTP client are
  the record \<open>l1_env\<close>; what they answer is the environment's. Output is not modelled.
\<close>

section \<open>Fetching and checking a batch\<close>

text \<open>
  The getters of the contract, \<open>None\<close> being a failed call, and \<open>http.Get\<close>: \<open>None\<close> for a failed
  request, otherwise the status code, the bytes read from the body and whether reading it failed.
\<close>

record storage_ref =
  sr_Storage :: string
  sr_URL :: string

record l1_env =
  l1_batchCount :: "u64 option"
  l1_batchBlobHash :: "u64 \<Rightarrow> bytes option"
  l1_batchDataHash :: "u64 \<Rightarrow> bytes option"
  l1_stateRoot :: "bytes option"
  l1_http :: "string \<Rightarrow> (nat \<times> bytes \<times> bool) option"
  l1_parseMeta :: "bytes \<Rightarrow> storage_ref list result"

fun pick_ipfs :: "string \<Rightarrow> storage_ref list \<Rightarrow> string" where
  "pick_ipfs dataURL [] = dataURL"
| "pick_ipfs dataURL (ref # refs) = (if sr_Storage ref = ''ipfs'' then sr_URL ref else pick_ipfs dataURL refs)"

definition fetchBlob :: "l1_env \<Rightarrow> string \<Rightarrow> string \<Rightarrow> bytes result" where
  "fetchBlob L blobscanAPI versionedHash =
     (case l1_http L (blobscanAPI @ ''/blobs/'' @ versionedHash) of
        None \<Rightarrow> Inl ''query Blobscan''
      | Some (status, body, _) \<Rightarrow>
          if status \<noteq> 200 then Inl ''Blobscan returned''
          else (case l1_parseMeta L body of
                  Inl err \<Rightarrow> Inl ''decode Blobscan response''
                | Inr refs \<Rightarrow>
                    if refs = [] then Inl ''Blobscan has no storage reference''
                    else (case l1_http L (pick_ipfs (sr_URL (hd refs)) refs) of
                            None \<Rightarrow> Inl ''fetch blob content''
                          | Some (_, raw, failed) \<Rightarrow>
                              if failed then Inl ''read blob content''
                              else if length raw \<noteq> blobLimbs * 32 then Inl ''unexpected blob size'' else Inr raw)))"

definition replayOneBatch ::
  "'c crypto_scheme \<Rightarrow> da_env \<Rightarrow> l1_env \<Rightarrow> string \<Rightarrow> mtree \<Rightarrow> u64 \<Rightarrow> unit result \<times> mtree" where
  "replayOneBatch C E L blobscanAPI tree batchID =
     (case l1_batchBlobHash L batchID of
        None \<Rightarrow> (Inl ''read batchBlobHash'', tree)
      | Some blobHash \<Rightarrow>
     (case l1_batchDataHash L batchID of
        None \<Rightarrow> (Inl ''read batchDataHash'', tree)
      | Some dataHash \<Rightarrow>
     (case fetchBlob L blobscanAPI (''0x'' @ hex_encode blobHash) of
        Inl err \<Rightarrow> (Inl ''fetch blob from Blobscan'', tree)
      | Inr blob \<Rightarrow>
     (case unpackBlob blob of
        Inl err \<Rightarrow> (Inl ''unpack blob'', tree)
      | Inr payloadBytes \<Rightarrow>
          if da_keccak E payloadBytes \<noteq> dataHash then (Inl ''dataHash mismatch'', tree)
          else (case decodeDAPayload E payloadBytes of
                  Inl err \<Rightarrow> (Inl err, tree)
                | Inr payload \<Rightarrow>
               (case replay_transitions (mimc C) tree (dp_Transitions payload) of
                  (Inl err, tree) \<Rightarrow> (Inl err, tree)
                | (Inr _, tree) \<Rightarrow>
                    (case parse_dec (dp_NewRoot payload) of
                       None \<Rightarrow> (Inl ''invalid new_root in payload'', tree)
                     | Some wantRoot \<Rightarrow>
                         if Root tree \<noteq> wantRoot then (Inl ''replayed root does not match'', tree)
                         else (Inr (), tree))))))))"

definition lastReplayedBatchKey :: string where
  "lastReplayedBatchKey = ''last_replayed_batch''"

definition readCheckpoint :: "mtree \<Rightarrow> u64 result" where
  "readCheckpoint tree =
     (case GetMeta tree lastReplayedBatchKey of
        Inl err \<Rightarrow> Inl ''read checkpoint''
      | Inr None \<Rightarrow> Inr 0
      | Inr (Some data) \<Rightarrow>
          if length data \<noteq> 8 then Inl ''corrupt checkpoint value'' else Inr (of_nat (be_dec data) + 1))"

function replay_loop ::
  "'c crypto_scheme \<Rightarrow> da_env \<Rightarrow> l1_env \<Rightarrow> string \<Rightarrow> u64 \<Rightarrow> u64 \<Rightarrow> mtree \<Rightarrow> unit result \<times> mtree" where
  "replay_loop C E L blobscanAPI batchCount i tree =
     (if i < batchCount then
        (case replayOneBatch C E L blobscanAPI tree i of
           (Inl err, tree) \<Rightarrow> (Inl ''batch'', tree)
         | (Inr _, tree) \<Rightarrow>
        (case SetMeta tree lastReplayedBatchKey (be_enc 8 (unat i)) of
           (Inl err, tree) \<Rightarrow> (Inl ''save checkpoint'', tree)
         | (Inr _, tree) \<Rightarrow> replay_loop C E L blobscanAPI batchCount (i + 1) tree))
      else (Inr (), tree))"
  by pat_completeness auto
termination
proof (relation "measure (\<lambda>(C, E, L, api, n, i, tree). unat n - unat i)")
  fix n i :: u64
  assume "i < n"
  then have "unat i < unat n" by (simp add: word_less_nat_alt)
  moreover have "unat n < 2 ^ 64" using unsigned_less [of n, where 'a = nat] by simp
  ultimately have "unat (i + 1) = unat i + 1" by (simp add: unat_word_ariths)
  then show "((C, E, L, api, n, i + 1, t'), C, E, L, api, n, i, t) \<in> measure (\<lambda>(C, E, L, api, n, i, tree). unat n - unat i)" for C E L api t t'
    using \<open>unat i < unat n\<close> by simp
qed simp

declare replay_loop.simps [simp del]

definition replayAllBatches ::
  "'c crypto_scheme \<Rightarrow> da_env \<Rightarrow> l1_env \<Rightarrow> string \<Rightarrow> mtree \<Rightarrow> unit result \<times> mtree" where
  "replayAllBatches C E L blobscanAPI tree =
     (case readCheckpoint tree of
        Inl err \<Rightarrow> (Inl err, tree)
      | Inr checkpoint \<Rightarrow>
     (case l1_batchCount L of
        None \<Rightarrow> (Inl ''read batchCount from L1'', tree)
      | Some batchCount \<Rightarrow> replay_loop C E L blobscanAPI batchCount checkpoint tree))"

definition verifyAgainstOnChainRoot :: "l1_env \<Rightarrow> mtree \<Rightarrow> unit result" where
  "verifyAgainstOnChainRoot L tree =
     (case l1_stateRoot L of
        None \<Rightarrow> Inl ''read current stateRoot from L1''
      | Some onChainRoot \<Rightarrow>
          if Root tree \<noteq> int (be_dec onChainRoot) then Inl ''fully-replayed local root does NOT match'' else Inr ())"

section \<open>The proof\<close>

definition buildProof :: "mtree \<Rightarrow> string \<Rightarrow> u32 \<Rightarrow> proof_output result \<times> mtree" where
  "buildProof tree pubkey tokenID =
     (case GetAccountID tree pubkey of
        (Inl err, tree) \<Rightarrow> (Inl err, tree)
      | (Inr accID, tree) \<Rightarrow>
     (case GetBalance tree accID tokenID of
        Inl err \<Rightarrow> (Inl err, tree)
      | Inr acc \<Rightarrow> (Inr (proof_value tree pubkey accID tokenID acc), tree)))"

text \<open>\<open>run\<close>, on a tree already open; the proof is returned rather than printed.\<close>

definition reconstruct_run ::
  "'c crypto_scheme \<Rightarrow> da_env \<Rightarrow> l1_env \<Rightarrow> string \<Rightarrow> string \<Rightarrow> u32 \<Rightarrow> mtree \<Rightarrow> proof_output result \<times> mtree" where
  "reconstruct_run C E L blobscanAPI pubkey tokenID tree =
     (case replayAllBatches C E L blobscanAPI tree of
        (Inl err, tree) \<Rightarrow> (Inl err, tree)
      | (Inr _, tree) \<Rightarrow>
     (case verifyAgainstOnChainRoot L tree of
        Inl err \<Rightarrow> (Inl err, tree)
      | Inr _ \<Rightarrow>
     (case buildProof tree pubkey tokenID of
        (Inl err, tree) \<Rightarrow> (Inl ''build proof'', tree)
      | (Inr proof, tree) \<Rightarrow> (Inr proof, tree))))"

section \<open>Following the sequencer\<close>

lemma replay_trace:
  assumes "trace_of H G expand t tr" "\<forall>(st, t') \<in> set tr. carries K st" "solvent t" "mirrors K H t r" "Root r = Root t"
  shows "\<exists>r'. replay_transitions H r (map fst tr) = (Inr (), r') \<and> mirrors K H (end_tree t tr) r' \<and>
    Root r' = Root (end_tree t tr) \<and> solvent (end_tree t tr)"
  using assms
proof (induction H G expand t tr arbitrary: r rule: trace_of.induct)
  case (2 H G expand t st t' tr)
  have "replays H st t t'" "carries K st" using "2.prems"(1,2) by (simp_all add: records_def)
  then obtain r1 where r1: "replayTransition H r st = (Inr (), r1)" "mirrors K H t' r1" "Root r1 = Root t'"
    and solvent: "solvent t'"
    using "2.prems"(3,4) unfolding replays_def by blast
  have "trace_of H G expand t' tr" "\<forall>(st, t') \<in> set tr. carries K st" using "2.prems"(1,2) by simp_all
  from "2.IH" [OF this solvent r1(2,3)] show ?case using r1(1) by simp
qed simp

text \<open>L1 and Blobscan hold the first \<open>n\<close> sealed batches; the contract counts them from 0.\<close>

definition published ::
  "'c crypto_scheme \<Rightarrow> da_env \<Rightarrow> l1_env \<Rightarrow> string \<Rightarrow> batcher \<Rightarrow> nat \<Rightarrow> bool" where
  "published C E L api b n \<longleftrightarrow>
     n < 2 ^ 64 \<and> l1_batchCount L = Some (of_nat n) \<and>
     (\<forall>k < n. \<exists>zb payload blob blobHash p.
        GetBatch b (of_nat (k + 1)) = Some zb \<and> packBlob payload = Inr blob \<and>
        l1_batchBlobHash L (of_nat k) = Some blobHash \<and> l1_batchDataHash L (of_nat k) = Some (da_keccak E payload) \<and>
        fetchBlob L api (''0x'' @ hex_encode blobHash) = Inr blob \<and>
        decodeDAPayload E payload = Inr p \<and> dp_Transitions p = zb_Transitions zb \<and> dp_NewRoot p = zb_NewRoot zb)"

lemma SetMeta_lf: "db_inv H d t \<Longrightarrow> lf (snd (SetMeta t key v)) = lf t"
  using tree_invD(8) [OF db_inv_tree] by (simp add: SetMeta_def db_Put_def lf_put)

lemma replayOneBatch_follows:
  assumes pub: "packBlob payload = Inr blob" "l1_batchBlobHash L i = Some blobHash"
      "l1_batchDataHash L i = Some (da_keccak E payload)" "fetchBlob L api (''0x'' @ hex_encode blobHash) = Inr blob"
      "decodeDAPayload E payload = Inr p" "dp_Transitions p = map fst tr" "dp_NewRoot p = dec (Root (end_tree t tr))"
    and follow: "trace_of (mimc C) G expand t tr" "\<forall>(st, t') \<in> set tr. carries K st" "solvent t" "mirrors K (mimc C) t r" "Root r = Root t"
  shows "\<exists>r'. replayOneBatch C E L api r i = (Inr (), r') \<and> mirrors K (mimc C) (end_tree t tr) r' \<and>
    Root r' = Root (end_tree t tr) \<and> solvent (end_tree t tr)"
proof -
  obtain r' where r': "replay_transitions (mimc C) r (map fst tr) = (Inr (), r')" "mirrors K (mimc C) (end_tree t tr) r'"
    "Root r' = Root (end_tree t tr)" "solvent (end_tree t tr)"
    using replay_trace [OF follow] by blast
  have "unpackBlob blob = Inr payload" using UnpackBlob_packBlob [OF pub(1)] by (simp add: unpackers_agree)
  then show ?thesis using r' pub by (simp add: replayOneBatch_def)
qed

lemma block_at:
  assumes s: "split_batches (sent_of t tr) = (bs, rs)" and k: "k < length bs"
  shows "bs ! k = sent_of (end_tree t (take (k * BatchSize) tr)) (take BatchSize (drop (k * BatchSize) tr))"
    "k * BatchSize + BatchSize \<le> length tr"
proof -
  note p = split_props [OF s]
  have len: "length (concat xs) = length xs * BatchSize" if "\<forall>x \<in> set xs. length x = BatchSize" for xs :: "sent list"
    using that by (induction xs) simp_all
  have lk: "length (concat (take k bs)) = k * BatchSize"
    using len [of "take k bs"] p k by (auto dest: in_set_takeD simp: min_def)
  have bk: "length (bs ! k) = BatchSize" using p k nth_mem by blast
  have "concat bs = concat (take k bs) @ bs ! k @ concat (drop (Suc k) bs)"
    using id_take_nth_drop [OF k] by (metis concat.simps(2) concat_append)
  then have split: "sent_of t tr = concat (take k bs) @ bs ! k @ (concat (drop (Suc k) bs) @ rs)" using p by simp
  have total: "length tr = k * BatchSize + BatchSize + length (concat (drop (Suc k) bs) @ rs)"
    using arg_cong [OF split, of length] lk bk by simp
  then show "k * BatchSize + BatchSize \<le> length tr" by simp
  let ?pre = "take (k * BatchSize) tr" and ?rest = "drop (k * BatchSize) tr"
  let ?blk = "take BatchSize ?rest"
  have whole: "sent_of t tr = sent_of t ?pre @ sent_of (end_tree t ?pre) ?blk @
      sent_of (end_tree (end_tree t ?pre) ?blk) (drop BatchSize ?rest)"
    unfolding sent_of_append [symmetric] by (simp only: append_take_drop_id)
  have lens: "length (concat (take k bs)) = length (sent_of t ?pre)" "length (bs ! k) = length (sent_of (end_tree t ?pre) ?blk)"
    using lk bk total by simp_all
  from trans [OF split [symmetric] whole] have
    "bs ! k @ (concat (drop (Suc k) bs) @ rs) = sent_of (end_tree t ?pre) ?blk @
      sent_of (end_tree (end_tree t ?pre) ?blk) (drop BatchSize ?rest)"
    using append_eq_append_conv [of "concat (take k bs)" "sent_of t ?pre"] lens(1) by blast
  then show "bs ! k = sent_of (end_tree t ?pre) ?blk"
    using append_eq_append_conv [of "bs ! k" "sent_of (end_tree t ?pre) ?blk"] lens(2) by blast
qed

lemma replay_loop_follows:
  assumes trace: "trace_of (mimc C) G expand t tr" and s: "split_batches (sent_of t tr) = (bs, rs)"
    and pub: "published C E L api b n" and b: "b = batcher_of (mimc C) (bs, rs)" and n: "n \<le> length bs"
    and keys: "\<forall>bid zb. GetBatch b bid = Some zb \<longrightarrow> (\<forall>st \<in> set (zb_Transitions zb). carries K st)"
  shows "k \<le> n \<Longrightarrow> mirrors K (mimc C) (end_tree t (take (k * BatchSize) tr)) r \<Longrightarrow>
    Root r = Root (end_tree t (take (k * BatchSize) tr)) \<Longrightarrow> solvent (end_tree t (take (k * BatchSize) tr)) \<Longrightarrow>
    \<exists>r'. replay_loop C E L api (of_nat n) (of_nat k) r = (Inr (), r') \<and>
      mirrors K (mimc C) (end_tree t (take (n * BatchSize) tr)) r' \<and> Root r' = Root (end_tree t (take (n * BatchSize) tr))"
proof (induction "n - k" arbitrary: k r)
  case 0
  then show ?case by (subst replay_loop.simps) simp
next
  case (Suc m)
  have small: "n < 2 ^ 64" using pub by (simp add: published_def)
  have k: "k < n" using Suc.hyps(2) by simp
  let ?pre = "take (k * BatchSize) tr" and ?blk = "take BatchSize (drop (k * BatchSize) tr)"
  have "k < length bs" using k n by simp
  note blk = block_at [OF s this]
  have next_tree: "end_tree (end_tree t ?pre) ?blk = end_tree t (take (Suc k * BatchSize) tr)"
  proof -
    have "take (Suc k * BatchSize) tr = ?pre @ ?blk"
      using take_add [of "k * BatchSize" BatchSize tr] by (simp only: mult_Suc add.commute)
    moreover have "end_tree t (xs @ ys) = end_tree (end_tree t xs) ys" for xs ys by (simp add: end_tree_def)
    ultimately show ?thesis by simp
  qed
  have trace': "trace_of (mimc C) G expand (end_tree t ?pre) ?blk"
  proof -
    have "trace_of (mimc C) G expand t (?pre @ ?blk @ drop BatchSize (drop (k * BatchSize) tr))"
      using trace by (simp only: append_take_drop_id)
    then show ?thesis unfolding trace_of_append by blast
  qed
  obtain zb payload blob blobHash p where q: "GetBatch b (of_nat (k + 1)) = Some zb" "packBlob payload = Inr blob"
    "l1_batchBlobHash L (of_nat k) = Some blobHash" "l1_batchDataHash L (of_nat k) = Some (da_keccak E payload)"
    "fetchBlob L api (''0x'' @ hex_encode blobHash) = Inr blob" "decodeDAPayload E payload = Inr p"
    "dp_Transitions p = zb_Transitions zb" "dp_NewRoot p = zb_NewRoot zb"
    using pub k unfolding published_def by blast
  have "unat (of_nat (k + 1) :: u64) = k + 1" using k small by (intro unat_Suc_u64) simp
  then have zb: "zb = sealed_batch (mimc C) (of_nat (k + 1)) (bs ! k)"
    using q(1) by (auto simp: GetBatch_def b batcher_of_def split: if_splits)
  have ne: "?blk \<noteq> []" using blk(2) by (simp add: BatchSize_def)
  have tr_p: "dp_Transitions p = map fst ?blk" by (simp add: q(7) zb blk(1) sealed_batch_def open_batch_def)
  have keys_p: "\<forall>(st, t') \<in> set ?blk. carries K st"
  proof -
    have "\<forall>st \<in> set (dp_Transitions p). carries K st" unfolding q(7) using keys q(1) by blast
    then show ?thesis unfolding tr_p by auto
  qed
  have root_p: "dp_NewRoot p = dec (Root (end_tree (end_tree t ?pre) ?blk))"
    unfolding q(8) zb blk(1) by (rule sealed_roots(2) [OF ne])
  obtain r1 where r1: "replayOneBatch C E L api r (of_nat k) = (Inr (), r1)"
    "mirrors K (mimc C) (end_tree t (take (Suc k * BatchSize) tr)) r1" "Root r1 = Root (end_tree t (take (Suc k * BatchSize) tr))"
    "solvent (end_tree t (take (Suc k * BatchSize) tr))"
    using replayOneBatch_follows [OF q(2-6) tr_p root_p trace' keys_p Suc.prems(4,2,3)] unfolding next_tree by blast
  obtain r2 where r2: "SetMeta r1 lastReplayedBatchKey (be_enc 8 (unat (of_nat k :: u64))) = (Inr (), r2)"
    using SetMeta_ok(1) [OF mirrorsD(1) [OF r1(2)], of lastReplayedBatchKey "be_enc 8 (unat (of_nat k :: u64))"] by (metis prod.collapse)
  note sm = SetMeta_ok(2-4) [OF mirrorsD(1) [OF r1(2)]] and sl = SetMeta_lf [OF mirrorsD(1) [OF r1(2)]]
  have r2': "mirrors K (mimc C) (end_tree t (take (Suc k * BatchSize) tr)) r2" "Root r2 = Root r1"
    using sm sl r2 r1(2) by (simp_all add: mirrors_def) (metis snd_conv)+
  have less: "(of_nat k :: u64) < of_nat n" using k small by (simp add: word_less_nat_alt unat_of_nat)
  have "replay_loop C E L api (of_nat n) (of_nat k) r = replay_loop C E L api (of_nat n) (of_nat (Suc k)) r2"
    using less r1(1) r2 by (subst replay_loop.simps) (simp add: add.commute)
  moreover have "m = n - Suc k" "Suc k \<le> n" using Suc.hyps(2) k by simp_all
  ultimately show ?case using Suc.hyps(1) [of "Suc k" r2] r2' r1(3,4) by simp
qed

section \<open>What the tool leaves untouched\<close>

lemma SetBalance_frame:
  assumes "tree_inv H d t"
  shows "tree_inv H d (snd (SetBalance H t acc))" "same_tables t (snd (SetBalance H t acc))"
proof -
  let ?k = "balanceKey (bs_AccountID acc) (bs_TokenID acc)"
  let ?t1 = "t\<lparr>mt_kv := (mt_kv t)(?k \<mapsto> VAccount acc)\<rparr>"
  let ?w = "leaf_index (bs_AccountID acc) (bs_TokenID acc)"
  have v: "is_elem (account_leaf H acc)" by (rule account_leaf_elem [OF tree_invD(1) [OF assms]])
  have tinv: "tree_inv H d ?t1" by (rule tree_inv_put [OF assms]) simp
  have eq: "SetBalance H t acc = Update H ?t1 ?w (account_leaf H acc)"
    using tree_invD(8) [OF assms] by (simp add: SetBalance_def db_Put_def)
  show "tree_inv H d (snd (SetBalance H t acc))" unfolding eq by (rule Update_inv [OF tinv v])
  have frame: "mt_kv (snd (SetBalance H t acc)) k' = mt_kv t k'" if "text_key k'" "k' \<noteq> ?k" for k'
    unfolding eq using that by (simp add: Update_frame [OF tinv v that(1)])
  show "same_tables t (snd (SetBalance H t acc))"
    unfolding same_tables_def
    by (intro conjI allI; rule frame)
      (simp_all add: not_sym [OF text_keys(1)] not_sym [OF text_keys(2)] not_sym [OF text_keys(3)])
qed

text \<open>A tree with the ids of \<open>t\<close>.\<close>

definition ids_as :: "mtree \<Rightarrow> mtree \<Rightarrow> bool" where
  "ids_as t r \<longleftrightarrow> account_ids r = account_ids t \<and> next_id r = next_id t \<and>
     (\<forall>pk. mt_kv r (pubkeyKey pk) = mt_kv t (pubkeyKey pk)) \<and> mt_kv r nextIdKey = mt_kv t nextIdKey"

lemma ids_as_refl [simp]: "ids_as t t" and ids_as_trans: "ids_as t r \<Longrightarrow> ids_as r u \<Longrightarrow> ids_as t u"
  by (simp_all add: ids_as_def)

lemma same_tables_ids_as: "same_tables t r \<Longrightarrow> ids_as t r"
  by (simp add: same_tables_def ids_as_def account_ids_def next_id_def fun_eq_iff)

lemma applyLeg_frame:
  assumes "tree_inv H d t"
  shows "tree_inv H d (snd (applyLeg H t su px py delta nd)) \<and> ids_as t (snd (applyLeg H t su px py delta nd))"
  using SetBalance_frame [OF assms] same_tables_ids_as assms
  by (auto simp: applyLeg_def Let_def split: option.split)

lemma replay_leg_frame:
  assumes "tree_inv H d t"
    and "\<And>u. tree_inv H d u \<Longrightarrow> tree_inv H d (snd (leg u)) \<and> ids_as u (snd (leg u))"
    and "\<And>u. tree_inv H d u \<Longrightarrow> tree_inv H d (snd (rest u)) \<and> ids_as u (snd (rest u))"
  shows "tree_inv H d (snd (replay_leg act msg leg rest t)) \<and> ids_as t (snd (replay_leg act msg leg rest t))"
proof (cases "leg t")
  case (Pair out u)
  then show ?thesis
    using assms(1) assms(2) [OF assms(1)] assms(3) [of t] assms(3) [of u] ids_as_trans [of t u]
    by (auto simp: replay_leg_def split: sum.split)
qed

lemma replayTransition_frame:
  assumes "tree_inv H d t"
  shows "tree_inv H d (snd (replayTransition H t st)) \<and> ids_as t (snd (replayTransition H t st))"
proof -
  have "tree_inv H d (snd (Pair (Inr () :: unit result) u)) \<and> ids_as u (snd (Pair (Inr () :: unit result) u))"
    if "tree_inv H d u" for u using that by simp
  note legs = replay_leg_frame [OF _ applyLeg_frame replay_leg_frame [OF _ applyLeg_frame replay_leg_frame [OF _ applyLeg_frame
    replay_leg_frame [OF _ applyLeg_frame this]]]]
  show ?thesis
    using assms unfolding replayTransition_def Let_def
    by (cases "parse_dec (st_Amount st)"; cases "parse_dec (st_QuoteAmount st)")
      (simp_all only: option.case snd_conv ids_as_refl simp_thms legs)
qed

lemma replay_transitions_frame:
  "tree_inv H d t \<Longrightarrow> tree_inv H d (snd (replay_transitions H t sts)) \<and> ids_as t (snd (replay_transitions H t sts))"
proof (induction sts arbitrary: t)
  case (Cons st sts)
  obtain out u where u: "replayTransition H t st = (out, u)" by fastforce
  have "tree_inv H d u" "ids_as t u" using replayTransition_frame [OF Cons.prems, of st] u by simp_all
  then show ?case using Cons.IH [of u] u ids_as_trans by (auto split: sum.split)
qed simp

lemma SetMeta_frame:
  assumes "tree_inv H d t"
  shows "tree_inv H d (snd (SetMeta t key v)) \<and> ids_as t (snd (SetMeta t key v))"
  using tree_inv_put [OF assms, of "metaKey key" "VBytes v"] tree_invD(8) [OF assms]
  by (simp add: SetMeta_def db_Put_def ids_as_def account_ids_def next_id_def fun_eq_iff
      not_sym [OF text_keys(4)] not_sym [OF text_keys(5)])

lemma replayOneBatch_frame:
  assumes "tree_inv (mimc C) d t"
  shows "tree_inv (mimc C) d (snd (replayOneBatch C E L api t i)) \<and> ids_as t (snd (replayOneBatch C E L api t i))"
proof -
  have f: "tree_inv (mimc C) d u \<and> ids_as t u" if "replay_transitions (mimc C) t sts = (out, u)" for sts out u
    using replay_transitions_frame [OF assms, of sts] that by simp
  show ?thesis
    using assms f by (simp add: replayOneBatch_def split: option.split sum.split prod.split)
qed

lemma replay_loop_frame:
  "tree_inv (mimc C) d t \<Longrightarrow> tree_inv (mimc C) d (snd (replay_loop C E L api n i t)) \<and> ids_as t (snd (replay_loop C E L api n i t))"
proof (induction C E L api n i t rule: replay_loop.induct)
  case (1 C E L api n i t)
  obtain out u where u: "replayOneBatch C E L api t i = (out, u)" by fastforce
  obtain out' v where v: "SetMeta u lastReplayedBatchKey (be_enc 8 (unat i)) = (out', v)" by fastforce
  have fu: "tree_inv (mimc C) d u" "ids_as t u" using replayOneBatch_frame [OF "1.prems", of E L api i] u by simp_all
  have fv: "tree_inv (mimc C) d v" "ids_as u v" using SetMeta_frame [OF fu(1), of lastReplayedBatchKey "be_enc 8 (unat i)"] v by simp_all
  show ?case
    using "1.IH" u v fu fv "1.prems" ids_as_trans
    by (subst (1 2) replay_loop.simps) (auto split: sum.split)
qed

section \<open>Properties of the reconstruction\<close>

lemma readCheckpoint_new: "readCheckpoint (NewLevelDBMerkleTree H Map.empty d) = Inr 0"
  by (simp add: readCheckpoint_def GetMeta_def db_Get_def NewLevelDBMerkleTree_def)

lemma GetPath_lf:
  assumes "db_inv H 28 t" "db_inv H 28 r" "lf r = lf t"
  shows "GetPath r w = GetPath t w"
proof -
  note p = GetPath_spec [OF db_inv_tree [OF assms(1)], of w] GetPath_spec [OF db_inv_tree [OF assms(2)], of w]
  have "map unat (snd (GetPath r w)) = map unat (snd (GetPath t w))" using p(2,4) by simp
  then have "snd (GetPath r w) = snd (GetPath t w)"
    by (rule map_injective) (rule injI, simp add: word_unat_eq_iff)
  moreover have "fst (GetPath r w) = fst (GetPath t w)" using p(1,3) assms(3) by simp
  ultimately show ?thesis by (simp add: prod_eq_iff)
qed

lemma replay_recovers:
  assumes laws: "gnark_laws (mimc C) G"
    and run: "seq_run C G expand (NewLevelDBMerkleTree (mimc C) Map.empty 28, NewBatcher) n (t', b')"
    and pub: "published C E L api b' (n div BatchSize)" and small: "n div BatchSize + 1 < 2 ^ 64"
    and sealed: "GetLatestBatch b' = Some zb" and chain: "l1_stateRoot L = Some sr" "dec (int (be_dec sr)) = zb_NewRoot zb"
    and keys: "\<forall>bid zb. GetBatch b' bid = Some zb \<longrightarrow> (\<forall>st \<in> set (zb_Transitions zb). carries K st)"
  shows "\<exists>r. replayAllBatches C E L api (NewLevelDBMerkleTree (mimc C) Map.empty 28) = (Inr (), r) \<and>
    verifyAgainstOnChainRoot L r = Inr () \<and> zb_NewRoot zb = dec (Root r) \<and>
    (n mod BatchSize = 0 \<longrightarrow> mirrors K (mimc C) t' r \<and> Root r = Root t' \<and> (\<forall>w. GetPath r w = GetPath t' w))"
proof -
  let ?t = "NewLevelDBMerkleTree (mimc C) Map.empty 28"
  have canon: "canonical (mimc C)" using laws by (simp add: gnark_laws_def)
  note new = New_db_inv [OF canon, of 28, simplified]
  obtain tr where tr: "length tr = n" "trace_of (mimc C) G expand ?t tr" "b' = send (mimc C) (sent_of ?t tr)"
    "t' = end_tree ?t tr" "db_inv (mimc C) 28 t'"
    using seq_run_trace [OF run laws] new(1,3) by (auto simp: send_def)
  obtain bs rs where s: "split_batches (sent_of ?t tr) = (bs, rs)" by fastforce
  have b: "b' = batcher_of (mimc C) (bs, rs)" using send_batcher_of [of "sent_of ?t tr" "mimc C"] small s tr by simp
  have len: "length bs = n div BatchSize" using split_count [OF s] tr(1) by simp
  have solvent: "solvent ?t" by (simp add: solvent_def new(2))
  obtain r where r: "replay_loop C E L api (of_nat (n div BatchSize)) (of_nat 0) ?t = (Inr (), r)"
    "mirrors K (mimc C) (end_tree ?t (take (n div BatchSize * BatchSize) tr)) r" "Root r = Root (end_tree ?t (take (n div BatchSize * BatchSize) tr))"
    using replay_loop_follows [OF tr(2) s pub b _ keys, of 0 ?t] len mirrors_refl [OF new(1,2)] solvent by auto
  have all: "replayAllBatches C E L api ?t = (Inr (), r)"
    using pub r(1) by (simp add: replayAllBatches_def readCheckpoint_new published_def)
  have bs: "bs \<noteq> []" "zb = sealed_batch (mimc C) (of_nat (length bs)) (last bs)"
    using sealed by (auto simp: GetLatestBatch_def b batcher_of_def split: if_splits)
  then have k: "length bs - 1 < length bs" "last bs = bs ! (length bs - 1)" by (simp_all add: last_conv_nth)
  note blk = block_at [OF s k(1)]
  let ?pre = "take ((length bs - 1) * BatchSize) tr" and ?blk = "take BatchSize (drop ((length bs - 1) * BatchSize) tr)"
  have ne: "?blk \<noteq> []" using blk(2) by (simp add: BatchSize_def)
  have "take (n div BatchSize * BatchSize) tr = ?pre @ ?blk"
  proof -
    have "n div BatchSize * BatchSize = (length bs - 1) * BatchSize + BatchSize"
      unfolding len [symmetric] using bs(1) by (cases bs) simp_all
    then show ?thesis using take_add [of "(length bs - 1) * BatchSize" BatchSize tr] by simp
  qed
  then have "end_tree ?t (take (n div BatchSize * BatchSize) tr) = end_tree (end_tree ?t ?pre) ?blk"
    using ne by (simp add: end_tree_def)
  then have new_root: "zb_NewRoot zb = dec (Root r)"
    unfolding bs(2) k(2) blk(1) sealed_roots(2) [OF ne] using r(3) by simp
  then have "verifyAgainstOnChainRoot L r = Inr ()" using chain by (simp add: verifyAgainstOnChainRoot_def)
  moreover have "mirrors K (mimc C) t' r \<and> Root r = Root t' \<and> (\<forall>w. GetPath r w = GetPath t' w)" if "n mod BatchSize = 0"
  proof -
    have "n div BatchSize * BatchSize = n" using div_mult_mod_eq [of n BatchSize] that by (simp only: add_0_right)
    then have "take (n div BatchSize * BatchSize) tr = tr" using tr(1) by (simp only: take_all order_refl)
    then have m: "mirrors K (mimc C) t' r" "Root r = Root t'" using r(2,3) tr(4) by (simp_all only:)
    then show ?thesis using GetPath_lf [OF tr(5) mirrorsD(1,2) [OF m(1)]] by blast
  qed
  ultimately show ?thesis using all new_root by (intro exI [of _ r] conjI impI) simp_all
qed


text \<open>An L1 and a Blobscan that hold one batch.\<close>

definition demo_da :: "zk_batch \<Rightarrow> da_env" where
  "demo_da zb = demo_env\<lparr>da_unmarshal := (\<lambda>raw. Inr \<lparr>dp_Version = 1, dp_BatchID = zb_BatchID zb, dp_OldRoot = zb_OldRoot zb,
     dp_NewRoot = zb_NewRoot zb, dp_WithdrawalHash = zb_WithdrawalHash zb, dp_DepositHash = zb_DepositHash zb,
     dp_Transitions = zb_Transitions zb\<rparr>)\<rparr>"

definition demo_l1 :: "bytes \<Rightarrow> bytes \<Rightarrow> l1_env" where
  "demo_l1 root blob =
     \<lparr>l1_batchCount = Some 1, l1_batchBlobHash = (\<lambda>_. Some ''h''), l1_batchDataHash = (\<lambda>_. Some (zero_bytes 32)),
      l1_stateRoot = Some root, l1_http = (\<lambda>url. Some (200, if url = ''u'' then blob else ''meta'', False)),
      l1_parseMeta = (\<lambda>_. Inr [\<lparr>sr_Storage = ''ipfs'', sr_URL = ''u''\<rparr>])\<rparr>"

lemma demo_published:
  assumes "GetBatch b 1 = Some zb" "packBlob ''p'' = Inr blob"
  shows "published demo_scheme (demo_da zb) (demo_l1 root blob) [] b 1"
proof -
  have "length blob = blobLimbs * 32" using packBlob_packed(1) [OF assms(2)] by (simp add: packed_upto_def)
  then have "fetchBlob (demo_l1 root blob) [] (''0x'' @ hex_encode ''h'') = Inr blob"
    by (simp add: fetchBlob_def demo_l1_def)
  moreover have "decodeDAPayload (demo_da zb) ''p'' = Inr \<lparr>dp_Version = 1, dp_BatchID = zb_BatchID zb, dp_OldRoot = zb_OldRoot zb,
     dp_NewRoot = zb_NewRoot zb, dp_WithdrawalHash = zb_WithdrawalHash zb, dp_DepositHash = zb_DepositHash zb,
     dp_Transitions = zb_Transitions zb\<rparr>"
    by (simp add: decodeDAPayload_def gzipDecompress_def demo_da_def demo_env_def read_limited_def MaxDecompressedPayloadLen_def)
  moreover have "da_keccak (demo_da zb) ''p'' = zero_bytes 32" by (simp add: demo_da_def demo_env_def)
  ultimately show ?thesis
    using assms unfolding published_def
    by (intro conjI allI impI, simp_all add: demo_l1_def)
      (rule exI [of _ "''p''"], simp)
qed


text \<open>
  C39: the proof of the reconstruction ignores the key. Replay writes balances but never a key's
  account id, so whatever L1 and Blobscan hold, and whoever asks, the first proof built on a
  freshly reconstructed tree is that of account 0, the same for every key.
\<close>
theorem reconstruct_proof_ignores_key:
  assumes canon: "canonical (mimc C)"
    and run: "reconstruct_run C E L api pubkey tok (NewLevelDBMerkleTree (mimc C) Map.empty 28) = (Inr p, t')"
  shows "po_AccountID p = 0 \<and>
    (\<exists>t''. reconstruct_run C E L api pubkey' tok (NewLevelDBMerkleTree (mimc C) Map.empty 28) =
       (Inr (p\<lparr>po_PubKey := pubkey'\<rparr>), t''))"
proof -
  let ?t = "NewLevelDBMerkleTree (mimc C) Map.empty 28"
  note new = New_db_inv [OF canon, of 28, simplified]
  obtain r where r: "replayAllBatches C E L api ?t = (Inr (), r)" "verifyAgainstOnChainRoot L r = Inr ()"
    using run by (auto simp: reconstruct_run_def split: prod.splits sum.splits)
  have fr: "tree_inv (mimc C) 28 r" "ids_as ?t r"
  proof -
    obtain n where "replay_loop C E L api n 0 ?t = (Inr (), r)"
      using r(1) by (auto simp: replayAllBatches_def readCheckpoint_new split: option.splits)
    then show "tree_inv (mimc C) 28 r" "ids_as ?t r"
      using replay_loop_frame [OF db_inv_tree [OF new(1)], of E L api n 0] by simp_all
  qed
  have faults: "no_faults r" using fr(1) by (simp add: tree_inv_def)
  have none: "mt_kv r (pubkeyKey pk) = None" "mt_kv r nextIdKey = None" for pk
    using fr(2) by (simp_all add: ids_as_def NewLevelDBMerkleTree_def)
  have ids: "ids_inv r" by (rule ids_inv_start [OF faults none])
  have acc: "account_ids r pk = None" "next_id r = 0" for pk by (simp_all add: account_ids_def next_id_def none)
  have id: "GetAccountID r pk = (Inr 0, with_id r (trim_prefix ''0x'' pk))" for pk
    by (simp add: GetAccountID_ok [OF ids] acc)
  have same: "GetBalance (with_id r pk) 0 tok = GetBalance r 0 tok" "GetPath (with_id r pk) w = GetPath r w" for pk w
  proof -
    have g: "mt_depth r < 2 ^ 24" using tree_invD(2,3) [OF fr(1)] by simp
    show "GetBalance (with_id r pk) 0 tok = GetBalance r 0 tok"
      by (simp add: GetBalance_def db_Get_def with_id_def not_sym [OF text_keys(2)] not_sym [OF text_keys(3)])
    have "getNode (with_id r pk) l i = getNode r l i" if "l < 2 ^ 24" for l i
    proof -
      have "with_id r pk = (r\<lparr>mt_kv := (mt_kv r)(nextIdKey \<mapsto> VBytes (be_enc 8 (unat (next_id r + 1))))\<rparr>)
        \<lparr>mt_kv := (mt_kv (r\<lparr>mt_kv := (mt_kv r)(nextIdKey \<mapsto> VBytes (be_enc 8 (unat (next_id r + 1))))\<rparr>))
           (pubkeyKey pk \<mapsto> VBytes (be_enc 8 (unat (next_id r))))\<rparr>"
        by (simp add: with_id_def)
      then show ?thesis using that by (simp only: getNode_put [OF text_key_all(3)] getNode_put [OF text_key_all(4)])
    qed
    then have "GetPath_loop (with_id r pk) i n w = GetPath_loop r i n w" if "i + n < 2 ^ 24" for i n
      using that by (induction n arbitrary: i w) simp_all
    moreover have "mt_depth (with_id r pk) = mt_depth r" by (simp add: with_id_def)
    ultimately show "GetPath (with_id r pk) w = GetPath r w" using g by (simp add: GetPath_def)
  qed
  show ?thesis
    using run by (auto simp: reconstruct_run_def r buildProof_def proof_value_def leaf_index_def id same Let_def split: sum.splits prod.splits)
qed

text \<open>L1 before its first batch: the tool then builds the proof on the empty tree.\<close>

definition empty_l1 :: l1_env where
  "empty_l1 = (demo_l1 (be_enc 32 (nat (Root demo_db))) [])\<lparr>l1_batchCount := Some 0\<rparr>"

lemma reconstruct_empty:
  "\<exists>p t'. reconstruct_run demo_scheme demo_env empty_l1 [] pubkey 0 demo_db = (Inr p, t')"
proof -
  have "Root demo_db = int (be_dec (be_enc 32 (nat (Root demo_db))))"
  proof -
    have "0 \<le> Root demo_db" "Root demo_db < fr_modulus" using Root_canonical [OF demo_db_inv(1)] fr_range by metis+
    then show ?thesis by (simp add: be_dec_enc fr_modulus_def)
  qed
  then have v: "verifyAgainstOnChainRoot empty_l1 demo_db = Inr ()"
    by (simp add: verifyAgainstOnChainRoot_def empty_l1_def demo_l1_def)
  have r: "replayAllBatches demo_scheme demo_env empty_l1 [] demo_db = (Inr (), demo_db)"
    using readCheckpoint_new [of "mimc_hash []" 28]
    by (simp add: replayAllBatches_def demo_db_def empty_l1_def demo_l1_def replay_loop.simps)
  have none: "account_ids demo_db pk = None" for pk by (simp add: account_ids_def demo_db_def NewLevelDBMerkleTree_def)
  have zero: "next_id demo_db = 0" by (simp add: next_id_def demo_db_def NewLevelDBMerkleTree_def)
  have "GetBalance (with_id demo_db pk) 0 0 = Inr None" for pk
    by (simp add: GetBalance_def db_Get_def with_id_def not_sym [OF text_keys(2)] not_sym [OF text_keys(3)])
      (simp add: demo_db_def NewLevelDBMerkleTree_def)
  then show ?thesis
    by (simp add: reconstruct_run_def r v buildProof_def proof_value_def GetAccountID_ok [OF demo_db_inv(2)] none zero Let_def split_beta)
qed

theorem reconstruct_proof_ignores_key_witness:
  "\<exists>p t' t''. reconstruct_run demo_scheme demo_env empty_l1 [] ''aa'' 0 (NewLevelDBMerkleTree (mimc_hash []) Map.empty 28) = (Inr p, t') \<and>
     po_AccountID p = 0 \<and>
     reconstruct_run demo_scheme demo_env empty_l1 [] ''bb'' 0 (NewLevelDBMerkleTree (mimc_hash []) Map.empty 28) =
       (Inr (p\<lparr>po_PubKey := ''bb''\<rparr>), t'')"
proof -
  obtain p t' where run: "reconstruct_run demo_scheme demo_env empty_l1 [] ''aa'' 0 demo_db = (Inr p, t')"
    using reconstruct_empty by blast
  have "NewLevelDBMerkleTree (mimc demo_scheme) Map.empty 28 = demo_db" by (simp add: demo_db_def demo_mimc_laws(2))
  moreover have "canonical (mimc demo_scheme)" using demo_mimc_laws(1) by (simp add: gnark_laws_def)
  ultimately have "po_AccountID p = 0 \<and> (\<exists>t''. reconstruct_run demo_scheme demo_env empty_l1 [] ''bb'' 0 demo_db =
      (Inr (p\<lparr>po_PubKey := ''bb''\<rparr>), t''))"
    using reconstruct_proof_ignores_key [of demo_scheme demo_env empty_l1 "[]" "''aa''" 0 p t' "''bb''"] run by simp
  then show ?thesis using run unfolding demo_db_def [symmetric] by blast
qed

end
