(* ===== verification/Rollup.thy ===== *)
theory Rollup imports Field Types begin

text \<open>
  The settlement contract, contracts/src/NowaRollup.sol, that the prover, claim-escape and
  reconstruct-proof talk to: its storage and every external function. A call takes the message
  (sender, timestamp, blob hash) and the storage, and returns the new storage, or \<open>None\<close> for a
  revert. \<open>MiMC.hash\<close> is the library gen\_mimc.go emits; the verifier, Keccak and the tokens are
  parameters. Re-entrant calls of a token are not modelled.
\<close>

type_synonym u256 = "256 word"
type_synonym address = "160 word"

section \<open>Storage\<close>

datatype erc20_call = TransferFrom address address u256 | Transfer address u256

datatype log_entry =
    Called address erc20_call
  | TokenRegistered u32 address
  | Deposited address u32 u256 u256 u256
  | Withdrawal address u32 u256
  | EscapeWithdrawal address u32 u256 u256
  | StateTransitionEvent u64 u256 u256 u256 u256 u256 u256

record rollup =
  ru_stateRoot :: u256
  ru_batchCount :: u64
  ru_tokens :: "u32 \<Rightarrow> address"
  ru_tokenIds :: "address \<Rightarrow> u32"
  ru_nextTokenId :: u32
  ru_batchBlobHash :: "u64 \<Rightarrow> u256"
  ru_batchDataHash :: "u64 \<Rightarrow> u256"
  ru_isProver :: "address \<Rightarrow> bool"
  ru_owner :: address
  ru_escapeTimeout :: u256
  ru_lastBatchAt :: u256
  ru_depositorOf :: "u256 \<Rightarrow> address"
  ru_escapeWithdrawn :: "u256 \<Rightarrow> bool"
  ru_log :: "log_entry list"

text \<open>
  What the contract calls: \<open>Verifier.verifyProof\<close> (a revert is \<open>False\<close>), Keccak of
  \<open>abi.encode(pubKeyX, pubKeyY)\<close>, and a token call that succeeds and returns nothing or true.
\<close>

record chain_env =
  ch_constants :: "int list"
  ch_verifyProof :: "u256 list \<Rightarrow> u256 list \<Rightarrow> bool"
  ch_keccak :: "u256 \<Rightarrow> u256 \<Rightarrow> u256"
  ch_token :: "address \<Rightarrow> erc20_call \<Rightarrow> bool"

record message =
  msg_sender :: address
  block_timestamp :: u256
  tx_blobhash :: u256

definition new_rollup :: "message \<Rightarrow> u256 \<Rightarrow> u256 \<Rightarrow> rollup" where
  "new_rollup m initialStateRoot escapeTimeout =
     \<lparr>ru_stateRoot = initialStateRoot, ru_batchCount = 0, ru_tokens = (\<lambda>_. 0), ru_tokenIds = (\<lambda>_. 0),
      ru_nextTokenId = 1, ru_batchBlobHash = (\<lambda>_. 0), ru_batchDataHash = (\<lambda>_. 0),
      ru_isProver = (\<lambda>a. a = msg_sender m), ru_owner = msg_sender m, ru_escapeTimeout = escapeTimeout,
      ru_lastBatchAt = block_timestamp m, ru_depositorOf = (\<lambda>_. 0), ru_escapeWithdrawn = (\<lambda>_. False), ru_log = []\<rparr>"

definition emit :: "log_entry list \<Rightarrow> rollup \<Rightarrow> rollup" where
  "emit es r = r\<lparr>ru_log := ru_log r @ es\<rparr>"

section \<open>Administration and deposits\<close>

definition setStateRoot :: "message \<Rightarrow> u256 \<Rightarrow> rollup \<Rightarrow> rollup option" where
  "setStateRoot m root r =
     (if msg_sender m \<noteq> ru_owner r then None
      else if ru_batchCount r \<noteq> 0 then None
      else Some (r\<lparr>ru_stateRoot := root\<rparr>))"

definition setProver :: "message \<Rightarrow> address \<Rightarrow> bool \<Rightarrow> rollup \<Rightarrow> rollup option" where
  "setProver m prover allowed r =
     (if msg_sender m \<noteq> ru_owner r then None
      else Some (r\<lparr>ru_isProver := (ru_isProver r)(prover := allowed)\<rparr>))"

definition registerToken :: "message \<Rightarrow> address \<Rightarrow> rollup \<Rightarrow> rollup option" where
  "registerToken m tokenAddress r =
     (if msg_sender m \<noteq> ru_owner r then None
      else if ru_tokenIds r tokenAddress \<noteq> 0 then None
      else if \<not> ru_nextTokenId r < 256 then None
      else
        let tokenId = ru_nextTokenId r
        in Some (emit [TokenRegistered tokenId tokenAddress]
             (r\<lparr>ru_nextTokenId := tokenId + 1, ru_tokens := (ru_tokens r)(tokenId := tokenAddress),
                ru_tokenIds := (ru_tokenIds r)(tokenAddress := tokenId)\<rparr>)))"

text \<open>\<open>this\<close> is the contract's own address.\<close>

definition deposit_call ::
  "chain_env \<Rightarrow> address \<Rightarrow> message \<Rightarrow> u32 \<Rightarrow> u256 \<Rightarrow> u256 \<Rightarrow> u256 \<Rightarrow> rollup \<Rightarrow> rollup option" where
  "deposit_call Ch self m tokenId amount pubKeyX pubKeyY r =
     (let tokenAddress = ru_tokens r tokenId;
          call = TransferFrom (msg_sender m) self amount;
          key = ch_keccak Ch pubKeyX pubKeyY
      in if tokenAddress = 0 then None
      else if \<not> 0 < amount then None
      else if \<not> ch_token Ch tokenAddress call then None
      else
        let r = (if ru_depositorOf r key = 0 then r\<lparr>ru_depositorOf := (ru_depositorOf r)(key := msg_sender m)\<rparr> else r)
        in Some (emit [Called tokenAddress call, Deposited (msg_sender m) tokenId amount pubKeyX pubKeyY] r))"

definition withdraw_call :: "chain_env \<Rightarrow> message \<Rightarrow> u32 \<Rightarrow> u256 \<Rightarrow> rollup \<Rightarrow> rollup option" where
  "withdraw_call Ch m tokenId amount r =
     (let tokenAddress = ru_tokens r tokenId; call = Transfer (msg_sender m) amount
      in if msg_sender m \<noteq> ru_owner r then None
      else if tokenAddress = 0 then None
      else if \<not> ch_token Ch tokenAddress call then None
      else Some (emit [Called tokenAddress call, Withdrawal (msg_sender m) tokenId amount] r))"

section \<open>Settlement\<close>

definition submitBatch ::
  "chain_env \<Rightarrow> message \<Rightarrow> u256 list \<Rightarrow> u256 \<Rightarrow> u256 \<Rightarrow> u256 \<Rightarrow> u256 \<Rightarrow> u256 \<Rightarrow> rollup \<Rightarrow> rollup option" where
  "submitBatch Ch m proof oldRoot newRoot withdrawalHash depositHash dataHash r =
     (if \<not> ru_isProver r (msg_sender m) then None
      else if oldRoot \<noteq> ru_stateRoot r then None
      else if dataHash = 0 then None
      else if tx_blobhash m = 0 then None
      else if \<not> ch_verifyProof Ch proof [oldRoot, newRoot, withdrawalHash, depositHash] then None
      else
        let batchId = ru_batchCount r
        in if batchId = - 1 then None
        else Some (emit [StateTransitionEvent batchId oldRoot newRoot withdrawalHash depositHash (tx_blobhash m) dataHash]
          (r\<lparr>ru_batchCount := batchId + 1, ru_stateRoot := newRoot,
             ru_batchBlobHash := (ru_batchBlobHash r)(batchId := tx_blobhash m),
             ru_batchDataHash := (ru_batchDataHash r)(batchId := dataHash),
             ru_lastBatchAt := block_timestamp m\<rparr>)))"

section \<open>The escape hatch\<close>

record escape_call =
  ec_tokenId :: u32
  ec_balance :: u256
  ec_nonce :: u256
  ec_pubX :: u256
  ec_pubY :: u256
  ec_index :: u256
  ec_siblings :: "u256 list"
  ec_pathBits :: "bool list"

definition accountLeaf_sol :: "int list \<Rightarrow> u256 \<Rightarrow> u256 \<Rightarrow> u256 \<Rightarrow> u256 \<Rightarrow> u256 \<Rightarrow> int" where
  "accountLeaf_sol cs index pubX pubY balance nonce =
     mimc_hash cs [uint index, uint pubX, uint pubY, uint balance, uint nonce]"

fun foldMerklePath :: "int list \<Rightarrow> int \<Rightarrow> u256 list \<Rightarrow> bool list \<Rightarrow> int" where
  "foldMerklePath cs cur (s # siblings) (b # pathBits) =
     foldMerklePath cs (if b then mimc_hash cs [uint s, cur] else mimc_hash cs [cur, uint s]) siblings pathBits"
| "foldMerklePath cs cur _ _ = cur"

definition emergencyWithdraw :: "chain_env \<Rightarrow> message \<Rightarrow> escape_call \<Rightarrow> rollup \<Rightarrow> rollup option" where
  "emergencyWithdraw Ch m p r =
     (if uint (ru_lastBatchAt r) + uint (ru_escapeTimeout r) \<ge> 2 ^ 256 then None
      else if \<not> uint (block_timestamp m) > uint (ru_lastBatchAt r) + uint (ru_escapeTimeout r) then None
      else if ec_index p mod 256 \<noteq> ucast (ec_tokenId p) then None
      else if ru_depositorOf r (ch_keccak Ch (ec_pubX p) (ec_pubY p)) \<noteq> msg_sender m then None
      else if ru_escapeWithdrawn r (ec_index p) then None
      else
        let leaf = accountLeaf_sol (ch_constants Ch) (ec_index p) (ec_pubX p) (ec_pubY p) (ec_balance p) (ec_nonce p);
            root = foldMerklePath (ch_constants Ch) leaf (ec_siblings p) (ec_pathBits p)
        in if word_of_int root \<noteq> ru_stateRoot r then None
        else
          let r = r\<lparr>ru_escapeWithdrawn := (ru_escapeWithdrawn r)(ec_index p := True)\<rparr>;
              tokenAddress = ru_tokens r (ec_tokenId p);
              call = Transfer (msg_sender m) (ec_balance p)
          in if tokenAddress = 0 then None
          else if \<not> ch_token Ch tokenAddress call then None
          else Some (emit [Called tokenAddress call,
                           EscapeWithdrawal (msg_sender m) (ec_tokenId p) (ec_index p) (ec_balance p)] r))"

section \<open>The library reduces what it hashes\<close>

lemma mimc_encrypt_mod: "mimc_encrypt cs (m mod fr_modulus) k = mimc_encrypt cs m k"
  by (cases cs) (simp_all add: mimc_encrypt_def mimc_round_def Let_def mod_simps)

lemma mimc_chain_fr: "mimc_chain cs h (map fr xs) = mimc_chain cs h xs"
  by (induction cs h xs rule: mimc_chain.induct) (simp_all add: fr_def mimc_encrypt_mod Let_def mod_simps)

lemma mimc_hash_fr: "mimc_hash cs (map fr xs) = mimc_hash cs xs"
  by (simp add: mimc_hash_def mimc_chain_fr)

lemma mimc_hash_cong: "map fr xs = map fr ys \<Longrightarrow> mimc_hash cs xs = mimc_hash cs ys"
  by (metis mimc_hash_fr)

end
