(* ===== verification/Escape.thy ===== *)
theory Escape imports ServerAPI Rollup SequencerRun begin

text \<open>
  The escape hatch end to end: claim-escape (sequencer/cmd/claim-escape/main.go), which turns the
  sequencer's \<open>/proof\<close> response, or a proof file, into a call of \<open>emergencyWithdraw\<close>. HTTP, files,
  environment variables and the Ethereum client are the record \<open>claim_env\<close>; an exit with status 1
  carries its message, and a panic is an exit.
\<close>

section \<open>claim-escape\<close>

record proof_response =
  pr_Index :: u64
  pr_Balance :: string
  pr_Nonce :: u64
  pr_PubKeyX :: string
  pr_PubKeyY :: string
  pr_Siblings :: "string list"
  pr_PathBits :: "int list"

record escape_proof =
  ep_TokenId :: u32
  ep_Balance :: int
  ep_Nonce :: int
  ep_PubX :: int
  ep_PubY :: int
  ep_Index :: int
  ep_Siblings :: "bytes list"
  ep_PathBits :: "bool list"

text \<open>
  The keys and signers of the Ethereum client are opaque strings. \<open>ce_transact\<close> sends the call and
  gives the transaction's hash, \<open>ce_waitMined\<close> the receipt's status and block.
  \<open>ce_deploymentsPath\<close> is .nowa-zk/deployments.json in the home directory.
\<close>

record claim_env =
  ce_getenv :: "string \<Rightarrow> string"
  ce_readFile :: "string \<Rightarrow> bytes option"
  ce_deploymentsPath :: string
  ce_deployments :: "bytes \<Rightarrow> (string \<Rightarrow> string) option"
  ce_http :: "string \<Rightarrow> (nat \<times> bytes) option"
  ce_proofJSON :: "bytes \<Rightarrow> proof_response option"
  ce_pack :: "escape_proof \<Rightarrow> bytes result"
  ce_dial :: "string \<Rightarrow> bool"
  ce_hexToECDSA :: "string \<Rightarrow> string option"
  ce_networkID :: "int option"
  ce_transactor :: "string \<Rightarrow> int \<Rightarrow> string option"
  ce_transact :: "string \<Rightarrow> string \<Rightarrow> escape_proof \<Rightarrow> string result"
  ce_waitMined :: "string \<Rightarrow> (nat \<times> int) result"

definition loadContractFromDeployments :: "claim_env \<Rightarrow> string" where
  "loadContractFromDeployments E =
     (case ce_readFile E (ce_deploymentsPath E) of
        None \<Rightarrow> []
      | Some data \<Rightarrow> (case ce_deployments E data of None \<Rightarrow> [] | Some deployments \<Rightarrow> deployments ''NowaRollup''))"

definition right_lengths :: "proof_response \<Rightarrow> bool" where
  "right_lengths pr \<longleftrightarrow> length (pr_Siblings pr) = 28 \<and> length (pr_PathBits pr) = 28"

definition fetchProof :: "claim_env \<Rightarrow> string \<Rightarrow> string \<Rightarrow> u32 \<Rightarrow> proof_response result" where
  "fetchProof E sequencerURL pubkey tokenID =
     (case ce_http E (sequencerURL @ ''/proof?pubkey='' @ pubkey @ ''&token_id='' @ dec_nat (unat tokenID)) of
        None \<Rightarrow> Inl ''connect to Sequencer''
      | Some (status, body) \<Rightarrow>
          if status \<noteq> 200 then Inl ''Sequencer returned''
          else (case ce_proofJSON E body of
                  None \<Rightarrow> Inl ''decode response''
                | Some pr \<Rightarrow> if \<not> right_lengths pr then Inl ''expected 28 siblings/path_bits'' else Inr pr))"

definition readProofFile :: "claim_env \<Rightarrow> string \<Rightarrow> proof_response result" where
  "readProofFile E path =
     (case ce_readFile E path of
        None \<Rightarrow> Inl ''read''
      | Some body \<Rightarrow>
          (case ce_proofJSON E body of
             None \<Rightarrow> Inl ''decode''
           | Some pr \<Rightarrow> if \<not> right_lengths pr then Inl ''expected 28 siblings/path_bits'' else Inr pr))"

text \<open>
  The loop over the siblings. \<open>FillBytes\<close> writes the absolute value and panics when it does not fit;
  the loop's index is out of range, a panic, when the response has fewer than 28 entries.
\<close>

fun fill_siblings :: "nat \<Rightarrow> string list \<Rightarrow> int list \<Rightarrow> (bytes list \<times> bool list) result" where
  "fill_siblings 0 ss bs = Inr ([], [])"
| "fill_siblings (Suc n) (s # ss) (b # bs) =
     (case parse_dec s of
        None \<Rightarrow> Inl ''invalid sibling''
      | Some v \<Rightarrow>
          if \<not> \<bar>v\<bar> < 2 ^ 256 then Inl ''panic: math/big: buffer too small to fit value''
          else (case fill_siblings n ss bs of
                  Inl err \<Rightarrow> Inl err
                | Inr (sibs, bits) \<Rightarrow> Inr (be_enc 32 (nat \<bar>v\<bar>) # sibs, (b = 1) # bits)))"
| "fill_siblings (Suc n) (s # ss) [] =
     (case parse_dec s of
        None \<Rightarrow> Inl ''invalid sibling''
      | Some v \<Rightarrow> if \<not> \<bar>v\<bar> < 2 ^ 256 then Inl ''panic: math/big: buffer too small to fit value''
                  else Inl ''panic: index out of range'')"
| "fill_siblings (Suc n) [] bs = Inl ''panic: index out of range''"

definition toEscapeProof :: "proof_response \<Rightarrow> u32 \<Rightarrow> escape_proof result" where
  "toEscapeProof pr tokenID =
     (case parse_dec (pr_Balance pr) of
        None \<Rightarrow> Inl ''invalid balance''
      | Some balance \<Rightarrow>
     (case parse_dec (pr_PubKeyX pr) of
        None \<Rightarrow> Inl ''invalid pub_key_x''
      | Some pubX \<Rightarrow>
     (case parse_dec (pr_PubKeyY pr) of
        None \<Rightarrow> Inl ''invalid pub_key_y''
      | Some pubY \<Rightarrow>
     (case fill_siblings 28 (pr_Siblings pr) (pr_PathBits pr) of
        Inl err \<Rightarrow> Inl err
      | Inr (sibs, bits) \<Rightarrow>
          Inr \<lparr>ep_TokenId = tokenID, ep_Balance = balance, ep_Nonce = uint (pr_Nonce pr), ep_PubX = pubX, ep_PubY = pubY,
               ep_Index = uint (pr_Index pr), ep_Siblings = sibs, ep_PathBits = bits\<rparr>))))"

definition submit :: "claim_env \<Rightarrow> string \<Rightarrow> string \<Rightarrow> string \<Rightarrow> escape_proof \<Rightarrow> string result" where
  "submit E rpcURL privateKeyHex contractAddr ep =
     (if \<not> ce_dial E rpcURL then Inl ''dial L1 RPC''
      else case ce_hexToECDSA E (trim_prefix ''0x'' privateKeyHex) of
        None \<Rightarrow> Inl ''parse private key''
      | Some priv \<Rightarrow>
     (case ce_networkID E of
        None \<Rightarrow> Inl ''get chain ID''
      | Some chainID \<Rightarrow>
     (case ce_transactor E priv chainID of
        None \<Rightarrow> Inl ''build transactor''
      | Some auth \<Rightarrow>
     (case ce_transact E auth contractAddr ep of
        Inl err \<Rightarrow> Inl ''send transaction''
      | Inr tx \<Rightarrow>
     (case ce_waitMined E tx of
        Inl err \<Rightarrow> Inl ''wait for receipt''
      | Inr (status, block) \<Rightarrow> if status = 0 then Inl ''transaction reverted'' else Inr tx)))))"

record claim_flags =
  fl_sequencerURL :: string
  fl_proofFile :: string
  fl_rpcURL :: string
  fl_contract :: string
  fl_privateKey :: string
  fl_pubkey :: string
  fl_tokenID :: u64
  fl_dryRun :: bool
  fl_printCalldata :: bool

datatype claim_outcome = Exit string | DryRun escape_proof | Calldata bytes | Submitted string

definition or_else :: "string \<Rightarrow> string \<Rightarrow> string" where
  "or_else s dflt = (if s = [] then dflt else s)"

definition claim_main :: "claim_env \<Rightarrow> claim_flags \<Rightarrow> claim_outcome" where
  "claim_main E fl =
     (if fl_pubkey fl = [] then Exit ''--pubkey is required''
      else
        let rpcURL = or_else (fl_rpcURL fl) (ce_getenv E ''L1_RPC_URL'');
            privateKeyHex = or_else (fl_privateKey fl) (ce_getenv E ''PRIVATE_KEY'');
            contractAddr = or_else (fl_contract fl) (loadContractFromDeployments E);
            tokenID = ucast (fl_tokenID fl);
            fetched = (if fl_proofFile fl \<noteq> [] then readProofFile E (fl_proofFile fl)
                       else fetchProof E (fl_sequencerURL fl) (fl_pubkey fl) tokenID)
        in (case fetched of
              Inl err \<Rightarrow> Exit ''Failed to get proof''
            | Inr pr \<Rightarrow>
           (case toEscapeProof pr tokenID of
              Inl err \<Rightarrow> Exit ''Failed to build proof struct''
            | Inr ep \<Rightarrow>
                if fl_dryRun fl then DryRun ep
                else if fl_printCalldata fl
                then (case ce_pack E ep of Inl err \<Rightarrow> Exit ''pack err'' | Inr packed \<Rightarrow> Calldata packed)
                else if rpcURL = [] then Exit ''No RPC URL''
                else if privateKeyHex = [] then Exit ''No private key''
                else if contractAddr = [] then Exit ''No contract address''
                else (case submit E rpcURL privateKeyHex contractAddr ep of
                        Inl err \<Rightarrow> Exit ''Transaction failed''
                      | Inr txHash \<Rightarrow> Submitted txHash))))"

section \<open>What the contract receives\<close>

text \<open>
  The fields of \<open>/proof\<close>'s JSON that \<open>proofResponse\<close> declares, and the struct the contract is
  called with; \<open>abi.Pack\<close> matches fields by name and packs a \<open>big.Int\<close> as a uint256.
\<close>

definition response_of :: "proof_output \<Rightarrow> proof_response" where
  "response_of po =
     \<lparr>pr_Index = po_Index po, pr_Balance = po_Balance po, pr_Nonce = po_Nonce po, pr_PubKeyX = po_PubKeyX po,
      pr_PubKeyY = po_PubKeyY po, pr_Siblings = po_Siblings po, pr_PathBits = map uint (po_PathBits po)\<rparr>"

definition call_of :: "(int \<Rightarrow> u256) \<Rightarrow> escape_proof \<Rightarrow> escape_call" where
  "call_of pack ep =
     \<lparr>ec_tokenId = ep_TokenId ep, ec_balance = pack (ep_Balance ep), ec_nonce = pack (ep_Nonce ep),
      ec_pubX = pack (ep_PubX ep), ec_pubY = pack (ep_PubY ep), ec_index = pack (ep_Index ep),
      ec_siblings = map (\<lambda>b. of_nat (be_dec b)) (ep_Siblings ep), ec_pathBits = ep_PathBits ep\<rparr>"

definition pack_laws :: "(int \<Rightarrow> u256) \<Rightarrow> bool" where
  "pack_laws pack \<longleftrightarrow> (\<forall>x. 0 \<le> x \<longrightarrow> x < 2 ^ 256 \<longrightarrow> uint (pack x) = x)"

text \<open>The emitted library computes gnark's MiMC.\<close>

definition same_mimc :: "int list \<Rightarrow> (int list \<Rightarrow> int) \<Rightarrow> bool" where
  "same_mimc cs H \<longleftrightarrow> (\<forall>xs. (\<forall>x \<in> set xs. fr x = x) \<longrightarrow> H xs = mimc_hash cs xs)"

section \<open>From the sequencer's path to the contract's fold\<close>

lemma fill_siblings_dec:
  "length path = n \<Longrightarrow> length bits = n \<Longrightarrow> \<forall>p \<in> set path. 0 \<le> p \<and> p < 2 ^ 256 \<Longrightarrow>
   fill_siblings n (map dec path) bits = Inr (map (\<lambda>p. be_enc 32 (nat p)) path, map (\<lambda>b. b = 1) bits)"
proof (induction n arbitrary: path bits)
  case (Suc n)
  obtain p ps b bs where e: "path = p # ps" "bits = b # bs" using Suc.prems(1,2) by (cases path; cases bits) auto
  have p: "0 \<le> p" "p < 2 ^ 256" using Suc.prems(3) by (simp_all add: e)
  have "\<bar>p\<bar> = p" using p(1) by simp
  moreover have "fill_siblings n (map dec ps) bs = Inr (map (\<lambda>p. be_enc 32 (nat p)) ps, map (\<lambda>b. b = 1) bs)"
    using Suc.IH [of ps bs] Suc.prems by (simp add: e)
  ultimately show ?case using p(2) unfolding e list.map fill_siblings.simps parse_dec_dec by simp
qed simp

lemma field_bytes: "0 \<le> fr x" "fr x < 2 ^ 256"
proof -
  have "fr_modulus < 2 ^ 256" by (simp add: fr_modulus_def)
  then show "fr x < 2 ^ 256" by (rule less_trans [OF fr_range(2)])
qed simp

lemma field_word:
  assumes "fr x = x"
  shows "uint (word_of_int x :: u256) = x"
proof -
  have "0 \<le> x" "x < 2 ^ 256" using field_bytes [of x] assms by simp_all
  then show ?thesis by (simp add: word_of_int_inverse)
qed

lemma field_word_inject: "fr x = x \<Longrightarrow> fr y = y \<Longrightarrow> (word_of_int x :: u256) = word_of_int y \<Longrightarrow> x = y"
  using field_word by metis

lemma bit_one: "uint (b :: u64) = 1 \<longleftrightarrow> unat b = 1"
proof -
  have "int (unat b) = uint b" by simp
  then show ?thesis by linarith
qed

lemma same_mimc_pair: "same_mimc cs H \<Longrightarrow> fr x = x \<Longrightarrow> fr y = y \<Longrightarrow> mimc_hash cs [x, y] = H [x, y]"
  by (simp add: same_mimc_def)

lemma foldMerklePath_fold:
  assumes "same_mimc cs H" "canonical H"
  shows "fr cur = cur \<Longrightarrow> length path = length bits \<Longrightarrow> \<forall>p \<in> set path. fr p = p \<Longrightarrow>
    foldMerklePath cs cur (map (\<lambda>p. word_of_int p) path) (map (\<lambda>b. b = 1) bits) = fold_path H cur path bits"
proof (induction path arbitrary: cur bits)
  case (Cons p path)
  obtain b bs where bits: "bits = b # bs" using Cons.prems(2) by (cases bits) auto
  have p: "fr p = p" using Cons.prems(3) by simp
  have u: "uint (word_of_int p :: u256) = p" by (rule field_word [OF p])
  let ?n = "if b = 1 then H [p, cur] else H [cur, p]"
  have n: "fr ?n = ?n" using assms(2) by simp
  have "foldMerklePath cs ?n (map (\<lambda>p. word_of_int p) path) (map (\<lambda>b. b = 1) bs) = fold_path H ?n path bs"
    by (rule Cons.IH [OF n]) (use Cons.prems(2,3) in \<open>simp_all add: bits\<close>)
  then show ?case
    using same_mimc_pair [OF assms(1) p Cons.prems(1)] same_mimc_pair [OF assms(1) Cons.prems(1) p]
    by (cases "b = 1") (simp_all add: bits u)
qed simp

lemma account_leaf_sol:
  assumes "same_mimc cs H" "canonical H"
    and "uint i = uint (leaf_index (bs_AccountID acc) (bs_TokenID acc))" "uint x = bs_PubKeyX acc" "uint y = bs_PubKeyY acc"
    "uint bal = bs_Balance acc" "uint n = uint (bs_Nonce acc)"
  shows "accountLeaf_sol cs i x y bal n = account_leaf H acc"
proof -
  let ?xs = "[uint (leaf_index (bs_AccountID acc) (bs_TokenID acc)), bs_PubKeyX acc, bs_PubKeyY acc, bs_Balance acc, uint (bs_Nonce acc)]"
  have "accountLeaf_sol cs i x y bal n = mimc_hash cs ?xs" by (simp only: accountLeaf_sol_def assms(3-7))
  also have "\<dots> = mimc_hash cs (map fr ?xs)" by (rule mimc_hash_fr [symmetric])
  also have "\<dots> = H (map fr ?xs)" using assms(1) by (simp add: same_mimc_def)
  also have "\<dots> = account_leaf H acc" using assms(2) by (simp add: account_leaf_def HashAccountLeaf_def)
  finally show ?thesis .
qed

lemma path_canonical:
  assumes "tree_inv H d t"
  shows "\<forall>p \<in> set (fst (GetPath t w)). fr p = p"
proof -
  have "\<exists>l i. p = tnode H (lf t) l i" if "p \<in> set (fst (GetPath t w))" for p
    using that by (auto simp: GetPath_spec [OF assms] spath_def)
  then show ?thesis
    using tnode_canonical [OF tree_invD(1) [OF assms], of "lf t"] lf_range [OF assms] by (metis fr_id)
qed

text \<open>A \<open>/proof\<close> request and what the handler answers on a healthy tree.\<close>

definition proof_request :: "string \<Rightarrow> u32 \<Rightarrow> http_request" where
  "proof_request key tok =
     \<lparr>hr_Method = ''GET'', hr_Path = ''/proof'',
      hr_Query = (\<lambda>k. if k = ''pubkey'' then key else if k = ''token_id'' then dec_nat (unat tok) else []),
      hr_Order = None, hr_PubKey = []\<rparr>"

lemma query_token_dec: "query_token (dec_nat (unat tok)) = Some tok"
  using unsigned_less [of tok, where 'a = nat] by (simp add: query_token_def ParseUint_dec)

lemma handleProof_ok:
  assumes "db_inv H 28 t" "ids_inv t" "sv_tree s = Some t" "TrimSpace key \<noteq> []" "a = account_for t (TrimSpace key)"
  shows "handleProof (proof_request key tok) s =
    (reply ''GET, OPTIONS'' 200 (ProofBody (proof_value (opened t (TrimSpace key)) (TrimSpace key) a tok (balances t (a, tok)))),
     s\<lparr>sv_tree := Some (opened t (TrimSpace key))\<rparr>)"
  using assms(3,4) opened_facts(1) [OF assms(1,2)] GetBalance_balances [OF opened_facts(2) [OF assms(1,2)]]
    opened_facts(3) [OF assms(1,2)]
  by (simp add: handleProof_def proof_request_def query_token_dec assms(5) Let_def)

text \<open>The call the contract gets from a stored account's proof.\<close>

lemma escape_call_ok:
  assumes inv: "db_inv (mimc C) 28 t" and slot: "slot_ok 28 a tok" and stored: "balances t (a, tok) = Some acc"
    and pack: "pack_laws pack" and same: "same_mimc cs (mimc C)"
    and ranges: "0 \<le> bs_Balance acc" "bs_Balance acc < 2 ^ 256" "0 \<le> bs_PubKeyX acc" "bs_PubKeyX acc < 2 ^ 256"
      "0 \<le> bs_PubKeyY acc" "bs_PubKeyY acc < 2 ^ 256"
  shows "\<exists>ep. toEscapeProof (response_of (proof_value t key a tok (Some acc))) tok = Inr ep \<and>
    ec_tokenId (call_of pack ep) = tok \<and> uint (ec_index (call_of pack ep)) = uint (leaf_index a tok) \<and>
    uint (ec_balance (call_of pack ep)) = bs_Balance acc \<and> ec_balance (call_of pack ep) = pack (bs_Balance acc) \<and>
    ec_pubX (call_of pack ep) = pack (bs_PubKeyX acc) \<and> ec_pubY (call_of pack ep) = pack (bs_PubKeyY acc) \<and>
    foldMerklePath cs (accountLeaf_sol cs (ec_index (call_of pack ep)) (ec_pubX (call_of pack ep)) (ec_pubY (call_of pack ep))
      (ec_balance (call_of pack ep)) (ec_nonce (call_of pack ep))) (ec_siblings (call_of pack ep)) (ec_pathBits (call_of pack ep)) =
    Root t"
proof -
  let ?w = "leaf_index a tok"
  obtain path bits where gp: "GetPath t ?w = (path, bits)" by fastforce
  note tinv = db_inv_tree [OF inv]
  have canon: "canonical (mimc C)" by (rule tree_invD(1) [OF tinv])
  have acc: "bs_AccountID acc = a" "bs_TokenID acc = tok" using stored_ids [OF inv stored] by simp_all
  have path: "path = spath (mimc C) (lf t) 28 (unat ?w)" "map unat bits = sbits 28 (unat ?w)"
    using GetPath_spec [OF tinv, of ?w] gp by simp_all
  have len: "length path = 28" using path(1) by simp
  have "length (map unat bits) = 28" unfolding path(2) by simp
  then have len': "length bits = 28" by simp
  have frp: "\<forall>p \<in> set path. fr p = p" using path_canonical [OF tinv, of ?w] gp by simp
  then have rng: "\<forall>p \<in> set path. 0 \<le> p \<and> p < 2 ^ 256" using field_bytes by metis
  let ?ep = "\<lparr>ep_TokenId = tok, ep_Balance = bs_Balance acc, ep_Nonce = uint (bs_Nonce acc), ep_PubX = bs_PubKeyX acc,
    ep_PubY = bs_PubKeyY acc, ep_Index = uint ?w, ep_Siblings = map (\<lambda>p. be_enc 32 (nat p)) path,
    ep_PathBits = map (\<lambda>b. b = 1) (map uint bits)\<rparr>"
  let ?ec = "call_of pack ?ep"
  have conv: "toEscapeProof (response_of (proof_value t key a tok (Some acc))) tok = Inr ?ep"
    using fill_siblings_dec [OF len, of "map uint bits"] len' rng
    by (simp add: toEscapeProof_def response_of_def proof_value_def gp Let_def)
  have small: "uint (w :: u64) < 2 ^ 256" for w
    using unsigned_less [of w, where 'a = int] by (simp add: order_less_le_trans)
  have pk: "uint (pack x) = x" if "0 \<le> x" "x < 2 ^ 256" for x using pack that by (simp add: pack_laws_def)
  have idx: "uint (ec_index ?ec) = uint ?w" "uint (ec_nonce ?ec) = uint (bs_Nonce acc)"
    using pk small by (simp_all add: call_of_def)
  have leaf: "accountLeaf_sol cs (ec_index ?ec) (ec_pubX ?ec) (ec_pubY ?ec) (ec_balance ?ec) (ec_nonce ?ec) = account_leaf (mimc C) acc"
    by (rule account_leaf_sol [OF same canon]) (use idx pk ranges in \<open>simp_all add: acc call_of_def\<close>)
  have sibs: "ec_siblings ?ec = map (\<lambda>p. word_of_int p) path"
    using rng by (auto simp: call_of_def be_dec_enc)
  have bs: "ec_pathBits ?ec = map (\<lambda>b. b = 1) (map unat bits)"
    by (simp only: call_of_def escape_call.simps escape_proof.simps map_map comp_def bit_one)
  have w: "unat ?w < 2 ^ 28" by (rule slot_okD(2) [OF slot]) simp
  have lf: "lf t (unat ?w) = account_leaf (mimc C) acc"
    using inv slot stored by (simp add: db_inv_def recs_inv_def leaf_value_def)
  have "foldMerklePath cs (account_leaf (mimc C) acc) (ec_siblings ?ec) (ec_pathBits ?ec) =
      fold_path (mimc C) (account_leaf (mimc C) acc) path (map unat bits)"
    unfolding sibs bs using foldMerklePath_fold [OF same canon, of "account_leaf (mimc C) acc" path "map unat bits"] len len' frp canon
    by (simp add: account_leaf_def HashAccountLeaf_def)
  also have "\<dots> = Root t"
    using fold_spath_same [of "mimc C" "lf t" "unat ?w" 28] w by (simp add: path lf Root_spec [OF tinv])
  finally have root: "foldMerklePath cs (accountLeaf_sol cs (ec_index ?ec) (ec_pubX ?ec) (ec_pubY ?ec) (ec_balance ?ec)
      (ec_nonce ?ec)) (ec_siblings ?ec) (ec_pathBits ?ec) = Root t"
    unfolding leaf .
  have fields: "ec_tokenId ?ec = tok" "ec_balance ?ec = pack (bs_Balance acc)" "ec_pubX ?ec = pack (bs_PubKeyX acc)"
    "ec_pubY ?ec = pack (bs_PubKeyY acc)"
    by (simp_all add: call_of_def)
  have bal: "uint (ec_balance ?ec) = bs_Balance acc" unfolding fields(2) by (rule pk [OF ranges(1,2)])
  from conjI [OF conv conjI [OF fields(1) conjI [OF idx(1) conjI [OF bal conjI [OF fields(2) conjI [OF fields(3)
    conjI [OF fields(4) root]]]]]]]
  show ?thesis by (rule exI [of _ ?ep])
qed

section \<open>Properties of the escape hatch\<close>

lemma emergencyWithdraw_cases:
  "emergencyWithdraw Ch m p r = Some r' \<longleftrightarrow>
     uint (ru_lastBatchAt r) + uint (ru_escapeTimeout r) < uint (block_timestamp m) \<and>
     ec_index p mod 256 = ucast (ec_tokenId p) \<and>
     ru_depositorOf r (ch_keccak Ch (ec_pubX p) (ec_pubY p)) = msg_sender m \<and>
     \<not> ru_escapeWithdrawn r (ec_index p) \<and>
     word_of_int (foldMerklePath (ch_constants Ch) (accountLeaf_sol (ch_constants Ch) (ec_index p) (ec_pubX p) (ec_pubY p)
       (ec_balance p) (ec_nonce p)) (ec_siblings p) (ec_pathBits p)) = ru_stateRoot r \<and>
     ru_tokens r (ec_tokenId p) \<noteq> 0 \<and>
     ch_token Ch (ru_tokens r (ec_tokenId p)) (Transfer (msg_sender m) (ec_balance p)) \<and>
     r' = r\<lparr>ru_escapeWithdrawn := (ru_escapeWithdrawn r)(ec_index p := True),
       ru_log := ru_log r @ [Called (ru_tokens r (ec_tokenId p)) (Transfer (msg_sender m) (ec_balance p)),
         EscapeWithdrawal (msg_sender m) (ec_tokenId p) (ec_index p) (ec_balance p)]\<rparr>"
proof -
  have "uint (block_timestamp m) < 2 ^ 256" using unsigned_less [of "block_timestamp m", where 'a = int] by simp
  then have "(uint (ru_lastBatchAt r) + uint (ru_escapeTimeout r) \<ge> 2 ^ 256 \<or>
      \<not> uint (block_timestamp m) > uint (ru_lastBatchAt r) + uint (ru_escapeTimeout r)) \<longleftrightarrow>
    \<not> uint (ru_lastBatchAt r) + uint (ru_escapeTimeout r) < uint (block_timestamp m)" by linarith
  then show ?thesis by (auto simp: emergencyWithdraw_def Let_def emit_def)
qed

lemma ucast_u256: "unat (ucast (w :: u32) :: u256) = unat w" "uint (ucast w :: u256) = uint w"
proof -
  have "unat w < 2 ^ 32" using unsigned_less [of w, where 'a = nat] by simp
  then show u: "unat (ucast w :: u256) = unat w" by (simp add: unsigned_ucast_eq take_bit_nat_eq_self)
  show "uint (ucast w :: u256) = uint w" using u by (metis uint_nat)
qed

lemma index_token:
  assumes "slot_ok 28 a tok" "uint (i :: u256) = uint (leaf_index a tok)"
  shows "i mod 256 = ucast tok"
proof -
  have "unat i = unat (leaf_index a tok)" using assms(2) by (metis unat_eq_nat_uint)
  also have "\<dots> = unat a * 256 + unat tok" by (rule slot_okD(1) [OF assms(1)]) simp
  finally have "unat (i mod 256) = unat tok" using slot_okD(4) [OF assms(1)] by (simp add: unat_mod)
  moreover have "unat (ucast tok :: u256) = unat tok" by (rule ucast_u256(1))
  ultimately show ?thesis by (simp add: word_unat_eq_iff)
qed

text \<open>The conditions, outside the proof itself, under which the contract pays an escape claim.\<close>

definition escape_open :: "chain_env \<Rightarrow> message \<Rightarrow> rollup \<Rightarrow> u32 \<Rightarrow> u256 \<Rightarrow> u256 \<Rightarrow> u256 \<Rightarrow> u256 \<Rightarrow> bool" where
  "escape_open Ch m r tok index pubX pubY balance \<longleftrightarrow>
     uint (ru_lastBatchAt r) + uint (ru_escapeTimeout r) < uint (block_timestamp m) \<and>
     ru_depositorOf r (ch_keccak Ch pubX pubY) = msg_sender m \<and> \<not> ru_escapeWithdrawn r index \<and>
     ru_tokens r tok \<noteq> 0 \<and> ch_token Ch (ru_tokens r tok) (Transfer (msg_sender m) balance)"

definition paid :: "message \<Rightarrow> u32 \<Rightarrow> u256 \<Rightarrow> u256 \<Rightarrow> rollup \<Rightarrow> rollup" where
  "paid m tok index amount r =
     r\<lparr>ru_escapeWithdrawn := (ru_escapeWithdrawn r)(index := True),
       ru_log := ru_log r @ [Called (ru_tokens r tok) (Transfer (msg_sender m) amount),
         EscapeWithdrawal (msg_sender m) tok index amount]\<rparr>"

lemma escape_accepts:
  assumes inv: "db_inv (mimc C) 28 t" and slot: "slot_ok 28 a tok" and stored: "balances t (a, tok) = Some acc"
    and ranges: "0 \<le> bs_Balance acc" "bs_Balance acc < 2 ^ 256" "0 \<le> bs_PubKeyX acc" "bs_PubKeyX acc < 2 ^ 256"
      "0 \<le> bs_PubKeyY acc" "bs_PubKeyY acc < 2 ^ 256"
    and pack: "pack_laws pack" and same: "same_mimc (ch_constants Ch) (mimc C)"
    and root: "ru_stateRoot r = word_of_int (Root t)"
    and avail: "escape_open Ch m r tok (pack (uint (leaf_index a tok))) (pack (bs_PubKeyX acc)) (pack (bs_PubKeyY acc))
      (pack (bs_Balance acc))"
  shows "\<exists>ep. toEscapeProof (response_of (proof_value t key a tok (Some acc))) tok = Inr ep \<and>
    ec_tokenId (call_of pack ep) = tok \<and> ec_index (call_of pack ep) = pack (uint (leaf_index a tok)) \<and>
    ec_balance (call_of pack ep) = pack (bs_Balance acc) \<and>
    emergencyWithdraw Ch m (call_of pack ep) r = Some (paid m tok (pack (uint (leaf_index a tok))) (pack (bs_Balance acc)) r)"
proof -
  let ?i = "pack (uint (leaf_index a tok))"
  obtain ep where ep: "toEscapeProof (response_of (proof_value t key a tok (Some acc))) tok = Inr ep"
    "ec_tokenId (call_of pack ep) = tok" "uint (ec_index (call_of pack ep)) = uint (leaf_index a tok)"
    "ec_balance (call_of pack ep) = pack (bs_Balance acc)"
    "ec_pubX (call_of pack ep) = pack (bs_PubKeyX acc)" "ec_pubY (call_of pack ep) = pack (bs_PubKeyY acc)"
    "foldMerklePath (ch_constants Ch) (accountLeaf_sol (ch_constants Ch) (ec_index (call_of pack ep)) (ec_pubX (call_of pack ep))
      (ec_pubY (call_of pack ep)) (ec_balance (call_of pack ep)) (ec_nonce (call_of pack ep))) (ec_siblings (call_of pack ep))
      (ec_pathBits (call_of pack ep)) = Root t"
    using escape_call_ok [OF inv slot stored pack same ranges, of key] by blast
  have "uint (leaf_index a tok) < 2 ^ 256" "0 \<le> uint (leaf_index a tok)"
    using unsigned_less [of "leaf_index a tok", where 'a = int] by simp_all
  then have "uint ?i = uint (leaf_index a tok)" using pack by (simp add: pack_laws_def)
  then have i: "ec_index (call_of pack ep) = ?i" using ep(3) by (simp add: word_uint_eq_iff)
  have "emergencyWithdraw Ch m (call_of pack ep) r = Some (paid m tok ?i (pack (bs_Balance acc)) r)"
    unfolding emergencyWithdraw_cases using avail index_token [OF slot ep(3)] ep(7) root ep(2,4-6) i
    by (simp add: escape_open_def paid_def)
  then show ?thesis using ep(1,2,4) i by blast
qed


text \<open>A market of two accounts, a contract at its root, and the first account's claim of its token 1.\<close>

definition demo_chain :: chain_env where
  "demo_chain = \<lparr>ch_constants = [], ch_verifyProof = (\<lambda>_ _. True), ch_keccak = (\<lambda>x y. x), ch_token = (\<lambda>_ _. True)\<rparr>"

definition demo_message :: message where
  "demo_message = \<lparr>msg_sender = 7, block_timestamp = 100, tx_blobhash = 1\<rparr>"

definition demo_rollup :: "int \<Rightarrow> rollup" where
  "demo_rollup root =
     (new_rollup \<lparr>msg_sender = 9, block_timestamp = 10, tx_blobhash = 0\<rparr> (word_of_int root) 50)
       \<lparr>ru_depositorOf := (\<lambda>_. 7), ru_tokens := (\<lambda>_. 5)\<rparr>"

lemma demo_pack: "pack_laws word_of_int"
  by (simp add: pack_laws_def word_of_int_inverse)

lemma demo_same: "same_mimc (ch_constants demo_chain) (mimc demo_scheme)"
  by (simp add: same_mimc_def demo_chain_def demo_mimc_laws(2))

lemma demo_open: "escape_open demo_chain demo_message (demo_rollup root) tok index x y balance"
  by (simp add: escape_open_def demo_chain_def demo_message_def demo_rollup_def new_rollup_def)

lemma demo_claim:
  "balances demo_market (0, 1) = Some (demo_account 0 1 100)" "slot_ok 28 0 1"
  "db_inv (mimc demo_scheme) 28 demo_market" "account_for demo_market ''aa'' = 0" "TrimSpace ''aa'' = ''aa''"
proof -
  show "balances demo_market (0, 1) = Some (demo_account 0 1 100)"
    by (simp add: demo_market_facts(5) record_all_def demo_holdings_def demo_account_def)
  show "account_for demo_market ''aa'' = 0"
    using demo_market_facts(3) by (simp add: account_for_def trim_prefix_def has_prefix_def)
  show "TrimSpace ''aa'' = ''aa''" by (rule TrimSpace_plain) simp
qed (simp_all add: slot_ok_def demo_mimc_laws(2) demo_market_facts(1))


text \<open>
  C36: one balance can be claimed for several tokens. \<open>MiMC.hash\<close> reduces the index into the field,
  but the double-claim guard and the token check use it unreduced: after an accepted claim, the
  same leaf claimed at its index plus the field's order, which is 1 modulo 256, is accepted for the
  next token, and pays the same balance again in that token.
\<close>
theorem escape_index_aliases:
  assumes first: "emergencyWithdraw Ch m p r = Some r'"
    and small: "uint (ec_index p) < 2 ^ 64" "uint (ec_tokenId p) < 255"
    and fresh: "\<not> ru_escapeWithdrawn r (ec_index p + of_int fr_modulus)"
    and other: "ru_tokens r (ec_tokenId p + 1) \<noteq> 0"
      "ch_token Ch (ru_tokens r (ec_tokenId p + 1)) (Transfer (msg_sender m) (ec_balance p))"
  shows "\<exists>r''. emergencyWithdraw Ch m (p\<lparr>ec_tokenId := ec_tokenId p + 1, ec_index := ec_index p + of_int fr_modulus\<rparr>) r' = Some r'' \<and>
    ru_log r'' = ru_log r' @ [Called (ru_tokens r (ec_tokenId p + 1)) (Transfer (msg_sender m) (ec_balance p)),
      EscapeWithdrawal (msg_sender m) (ec_tokenId p + 1) (ec_index p + of_int fr_modulus) (ec_balance p)]"
proof -
  let ?i = "ec_index p + of_int fr_modulus"
  note f = first [unfolded emergencyWithdraw_cases]
  have m: "uint (of_int fr_modulus :: u256) = fr_modulus"
    by (simp add: fr_modulus_def)
  have sum: "uint ?i = uint (ec_index p) + fr_modulus"
    using small(1) by (simp add: uint_word_ariths m fr_modulus_def)
  have leaf: "accountLeaf_sol cs ?i x y b n = accountLeaf_sol cs (ec_index p) x y b n" for cs x y b n
    unfolding accountLeaf_sol_def by (rule mimc_hash_cong) (simp add: sum fr_def)
  have tok1: "uint (ec_tokenId p + 1) = uint (ec_tokenId p) + 1"
    using small(2) by (simp add: uint_word_ariths)
  have "uint (ec_index p mod 256) = uint (ucast (ec_tokenId p) :: u256)" using f by simp
  then have "uint (ec_index p) mod 256 = uint (ec_tokenId p)"
    by (simp add: uint_mod ucast_u256)
  then have "uint ?i mod 256 = uint (ec_tokenId p) + 1"
    unfolding sum using small(2) by (simp add: fr_modulus_def mod_add_eq [symmetric, of "uint (ec_index p)"])
  then have tok: "?i mod 256 = ucast (ec_tokenId p + 1)"
    unfolding word_uint_eq_iff by (simp add: uint_mod ucast_u256 tok1)
  have ne: "?i \<noteq> ec_index p" unfolding word_uint_eq_iff sum by (simp add: fr_modulus_def)
  show ?thesis
    unfolding emergencyWithdraw_cases using f fresh other tok ne leaf by simp
qed

text \<open>What the contract folds, as a fold of the sequencer's hash over reduced siblings.\<close>

definition escape_leaf :: "escape_call \<Rightarrow> int list" where
  "escape_leaf p = map fr [uint (ec_index p), uint (ec_pubX p), uint (ec_pubY p), uint (ec_balance p), uint (ec_nonce p)]"

definition escape_path :: "escape_call \<Rightarrow> int list" where
  "escape_path p = map (\<lambda>s. fr (uint s)) (ec_siblings p)"

definition escape_bits :: "escape_call \<Rightarrow> nat list" where
  "escape_bits p = map (\<lambda>b. if b then 1 else 0) (ec_pathBits p)"

lemma foldMerklePath_reduced:
  assumes "same_mimc cs H" "canonical H"
  shows "fr cur = cur \<Longrightarrow> foldMerklePath cs cur ss bs =
    fold_path H cur (map (\<lambda>s. fr (uint s)) ss) (map (\<lambda>b. if b then 1 else 0) bs)"
proof (induction ss arbitrary: cur bs)
  case (Cons s ss)
  note IH = Cons.IH and cur = Cons.prems
  show ?case
  proof (cases bs)
    case (Cons b bs')
    have "mimc_hash cs [uint s, cur] = H [fr (uint s), cur]" "mimc_hash cs [cur, uint s] = H [cur, fr (uint s)]"
      using mimc_hash_cong [of "[uint s, cur]" "[fr (uint s), cur]" cs] mimc_hash_cong [of "[cur, uint s]" "[cur, fr (uint s)]" cs]
        same_mimc_pair [OF assms(1), of "fr (uint s)" cur] same_mimc_pair [OF assms(1), of cur "fr (uint s)"] cur
      by simp_all
    then show ?thesis
      using IH [of "H [fr (uint s), cur]" bs'] IH [of "H [cur, fr (uint s)]" bs'] assms(2) by (simp add: Cons)
  qed simp
qed simp

text \<open>
  C35: an accepted claim names a stored balance. If the contract's root is the root of a tree, what
  an accepted claim pays is, up to reduction into the field, the balance of a stored account whose
  slot, key and nonce the claim names, whatever siblings and direction bits it carries, absent
  hash collisions among the tuples of the two openings and a preimage of the empty leaf.
\<close>
theorem escape_claim_is_stored:
  assumes accept: "emergencyWithdraw Ch m p r = Some r'"
    and inv: "db_inv (mimc C) 28 t" and root: "ru_stateRoot r = word_of_int (Root t)"
    and same: "same_mimc (ch_constants Ch) (mimc C)"
    and shape: "length (ec_siblings p) = 28" "length (ec_pathBits p) = 28"
    and hash: "mimc C (escape_leaf p) \<noteq> 0"
    and j: "j = bits_index (escape_bits p)"
    and inj: "inj_on (mimc C) (insert (escape_leaf p) (leaf_preimage ` ran (balances t)) \<union>
       set (path_inputs (mimc C) (lf t j) (spath (mimc C) (lf t) 28 j) (escape_bits p)) \<union>
       set (path_inputs (mimc C) (mimc C (escape_leaf p)) (escape_path p) (escape_bits p)))"
  shows "\<exists>a tok acc. balances t (a, tok) = Some acc \<and> leaf_preimage acc = escape_leaf p"
proof -
  let ?H = "mimc C"
  note tinv = db_inv_tree [OF inv]
  have canon: "canonical ?H" by (rule tree_invD(1) [OF tinv])
  let ?v = "?H (escape_leaf p)" and ?bs = "escape_bits p"
  have leaf: "accountLeaf_sol (ch_constants Ch) (ec_index p) (ec_pubX p) (ec_pubY p) (ec_balance p) (ec_nonce p) = ?v"
    using same mimc_hash_fr [of "ch_constants Ch" "[uint (ec_index p), uint (ec_pubX p), uint (ec_pubY p), uint (ec_balance p), uint (ec_nonce p)]"]
    by (simp add: same_mimc_def accountLeaf_sol_def escape_leaf_def)
  have fold: "foldMerklePath (ch_constants Ch) ?v (ec_siblings p) (ec_pathBits p) = fold_path ?H ?v (escape_path p) ?bs"
    unfolding escape_path_def escape_bits_def by (rule foldMerklePath_reduced [OF same canon canonical_fr [OF canon]])
  have len: "length (escape_path p) = 28" "length ?bs = 28" by (simp_all add: escape_path_def escape_bits_def shape)
  have "\<forall>b \<in> set ?bs. b < 2" by (auto simp: escape_bits_def)
  from sbits_bits_index [OF this] have j: "sbits 28 j = ?bs" "j < 2 ^ 28" unfolding len(2) assms(8) by blast+
  have "word_of_int (fold_path ?H ?v (escape_path p) ?bs) = (word_of_int (Root t) :: u256)"
    using accept root unfolding emergencyWithdraw_cases leaf fold by simp
  moreover have "fr (fold_path ?H ?v (escape_path p) ?bs) = fold_path ?H ?v (escape_path p) ?bs"
    by (rule fold_path_canonical [OF canon canonical_fr [OF canon]])
  ultimately have "fold_path ?H ?v (escape_path p) ?bs = Root t"
    using field_word_inject [OF _ Root_canonical [OF inv]] by blast
  then have "fold_path ?H ?v (escape_path p) ?bs = fold_path ?H (lf t j) (spath ?H (lf t) 28 j) ?bs"
    using fold_spath_same [of ?H "lf t" j 28] j by (simp add: Root_spec [OF tinv])
  moreover have "inj_on ?H (set (path_inputs ?H ?v (escape_path p) ?bs) \<union>
      set (path_inputs ?H (lf t j) (spath ?H (lf t) 28 j) ?bs))"
    by (rule inj_on_subset [OF inj]) auto
  ultimately have eq: "?v = lf t j"
    using fold_path_binds [of ?H ?v "escape_path p" ?bs "lf t j" "spath ?H (lf t) 28 j"] len by simp
  obtain a tok where slot: "slot_ok 28 a tok" "unat (leaf_index a tok) = j"
    using slot_of_leaf [of 28 j] j(2) by auto
  then have "lf t j = leaf_value ?H (balances t (a, tok))" using inv by (auto simp: db_inv_def recs_inv_def)
  then obtain acc where acc: "balances t (a, tok) = Some acc" "?v = account_leaf ?H acc"
    using eq hash by (auto simp: leaf_value_def split: option.splits)
  have "leaf_preimage acc \<in> leaf_preimage ` ran (balances t)" using acc(1) by (auto intro: ranI)
  moreover have "inj_on ?H (insert (escape_leaf p) (leaf_preimage ` ran (balances t)))"
    by (rule inj_on_subset [OF inj]) blast
  moreover have "?H (leaf_preimage acc) = ?v" using acc(2) by (simp add: account_leaf_preimage [OF canon])
  ultimately have "leaf_preimage acc = escape_leaf p" by (meson inj_onD insertCI)
  then show ?thesis using acc(1) by blast
qed

theorem escape_index_aliases_witness:
  "\<exists>p r' r''. emergencyWithdraw demo_chain demo_message p (demo_rollup (Root demo_market)) = Some r' \<and>
     emergencyWithdraw demo_chain demo_message (p\<lparr>ec_tokenId := ec_tokenId p + 1, ec_index := ec_index p + of_int fr_modulus\<rparr>) r' = Some r'' \<and>
     ru_log r'' = [Called 5 (Transfer 7 100), EscapeWithdrawal 7 1 1 100,
       Called 5 (Transfer 7 100), EscapeWithdrawal 7 2 (1 + of_int fr_modulus) 100]"
proof -
  let ?r = "demo_rollup (Root demo_market)" and ?acc = "demo_account 0 1 100"
  have acc: "bs_Balance ?acc = 100" "bs_PubKeyX ?acc = 3" "bs_PubKeyY ?acc = 4" by (simp_all add: demo_account_def)
  have r: "ru_stateRoot ?r = word_of_int (Root demo_market)" "ru_log ?r = []" "ru_tokens ?r tok = 5"
    "msg_sender demo_message = 7" "ru_escapeWithdrawn ?r i = False" for tok i
    by (simp_all add: demo_rollup_def new_rollup_def demo_message_def)
  have i: "word_of_int (uint (leaf_index 0 1)) = (1 :: u256)" by (simp add: leaf_index_def)
  obtain ep where ep: "ec_tokenId (call_of word_of_int ep) = 1" "ec_index (call_of word_of_int ep) = 1"
    "ec_balance (call_of word_of_int ep) = 100"
    "emergencyWithdraw demo_chain demo_message (call_of word_of_int ep) ?r = Some (paid demo_message 1 1 100 ?r)"
    using escape_accepts [OF demo_claim(3,2,1) _ _ _ _ _ _ demo_pack demo_same r(1) demo_open] unfolding acc i by auto
  have "\<exists>r''. emergencyWithdraw demo_chain demo_message
      ((call_of word_of_int ep)\<lparr>ec_tokenId := ec_tokenId (call_of word_of_int ep) + 1,
        ec_index := ec_index (call_of word_of_int ep) + of_int fr_modulus\<rparr>) (paid demo_message 1 1 100 ?r) = Some r'' \<and>
    ru_log r'' = ru_log (paid demo_message 1 1 100 ?r) @
      [Called 5 (Transfer 7 100), EscapeWithdrawal 7 (1 + 1) (1 + of_int fr_modulus) 100]"
    using escape_index_aliases [OF ep(4)] by (simp add: ep(1-3) r demo_chain_def)
  then show ?thesis using ep(4) by (fastforce simp: paid_def r)
qed

text \<open>The hash without rounds along an empty tree's siblings multiplies by four at each level.\<close>

lemma quad_step: "0 \<le> c \<Longrightarrow> 4 * c < fr_modulus \<Longrightarrow> mimc_hash [] [c, 0] = 4 * c"
  by (simp add: linear_hash)

lemma quad_path:
  "0 \<le> c \<Longrightarrow> 4 ^ n * c < fr_modulus \<Longrightarrow>
   fold_path (mimc_hash []) c (replicate n 0) (replicate n 0) = 4 ^ n * c \<and>
   path_inputs (mimc_hash []) c (replicate n 0) (replicate n 0) = map (\<lambda>k. [4 ^ k * c, 0]) [0..<n]"
proof (induction n arbitrary: c)
  case (Suc n)
  have "(1 :: int) \<le> 4 ^ n" by simp
  then have "4 * c \<le> 4 ^ Suc n * c" using Suc.prems(1) by (simp add: mult_right_mono)
  then have small: "4 * c < fr_modulus" using Suc.prems(2) by simp
  have "4 ^ n * (4 * c) < fr_modulus" using Suc.prems(2) by (simp add: mult.assoc mult.left_commute)
  from Suc.IH [OF _ this] Suc.prems(1) show ?case
    by (simp add: quad_step [OF Suc.prems(1) small] Let_def upt_conv_Cons map_Suc_upt [symmetric] mult.assoc mult.left_commute
        del: upt_Suc)
qed simp

lemma quad_spath: "spath (mimc_hash []) ((\<lambda>_. 0)(0 := v)) d 0 = replicate d 0"
proof (rule nth_equalityI)
  fix l assume "l < length (spath (mimc_hash []) ((\<lambda>_. 0)(0 := v)) d 0)"
  moreover have "tnode (mimc_hash []) ((\<lambda>_. 0)(0 := v)) l 1 = tnode (mimc_hash []) (\<lambda>_. 0) l 1"
    by (rule tnode_cong) auto
  ultimately show "spath (mimc_hash []) ((\<lambda>_. 0)(0 := v)) d 0 ! l = replicate d 0 ! l"
    by (simp add: spath_def sib_def tnode_zero)
qed simp

definition demo_call :: escape_call where
  "demo_call = \<lparr>ec_tokenId = 0, ec_balance = 5, ec_nonce = 0, ec_pubX = 3, ec_pubY = 4, ec_index = 0,
     ec_siblings = replicate 28 0, ec_pathBits = replicate 28 False\<rparr>"

lemma demo_call_facts:
  "escape_leaf demo_call = [0, 3, 4, 5, 0]" "escape_path demo_call = replicate 28 0" "escape_bits demo_call = replicate 28 0"
  "mimc_hash [] [0, 3, 4, 5, 0] = 100" "bits_index (escape_bits demo_call) = 0"
proof -
  show "escape_bits demo_call = replicate 28 0" by (simp add: escape_bits_def demo_call_def)
  moreover have "bits_index (replicate n 0) = 0" for n by (induction n) simp_all
  ultimately show "bits_index (escape_bits demo_call) = 0" by simp
  show "mimc_hash [] [0, 3, 4, 5, 0] = 100"
    by (simp add: linear_hash fr_modulus_def)
  show "escape_path demo_call = replicate 28 0" by (simp add: escape_path_def demo_call_def)
qed (simp add: escape_leaf_def demo_call_def fr_def fr_modulus_def)

theorem escape_claim_is_stored_witness:
  "\<exists>t r' a tok acc. emergencyWithdraw demo_chain demo_message demo_call (demo_rollup (Root t)) = Some r' \<and>
     balances t (a, tok) = Some acc \<and> leaf_preimage acc = [0, 3, 4, 5, 0]"
proof -
  let ?H = "mimc_hash []" and ?acc = "demo_account 0 0 5"
  let ?t = "snd (SetBalance ?H demo_db ?acc)"
  have slot: "slot_ok 28 (bs_AccountID ?acc) (bs_TokenID ?acc)" by (simp add: slot_ok_def demo_account_def)
  note ok = SetBalance_ok [OF demo_db_inv(1) slot]
  have w: "leaf_index (bs_AccountID ?acc) (bs_TokenID ?acc) = 0" by (simp add: leaf_index_def demo_account_def)
  have pre: "leaf_preimage ?acc = [0, 3, 4, 5, 0]"
    by (simp add: leaf_preimage_def w) (simp add: demo_account_def fr_def fr_modulus_def)
  then have leaf: "account_leaf ?H ?acc = 100" by (simp add: account_leaf_preimage [OF mimc_hash_canonical] demo_call_facts(4))
  have "lf demo_db = (\<lambda>_. 0)" unfolding demo_db_def by (rule NewLevelDBMerkleTree_inv(2) [OF mimc_hash_canonical]) simp_all
  then have lf: "lf ?t = (\<lambda>_. 0)(0 := 100)" using ok(4) by (simp add: w leaf)
  have big: "4 ^ 28 * 100 < fr_modulus" by (simp add: fr_modulus_def)
  note path = quad_path [OF _ big, simplified]
  have bits: "sbits 28 0 = replicate 28 0" by (simp add: sbits_def map_replicate_const)
  have root: "Root ?t = 4 ^ 28 * 100"
    using fold_spath_same [of ?H "lf ?t" 0 28] path Root_spec [OF db_inv_tree [OF ok(2)]] by (simp add: lf quad_spath bits)
  have accept: "emergencyWithdraw demo_chain demo_message demo_call (demo_rollup (Root ?t)) =
      Some (paid demo_message 0 0 5 (demo_rollup (Root ?t)))"
  proof -
    have "foldMerklePath [] 100 (ec_siblings demo_call) (ec_pathBits demo_call) = Root ?t"
      using foldMerklePath_reduced [OF demo_same [unfolded demo_chain_def demo_mimc_laws(2), simplified] mimc_hash_canonical, of 100]
        demo_call_facts(2,3) path root
      by (simp add: escape_path_def escape_bits_def fr_def fr_modulus_def)
    moreover have "accountLeaf_sol [] (ec_index demo_call) (ec_pubX demo_call) (ec_pubY demo_call) (ec_balance demo_call)
        (ec_nonce demo_call) = 100"
      using demo_call_facts(4) by (simp add: accountLeaf_sol_def demo_call_def)
    moreover note demo_open [of "Root ?t" 0 0 3 4 5]
    ultimately show ?thesis
      unfolding emergencyWithdraw_cases escape_open_def paid_def
      by (simp add: demo_call_def demo_chain_def demo_rollup_def new_rollup_def)
  qed
  have ran: "ran (balances ?t) = {?acc}" by (simp add: ok(3) demo_db_empty)
  have inputs: "path_inputs ?H 100 (replicate 28 0) (replicate 28 0) = map (\<lambda>k. [4 ^ k * 100, 0]) [0..<28]" using path by simp
  have H: "?H [4 ^ k * 100, 0] = 4 ^ Suc k * 100" if "k < 28" for k
  proof -
    have "(4 :: int) ^ Suc k \<le> 4 ^ 28" using that by (intro power_increasing) simp_all
    then have "4 * (4 ^ k * 100) < fr_modulus" using big by simp
    then show ?thesis by (subst quad_step) simp_all
  qed
  have ne: "4 * 4 ^ k \<noteq> (1 :: int)" for k using one_le_power [of "4 :: int" k] by linarith
  have inj: "inj_on ?H (insert [0, 3, 4, 5, 0] (set (map (\<lambda>k. [4 ^ k * 100, 0]) [0..<28])))"
    by (rule inj_onI) (auto simp: H demo_call_facts(4) ne)
  have "\<exists>a tok acc. balances ?t (a, tok) = Some acc \<and> leaf_preimage acc = escape_leaf demo_call"
  proof (rule escape_claim_is_stored [OF accept, where C = demo_scheme and j = 0])
    show "inj_on (mimc demo_scheme) (insert (escape_leaf demo_call) (leaf_preimage ` ran (balances ?t)) \<union>
       set (path_inputs (mimc demo_scheme) (lf ?t 0) (spath (mimc demo_scheme) (lf ?t) 28 0) (escape_bits demo_call)) \<union>
       set (path_inputs (mimc demo_scheme) (mimc demo_scheme (escape_leaf demo_call)) (escape_path demo_call) (escape_bits demo_call)))"
      unfolding demo_mimc_laws(2) ran demo_call_facts(1-4) lf quad_spath fun_upd_same inputs
      by (rule inj_on_subset [OF inj]) (auto simp: pre)
  qed (use ok(2) in \<open>simp_all add: demo_mimc_laws(2) demo_same [unfolded demo_mimc_laws(2)] demo_call_facts(1,4)
      demo_call_facts(5) [symmetric] demo_rollup_def new_rollup_def, simp_all add: demo_call_def\<close>)
  then show ?thesis using accept unfolding demo_call_facts(1) by blast
qed

end
