(* ===== verification/Badger.thy ===== *)
theory Badger imports GoText "HOL-Library.List_Lexorder" "HOL-Library.Char_ord" begin

text \<open>
  The key-value store under the prover's store and the indexer's, as both use Badger: keys and
  values in key order, with predicates for the reads and writes that fail. A transaction writes all
  or nothing. The laws of a store without failures are the locale \<open>kv_store\<close>.
\<close>

section \<open>Operations\<close>

record badger =
  bg_db :: "(string \<times> bytes) list"
  bg_get_err :: "string \<Rightarrow> bool"
  bg_set_err :: "string \<Rightarrow> bool"

fun bg_put :: "string \<Rightarrow> bytes \<Rightarrow> (string \<times> bytes) list \<Rightarrow> (string \<times> bytes) list" where
  "bg_put k v [] = [(k, v)]"
| "bg_put k v ((k', v') # db) =
     (if k < k' then (k, v) # (k', v') # db else if k = k' then (k, v) # db else (k', v') # bg_put k v db)"

text \<open>\<open>txn.Get\<close> with the copy of the value: \<open>Inr None\<close> is \<open>ErrKeyNotFound\<close>.\<close>

definition bg_get :: "badger \<Rightarrow> string \<Rightarrow> bytes option result" where
  "bg_get s k = (if bg_get_err s k then Inl ''badger: read'' else Inr (map_of (bg_db s) k))"

text \<open>\<open>db.Update\<close> of a list of writes: all of them, or none when one fails.\<close>

definition bg_update :: "badger \<Rightarrow> (string \<times> bytes) list \<Rightarrow> unit result \<times> badger" where
  "bg_update s kvs =
     (if \<exists>kv \<in> set kvs. bg_set_err s (fst kv) then (Inl ''badger: write'', s)
      else (Inr (), s\<lparr>bg_db := fold (\<lambda>(k, v). bg_put k v) kvs (bg_db s)\<rparr>))"

definition bg_delete :: "badger \<Rightarrow> string \<Rightarrow> unit result \<times> badger" where
  "bg_delete s k =
     (if bg_set_err s k then (Inl ''badger: write'', s)
      else (Inr (), s\<lparr>bg_db := List.filter (\<lambda>kv. fst kv \<noteq> k) (bg_db s)\<rparr>))"

text \<open>\<open>db.Update\<close> of a list of deletions; deleting a missing key is no error.\<close>

definition bg_delete_keys :: "badger \<Rightarrow> string list \<Rightarrow> unit result \<times> badger" where
  "bg_delete_keys s ks =
     (if \<exists>k \<in> set ks. bg_set_err s k then (Inl ''badger: write'', s)
      else (Inr (), s\<lparr>bg_db := List.filter (\<lambda>kv. fst kv \<notin> set ks) (bg_db s)\<rparr>))"

definition bg_keys :: "badger \<Rightarrow> string \<Rightarrow> string list" where
  "bg_keys s prefix = List.filter (has_prefix prefix) (map fst (bg_db s))"

section \<open>A store without failures\<close>

definition store_inv :: "badger \<Rightarrow> bool" where
  "store_inv s \<longleftrightarrow> sorted_wrt (<) (map fst (bg_db s)) \<and> (\<forall>k. \<not> bg_get_err s k \<and> \<not> bg_set_err s k)"

lemma bg_put_spec:
  "sorted_wrt (<) (map fst db) \<Longrightarrow>
   sorted_wrt (<) (map fst (bg_put k v db)) \<and> map_of (bg_put k v db) = (map_of db)(k \<mapsto> v) \<and>
   fst ` set (bg_put k v db) = insert k (fst ` set db)"
proof (induction k v db rule: bg_put.induct)
  case (2 k v k' v' db)
  consider (less) "k < k'" | (eq) "k = k'" | (more) "k' < k" by fastforce
  then show ?case
  proof cases
    case less
    then show ?thesis using "2.prems" by (auto simp: fun_eq_iff)
  next
    case eq
    then show ?thesis using "2.prems" by (auto simp: fun_eq_iff)
  next
    case more
    then have n: "\<not> k < k'" "k \<noteq> k'" by auto
    have "sorted_wrt (<) (map fst db)" using "2.prems" by simp
    from "2.IH" [OF n this] show ?thesis using "2.prems" n more by (auto simp: fun_eq_iff)
  qed
qed auto

lemma bg_update_one:
  assumes "store_inv s"
  obtains s' where "bg_update s [(k, v)] = (Inr (), s')" "store_inv s'" "map_of (bg_db s') = (map_of (bg_db s))(k \<mapsto> v)"
    "fst ` set (bg_db s') = insert k (fst ` set (bg_db s))"
  using bg_put_spec [of "bg_db s" k v] assms that [of "s\<lparr>bg_db := bg_put k v (bg_db s)\<rparr>"]
  by (simp add: bg_update_def store_inv_def)

lemma bg_get_ok: "store_inv s \<Longrightarrow> bg_get s k = Inr (map_of (bg_db s) k)"
  by (simp add: bg_get_def store_inv_def)

lemma map_of_filter_keys: "map_of (List.filter (\<lambda>kv. fst kv \<notin> K) db) = (\<lambda>k. if k \<in> K then None else map_of db k)"
  by (induction db) (auto simp: fun_eq_iff)

lemma sorted_filter_keys: "sorted_wrt (<) (map fst db) \<Longrightarrow> sorted_wrt (<) (map fst (List.filter P db))"
  for db :: "(string \<times> bytes) list"
  by (induction db) auto

lemma bg_delete_keys_ok:
  assumes "store_inv s"
  obtains s' where "bg_delete_keys s ks = (Inr (), s')" "store_inv s'"
    "map_of (bg_db s') = (\<lambda>k. if k \<in> set ks then None else map_of (bg_db s) k)"
    "map fst (bg_db s') = List.filter (\<lambda>k. k \<notin> set ks) (map fst (bg_db s))"
  using assms that [of "s\<lparr>bg_db := List.filter (\<lambda>kv. fst kv \<notin> set ks) (bg_db s)\<rparr>"]
  by (simp add: bg_delete_keys_def store_inv_def map_of_filter_keys sorted_filter_keys filter_map comp_def)

lemma bg_delete_one: "bg_delete s k = bg_delete_keys s [k]"
  by (simp add: bg_delete_def bg_delete_keys_def)

lemma bg_keys_dom: "k \<in> set (bg_keys s prefix) \<longleftrightarrow> has_prefix prefix k \<and> map_of (bg_db s) k \<noteq> None"
  by (auto simp: bg_keys_def map_of_eq_None_iff)

lemma distinct_bg_keys: "store_inv s \<Longrightarrow> distinct (bg_keys s prefix)"
  by (simp add: bg_keys_def store_inv_def strict_sorted_iff)

section \<open>The contract\<close>

locale kv_store =
  fixes get :: "'s \<Rightarrow> string \<Rightarrow> bytes option" and put :: "'s \<Rightarrow> string \<Rightarrow> bytes \<Rightarrow> 's" and ok :: "'s \<Rightarrow> bool"
  assumes get_put: "ok s \<Longrightarrow> get (put s k v) = (get s)(k \<mapsto> v)"
    and ok_put: "ok s \<Longrightarrow> ok (put s k v)"

text \<open>A table of the store: the values of one type under the keys of one family.\<close>

locale kv_table = kv_store get put ok + codec enc dec wf
  for get :: "'s \<Rightarrow> string \<Rightarrow> bytes option" and put :: "'s \<Rightarrow> string \<Rightarrow> bytes \<Rightarrow> 's" and ok :: "'s \<Rightarrow> bool"
    and enc :: "'x \<Rightarrow> bytes" and dec :: "bytes \<Rightarrow> 'x option" and wf :: "'x \<Rightarrow> bool" +
  fixes key :: "'n \<Rightarrow> string"
  assumes key_inject: "key m = key n \<longleftrightarrow> m = n"
begin

lemma load_save:
  "ok s \<Longrightarrow> wf x \<Longrightarrow>
   Option.bind (get (put s (key n) (enc x)) (key m)) dec = (if m = n then Some x else Option.bind (get s (key m)) dec)"
  by (simp add: get_put key_inject dec_enc)

lemma save_frame: "ok s \<Longrightarrow> k \<notin> range key \<Longrightarrow> get (put s (key n) (enc x)) k = get s k"
  by (auto simp: get_put)

end

interpretation bg: kv_store "\<lambda>s. map_of (bg_db s)" "\<lambda>s k v. snd (bg_update s [(k, v)])" store_inv
proof unfold_locales
  fix s k v assume "store_inv s"
  then obtain s' where "bg_update s [(k, v)] = (Inr (), s')" "store_inv s'" "map_of (bg_db s') = (map_of (bg_db s))(k \<mapsto> v)"
    by (rule bg_update_one)
  then show "map_of (bg_db (snd (bg_update s [(k, v)]))) = (map_of (bg_db s))(k \<mapsto> v)" "store_inv (snd (bg_update s [(k, v)]))"
    by simp_all
qed

end
