(* ===== verification/ProverStore.thy ===== *)
theory ProverStore imports Badger "HOL-Library.Multiset" begin

text \<open>
  The prover's store, prover/internal/storage/store.go, over Badger. JSON is the record \<open>store_json\<close>. A panic is an
  error whose text says so; the mutex is not modelled.
\<close>

type_synonym prover_store = badger

definition NewProverStore :: prover_store where
  "NewProverStore = \<lparr>bg_db = [], bg_get_err = (\<lambda>_. False), bg_set_err = (\<lambda>_. False)\<rparr>"

section \<open>The last processed batch and the last root\<close>

definition SaveLastProcessedBatch :: "prover_store \<Rightarrow> u64 \<Rightarrow> unit result \<times> prover_store" where
  "SaveLastProcessedBatch s batchNumber = bg_update s [(''last_processed_batch'', dec_nat (unat batchNumber))]"

definition GetLastProcessedBatch :: "prover_store \<Rightarrow> u64 result" where
  "GetLastProcessedBatch s =
     (case bg_get s ''last_processed_batch'' of
        Inl err \<Rightarrow> Inl err
      | Inr None \<Rightarrow> Inr 0
      | Inr (Some val) \<Rightarrow> scan_uint val)"

definition SaveLastStateRoot :: "prover_store \<Rightarrow> string \<Rightarrow> unit result \<times> prover_store" where
  "SaveLastStateRoot s stateRoot = bg_update s [(''last_state_root'', stateRoot)]"

definition GetLastStateRoot :: "prover_store \<Rightarrow> string result" where
  "GetLastStateRoot s =
     (case bg_get s ''last_state_root'' of
        Inl err \<Rightarrow> Inl err
      | Inr None \<Rightarrow> Inr []
      | Inr (Some val) \<Rightarrow> Inr val)"

section \<open>Proof metadata\<close>

record proof_data =
  pd_BatchNumber :: u64
  pd_BatchHash :: string
  pd_TxHash :: string
  pd_TxHashes :: "string list"
  pd_Timestamp :: int
  pd_Submitter :: string
  pd_NewStateRoot :: string
  pd_Status :: "8 word"

record verification_failure =
  vf_BatchNumber :: u64
  vf_ErrorMsg :: string
  vf_ProofData :: bytes
  vf_Timestamp :: int

record halt_state =
  hs_Halted :: bool
  hs_Reason :: string
  hs_Timestamp :: int

record store_json =
  sj_marshalProof :: "proof_data \<Rightarrow> bytes result"
  sj_unmarshalProof :: "bytes \<Rightarrow> proof_data result"
  sj_marshalFailure :: "verification_failure \<Rightarrow> bytes result"
  sj_unmarshalFailure :: "bytes \<Rightarrow> verification_failure result"
  sj_marshalHalt :: "halt_state \<Rightarrow> bytes result"
  sj_unmarshalHalt :: "bytes \<Rightarrow> halt_state result"

definition proofKey :: "u64 \<Rightarrow> string" where
  "proofKey batchNumber = ''proof_'' @ dec_nat (unat batchNumber)"

definition SaveMetadata ::
  "store_json \<Rightarrow> int \<Rightarrow> prover_store \<Rightarrow> u64 \<Rightarrow> string \<Rightarrow> string \<Rightarrow> string list \<Rightarrow> string \<Rightarrow> string \<Rightarrow> 8 word \<Rightarrow>
   unit result \<times> prover_store" where
  "SaveMetadata J now s batchNumber batchHash txHash txHashes submitter newStateRoot status =
     (case sj_marshalProof J \<lparr>pd_BatchNumber = batchNumber, pd_BatchHash = batchHash, pd_TxHash = txHash,
        pd_TxHashes = txHashes, pd_Timestamp = now, pd_Submitter = submitter, pd_NewStateRoot = newStateRoot,
        pd_Status = status\<rparr> of
        Inl err \<Rightarrow> (Inl ''failed to marshal proof data'', s)
      | Inr jsonData \<Rightarrow> bg_update s [(proofKey batchNumber, jsonData)])"

definition GetProof :: "store_json \<Rightarrow> prover_store \<Rightarrow> u64 \<Rightarrow> proof_data result" where
  "GetProof J s batchNumber =
     (case bg_get s (proofKey batchNumber) of
        Inl err \<Rightarrow> Inl err
      | Inr None \<Rightarrow> Inl ''Key not found''
      | Inr (Some val) \<Rightarrow> sj_unmarshalProof J val)"

text \<open>The numbers of the keys under \<open>proof_\<close>, in key order; a key that does not scan is skipped.\<close>

definition proof_number :: "string \<Rightarrow> u64 option" where
  "proof_number key = (case scan_uint (drop (length ''proof_'') key) of Inl _ \<Rightarrow> None | Inr n \<Rightarrow> Some n)"

definition collect_numbers :: "prover_store \<Rightarrow> u64 list" where
  "collect_numbers s = List.map_filter proof_number (bg_keys s ''proof_'')"

text \<open>One pass of \<open>n\<close> comparisons of neighbours from the front, and the passes.\<close>

fun bubble_pass :: "nat \<Rightarrow> u64 list \<Rightarrow> u64 list" where
  "bubble_pass (Suc n) (x # y # xs) = (if x < y then y # bubble_pass n (x # xs) else x # bubble_pass n (y # xs))"
| "bubble_pass _ xs = xs"

definition bubble_sort :: "u64 list \<Rightarrow> u64 list" where
  "bubble_sort xs = fold (\<lambda>i. bubble_pass (length xs - i - 1)) [0..<length xs - 1] xs"

text \<open>The loop that reads the selected batches: a failed \<open>Get\<close> is skipped, bad JSON is an error.\<close>

fun fetch_proofs :: "store_json \<Rightarrow> prover_store \<Rightarrow> u64 list \<Rightarrow> proof_data list result" where
  "fetch_proofs J s [] = Inr []"
| "fetch_proofs J s (n # ns) =
     (case bg_get s (proofKey n) of
        Inr (Some val) \<Rightarrow>
          (case sj_unmarshalProof J val of
             Inl err \<Rightarrow> Inl err
           | Inr d \<Rightarrow> (case fetch_proofs J s ns of Inl err \<Rightarrow> Inl err | Inr ds \<Rightarrow> Inr (d # ds)))
      | _ \<Rightarrow> fetch_proofs J s ns)"

definition GetBatches :: "store_json \<Rightarrow> prover_store \<Rightarrow> u64 \<Rightarrow> u64 \<Rightarrow> proof_data list result" where
  "GetBatches J s offset limit =
     (let batchNumbers = bubble_sort (collect_numbers s);
          n = int (length batchNumbers);
          start = sint offset;
          stop = sint (offset + limit)
      in if n \<le> start then Inr []
         else
           let stop = (if n < stop then n else stop)
           in if start < 0 \<or> stop < start then Inl ''panic: slice bounds out of range''
              else fetch_proofs J s (take (nat stop - nat start) (drop (nat start) batchNumbers)))"

definition GetTotalBatches :: "prover_store \<Rightarrow> u64" where
  "GetTotalBatches s = of_nat (length (bg_keys s ''proof_''))"

section \<open>Failures and the halt flag\<close>

definition failureKey :: "u64 \<Rightarrow> string" where
  "failureKey batchNumber = ''failure_'' @ dec_nat (unat batchNumber)"

definition SaveVerificationFailure ::
  "store_json \<Rightarrow> int \<Rightarrow> prover_store \<Rightarrow> u64 \<Rightarrow> string \<Rightarrow> bytes \<Rightarrow> unit result \<times> prover_store" where
  "SaveVerificationFailure J now s batchNumber errorMsg proofData =
     (case sj_marshalFailure J \<lparr>vf_BatchNumber = batchNumber, vf_ErrorMsg = errorMsg, vf_ProofData = proofData,
        vf_Timestamp = now\<rparr> of
        Inl err \<Rightarrow> (Inl ''failed to marshal failure data'', s)
      | Inr jsonData \<Rightarrow> bg_update s [(failureKey batchNumber, jsonData), (''last_failure'', jsonData)])"

definition GetLastVerificationFailure :: "store_json \<Rightarrow> prover_store \<Rightarrow> (u64 \<times> string) result" where
  "GetLastVerificationFailure J s =
     (case bg_get s ''last_failure'' of
        Inl err \<Rightarrow> Inl err
      | Inr None \<Rightarrow> Inr (0, [])
      | Inr (Some val) \<Rightarrow>
          (case sj_unmarshalFailure J val of Inl err \<Rightarrow> Inl err | Inr f \<Rightarrow> Inr (vf_BatchNumber f, vf_ErrorMsg f)))"

definition GetVerificationFailure :: "store_json \<Rightarrow> prover_store \<Rightarrow> u64 \<Rightarrow> verification_failure result" where
  "GetVerificationFailure J s batchNumber =
     (case bg_get s (failureKey batchNumber) of
        Inl err \<Rightarrow> Inl err
      | Inr None \<Rightarrow> Inl ''Key not found''
      | Inr (Some val) \<Rightarrow> sj_unmarshalFailure J val)"

definition SetHaltState :: "store_json \<Rightarrow> int \<Rightarrow> prover_store \<Rightarrow> string \<Rightarrow> unit result \<times> prover_store" where
  "SetHaltState J now s reason =
     (case sj_marshalHalt J \<lparr>hs_Halted = True, hs_Reason = reason, hs_Timestamp = now\<rparr> of
        Inl err \<Rightarrow> (Inl ''failed to marshal halt state'', s)
      | Inr jsonData \<Rightarrow> bg_update s [(''halt_state'', jsonData)])"

definition GetHaltState :: "store_json \<Rightarrow> prover_store \<Rightarrow> (bool \<times> string) result" where
  "GetHaltState J s =
     (case bg_get s ''halt_state'' of
        Inl err \<Rightarrow> Inl err
      | Inr None \<Rightarrow> Inr (False, [])
      | Inr (Some val) \<Rightarrow>
          (case sj_unmarshalHalt J val of Inl err \<Rightarrow> Inl err | Inr h \<Rightarrow> Inr (hs_Halted h, hs_Reason h)))"

definition ClearHaltState :: "prover_store \<Rightarrow> unit result \<times> prover_store" where
  "ClearHaltState s = bg_delete s ''halt_state''"

section \<open>The bubble sort sorts\<close>

lemma bubble_pass_split:
  "length a = Suc n \<Longrightarrow> \<exists>a' m. bubble_pass n (a @ b) = a' @ m # b \<and> mset (a' @ [m]) = mset a \<and> (\<forall>x \<in> set a'. m \<le> x)"
proof (induction n arbitrary: a)
  case 0
  then obtain x where a: "a = [x]" by (auto simp: length_Suc_conv)
  have "bubble_pass 0 (a @ b) = [] @ x # b" by (simp add: a)
  then show ?case using a by (intro exI [of _ "[]"] exI [of _ x]) simp
next
  case (Suc n)
  obtain x y r where a: "a = x # y # r" using Suc.prems by (auto simp: length_Suc_conv)
  have step: "\<exists>a' m. bubble_pass (Suc n) (a @ b) = a' @ m # b \<and> mset (a' @ [m]) = mset a \<and> (\<forall>x \<in> set a'. m \<le> x)"
    if e: "bubble_pass (Suc n) (a @ b) = w # bubble_pass n ((z # r) @ b)" and s: "{#w, z#} = {#x, y#}" "z \<le> w" for w z
  proof -
    have "length (z # r) = Suc n" using Suc.prems by (simp add: a)
    from Suc.IH [OF this] obtain a' m where IH: "bubble_pass n ((z # r) @ b) = a' @ m # b" "mset (a' @ [m]) = mset (z # r)"
      "\<forall>x \<in> set a'. m \<le> x" by blast
    have "z \<in># mset (a' @ [m])" unfolding IH(2) by simp
    then have "m \<le> z" using IH(3) by auto
    then have "\<forall>x \<in> set (w # a'). m \<le> x" using IH(3) s(2) by simp
    moreover have "mset ((w # a') @ [m]) = mset a"
    proof -
      have "mset ((w # a') @ [m]) = add_mset w (mset (z # r))" using IH(2) by simp
      also have "\<dots> = {#w, z#} + mset r" by simp
      also have "\<dots> = mset a" unfolding s(1) a by simp
      finally show ?thesis .
    qed
    ultimately show ?thesis using e IH(1) by (intro exI [of _ "w # a'"] exI [of _ m]) simp
  qed
  show ?case
  proof (cases "x < y")
    case True
    then have "bubble_pass (Suc n) (a @ b) = y # bubble_pass n ((x # r) @ b)" by (simp add: a)
    from step [OF this] True show ?thesis by (simp add: add_mset_commute)
  next
    case False
    then have "bubble_pass (Suc n) (a @ b) = x # bubble_pass n ((y # r) @ b)" by (simp add: a)
    from step [OF this] False show ?thesis by simp
  qed
qed

lemma bubble_sort_eq: "bubble_sort xs = rev (sort xs)"
proof -
  have inv: "\<exists>a b. fold (\<lambda>i. bubble_pass (length xs - i - 1)) [0..<k] xs = a @ b \<and> length b = k \<and> mset (a @ b) = mset xs \<and>
      sorted_wrt (\<ge>) b \<and> (\<forall>x \<in> set a. \<forall>y \<in> set b. y \<le> x)" if "k \<le> length xs - 1" for k
    using that
  proof (induction k)
    case (Suc k)
    then obtain a b where IH: "fold (\<lambda>i. bubble_pass (length xs - i - 1)) [0..<k] xs = a @ b" "length b = k"
      "mset (a @ b) = mset xs" "sorted_wrt (\<ge>) b" "\<forall>x \<in> set a. \<forall>y \<in> set b. y \<le> x" by auto
    have "length a + k = length xs" using mset_eq_length [OF IH(3)] IH(2) by simp
    then have "length a = Suc (length xs - k - 1)" using Suc.prems by simp
    from bubble_pass_split [OF this, of b] obtain a' m where p: "bubble_pass (length xs - k - 1) (a @ b) = a' @ m # b"
      "mset (a' @ [m]) = mset a" "\<forall>x \<in> set a'. m \<le> x" by blast
    have sets: "set a = insert m (set a')" using arg_cong [OF p(2), of set_mset] by simp
    have "sorted_wrt (\<ge>) (m # b)" "\<forall>x \<in> set a'. \<forall>y \<in> set (m # b). y \<le> x" using IH(4,5) p(3) by (auto simp: sets)
    moreover have "mset (a' @ m # b) = mset a + mset b" unfolding p(2) [symmetric] by simp
    moreover have "mset a + mset b = mset xs" using IH(3) by simp
    ultimately show ?case
      using p(1) IH(1,2) by (intro exI [of _ a'] exI [of _ "m # b"]) simp
  qed simp
  obtain a b where f: "bubble_sort xs = a @ b" "length b = length xs - 1" "mset (a @ b) = mset xs" "sorted_wrt (\<ge>) b"
    "\<forall>x \<in> set a. \<forall>y \<in> set b. y \<le> x"
    using inv [of "length xs - 1"] unfolding bubble_sort_def by blast
  have "length a \<le> 1" using mset_eq_length [OF f(3)] f(2) by simp
  then have "sorted_wrt (\<ge>) a" by (cases a) simp_all
  then have "sorted_wrt (\<ge>) (bubble_sort xs)" using f by (simp add: sorted_wrt_append)
  then have "sorted (rev (bubble_sort xs))" by (simp add: sorted_wrt_rev)
  moreover have "mset (rev (bubble_sort xs)) = mset xs" using f(1,3) by (simp add: add.commute)
  ultimately have "sort xs = rev (bubble_sort xs)" by (intro properties_for_sort) simp_all
  then show ?thesis by simp
qed

section \<open>The store refines a map\<close>

lemma proofKey_inject [simp]: "proofKey m = proofKey n \<longleftrightarrow> m = n"
  by (simp add: proofKey_def word_unat_eq_iff)

lemma proof_number_key [simp]: "proof_number (proofKey n) = Some n"
  by (simp add: proof_number_def proofKey_def scan_uint_dec)

text \<open>
  The proofs in a store are a map from batch numbers, in JSON; the keys under \<open>proof_\<close> are the map's.
\<close>

definition stored_as :: "store_json \<Rightarrow> bytes option \<Rightarrow> proof_data option \<Rightarrow> bool" where
  "stored_as J v r \<longleftrightarrow> (case r of None \<Rightarrow> v = None | Some d \<Rightarrow> \<exists>z. v = Some z \<and> sj_unmarshalProof J z = Inr d)"

definition holds_proofs :: "store_json \<Rightarrow> prover_store \<Rightarrow> (u64 \<rightharpoonup> proof_data) \<Rightarrow> bool" where
  "holds_proofs J s M \<longleftrightarrow>
     store_inv s \<and>
     (\<forall>k \<in> fst ` set (bg_db s). has_prefix ''proof_'' k \<longrightarrow> k \<in> proofKey ` dom M) \<and>
     (\<forall>n. stored_as J (map_of (bg_db s) (proofKey n)) (M n))"

text \<open>Proof data that survives JSON, as every string of valid UTF-8 does.\<close>

definition json_keeps :: "store_json \<Rightarrow> proof_data \<Rightarrow> bool" where
  "json_keeps J d \<longleftrightarrow> (\<exists>z. sj_marshalProof J d = Inr z \<and> sj_unmarshalProof J z = Inr d)"

definition save_proof :: "store_json \<Rightarrow> proof_data \<Rightarrow> prover_store \<Rightarrow> unit result \<times> prover_store" where
  "save_proof J d s = SaveMetadata J (pd_Timestamp d) s (pd_BatchNumber d) (pd_BatchHash d) (pd_TxHash d) (pd_TxHashes d)
     (pd_Submitter d) (pd_NewStateRoot d) (pd_Status d)"

lemma save_proof_holds:
  assumes laws: "json_keeps J d" and h: "holds_proofs J s M"
  obtains s' where "save_proof J d s = (Inr (), s')" "holds_proofs J s' (M(pd_BatchNumber d \<mapsto> d))"
proof -
  obtain z where z: "sj_marshalProof J d = Inr z" "sj_unmarshalProof J z = Inr d" using laws by (auto simp: json_keeps_def)
  have inv: "store_inv s" using h by (simp add: holds_proofs_def)
  obtain s' where s': "bg_update s [(proofKey (pd_BatchNumber d), z)] = (Inr (), s')" "store_inv s'"
    "map_of (bg_db s') = (map_of (bg_db s))(proofKey (pd_BatchNumber d) \<mapsto> z)"
    "fst ` set (bg_db s') = insert (proofKey (pd_BatchNumber d)) (fst ` set (bg_db s))"
    using bg_update_one [OF inv] by blast
  have "save_proof J d s = (Inr (), s')" using z(1) s'(1) by (cases d) (simp add: save_proof_def SaveMetadata_def)
  moreover have "holds_proofs J s' (M(pd_BatchNumber d \<mapsto> d))"
    using h s'(2) z(2) unfolding holds_proofs_def s'(3,4) by (auto simp: stored_as_def [of _ "Some z"])
  ultimately show thesis by (rule that)
qed

lemma collect_numbers_spec:
  assumes "holds_proofs J s M"
  shows "distinct (collect_numbers s)" "set (collect_numbers s) = dom M" "length (bg_keys s ''proof_'') = card (dom M)"
proof -
  have keys: "\<forall>k \<in> set (bg_keys s ''proof_''). k \<in> range proofKey" "distinct (bg_keys s ''proof_'')"
    using assms by (auto simp: holds_proofs_def bg_keys_def store_inv_def strict_sorted_iff intro!: distinct_filter)
  have "List.map_filter proof_number ks = map (inv proofKey) ks" if "\<forall>k \<in> set ks. k \<in> range proofKey" for ks
    using that by (induction ks) (auto simp: List.map_filter_def inv_f_f inj_def)
  then have eq: "collect_numbers s = map (inv proofKey) (bg_keys s ''proof_'')" using keys(1) by (simp add: collect_numbers_def)
  show "distinct (collect_numbers s)"
    unfolding eq using keys by (simp add: distinct_map inj_on_def inv_into_injective)
  have "k \<in> set (bg_keys s ''proof_'') \<longleftrightarrow> k \<in> proofKey ` dom M" for k
  proof
    assume "k \<in> set (bg_keys s ''proof_'')"
    then show "k \<in> proofKey ` dom M" using assms by (auto simp: holds_proofs_def bg_keys_def)
  next
    assume "k \<in> proofKey ` dom M"
    then obtain n d where n: "k = proofKey n" "M n = Some d" by auto
    have "stored_as J (map_of (bg_db s) (proofKey n)) (M n)" using assms by (simp add: holds_proofs_def)
    then have "map_of (bg_db s) (proofKey n) \<noteq> None" by (auto simp: stored_as_def n(2))
    then have "proofKey n \<in> fst ` set (bg_db s)" by (simp add: map_of_eq_None_iff)
    moreover have "has_prefix ''proof_'' (proofKey n)" by (simp add: has_prefix_def proofKey_def)
    ultimately show "k \<in> set (bg_keys s ''proof_'')" by (auto simp: n(1) bg_keys_def)
  qed
  then have set: "set (bg_keys s ''proof_'') = proofKey ` dom M" by blast
  then show "set (collect_numbers s) = dom M" by (simp add: eq image_image inv_f_f inj_def)
  have "card (proofKey ` dom M) = card (dom M)" by (rule card_image) (simp add: inj_on_def)
  then show "length (bg_keys s ''proof_'') = card (dom M)" using distinct_card [OF keys(2)] by (simp add: set)
qed

lemma fetch_proofs_all:
  assumes "holds_proofs J s M"
  shows "set ns \<subseteq> dom M \<Longrightarrow> fetch_proofs J s ns = Inr (map (\<lambda>n. the (M n)) ns)"
proof (induction ns)
  case (Cons n ns)
  then obtain d where d: "M n = Some d" by auto
  have "stored_as J (map_of (bg_db s) (proofKey n)) (M n)" using assms by (simp add: holds_proofs_def)
  then obtain z where "map_of (bg_db s) (proofKey n) = Some z" "sj_unmarshalProof J z = Inr d"
    by (auto simp: stored_as_def d)
  then show ?case using Cons d assms by (simp add: bg_get_def holds_proofs_def store_inv_def)
qed simp

lemma sint_u64: "sint (w :: u64) = (if unat w < 2 ^ 63 then int (unat w) else int (unat w) - 2 ^ 64)"
proof -
  have gen: "signed_take_bit 63 (int n) = (if n < 2 ^ 63 then int n else int n - 2 ^ 64)" if top: "n < 2 ^ 64" for n
  proof (cases "n < 2 ^ 63")
    case True
    then show ?thesis by (simp add: signed_take_bit_int_eq_self)
  next
    case False
    have "int n div 2 ^ 63 = 1"
      by (rule int_div_pos_eq [where r = "int n - 2 ^ 63"]) (use False top in simp_all)
    then have "bit (int n) 63" by (simp add: bit_iff_odd)
    then show ?thesis using False top
      by (simp add: signed_take_bit_eq_take_bit_minus take_bit_int_eq_self)
  qed
  have "unat w < 2 ^ 64" using unsigned_less [of w, where 'a = nat] by simp
  from gen [OF this] show ?thesis by (simp add: sint_uint)
qed

text \<open>Proofs saved one after another into a new store, and the map they make.\<close>

definition save_all :: "store_json \<Rightarrow> proof_data list \<Rightarrow> prover_store" where
  "save_all J ds = fold (\<lambda>d s. snd (save_proof J d s)) ds NewProverStore"

definition saved :: "proof_data list \<Rightarrow> u64 \<rightharpoonup> proof_data" where
  "saved ds = fold (\<lambda>d M. M(pd_BatchNumber d \<mapsto> d)) ds Map.empty"

lemma save_all_holds:
  "\<forall>d \<in> set ds. json_keeps J d \<Longrightarrow> holds_proofs J (save_all J ds) (saved ds)"
proof (induction ds rule: rev_induct)
  case Nil
  then show ?case
    by (simp add: save_all_def saved_def holds_proofs_def NewProverStore_def store_inv_def stored_as_def)
next
  case (snoc d ds)
  then have "holds_proofs J (save_all J ds) (saved ds)" "json_keeps J d" by simp_all
  from save_proof_holds [OF this(2,1)]
  show ?case by (metis (no_types, lifting) fold_append fold_simps comp_apply save_all_def saved_def snd_conv)
qed

lemma page_slice:
  "(let ns = xs; n = int (length ns); start = int m; stop = int (m + k)
    in if n \<le> start then Inr []
       else let stop = (if n < stop then n else stop)
            in if start < 0 \<or> stop < start then Inl e
               else fetch_proofs J s (take (nat stop - nat start) (drop (nat start) ns))) =
   fetch_proofs J s (take k (drop m xs))"
proof (cases "length xs \<le> m")
  case False
  then show ?thesis by (cases "length xs < m + k") (simp_all add: Let_def take_all nat_int_add)
qed simp

section \<open>Pages\<close>

text \<open>
  After any saves into a new store, re-saves included, a page is the slice of the saved proofs in
  descending order of batch number, each the last saved for its number.
\<close>

lemma GetBatches_slice:
  assumes json: "\<forall>d \<in> set ds. json_keeps J d" and small: "unat offset + unat limit < 2 ^ 63"
  shows "GetBatches J (save_all J ds) offset limit =
      Inr (map (\<lambda>n. the (saved ds n)) (take (unat limit) (drop (unat offset) (rev (sorted_list_of_set (dom (saved ds))))))) \<and>
    GetTotalBatches (save_all J ds) = of_nat (card (dom (saved ds))) \<and>
    (\<forall>n d. saved ds n = Some d \<longrightarrow> GetProof J (save_all J ds) n = Inr d)"
proof -
  let ?s = "save_all J ds" and ?M = "saved ds"
  note h = save_all_holds [OF json]
  note c = collect_numbers_spec [OF h]
  have "sorted_list_of_set (dom ?M) = sort (collect_numbers ?s)"
    using c by (metis sorted_list_of_set_sort_remdups distinct_remdups_id)
  then have sorted: "bubble_sort (collect_numbers ?s) = rev (sorted_list_of_set (dom ?M))" by (simp add: bubble_sort_eq)
  let ?ns = "rev (sorted_list_of_set (dom ?M))"
  have fin: "finite (dom ?M)" using c(2) by (metis List.finite_set)
  have sum: "unat (offset + limit) = unat offset + unat limit" using small by (simp add: unat_word_ariths)
  have st: "sint offset = int (unat offset)" "sint (offset + limit) = int (unat offset + unat limit)"
    using small by (simp_all add: sint_u64 sum)
  have sub: "set (take k (drop m ?ns)) \<subseteq> dom ?M" for k m
    using fin set_take_subset [of k "drop m ?ns"] set_drop_subset [of m ?ns] by auto
  have "GetBatches J ?s offset limit = Inr (map (\<lambda>n. the (?M n)) (take (unat limit) (drop (unat offset) ?ns)))"
    unfolding GetBatches_def sorted st page_slice fetch_proofs_all [OF h sub] ..
  moreover note c(3)
  moreover have "GetProof J ?s n = Inr d" if "?M n = Some d" for n d
    using h that unfolding holds_proofs_def
    by (auto simp: GetProof_def bg_get_def store_inv_def stored_as_def dest!: spec [of _ n])
  ultimately show ?thesis by (simp add: GetTotalBatches_def)
qed

definition demo_proof :: "u64 \<Rightarrow> proof_data" where
  "demo_proof n = \<lparr>pd_BatchNumber = n, pd_BatchHash = [], pd_TxHash = [], pd_TxHashes = [], pd_Timestamp = 0,
     pd_Submitter = [], pd_NewStateRoot = ''7'', pd_Status = 0\<rparr>"

definition demo_json :: store_json where
  "demo_json = \<lparr>sj_marshalProof = (\<lambda>d. Inr (dec_nat (unat (pd_BatchNumber d)))),
     sj_unmarshalProof = (\<lambda>z. case parse_unsigned z of None \<Rightarrow> Inl [] | Some n \<Rightarrow> Inr (demo_proof (of_nat n))),
     sj_marshalFailure = (\<lambda>_. Inl []), sj_unmarshalFailure = (\<lambda>_. Inl []),
     sj_marshalHalt = (\<lambda>_. Inl []), sj_unmarshalHalt = (\<lambda>_. Inl [])\<rparr>"

lemma demo_json_keeps: "json_keeps demo_json (demo_proof n)"
  by (simp add: json_keeps_def demo_json_def demo_proof_def)

end
