(* ===== verification/ProverAPI.thy ===== *)
theory ProverAPI imports ProverStore begin

text \<open>
  The prover's REST API, prover/internal/api/server.go, over the store and the batch registry
  contract. Fiber's routing, JSON encoding and \<open>QueryInt\<close> are the fields of a request and a
  response; the registry's two getters are the record \<open>registry\<close>.
\<close>

section \<open>Requests and responses\<close>

record onchain_batch =
  oc_BatchHash :: bytes
  oc_NewStateRoot :: bytes
  oc_Submitter :: string
  oc_Timestamp :: int
  oc_VerifiedAt :: int
  oc_Status :: "8 word"

record registry =
  rg_TotalBatches :: "int result"
  rg_GetBatch :: "int \<Rightarrow> onchain_batch result"

record batch_response =
  br_BatchNumber :: u64
  br_BatchHash :: string
  br_NewStateRoot :: string
  br_Submitter :: string
  br_Timestamp :: u64
  br_Status :: "8 word"
  br_TxHash :: string
  br_TxHashes :: "string list"

record status_response =
  sr_Status :: string
  sr_BatchNumber :: u64
  sr_Timestamp :: int
  sr_Note :: string

record batch_page =
  bp_page :: "64 word"
  bp_limit :: "64 word"
  bp_count :: nat
  bp_total_pages :: "64 word"
  bp_batches :: "batch_response list"

record api_server =
  as_registry :: registry
  as_store :: prover_store
  as_deployments :: "(string \<times> string) list"

text \<open>A panic of a handler reaches Fiber, which has no recover middleware here, and ends the process.\<close>

datatype api_answer =
    Redirect string
  | Failed nat string
  | Contracts "(string \<times> string) list"
  | Batch batch_response
  | Status status_response
  | Page batch_page
  | Panic string

section \<open>Handlers\<close>

definition handleRoot :: "api_server \<Rightarrow> api_answer" where
  "handleRoot api = Redirect ''/swagger/index.html''"

definition handleGetContracts :: "api_server \<Rightarrow> api_answer" where
  "handleGetContracts api =
     (if as_deployments api = [] then Failed 404 ''No deployed contracts found'' else Contracts (as_deployments api))"

text \<open>\<open>BytesToHash(..).Hex()\<close> of 32 bytes, and \<open>BigToHash(..).Hex()\<close>, which keeps the last 32 bytes of the absolute value.\<close>

definition hash_hex :: "bytes \<Rightarrow> string" where
  "hash_hex b = ''0x'' @ hex_encode b"

definition big_hash_hex :: "int \<Rightarrow> string" where
  "big_hash_hex v = hash_hex (be_enc 32 (nat \<bar>v\<bar>))"

definition big_uint64 :: "int \<Rightarrow> u64" where
  "big_uint64 v = (if v < 0 then - of_nat (nat (- v)) else of_nat (nat v))"

definition handleLatestBatch :: "store_json \<Rightarrow> api_server \<Rightarrow> api_answer" where
  "handleLatestBatch J api =
     (case rg_TotalBatches (as_registry api) of
        Inl err \<Rightarrow> Failed 500 ''Failed to get total batches''
      | Inr totalBatches \<Rightarrow>
          if totalBatches = 0 then Failed 404 ''No batches found''
          else (case rg_GetBatch (as_registry api) totalBatches of
                  Inl err \<Rightarrow> Failed 500 ''Failed to get batch''
                | Inr batch \<Rightarrow>
                    let (txHash, txHashes) = (case GetProof J (as_store api) (big_uint64 totalBatches) of
                          Inl err \<Rightarrow> ([], []) | Inr d \<Rightarrow> (pd_TxHash d, pd_TxHashes d))
                    in Batch \<lparr>br_BatchNumber = big_uint64 totalBatches, br_BatchHash = hash_hex (oc_BatchHash batch),
                         br_NewStateRoot = hash_hex (oc_NewStateRoot batch), br_Submitter = oc_Submitter batch,
                         br_Timestamp = big_uint64 (oc_Timestamp batch), br_Status = oc_Status batch,
                         br_TxHash = txHash, br_TxHashes = txHashes\<rparr>))"

definition state_root_hex :: "string \<Rightarrow> string" where
  "state_root_hex root = (case parse_dec root of None \<Rightarrow> root | Some v \<Rightarrow> big_hash_hex v)"

definition stored_response :: "proof_data \<Rightarrow> batch_response" where
  "stored_response d =
     \<lparr>br_BatchNumber = pd_BatchNumber d, br_BatchHash = pd_BatchHash d, br_NewStateRoot = state_root_hex (pd_NewStateRoot d),
      br_Submitter = pd_Submitter d, br_Timestamp = of_int (pd_Timestamp d), br_Status = pd_Status d,
      br_TxHash = pd_TxHash d, br_TxHashes = pd_TxHashes d\<rparr>"

definition handleGetBatch :: "store_json \<Rightarrow> api_server \<Rightarrow> string \<Rightarrow> api_answer" where
  "handleGetBatch J api idStr =
     (case ParseUint idStr 64 of
        None \<Rightarrow> Failed 400 ''Invalid batch ID''
      | Some n \<Rightarrow>
          (case GetProof J (as_store api) (of_nat n) of
             Inl err \<Rightarrow> Failed 404 (''Batch '' @ dec_nat n @ '' not found in local storage'')
           | Inr d \<Rightarrow> Batch (stored_response d)))"

definition handleGetStatus :: "store_json \<Rightarrow> api_server \<Rightarrow> string \<Rightarrow> api_answer" where
  "handleGetStatus J api idStr =
     (case ParseUint idStr 64 of
        None \<Rightarrow> Failed 400 ''Invalid batch ID''
      | Some n \<Rightarrow>
          (case GetProof J (as_store api) (of_nat n) of
             Inr d \<Rightarrow> Status \<lparr>sr_Status = ''COMPLETED'', sr_BatchNumber = of_nat n, sr_Timestamp = pd_Timestamp d, sr_Note = []\<rparr>
           | Inl err \<Rightarrow>
               (case rg_GetBatch (as_registry api) (int n) of
                  Inl err \<Rightarrow> Status \<lparr>sr_Status = ''PENDING'', sr_BatchNumber = of_nat n, sr_Timestamp = 0, sr_Note = []\<rparr>
                | Inr batch \<Rightarrow>
                    if 0 < big_uint64 (oc_VerifiedAt batch)
                    then Status \<lparr>sr_Status = ''VERIFIED_ON_CHAIN'', sr_BatchNumber = of_nat n, sr_Timestamp = 0,
                      sr_Note = ''Proof verified but local proof data not found''\<rparr>
                    else Status \<lparr>sr_Status = ''PENDING'', sr_BatchNumber = of_nat n, sr_Timestamp = 0, sr_Note = []\<rparr>)))"

definition normal_limit :: "64 word \<Rightarrow> 64 word" where
  "normal_limit limit =
     (if limit \<in> {10, 25, 50, 100} then limit
      else if sint limit < 10 then 10 else if sint limit < 25 then 25 else if sint limit < 50 then 50 else 100)"

definition handleGetBatches :: "store_json \<Rightarrow> api_server \<Rightarrow> 64 word \<Rightarrow> 64 word \<Rightarrow> api_answer" where
  "handleGetBatches J api page limit =
     (if sint page < 1 then Failed 400 ''Page must be >= 1''
      else
        let limit = normal_limit limit; offset = (page - 1) * limit
        in (case GetBatches J (as_store api) offset limit of
              Inl err \<Rightarrow> if has_prefix ''panic'' err then Panic err else Failed 500 ''Error fetching batches''
            | Inr batches \<Rightarrow>
                let totalCount = GetTotalBatches (as_store api);
                    totalPages = (if 0 < sint limit then (totalCount + limit - 1) div limit else 0)
                in Page \<lparr>bp_page = page, bp_limit = limit, bp_count = length batches, bp_total_pages = totalPages,
                     bp_batches = map stored_response batches\<rparr>))"

section \<open>The listing\<close>

lemma normal_limit_range: "normal_limit limit \<in> {10, 25, 50, 100}"
  by (simp add: normal_limit_def)

text \<open>
  The listing is exact. After any saves into a new store, page p with n to a page is the p-th
  slice of n of the saved proofs in descending order of batch number, each as last saved for its
  number, so the pages partition the proofs; n is 10, 25, 50 or 100, and the number of pages is
  the number of proofs over n, rounded up.
\<close>
theorem listing_pages:
  assumes json: "\<forall>d \<in> set ds. json_keeps J d" and n: "n = unat (normal_limit limit)"
    and page: "1 \<le> unat page" "unat page * n < 2 ^ 63" and few: "card (dom (saved ds)) + 100 < 2 ^ 63"
  shows "n \<in> {10, 25, 50, 100} \<and>
    handleGetBatches J (api\<lparr>as_store := save_all J ds\<rparr>) page limit = Page
      \<lparr>bp_page = page, bp_limit = normal_limit limit,
       bp_count = length (take n (drop ((unat page - 1) * n) (rev (sorted_list_of_set (dom (saved ds)))))),
       bp_total_pages = of_nat ((card (dom (saved ds)) + n - 1) div n),
       bp_batches = map (\<lambda>k. stored_response (the (saved ds k)))
         (take n (drop ((unat page - 1) * n) (rev (sorted_list_of_set (dom (saved ds))))))\<rparr>"
proof -
  let ?L = "normal_limit limit"
  have L: "n \<in> {10, 25, 50, 100}" using normal_limit_range [of limit] by (auto simp: n)
  then have "n \<ge> 1" by auto
  then have "unat page < 2 ^ 63" using page(2) by (metis le_less_trans mult.right_neutral mult_le_mono2)
  then have "sint page = int (unat page)" by (simp only: sint_u64 if_True)
  then have sp: "\<not> sint page < 1" using page(1) by linarith
  have p1: "unat (page - 1) = unat page - 1" using page(1) by (simp add: unat_sub_if')
  have "(unat page - 1) * n < 2 ^ 64" by (rule le_less_trans [OF _ less_trans [OF page(2)]]) simp_all
  then have off: "unat ((page - 1) * ?L) = (unat page - 1) * n"
    by (simp add: unat_word_ariths p1 n [symmetric])
  have "(unat page - 1) * n + n = unat page * n"
    using page(1) by (simp add: diff_mult_distrib)
  then have sum: "unat ((page - 1) * ?L) + unat ?L < 2 ^ 63" using page(2) by (simp only: off n [symmetric])
  note g = GetBatches_slice [OF json sum, unfolded off n [symmetric]]
  have "unat ?L < 2 ^ 63" using L by (auto simp: n [symmetric])
  then have sl: "0 < sint ?L" using L by (simp add: sint_u64 n [symmetric]) auto
  have tot: "(of_nat (card (dom (saved ds))) + ?L - 1) div ?L = of_nat ((card (dom (saved ds)) + n - 1) div n)"
  proof -
    have "?L = of_nat n" by (simp add: n)
    moreover have "of_nat (card (dom (saved ds))) + of_nat n - (1 :: 64 word) = of_nat (card (dom (saved ds)) + n - 1)"
      using \<open>n \<ge> 1\<close> by (simp add: of_nat_diff)
    moreover have "card (dom (saved ds)) + n - 1 < 2 ^ 64" "n < 2 ^ 64" using few L by auto
    then have "unat (of_nat (card (dom (saved ds)) + n - 1) :: u64) = card (dom (saved ds)) + n - 1"
      "unat (of_nat n :: u64) = n"
      by (simp_all add: unat_of_nat)
    ultimately show ?thesis by (simp only: word_arith_nat_div)
  qed
  show ?thesis using L g sp sl tot by (simp add: handleGetBatches_def Let_def)
qed

theorem listing_pages_witness:
  "\<forall>api. \<exists>p. handleGetBatches demo_json (api\<lparr>as_store := save_all demo_json (map demo_proof [9, 10, 2, 9])\<rparr>) 1 7 = Page p \<and>
     map br_BatchNumber (bp_batches p) = [10, 9, 2] \<and> bp_total_pages p = 1"
proof
  fix api
  define ds where "ds = map demo_proof [9, 10, 2, 9]"
  have dom: "dom (saved ds) = {2, 9, 10}" by (auto simp: ds_def saved_def demo_proof_def)
  have sort: "sorted_list_of_set {2, 9, 10 :: u64} = [2, 9, 10]" by simp
  have "\<forall>d \<in> set ds. json_keeps demo_json d" by (simp add: ds_def demo_json_keeps)
  moreover have "card {2, 9, 10 :: u64} = 3" by simp
  moreover have "pd_BatchNumber (the (saved ds k)) = k" if "k \<in> {2, 9, 10}" for k
    using that by (auto simp: ds_def saved_def demo_proof_def)
  moreover have "unat (normal_limit 7) = 10" by (simp add: normal_limit_def)
  ultimately show "\<exists>p. handleGetBatches demo_json (api\<lparr>as_store := save_all demo_json (map demo_proof [9, 10, 2, 9])\<rparr>) 1 7 = Page p \<and>
     map br_BatchNumber (bp_batches p) = [10, 9, 2] \<and> bp_total_pages p = 1"
    using listing_pages [of ds demo_json "unat (normal_limit 7)" 7 1 api] unfolding ds_def [symmetric]
    by (simp add: dom sort stored_response_def)
qed

text \<open>
  A page number can end the process. The offset is multiplied in 64 bits and read back as a
  signed int, so whatever the store holds, page 2^60 + 1 of 10 has a negative start and the slice
  expression panics; nothing recovers it.
\<close>
theorem listing_page_panics:
  "\<exists>e. handleGetBatches J api (2 ^ 60 + 1) 10 = Panic e"
proof -
  have "GetBatches J s (2 ^ 60 * 10) 10 = Inl ''panic: slice bounds out of range''" for s
  proof -
    have "sint (2 ^ 60 * 10 :: u64) < 0" by (simp add: sint_u64)
    then show ?thesis by (simp add: GetBatches_def Let_def)
  qed
  moreover have "\<not> sint (2 ^ 60 + 1 :: u64) < 1" by (simp add: sint_u64)
  ultimately show ?thesis by (simp add: handleGetBatches_def normal_limit_def has_prefix_def Let_def)
qed

end
