(* ===== verification/ProverLoop.thy ===== *)
theory ProverLoop imports ProverStore Rollup Reconstruct begin

text \<open>
  The prover service, prover/cmd/prover/start.go: the two fetches, \<open>rootToBytes32\<close> and
  \<open>hashToBytes32\<close>, \<open>submitProofWithBlob\<close> and one round of the loop of \<open>start\<close>. The HTTP client,
  Groth16, KZG, JSON and the Ethereum client are parameters; a mined transaction runs
  \<open>submitBatch\<close> of the contract.
\<close>

section \<open>Fetching\<close>

record fetch_env =
  fe_get :: "string \<Rightarrow> (nat \<times> bytes) option"
  fe_decode :: "bytes \<Rightarrow> zk_batch option"

definition fetchLatestBatch :: "fetch_env \<Rightarrow> string \<Rightarrow> zk_batch option result" where
  "fetchLatestBatch F indexerURL =
     (case fe_get F (indexerURL @ ''/batch/latest'') of
        None \<Rightarrow> Inl ''get''
      | Some (status, body) \<Rightarrow>
          if status = 404 then Inr None
          else if status \<noteq> 200 then Inl ''API error''
          else (case fe_decode F body of None \<Rightarrow> Inl ''decode'' | Some batch \<Rightarrow> Inr (Some batch)))"

definition fetchBatchByID :: "fetch_env \<Rightarrow> string \<Rightarrow> u64 \<Rightarrow> zk_batch option result" where
  "fetchBatchByID F indexerURL bid =
     (case fe_get F (indexerURL @ ''/batch/'' @ dec_nat (unat bid)) of
        None \<Rightarrow> Inl ''get''
      | Some (status, body) \<Rightarrow>
          if status = 404 then Inr None
          else if status \<noteq> 200 then Inl ''sequencer API error''
          else (case fe_decode F body of None \<Rightarrow> Inl ''decode'' | Some batch \<Rightarrow> Inr (Some batch)))"

section \<open>Roots as bytes32\<close>

definition rootToBytes32 :: "string \<Rightarrow> bytes result" where
  "rootToBytes32 root =
     (let trimmed = TrimSpace root;
          b = (if has_prefix ''0x'' trimmed \<or> has_prefix ''0X'' trimmed then parse_hex (drop 2 trimmed)
               else case parse_dec trimmed of Some v \<Rightarrow> Some v | None \<Rightarrow> parse_hex trimmed)
      in case b of
           None \<Rightarrow> Inl ''invalid root''
         | Some v \<Rightarrow> if v < 0 \<or> 2 ^ 256 \<le> v then Inl ''root out of bytes32 range'' else Inr (be_enc 32 (nat v)))"

definition hashToBytes32 :: "string \<Rightarrow> bytes" where
  "hashToBytes32 v =
     (if v = [] \<or> v = ''0'' then zero_bytes 32
      else case rootToBytes32 v of Inl err \<Rightarrow> zero_bytes 32 | Inr b \<Rightarrow> b)"

section \<open>Submission\<close>

text \<open>The coordinates of a BN254 proof; \<open>OtherProof\<close> is a proof of another curve.\<close>

record bn254_proof =
  gp_ArX :: int
  gp_ArY :: int
  gp_BsX0 :: int
  gp_BsX1 :: int
  gp_BsY0 :: int
  gp_BsY1 :: int
  gp_KrsX :: int
  gp_KrsY :: int

datatype groth_proof = Bn254 bn254_proof | OtherProof

definition proof8 :: "bn254_proof \<Rightarrow> int list" where
  "proof8 p = [gp_ArX p, gp_ArY p, gp_BsX1 p, gp_BsX0 p, gp_BsY1 p, gp_BsY0 p, gp_KrsX p, gp_KrsY p]"

record submit_call =
  su_proof :: "int list"
  su_oldRoot :: bytes
  su_newRoot :: bytes
  su_withdrawalHash :: bytes
  su_depositHash :: bytes
  su_dataHash :: bytes

record block_header =
  bh_BaseFee :: "int option"
  bh_ExcessBlobGas :: "u64 option"

record blob_tx =
  tx_ChainID :: u256
  tx_Nonce :: u64
  tx_GasTipCap :: u256
  tx_GasFeeCap :: u256
  tx_Gas :: u64
  tx_To :: address
  tx_Value :: u256
  tx_Data :: submit_call
  tx_BlobFeeCap :: u256
  tx_BlobHashes :: "bytes list"
  tx_Sidecar :: sidecar

text \<open>
  What becomes of a transaction that was sent: it is mined at a timestamp and the receipt is seen,
  it is mined but waiting for the receipt fails, or it is dropped and waiting fails.
\<close>

datatype tx_fate = Mined u256 | MinedUnseen u256 | Dropped

text \<open>
  \<open>et_calcBlobFee\<close>: \<open>CalcBlobFee\<close> under the Sepolia configuration or mainnet's. \<open>et_uint256\<close>:
  \<open>MustFromBig\<close>, \<open>None\<close> for its panic. \<open>et_packs\<close>: whether \<open>abi.Pack\<close> takes the arguments;
  \<open>et_abi\<close>: the uint256 it packs. \<open>et_rollup\<close>: where the contract is.
\<close>

record eth_env =
  et_from :: address
  et_gasLimit :: u64
  et_hexToAddress :: "string \<Rightarrow> address"
  et_networkID :: "int option"
  et_pendingNonce :: "u64 option"
  et_tipCap :: "int option"
  et_header :: "block_header option"
  et_minBlobGasprice :: int
  et_calcBlobFee :: "bool \<Rightarrow> block_header \<Rightarrow> int"
  et_uint256 :: "int \<Rightarrow> u256 option"
  et_packs :: "submit_call \<Rightarrow> bool"
  et_abi :: "int \<Rightarrow> u256"
  et_signs :: "blob_tx \<Rightarrow> bool"
  et_sends :: "blob_tx \<Rightarrow> bool"
  et_fate :: "blob_tx \<Rightarrow> tx_fate"
  et_rollup :: address

definition bytes32 :: "bytes \<Rightarrow> u256" where
  "bytes32 b = of_nat (be_dec b)"

text \<open>Mining the transaction: the call of the contract, and the status of the receipt.\<close>

definition mine :: "eth_env \<Rightarrow> chain_env \<Rightarrow> blob_tx \<Rightarrow> u256 \<Rightarrow> rollup \<Rightarrow> nat \<times> rollup" where
  "mine Et Ch tx timestamp r =
     (if tx_To tx \<noteq> et_rollup Et then (1, r)
      else
        let c = tx_Data tx;
            m = \<lparr>msg_sender = et_from Et, block_timestamp = timestamp,
                 tx_blobhash = (case tx_BlobHashes tx of [] \<Rightarrow> 0 | h # _ \<Rightarrow> bytes32 h)\<rparr>
        in (case submitBatch Ch m (map (et_abi Et) (su_proof c)) (bytes32 (su_oldRoot c)) (bytes32 (su_newRoot c))
               (bytes32 (su_withdrawalHash c)) (bytes32 (su_depositHash c)) (bytes32 (su_dataHash c)) r of
              None \<Rightarrow> (0, r)
            | Some r' \<Rightarrow> (1, r')))"

definition fee_caps :: "eth_env \<Rightarrow> int \<Rightarrow> int \<Rightarrow> block_header \<Rightarrow> int \<times> int" where
  "fee_caps Et chainID tip header =
     (let baseFee = (case bh_BaseFee header of None \<Rightarrow> 1 | Some f \<Rightarrow> f);
          gasFeeCap = baseFee * 2 + tip;
          blobFee = (case bh_ExcessBlobGas header of
                       None \<Rightarrow> et_minBlobGasprice Et
                     | Some _ \<Rightarrow> et_calcBlobFee Et (chainID = 11155111) header);
          blobFeeCap = (if blobFee * 2 < 1 then 1 else blobFee * 2)
      in (gasFeeCap, blobFeeCap))"

definition build_tx ::
  "eth_env \<Rightarrow> string \<Rightarrow> submit_call \<Rightarrow> sidecar \<Rightarrow> bytes \<Rightarrow> blob_tx result" where
  "build_tx Et contractAddr calldata sidecar blobHash =
     (case et_networkID Et of
        None \<Rightarrow> Inl ''network id''
      | Some chainID \<Rightarrow>
     (case et_pendingNonce Et of
        None \<Rightarrow> Inl ''nonce''
      | Some nonce \<Rightarrow>
     (case et_tipCap Et of
        None \<Rightarrow> Inl ''tip''
      | Some tip \<Rightarrow>
     (case et_header Et of
        None \<Rightarrow> Inl ''header''
      | Some header \<Rightarrow>
          let (gasFeeCap, blobFeeCap) = fee_caps Et chainID tip header
          in (case (et_uint256 Et chainID, et_uint256 Et tip, et_uint256 Et gasFeeCap, et_uint256 Et blobFeeCap) of
                (Some chain', Some tip', Some gasFeeCap', Some blobFeeCap') \<Rightarrow>
                  Inr \<lparr>tx_ChainID = chain', tx_Nonce = nonce, tx_GasTipCap = tip', tx_GasFeeCap = gasFeeCap',
                       tx_Gas = (if et_gasLimit Et \<noteq> 0 then et_gasLimit Et else 1500000),
                       tx_To = et_hexToAddress Et contractAddr, tx_Value = 0, tx_Data = calldata,
                       tx_BlobFeeCap = blobFeeCap', tx_BlobHashes = [blobHash], tx_Sidecar = sidecar\<rparr>
              | _ \<Rightarrow> Inl ''panic: uint256 overflow'')))))"

text \<open>The receipt's status, with the contract after the call.\<close>

definition submitProofWithBlob ::
  "da_env \<Rightarrow> kzg_env \<Rightarrow> eth_env \<Rightarrow> chain_env \<Rightarrow> string \<Rightarrow> zk_batch \<Rightarrow> groth_proof \<Rightarrow> rollup \<Rightarrow> nat result \<times> rollup" where
  "submitProofWithBlob D K Et Ch contractAddr batch proof r =
     (case proof of
        OtherProof \<Rightarrow> (Inl ''unexpected proof type'', r)
      | Bn254 p \<Rightarrow>
          let wHash = (if zb_WithdrawalHash batch = [] then ''0'' else zb_WithdrawalHash batch);
              dHash = (if zb_DepositHash batch = [] then ''0'' else zb_DepositHash batch)
          in (case EncodeBatchPayload D (zb_BatchID batch) (zb_OldRoot batch) (zb_NewRoot batch) wHash dHash
                     (zb_Transitions batch) of
                Inl err \<Rightarrow> (Inl err, r)
              | Inr (payload, dataHash) \<Rightarrow>
             (case BuildBlobSidecar K payload of
                Inl err \<Rightarrow> (Inl err, r)
              | Inr (sidecar, blobHash) \<Rightarrow>
             (case rootToBytes32 (zb_OldRoot batch) of
                Inl err \<Rightarrow> (Inl err, r)
              | Inr oldRoot \<Rightarrow>
             (case rootToBytes32 (zb_NewRoot batch) of
                Inl err \<Rightarrow> (Inl err, r)
              | Inr newRoot \<Rightarrow>
                  let calldata = \<lparr>su_proof = proof8 p, su_oldRoot = oldRoot, su_newRoot = newRoot,
                        su_withdrawalHash = hashToBytes32 wHash, su_depositHash = hashToBytes32 dHash,
                        su_dataHash = dataHash\<rparr>
                  in if \<not> et_packs Et calldata then (Inl ''abi pack'', r)
                  else (case build_tx Et contractAddr calldata sidecar blobHash of
                     Inl err \<Rightarrow> (Inl err, r)
                   | Inr tx \<Rightarrow>
                       if \<not> et_signs Et tx then (Inl ''sign blob tx'', r)
                       else if \<not> et_sends Et tx then (Inl ''send blob tx'', r)
                       else (case et_fate Et tx of
                          Mined ts \<Rightarrow> (let (status, r) = mine Et Ch tx ts r in (Inr status, r))
                        | MinedUnseen ts \<Rightarrow> (Inl ''wait mined'', snd (mine Et Ch tx ts r))
                        | Dropped \<Rightarrow> (Inl ''wait mined'', r))))))))"

section \<open>The loop\<close>

text \<open>
  \<open>gr_prove\<close>: the witness and \<open>groth16.Prove\<close> on an assignment, \<open>gr_verify\<close>: \<open>groth16.Verify\<close> against
  the public inputs.
\<close>

record groth_env =
  gr_prove :: "transition_circuit \<Rightarrow> groth_proof option"
  gr_verify :: "groth_proof \<Rightarrow> int list \<Rightarrow> bool"

record prover_env =
  pe_fetch :: fetch_env
  pe_expand :: "bytes \<Rightarrow> eddsa_signature"
  pe_groth :: groth_env
  pe_da :: da_env
  pe_kzg :: kzg_env
  pe_eth :: eth_env

record prover_flags =
  pf_indexerURL :: string
  pf_contract :: string

record prover_state =
  pr_last :: u64
  pr_store :: prover_store
  pr_rollup :: rollup

definition publics :: "transition_circuit \<Rightarrow> int list" where
  "publics c = [tc_OldRoot c, tc_NewRoot c, tc_WithdrawalHash c, tc_DepositHash c]"

definition generateProof :: "prover_env \<Rightarrow> zk_batch \<Rightarrow> (groth_proof \<times> int list) option" where
  "generateProof E batch = do {
     c \<leftarrow> generateProof_assignment (pe_expand E) batch;
     proof \<leftarrow> gr_prove (pe_groth E) c;
     Some (proof, publics c)
   }"

datatype round_result = Slept | SkippedEmpty | Failed_round string | Settled

text \<open>The store's error is ignored; the batch number in memory advances all the same.\<close>

definition advance :: "u64 \<Rightarrow> prover_state \<Rightarrow> prover_state" where
  "advance bid s = s\<lparr>pr_last := bid, pr_store := snd (SaveLastProcessedBatch (pr_store s) bid)\<rparr>"

definition prover_round :: "prover_env \<Rightarrow> chain_env \<Rightarrow> prover_flags \<Rightarrow> prover_state \<Rightarrow> round_result \<times> prover_state" where
  "prover_round E Ch fl s =
     (case fetchLatestBatch (pe_fetch E) (pf_indexerURL fl) of
        Inr (Some newestBatch) \<Rightarrow>
          let nextBatchNum = pr_last s + 1
          in if nextBatchNum > zb_BatchID newestBatch then (Slept, s)
          else (case fetchBatchByID (pe_fetch E) (pf_indexerURL fl) nextBatchNum of
             Inr (Some batch) \<Rightarrow>
               if zb_Transitions batch = [] then (SkippedEmpty, advance (zb_BatchID batch) s)
               else (case generateProof E batch of
                  None \<Rightarrow> (Failed_round ''generate proof'', s)
                | Some (proof, publicWitness) \<Rightarrow>
                    if \<not> gr_verify (pe_groth E) proof publicWitness then (Failed_round ''local verification'', s)
                    else (case submitProofWithBlob (pe_da E) (pe_kzg E) (pe_eth E) Ch (pf_contract fl) batch proof (pr_rollup s) of
                       (Inl err, r) \<Rightarrow> (Failed_round ''submit'', s\<lparr>pr_rollup := r\<rparr>)
                     | (Inr status, r) \<Rightarrow>
                         if status = 0 then (Failed_round ''reverted'', s\<lparr>pr_rollup := r\<rparr>)
                         else (Settled, advance (zb_BatchID batch) (s\<lparr>pr_rollup := r\<rparr>))))
           | _ \<Rightarrow> (Slept, s))
      | _ \<Rightarrow> (Slept, s))"

text \<open>Starting: the last batch comes from the store, 0 when it cannot be read.\<close>

definition prover_start :: "bool \<Rightarrow> prover_store \<Rightarrow> rollup \<Rightarrow> prover_state" where
  "prover_start clearHalt store r =
     (let store = (if clearHalt then snd (ClearHaltState store) else store)
      in \<lparr>pr_last = (case GetLastProcessedBatch store of Inl err \<Rightarrow> 0 | Inr n \<Rightarrow> n), pr_store = store, pr_rollup = r\<rparr>)"

text \<open>The loop, each round in the environment it meets.\<close>

fun prover_rounds :: "prover_env list \<Rightarrow> chain_env \<Rightarrow> prover_flags \<Rightarrow> prover_state \<Rightarrow> prover_state" where
  "prover_rounds [] Ch fl s = s"
| "prover_rounds (E # Es) Ch fl s = prover_rounds Es Ch fl (snd (prover_round E Ch fl s))"

section \<open>What the contract receives\<close>

lemma be_dec_less: "be_dec bs < 256 ^ length bs"
proof (induction bs rule: rev_induct)
  case (snoc c bs)
  have "be_dec bs * 256 + of_char c < (be_dec bs + 1) * 256" using of_char_less [of c] by simp
  also have "\<dots> \<le> 256 ^ length bs * 256" using snoc.IH by (intro mult_right_mono) simp_all
  finally show ?case by (simp add: be_dec_snoc mult.commute)
qed (simp add: be_dec_def)

lemma be_enc_dec: "length bs = n \<Longrightarrow> be_enc n (be_dec bs) = bs"
proof (induction bs arbitrary: n rule: rev_induct)
  case (snoc c bs)
  have "(be_dec bs * 256 + of_char c) div 256 = be_dec bs" using of_char_less [of c] by simp
  moreover have "(be_dec bs * 256 + of_char c) mod 256 = of_char c" using of_char_less [of c] by simp
  ultimately show ?case using snoc.IH snoc.prems by (auto simp: be_dec_snoc)
qed simp

lemma be_dec_pos: "hd bs = CHR 0x01 \<Longrightarrow> bs \<noteq> [] \<Longrightarrow> 0 < be_dec bs"
proof -
  have grow: "a \<le> foldl (\<lambda>a c. a * 256 + of_char c) a cs" for a :: nat and cs :: bytes
  proof (induction cs arbitrary: a)
    case (Cons c cs)
    have "a \<le> a * 256 + of_char c" by simp
    also have "\<dots> \<le> foldl (\<lambda>a c. a * 256 + of_char c) (a * 256 + of_char c) cs" by (rule Cons.IH)
    finally show ?case by simp
  qed simp
  assume "hd bs = CHR 0x01" "bs \<noteq> []"
  then obtain cs where "bs = CHR 0x01 # cs" by (cases bs) auto
  then show ?thesis using grow [of 1 cs] by (simp add: be_dec_def)
qed

lemma unat_bytes32:
  assumes "length bs = 32"
  shows "unat (bytes32 bs) = be_dec bs"
proof -
  have "be_dec bs < 2 ^ 256" using be_dec_less [of bs] assms by simp
  then show ?thesis by (simp only: bytes32_def unat_of_nat len_of_numeral_defs) simp
qed

lemma bytes32_back: "length bs = 32 \<Longrightarrow> be_enc 32 (unat (bytes32 bs)) = bs"
  by (simp add: unat_bytes32 be_enc_dec)

lemma rootToBytes32_dec:
  assumes "0 \<le> x" "x < 2 ^ 256"
  shows "rootToBytes32 (dec x) = Inr (be_enc 32 (nat x))"
proof -
  have set: "\<exists>d < 10. c = digit d" if "c \<in> set (dec x)" for c
    using that assms(1) by (auto simp: dec_def dest: set_dec_nat)
  have "\<forall>c \<in> set (dec x). 0x20 < (of_char c :: nat) \<and> of_char c < (0x80 :: nat)"
    using set of_char_digit by fastforce
  then have trim: "TrimSpace (dec x) = dec x" by (rule TrimSpace_plain)
  have "CHR ''x'' \<notin> set (dec x)" "CHR ''X'' \<notin> set (dec x)"
    using assms(1) by (simp_all add: dec_def not_in_dec_nat)
  then have "\<not> has_prefix ''0x'' (dec x)" "\<not> has_prefix ''0X'' (dec x)"
    using set_take_subset [of "length ''0x''" "dec x"] set_take_subset [of "length ''0X''" "dec x"]
    unfolding has_prefix_def by (metis insert_subset list.simps(15))+
  then show ?thesis using assms by (simp add: rootToBytes32_def trim)
qed

lemma dec_zero: "dec 0 = ''0''"
proof -
  have "(of_char (CHR ''0'') :: nat) = 48" by simp
  then have "char_of (48 :: nat) = CHR ''0''" by (metis char_of_char)
  then show ?thesis by (simp add: dec_def dec_nat.simps digit_def)
qed

lemma hashToBytes32_dec:
  assumes "0 \<le> x" "x < 2 ^ 256"
  shows "hashToBytes32 (dec x) = be_enc 32 (nat x)"
proof (cases "x = 0")
  case True
  have "char_of (0 :: nat) = CHR 0x00" by (simp add: char_of_def)
  then have z: "be_enc n 0 = zero_bytes n" for n
    by (induction n) (simp_all add: zero_bytes_def replicate_append_same)
  have "dec 0 = ''0''" by (rule dec_zero)
  then show ?thesis using True z [of 32] by (simp add: hashToBytes32_def)
next
  case False
  have "dec x \<noteq> ''0''" using False dec_inject [of x 0] by (simp add: dec_zero)
  then show ?thesis using rootToBytes32_dec [OF assms] by (simp add: hashToBytes32_def)
qed

lemma bytes32_enc:
  assumes "0 \<le> x" "x < 2 ^ 256"
  shows "bytes32 (be_enc 32 (nat x)) = word_of_int x"
proof -
  have "nat x < 256 ^ 32" using assms by (simp add: nat_less_iff)
  then have "bytes32 (be_enc 32 (nat x)) = of_nat (nat x)" by (simp only: bytes32_def be_dec_enc)
  also have "\<dots> = word_of_int x" using assms(1) by (rule of_nat_nat)
  finally show ?thesis .
qed

end
