(* ===== verification/ProverRun.thy ===== *)
theory ProverRun imports ProverLoop begin

text \<open>
  Runs of the prover loop against cooperating services: what "cooperating" means, one round that
  settles, the invariant of the rounds, and the properties of the prover: it settles what the
  sequencer seals, a crash at the wrong moment stops it, and so does a trade with a bogus signature.
\<close>

section \<open>Environments in which a round succeeds\<close>

text \<open>The indexer serves the sealed batches of \<open>b\<close>.\<close>

definition serves :: "fetch_env \<Rightarrow> string \<Rightarrow> batcher \<Rightarrow> bool" where
  "serves F indexerURL b \<longleftrightarrow> fetchLatestBatch F indexerURL = Inr (GetLatestBatch b) \<and>
     (\<forall>bid. fetchBatchByID F indexerURL bid = Inr (GetBatch b bid))"

text \<open>Groth16 is complete: what satisfies the circuit is proved, and the proof passes both verifiers.\<close>

definition groth_complete :: "groth_env \<Rightarrow> eth_env \<Rightarrow> chain_env \<Rightarrow> gnark \<Rightarrow> bool" where
  "groth_complete Q Et Ch G \<longleftrightarrow> (\<forall>c. Define G c = Some () \<longrightarrow>
     (\<exists>p. gr_prove Q c = Some (Bn254 p) \<and> gr_verify Q (Bn254 p) (publics c) \<and>
        ch_verifyProof Ch (map (et_abi Et) (proof8 p)) (map word_of_int (publics c))))"

text \<open>The batch fits a blob, and Blobscan serves that blob under its hash.\<close>

definition archived :: "da_env \<Rightarrow> l1_env \<Rightarrow> string \<Rightarrow> zk_batch \<Rightarrow> bytes \<Rightarrow> bytes \<Rightarrow> bool" where
  "archived D L api zb payload h \<longleftrightarrow>
     (\<exists>blob p. packBlob payload = Inr blob \<and> fetchBlob L api (''0x'' @ hex_encode h) = Inr blob \<and>
        decodeDAPayload D payload = Inr p \<and> dp_Transitions p = zb_Transitions zb \<and> dp_NewRoot p = zb_NewRoot zb)"

definition publishable :: "da_env \<Rightarrow> kzg_env \<Rightarrow> l1_env \<Rightarrow> string \<Rightarrow> zk_batch \<Rightarrow> bool" where
  "publishable D K L api zb \<longleftrightarrow>
     (\<exists>payload dataHash sc h.
        EncodeBatchPayload D (zb_BatchID zb) (zb_OldRoot zb) (zb_NewRoot zb) (zb_WithdrawalHash zb) (zb_DepositHash zb)
          (zb_Transitions zb) = Inr (payload, dataHash) \<and>
        BuildBlobSidecar K payload = Inr (sc, h) \<and> archived D L api zb payload h \<and>
        length h = 32 \<and> length dataHash = 32 \<and> dataHash \<noteq> zero_bytes 32)"

text \<open>Whatever is sent to the contract is mined.\<close>

definition lands :: "eth_env \<Rightarrow> string \<Rightarrow> bool" where
  "lands Et contractAddr \<longleftrightarrow> et_hexToAddress Et contractAddr = et_rollup Et \<and>
     (\<forall>calldata sc h. et_packs Et calldata \<and>
        (\<exists>tx ts. build_tx Et contractAddr calldata sc h = Inr tx \<and> et_signs Et tx \<and> et_sends Et tx \<and> et_fate Et tx = Mined ts))"

definition cooperates ::
  "gnark \<Rightarrow> (bytes \<Rightarrow> eddsa_signature) \<Rightarrow> da_env \<Rightarrow> l1_env \<Rightarrow> string \<Rightarrow> chain_env \<Rightarrow> prover_flags \<Rightarrow> batcher \<Rightarrow> prover_env \<Rightarrow> bool" where
  "cooperates G expand D L api Ch fl b E \<longleftrightarrow>
     pe_expand E = expand \<and> pe_da E = D \<and> serves (pe_fetch E) (pf_indexerURL fl) b \<and>
     groth_complete (pe_groth E) (pe_eth E) Ch G \<and> lands (pe_eth E) (pf_contract fl) \<and>
     (\<forall>bid zb. GetBatch b bid = Some zb \<longrightarrow> publishable D (pe_kzg E) L api zb)"

text \<open>A batch with its assignment: the four public inputs, as the batch prints them.\<close>

definition proves :: "(bytes \<Rightarrow> eddsa_signature) \<Rightarrow> gnark \<Rightarrow> zk_batch \<Rightarrow> transition_circuit \<Rightarrow> bool" where
  "proves expand G zb c \<longleftrightarrow> zb_Transitions zb \<noteq> [] \<and> generateProof_assignment expand zb = Some c \<and> Define G c = Some () \<and>
     zb_OldRoot zb = dec (tc_OldRoot c) \<and> zb_NewRoot zb = dec (tc_NewRoot c) \<and>
     zb_WithdrawalHash zb = dec (tc_WithdrawalHash c) \<and> zb_DepositHash zb = dec (tc_DepositHash c) \<and>
     (\<forall>x \<in> set (publics c). fr x = x)"

text \<open>The contract's record of batch \<open>i\<close> leads to the batch.\<close>

definition on_chain :: "da_env \<Rightarrow> l1_env \<Rightarrow> string \<Rightarrow> rollup \<Rightarrow> u64 \<Rightarrow> zk_batch \<Rightarrow> bool" where
  "on_chain D L api r i zb \<longleftrightarrow>
     (\<exists>payload h. archived D L api zb payload h \<and> length h = 32 \<and> length (da_keccak D payload) = 32 \<and>
        ru_batchBlobHash r i = bytes32 h \<and> ru_batchDataHash r i = bytes32 (da_keccak D payload))"

section \<open>A round that settles\<close>

lemma fr_bytes: "fr x = x \<Longrightarrow> 0 \<le> x \<and> x < 2 ^ 256"
  using fr_range [of x] by (simp add: fr_modulus_def)

lemma fr_uint_word: "fr x = x \<Longrightarrow> uint (word_of_int x :: u256) = x"
  using fr_bytes [of x] by (simp add: word_of_int_inverse)

lemma fr_rootToBytes32:
  assumes "fr x = x"
  shows "\<exists>b. rootToBytes32 (dec x) = Inr b \<and> bytes32 b = word_of_int x \<and> hashToBytes32 (dec x) = b"
  using rootToBytes32_dec bytes32_enc hashToBytes32_dec fr_bytes [OF assms] by blast

lemma bytes32_nonzero:
  assumes "length b = 32" "b \<noteq> zero_bytes 32"
  shows "bytes32 b \<noteq> 0"
proof
  assume z: "bytes32 b = 0"
  have "be_enc 32 (unat (bytes32 b)) = hashToBytes32 (dec 0)" using hashToBytes32_dec [of 0] by (simp add: z)
  then show False using assms bytes32_back [OF assms(1)] by (simp add: hashToBytes32_def dec_zero)
qed

lemma sidecar_hash: "BuildBlobSidecar K payload = Inr (sc, h) \<Longrightarrow> hd h = CHR 0x01"
  by (auto simp: BuildBlobSidecar_def Let_def split: sum.splits if_splits)

lemma EncodeBatchPayload_hash: "EncodeBatchPayload D bid old new wh dh ts = Inr (payload, dataHash) \<Longrightarrow> dataHash = da_keccak D payload"
  by (auto simp: EncodeBatchPayload_def Let_def split: sum.splits if_splits)

lemma submit_settles:
  assumes coop: "groth_complete Q Et Ch G" "lands Et contractAddr" "publishable D K L api zb"
    and zb: "proves expand G zb c" and prover: "ru_isProver r (et_from Et)"
    and root: "ru_stateRoot r = word_of_int (tc_OldRoot c)" and room: "ru_batchCount r \<noteq> - 1"
  shows "\<exists>p r' dataHash h. gr_prove Q c = Some p \<and> gr_verify Q p (publics c) \<and>
    submitProofWithBlob D K Et Ch contractAddr zb p r = (Inr 1, r') \<and>
    ru_stateRoot r' = word_of_int (tc_NewRoot c) \<and> ru_batchCount r' = ru_batchCount r + 1 \<and> ru_isProver r' = ru_isProver r \<and>
    ru_batchBlobHash r' = (ru_batchBlobHash r)(ru_batchCount r := h) \<and>
    ru_batchDataHash r' = (ru_batchDataHash r)(ru_batchCount r := dataHash) \<and> on_chain D L api r' (ru_batchCount r) zb"
proof -
  obtain p where p: "gr_prove Q c = Some (Bn254 p)" "gr_verify Q (Bn254 p) (publics c)"
    "ch_verifyProof Ch (map (et_abi Et) (proof8 p)) (map word_of_int (publics c))"
    using coop(1) zb unfolding groth_complete_def proves_def by blast
  obtain payload dataHash sc h where d: "EncodeBatchPayload D (zb_BatchID zb) (zb_OldRoot zb) (zb_NewRoot zb)
      (zb_WithdrawalHash zb) (zb_DepositHash zb) (zb_Transitions zb) = Inr (payload, dataHash)"
    "BuildBlobSidecar K payload = Inr (sc, h)" "archived D L api zb payload h"
    "length h = 32" "length dataHash = 32" "dataHash \<noteq> zero_bytes 32"
    using coop(3) unfolding publishable_def by blast
  have canon: "fr (tc_OldRoot c) = tc_OldRoot c" "fr (tc_NewRoot c) = tc_NewRoot c"
    "fr (tc_WithdrawalHash c) = tc_WithdrawalHash c" "fr (tc_DepositHash c) = tc_DepositHash c"
    using zb by (simp_all add: proves_def publics_def)
  obtain old new wh dh where b: "rootToBytes32 (dec (tc_OldRoot c)) = Inr old" "bytes32 old = word_of_int (tc_OldRoot c)"
    "rootToBytes32 (dec (tc_NewRoot c)) = Inr new" "bytes32 new = word_of_int (tc_NewRoot c)"
    "hashToBytes32 (dec (tc_WithdrawalHash c)) = wh" "bytes32 wh = word_of_int (tc_WithdrawalHash c)"
    "hashToBytes32 (dec (tc_DepositHash c)) = dh" "bytes32 dh = word_of_int (tc_DepositHash c)"
    using canon [THEN fr_rootToBytes32] by metis
  let ?call = "\<lparr>su_proof = proof8 p, su_oldRoot = old, su_newRoot = new, su_withdrawalHash = wh, su_depositHash = dh,
    su_dataHash = dataHash\<rparr>"
  obtain tx ts where tx: "et_packs Et ?call" "build_tx Et contractAddr ?call sc h = Inr tx" "et_signs Et tx" "et_sends Et tx"
    "et_fate Et tx = Mined ts" "et_hexToAddress Et contractAddr = et_rollup Et"
    using coop(2) unfolding lands_def by blast
  have txf: "tx_To tx = et_rollup Et" "tx_Data tx = ?call" "tx_BlobHashes tx = [h]"
    using tx(2,6) by (auto simp: build_tx_def Let_def split: option.splits prod.splits)
  have dh: "dataHash = da_keccak D payload" by (rule EncodeBatchPayload_hash [OF d(1)])
  have nz: "bytes32 dataHash \<noteq> 0" by (rule bytes32_nonzero [OF d(5,6)])
  have hz: "bytes32 h \<noteq> 0"
  proof (rule bytes32_nonzero [OF d(4)])
    show "h \<noteq> zero_bytes 32" using sidecar_hash [OF d(2)] by (auto simp: zero_bytes_def)
  qed
  let ?r' = "snd (mine Et Ch tx ts r)"
  let ?ev = "StateTransitionEvent (ru_batchCount r) (word_of_int (tc_OldRoot c)) (word_of_int (tc_NewRoot c))
    (word_of_int (tc_WithdrawalHash c)) (word_of_int (tc_DepositHash c)) (bytes32 h) (bytes32 dataHash)"
  have mined: "mine Et Ch tx ts r = (1, emit [?ev] (r\<lparr>ru_batchCount := ru_batchCount r + 1, ru_stateRoot := word_of_int (tc_NewRoot c),
             ru_batchBlobHash := (ru_batchBlobHash r)(ru_batchCount r := bytes32 h),
             ru_batchDataHash := (ru_batchDataHash r)(ru_batchCount r := bytes32 dataHash), ru_lastBatchAt := ts\<rparr>))"
    using p(3) prover root room nz hz by (simp add: mine_def txf submitBatch_def b publics_def Let_def)
  have "submitProofWithBlob D K Et Ch contractAddr zb (Bn254 p) r = (Inr 1, ?r')"
    using zb d(1,2) b tx by (simp add: submitProofWithBlob_def proves_def mined Let_def)
  moreover have "on_chain D L api ?r' (ru_batchCount r) zb"
    unfolding on_chain_def using d(3,4,5) dh by (intro exI [of _ payload] exI [of _ h]) (simp add: mined emit_def)
  ultimately show ?thesis
    using p(1,2) by (intro exI [of _ "Bn254 p"] exI [of _ ?r'] exI [of _ "bytes32 dataHash"] exI [of _ "bytes32 h"])
      (simp add: mined emit_def)
qed

lemma round_settles:
  assumes coop: "cooperates G expand D L api Ch fl b E" and latest: "GetLatestBatch b = Some newest" "pr_last s + 1 \<le> zb_BatchID newest"
    and zb: "GetBatch b (pr_last s + 1) = Some zb" "proves expand G zb c" and prover: "ru_isProver (pr_rollup s) (et_from (pe_eth E))"
    and root: "ru_stateRoot (pr_rollup s) = word_of_int (tc_OldRoot c)" and room: "ru_batchCount (pr_rollup s) \<noteq> - 1"
  shows "\<exists>s' r dataHash h. prover_round E Ch fl s = (Settled, s') \<and> r = pr_rollup s' \<and> pr_last s' = zb_BatchID zb \<and>
    ru_stateRoot r = word_of_int (tc_NewRoot c) \<and> ru_batchCount r = ru_batchCount (pr_rollup s) + 1 \<and>
    ru_isProver r = ru_isProver (pr_rollup s) \<and>
    ru_batchBlobHash r = (ru_batchBlobHash (pr_rollup s))(ru_batchCount (pr_rollup s) := h) \<and>
    ru_batchDataHash r = (ru_batchDataHash (pr_rollup s))(ru_batchCount (pr_rollup s) := dataHash) \<and>
    on_chain D L api r (ru_batchCount (pr_rollup s)) zb"
proof -
  have env: "pe_expand E = expand" "pe_da E = D" "groth_complete (pe_groth E) (pe_eth E) Ch G" "lands (pe_eth E) (pf_contract fl)"
    "publishable D (pe_kzg E) L api zb"
    and serve: "fetchLatestBatch (pe_fetch E) (pf_indexerURL fl) = Inr (Some newest)"
      "fetchBatchByID (pe_fetch E) (pf_indexerURL fl) (pr_last s + 1) = Inr (Some zb)"
    using coop zb(1) latest(1) by (auto simp: cooperates_def serves_def)
  obtain p r dataHash h where r: "gr_prove (pe_groth E) c = Some p" "gr_verify (pe_groth E) p (publics c)"
    "submitProofWithBlob D (pe_kzg E) (pe_eth E) Ch (pf_contract fl) zb p (pr_rollup s) = (Inr 1, r)"
    "ru_stateRoot r = word_of_int (tc_NewRoot c)" "ru_batchCount r = ru_batchCount (pr_rollup s) + 1"
    "ru_isProver r = ru_isProver (pr_rollup s)"
    "ru_batchBlobHash r = (ru_batchBlobHash (pr_rollup s))(ru_batchCount (pr_rollup s) := h)"
    "ru_batchDataHash r = (ru_batchDataHash (pr_rollup s))(ru_batchCount (pr_rollup s) := dataHash)"
    "on_chain D L api r (ru_batchCount (pr_rollup s)) zb"
    using submit_settles [OF env(3,4,5) zb(2) prover root room] by blast
  have gen: "generateProof E zb = Some (p, publics c)"
    using zb(2) r(1) by (simp add: generateProof_def proves_def env)
  have "prover_round E Ch fl s = (Settled, advance (zb_BatchID zb) (s\<lparr>pr_rollup := r\<rparr>))"
    using zb(2) latest(2) r(2,3) by (simp add: prover_round_def serve Let_def gen env proves_def not_less)
  then show ?thesis
    using r(4-9) by (intro exI [of _ "advance (zb_BatchID zb) (s\<lparr>pr_rollup := r\<rparr>)"] exI [of _ r] exI [of _ dataHash] exI [of _ h])
      (simp add: advance_def)
qed

lemma block_proves:
  assumes "gnark_laws H G" "trace_of H G expand t tr" "fr (Root t) = Root t" "length tr = BatchSize"
  shows "\<exists>c. proves expand G (sealed_batch H k (sent_of t tr)) c \<and> tc_OldRoot c = Root t \<and> tc_NewRoot c = Root (end_tree t tr)"
proof -
  let ?zb = "sealed_batch H k (sent_of t tr)"
  obtain c where c: "generateProof_assignment expand ?zb = Some c" "Define G c = Some ()"
    "zb_OldRoot ?zb = dec (tc_OldRoot c)" "zb_NewRoot ?zb = dec (tc_NewRoot c)"
    using block_provable [OF assms] by blast
  have ne: "tr \<noteq> []" using assms(4) by (auto simp: BatchSize_def)
  note roots = sealed_roots [OF ne, of H k t]
  have r: "tc_OldRoot c = Root t" "tc_NewRoot c = Root (end_tree t tr)" using c(3,4) roots(1,2) by simp_all
  have hashes: "zb_WithdrawalHash ?zb = dec (wd_hash H (map fst tr))" "zb_DepositHash ?zb = dec (dep_hash H (map fst tr))"
    by (simp_all add: sealed_batch_def open_batch_def)
  then have h: "tc_WithdrawalHash c = wd_hash H (map fst tr)" "tc_DepositHash c = dep_hash H (map fst tr)"
    using c(1) by (auto simp: generateProof_assignment_def split: if_splits bind_splits)
  have "canonical H" using assms(1) by (simp add: gnark_laws_def)
  note acc = accumulators_steps [OF this, of "map fst tr", THEN conjunct2]
  have "proves expand G ?zb c"
    using c ne acc hashes roots(3) assms(3) trace_canonical [OF assms(1-3)]
    by (simp add: proves_def publics_def r h)
  then show ?thesis using r by blast
qed

text \<open>After \<open>k\<close> batches of the run \<open>tr\<close> from the tree \<open>t\<close> have settled.\<close>

definition settled ::
  "da_env \<Rightarrow> l1_env \<Rightarrow> string \<Rightarrow> batcher \<Rightarrow> mtree \<Rightarrow> (state_transition \<times> mtree) list \<Rightarrow> nat \<Rightarrow> prover_state \<Rightarrow> bool" where
  "settled D L api b t tr k s \<longleftrightarrow>
     pr_last s = of_nat k \<and> ru_batchCount (pr_rollup s) = of_nat k \<and>
     ru_stateRoot (pr_rollup s) = word_of_int (Root (end_tree t (take (k * BatchSize) tr))) \<and>
     (\<forall>i < k. \<exists>zb. GetBatch b (of_nat (i + 1)) = Some zb \<and> on_chain D L api (pr_rollup s) (of_nat i) zb)"

lemma settled_round:
  assumes laws: "gnark_laws (mimc C) G" and trace: "trace_of (mimc C) G expand t tr" and root: "fr (Root t) = Root t"
    and s: "split_batches (sent_of t tr) = (bs, rs)" and b: "b = batcher_of (mimc C) (bs, rs)" and small: "length bs + 1 < 2 ^ 64"
    and coop: "cooperates G expand D L api Ch fl b E" and prover: "ru_isProver (pr_rollup st) (et_from (pe_eth E))"
    and st: "settled D L api b t tr k st" and k: "k \<le> length bs"
  shows "settled D L api b t tr (min (Suc k) (length bs)) (snd (prover_round E Ch fl st)) \<and>
    ru_isProver (pr_rollup (snd (prover_round E Ch fl st))) = ru_isProver (pr_rollup st)"
proof -
  have serve: "fetchLatestBatch (pe_fetch E) (pf_indexerURL fl) = Inr (GetLatestBatch b)"
    using coop by (simp add: cooperates_def serves_def)
  have top: "GetLatestBatch b = (if bs = [] then None else Some (sealed_batch (mimc C) (of_nat (length bs)) (last bs)))"
    by (simp add: b batcher_of_def GetLatestBatch_def)
  have id: "zb_BatchID (sealed_batch H bid xs) = bid" for H bid xs by (simp add: sealed_batch_def open_batch_def)
  have last: "pr_last st + 1 = of_nat (k + 1)" using st by (simp add: settled_def add.commute)
  show ?thesis
  proof (cases "k = length bs")
    case True
    have "(of_nat (length bs) :: u64) < of_nat (length bs + 1)"
      using small by (simp only: word_less_nat_alt unat_of_nat) simp
    then have "(of_nat (length bs) :: u64) < of_nat (length bs) + 1" by (simp add: add.commute)
    then have "snd (prover_round E Ch fl st) = st"
      using last True by (auto simp: prover_round_def serve top id Let_def)
    then show ?thesis using st True by simp
  next
    case False
    then have k': "k < length bs" using k by simp
    note blk = block_at [OF s k']
    let ?pre = "take (k * BatchSize) tr" and ?blk = "take BatchSize (drop (k * BatchSize) tr)"
    have split: "trace_of (mimc C) G expand t ?pre" "trace_of (mimc C) G expand (end_tree t ?pre) ?blk"
    proof -
      have "trace_of (mimc C) G expand t (?pre @ ?blk @ drop BatchSize (drop (k * BatchSize) tr))"
        using trace by (simp only: append_take_drop_id)
      then show "trace_of (mimc C) G expand t ?pre" "trace_of (mimc C) G expand (end_tree t ?pre) ?blk"
        unfolding trace_of_append by blast+
    qed
    have "take (Suc k * BatchSize) tr = ?pre @ ?blk"
      using take_add [of "k * BatchSize" BatchSize tr] by (simp only: mult_Suc add.commute)
    then have next_tree: "end_tree t (take (Suc k * BatchSize) tr) = end_tree (end_tree t ?pre) ?blk"
      by (simp add: end_tree_def)
    let ?zb = "sealed_batch (mimc C) (of_nat (k + 1)) (bs ! k)"
    have "length ?blk = BatchSize" using blk(2) by simp
    from block_proves [OF laws split(2) trace_canonical [OF laws split(1) root] this, of "of_nat (k + 1)"]
    obtain c where c: "proves expand G ?zb c" "tc_OldRoot c = Root (end_tree t ?pre)"
      "tc_NewRoot c = Root (end_tree t (take (Suc k * BatchSize) tr))"
      unfolding blk(1) next_tree by blast
    have un: "unat (of_nat (k + 1) :: u64) = k + 1" using k' small by (intro unat_Suc_u64) simp
    have zb: "GetBatch b (pr_last st + 1) = Some ?zb"
      using un k' by (simp add: last b batcher_of_def GetBatch_def)
    have latest: "GetLatestBatch b = Some (sealed_batch (mimc C) (of_nat (length bs)) (last bs))" using top k' by auto
    have "(of_nat (k + 1) :: u64) \<le> of_nat (length bs)"
      using k' small un by (simp only: word_le_nat_alt) (simp add: unat_of_nat)
    then have le: "pr_last st + 1 \<le> zb_BatchID (sealed_batch (mimc C) (of_nat (length bs)) (last bs))"
      by (simp only: last id)
    have count: "ru_batchCount (pr_rollup st) = of_nat k" using st by (simp add: settled_def)
    have room: "ru_batchCount (pr_rollup st) \<noteq> - 1"
    proof
      assume "ru_batchCount (pr_rollup st) = - 1"
      then have "(of_nat (k + 1) :: u64) = 0" using count by simp
      then show False using un by simp
    qed
    have old: "ru_stateRoot (pr_rollup st) = word_of_int (tc_OldRoot c)" using st by (simp add: settled_def c(2))
    obtain s' dataHash h where s': "prover_round E Ch fl st = (Settled, s')" "pr_last s' = zb_BatchID ?zb"
      "ru_stateRoot (pr_rollup s') = word_of_int (tc_NewRoot c)" "ru_batchCount (pr_rollup s') = ru_batchCount (pr_rollup st) + 1"
      "ru_isProver (pr_rollup s') = ru_isProver (pr_rollup st)"
      "ru_batchBlobHash (pr_rollup s') = (ru_batchBlobHash (pr_rollup st))(ru_batchCount (pr_rollup st) := h)"
      "ru_batchDataHash (pr_rollup s') = (ru_batchDataHash (pr_rollup st))(ru_batchCount (pr_rollup st) := dataHash)"
      "on_chain D L api (pr_rollup s') (ru_batchCount (pr_rollup st)) ?zb"
      using round_settles [OF coop latest le zb c(1) prover old room] by blast
    have "\<exists>zb. GetBatch b (of_nat (i + 1)) = Some zb \<and> on_chain D L api (pr_rollup s') (of_nat i) zb" if i: "i < Suc k" for i
    proof (cases "i = k")
      case True
      then show ?thesis using s'(8) zb by (auto simp: last count)
    next
      case False
      then have "i < k" "(of_nat i :: u64) \<noteq> of_nat k" using i k' small of_nat_u64_inject [of i k] by simp_all
      then show ?thesis using st by (auto simp: settled_def on_chain_def s'(6,7) count)
    qed
    moreover have "pr_last s' = of_nat (Suc k)" "ru_batchCount (pr_rollup s') = of_nat (Suc k)"
      by (simp_all add: s'(2,4) count id add.commute)
    moreover have "ru_stateRoot (pr_rollup s') = word_of_int (Root (end_tree t (take (Suc k * BatchSize) tr)))"
      using s'(3) c(3) by simp
    ultimately have "settled D L api b t tr (Suc k) s'" unfolding settled_def by blast
    then show ?thesis using s'(1,5) k' by (simp add: min_def Suc_le_eq)
  qed
qed

lemma settled_rounds:
  assumes laws: "gnark_laws (mimc C) G" and trace: "trace_of (mimc C) G expand t tr" and root: "fr (Root t) = Root t"
    and s: "split_batches (sent_of t tr) = (bs, rs)" and b: "b = batcher_of (mimc C) (bs, rs)" and small: "length bs + 1 < 2 ^ 64"
  shows "\<forall>E \<in> set Es. cooperates G expand D L api Ch fl b E \<and> ru_isProver (pr_rollup st) (et_from (pe_eth E)) \<Longrightarrow>
    settled D L api b t tr k st \<Longrightarrow> k \<le> length bs \<Longrightarrow>
    settled D L api b t tr (min (k + length Es) (length bs)) (prover_rounds Es Ch fl st)"
proof (induction Es arbitrary: k st)
  case (Cons E Es)
  let ?st = "snd (prover_round E Ch fl st)"
  have r: "settled D L api b t tr (min (Suc k) (length bs)) ?st" "ru_isProver (pr_rollup ?st) = ru_isProver (pr_rollup st)"
    using settled_round [OF laws trace root s b small _ _ Cons.prems(2,3), of Ch fl E] Cons.prems(1) by simp_all
  have "settled D L api b t tr (min (min (Suc k) (length bs) + length Es) (length bs)) (prover_rounds Es Ch fl ?st)"
    by (rule Cons.IH [OF _ r(1)]) (use Cons.prems(1) r(2) in simp_all)
  moreover have "min (min (Suc k) (length bs) + length Es) (length bs) = min (k + length (E # Es)) (length bs)" by simp
  ultimately show ?case by simp
qed simp

text \<open>The getters of the contract, as the reconstruction reads them.\<close>

definition reads_contract :: "l1_env \<Rightarrow> rollup \<Rightarrow> bool" where
  "reads_contract L r \<longleftrightarrow> l1_batchCount L = Some (ru_batchCount r) \<and> l1_stateRoot L = Some (be_enc 32 (unat (ru_stateRoot r))) \<and>
     (\<forall>i. l1_batchBlobHash L i = Some (be_enc 32 (unat (ru_batchBlobHash r i))) \<and>
          l1_batchDataHash L i = Some (be_enc 32 (unat (ru_batchDataHash r i))))"

lemma settled_published:
  assumes "settled D L api b t tr m s" "reads_contract L (pr_rollup s)" "m < 2 ^ 64"
  shows "published C D L api b m"
  unfolding published_def
proof (intro conjI allI impI)
  show "m < 2 ^ 64" "l1_batchCount L = Some (of_nat m)" using assms by (simp_all add: settled_def reads_contract_def)
next
  fix k assume "k < m"
  then obtain zb where zb: "GetBatch b (of_nat (k + 1)) = Some zb" "on_chain D L api (pr_rollup s) (of_nat k) zb"
    using assms(1) unfolding settled_def by blast
  then obtain payload h where p: "archived D L api zb payload h" "length h = 32" "length (da_keccak D payload) = 32"
    "ru_batchBlobHash (pr_rollup s) (of_nat k) = bytes32 h"
    "ru_batchDataHash (pr_rollup s) (of_nat k) = bytes32 (da_keccak D payload)"
    unfolding on_chain_def by blast
  have "l1_batchBlobHash L (of_nat k) = Some h" "l1_batchDataHash L (of_nat k) = Some (da_keccak D payload)"
    using assms(2) by (simp_all add: reads_contract_def p(4,5) bytes32_back [OF p(2)] bytes32_back [OF p(3)])
  then show "\<exists>zb payload blob blobHash p. GetBatch b (of_nat (k + 1)) = Some zb \<and> packBlob payload = Inr blob \<and>
      l1_batchBlobHash L (of_nat k) = Some blobHash \<and> l1_batchDataHash L (of_nat k) = Some (da_keccak D payload) \<and>
      fetchBlob L api (''0x'' @ hex_encode blobHash) = Inr blob \<and> decodeDAPayload D payload = Inr p \<and>
      dp_Transitions p = zb_Transitions zb \<and> dp_NewRoot p = zb_NewRoot zb"
    using zb(1) p(1) unfolding archived_def by blast
qed

text \<open>The contract is past the batch the prover sends: the round reverts and changes nothing.\<close>

lemma round_reverts:
  assumes coop: "cooperates G expand D L api Ch fl b E" and latest: "GetLatestBatch b = Some newest" "pr_last s + 1 \<le> zb_BatchID newest"
    and zb: "GetBatch b (pr_last s + 1) = Some zb" "proves expand G zb c"
    and root: "ru_stateRoot (pr_rollup s) \<noteq> word_of_int (tc_OldRoot c)"
  shows "prover_round E Ch fl s = (Failed_round ''reverted'', s)"
proof -
  let ?Et = "pe_eth E"
  have env: "pe_expand E = expand" "pe_da E = D" "groth_complete (pe_groth E) ?Et Ch G" "lands ?Et (pf_contract fl)"
    "publishable D (pe_kzg E) L api zb"
    and serve: "fetchLatestBatch (pe_fetch E) (pf_indexerURL fl) = Inr (Some newest)"
      "fetchBatchByID (pe_fetch E) (pf_indexerURL fl) (pr_last s + 1) = Inr (Some zb)"
    using coop zb(1) latest(1) by (auto simp: cooperates_def serves_def)
  obtain p where p: "gr_prove (pe_groth E) c = Some (Bn254 p)" "gr_verify (pe_groth E) (Bn254 p) (publics c)"
    using env(3) zb(2) unfolding groth_complete_def proves_def by blast
  obtain payload dataHash sc h where d: "EncodeBatchPayload D (zb_BatchID zb) (zb_OldRoot zb) (zb_NewRoot zb)
      (zb_WithdrawalHash zb) (zb_DepositHash zb) (zb_Transitions zb) = Inr (payload, dataHash)"
    "BuildBlobSidecar (pe_kzg E) payload = Inr (sc, h)"
    using env(5) unfolding publishable_def by blast
  have canon: "fr (tc_OldRoot c) = tc_OldRoot c" "fr (tc_NewRoot c) = tc_NewRoot c"
    using zb(2) by (simp_all add: proves_def publics_def)
  obtain old new where r: "rootToBytes32 (dec (tc_OldRoot c)) = Inr old" "bytes32 old = word_of_int (tc_OldRoot c)"
    "rootToBytes32 (dec (tc_NewRoot c)) = Inr new"
    using canon [THEN fr_rootToBytes32] by metis
  let ?call = "\<lparr>su_proof = proof8 p, su_oldRoot = old, su_newRoot = new,
    su_withdrawalHash = hashToBytes32 (dec (tc_WithdrawalHash c)), su_depositHash = hashToBytes32 (dec (tc_DepositHash c)),
    su_dataHash = dataHash\<rparr>"
  obtain tx ts where tx: "et_packs ?Et ?call" "build_tx ?Et (pf_contract fl) ?call sc h = Inr tx" "et_signs ?Et tx" "et_sends ?Et tx"
    "et_fate ?Et tx = Mined ts" "et_hexToAddress ?Et (pf_contract fl) = et_rollup ?Et"
    using env(4) unfolding lands_def by blast
  have txf: "tx_To tx = et_rollup ?Et" "tx_Data tx = ?call"
    using tx(2,6) by (auto simp: build_tx_def Let_def split: option.splits prod.splits)
  have "mine ?Et Ch tx ts (pr_rollup s) = (0, pr_rollup s)"
    using root by (simp add: mine_def txf submitBatch_def r(2) Let_def)
  then have sub: "submitProofWithBlob D (pe_kzg E) ?Et Ch (pf_contract fl) zb (Bn254 p) (pr_rollup s) = (Inr 0, pr_rollup s)"
    using zb(2) d r tx by (simp add: submitProofWithBlob_def proves_def Let_def)
  have "generateProof E zb = Some (Bn254 p, publics c)"
    using zb(2) p(1) by (simp add: generateProof_def proves_def env)
  then show ?thesis
    using zb(2) latest(2) p(2) sub by (simp add: prover_round_def serve Let_def env proves_def not_less)
qed

lemma rounds_revert:
  assumes "\<forall>E \<in> set Es. prover_round E Ch fl s = (Failed_round ''reverted'', s)"
  shows "prover_rounds Es Ch fl s = s"
  using assms by (induction Es) simp_all

section \<open>Properties of the prover\<close>

lemma prover_run_settles:
  assumes laws: "gnark_laws (mimc C) G"
    and run: "seq_run C G expand (NewLevelDBMerkleTree (mimc C) Map.empty 28, NewBatcher) n (t', b')"
    and small: "n div BatchSize + 1 < 2 ^ 64"
    and coop: "\<forall>E \<in> set Es. cooperates G expand D L api Ch fl b' E \<and> ru_isProver (pr_rollup s) (et_from (pe_eth E))"
    and fresh: "pr_last s = 0" "ru_batchCount (pr_rollup s) = 0"
      "ru_stateRoot (pr_rollup s) = word_of_int (Root (NewLevelDBMerkleTree (mimc C) Map.empty 28))"
    and s': "s' = prover_rounds Es Ch fl s" "reads_contract L (pr_rollup s')" and m: "m = min (length Es) (n div BatchSize)"
  shows "pr_last s' = of_nat m \<and> ru_batchCount (pr_rollup s') = of_nat m \<and> published C D L api b' m \<and>
    (\<forall>zb. GetBatch b' (of_nat m) = Some zb \<longrightarrow> zb_NewRoot zb = dec (uint (ru_stateRoot (pr_rollup s'))))"
proof -
  let ?t = "NewLevelDBMerkleTree (mimc C) Map.empty 28"
  have canon: "canonical (mimc C)" using laws by (simp add: gnark_laws_def)
  note new = New_db_inv [OF canon, of 28, simplified]
  obtain tr where tr: "length tr = n" "trace_of (mimc C) G expand ?t tr" "b' = send (mimc C) (sent_of ?t tr)"
    using seq_run_trace [OF run laws] new(1,3) by (auto simp: send_def)
  obtain bs rs where sp: "split_batches (sent_of ?t tr) = (bs, rs)" by fastforce
  have b: "b' = batcher_of (mimc C) (bs, rs)" using send_batcher_of [of "sent_of ?t tr" "mimc C"] small sp tr by simp
  have len: "length bs = n div BatchSize" using split_count [OF sp] tr(1) by simp
  note root = Root_canonical [OF new(1)]
  have "settled D L api b' ?t tr 0 s" using fresh by (simp add: settled_def)
  from settled_rounds [OF laws tr(2) root sp b _ coop this] have st: "settled D L api b' ?t tr m s'"
    using small by (simp add: len m s'(1))
  have m64: "m < 2 ^ 64" using small m by simp
  have "zb_NewRoot zb = dec (uint (ru_stateRoot (pr_rollup s')))" if zb: "GetBatch b' (of_nat m) = Some zb" for zb
  proof -
    have um: "unat (of_nat m :: u64) = m" using m64 by (simp add: unat_of_nat)
    have k: "1 \<le> m" "m \<le> length bs" "zb = sealed_batch (mimc C) (of_nat m) (bs ! (m - 1))"
      using zb um by (auto simp: b batcher_of_def GetBatch_def split: if_splits)
    have "m - 1 < length bs" using k by simp
    note blk = block_at [OF sp this]
    let ?pre = "take ((m - 1) * BatchSize) tr" and ?blk = "take BatchSize (drop ((m - 1) * BatchSize) tr)"
    have ne: "?blk \<noteq> []" using blk(2) by (simp add: BatchSize_def)
    have "m * BatchSize = (m - 1) * BatchSize + BatchSize" using k(1) by (cases m) simp_all
    then have split: "take (m * BatchSize) tr = ?pre @ ?blk" using take_add [of "(m - 1) * BatchSize" BatchSize tr] by simp
    then have "end_tree ?t (take (m * BatchSize) tr) = end_tree (end_tree ?t ?pre) ?blk" using ne by (simp add: end_tree_def)
    then have "zb_NewRoot zb = dec (Root (end_tree ?t (take (m * BatchSize) tr)))"
      unfolding k(3) blk(1) sealed_roots(2) [OF ne] by simp
    moreover have "fr (Root (end_tree ?t (take (m * BatchSize) tr))) = Root (end_tree ?t (take (m * BatchSize) tr))"
    proof (rule trace_canonical [OF laws _ root])
      show "trace_of (mimc C) G expand ?t (take (m * BatchSize) tr)"
        using tr(2) trace_of_append [of "mimc C" G expand ?t "take (m * BatchSize) tr" "drop (m * BatchSize) tr"] by simp
    qed
    ultimately show ?thesis using st fr_bytes by (auto simp: settled_def word_of_int_inverse)
  qed
  then show ?thesis using st settled_published [OF st s'(2) m64] unfolding settled_def by blast
qed

text \<open>
  C4: the prover settles what the sequencer seals, in order. After any run of the sequencer from the
  empty tree, a prover that starts with a fresh contract and meets cooperating services settles one
  batch per round until none is left: after the rounds \<open>Es\<close>, the contract has counted
  \<open>min |Es| (n div 25)\<close> batches, its root is the new root of the last of them, and L1 holds what
  the reconstruction needs.
\<close>
theorem prover_settles:
  assumes "gnark_laws (mimc C) G"
    and "seq_run C G expand (NewLevelDBMerkleTree (mimc C) Map.empty 28, NewBatcher) n (t', b')"
    and "n div BatchSize + 1 < 2 ^ 64"
    and "\<forall>E \<in> set Es. cooperates G expand D L api Ch fl b' E \<and> ru_isProver (pr_rollup s) (et_from (pe_eth E))"
    and "pr_last s = 0" "ru_batchCount (pr_rollup s) = 0"
      "ru_stateRoot (pr_rollup s) = word_of_int (Root (NewLevelDBMerkleTree (mimc C) Map.empty 28))"
    and "s' = prover_rounds Es Ch fl s" "reads_contract L (pr_rollup s')" and "m = min (length Es) (n div BatchSize)"
  shows "pr_last s' = of_nat m \<and> ru_batchCount (pr_rollup s') = of_nat m \<and> published C D L api b' m \<and>
    (\<forall>zb. GetBatch b' (of_nat m) = Some zb \<longrightarrow> zb_NewRoot zb = dec (uint (ru_stateRoot (pr_rollup s'))))"
  by (rule prover_run_settles [OF assms])

text \<open>A chain, an indexer and a Blobscan that serve one batch.\<close>

definition demo_hash :: bytes where
  "demo_hash = CHR 0x01 # zero_bytes 31"

definition demo_prover_env :: "zk_batch \<Rightarrow> prover_env" where
  "demo_prover_env zb =
     \<lparr>pe_fetch = \<lparr>fe_get = (\<lambda>url. if url = ''/batch/latest'' \<or> url = ''/batch/1'' then Some (200, []) else Some (404, [])),
                 fe_decode = (\<lambda>_. Some zb)\<rparr>,
      pe_expand = (\<lambda>_. zero_signature),
      pe_groth = \<lparr>gr_prove = (\<lambda>_. Some (Bn254 \<lparr>gp_ArX = 1, gp_ArY = 2, gp_BsX0 = 3, gp_BsX1 = 4, gp_BsY0 = 5, gp_BsY1 = 6,
                    gp_KrsX = 7, gp_KrsY = 8\<rparr>)), gr_verify = (\<lambda>_ _. True)\<rparr>,
      pe_da = (demo_da zb)\<lparr>da_marshalTransitions := (\<lambda>_. Inr ''[]''), da_marshalPayload := (\<lambda>_. Inr ''p''), da_keccak := (\<lambda>_. demo_hash)\<rparr>,
      pe_kzg = \<lparr>kz_commitment = Inr, kz_cellProofs = Inr, kz_blobHashes = (\<lambda>_. [demo_hash])\<rparr>,
      pe_eth = \<lparr>et_from = 9, et_gasLimit = 0, et_hexToAddress = (\<lambda>_. 5), et_networkID = Some 1, et_pendingNonce = Some 0,
        et_tipCap = Some 1, et_header = Some \<lparr>bh_BaseFee = Some 7, bh_ExcessBlobGas = Some 0\<rparr>, et_minBlobGasprice = 1,
        et_calcBlobFee = (\<lambda>_ _. 1), et_uint256 = (\<lambda>x. Some (word_of_int x)), et_packs = (\<lambda>_. True), et_abi = word_of_int,
        et_signs = (\<lambda>_. True), et_sends = (\<lambda>_. True), et_fate = (\<lambda>_. Mined 100), et_rollup = 5\<rparr>\<rparr>"

definition demo_verifier :: chain_env where
  "demo_verifier = \<lparr>ch_constants = [], ch_verifyProof = (\<lambda>_ _. True), ch_keccak = (\<lambda>x _. x), ch_token = (\<lambda>_ _. True)\<rparr>"

definition demo_flags :: prover_flags where
  "demo_flags = \<lparr>pf_indexerURL = [], pf_contract = ''0x5''\<rparr>"

definition l1_of :: "rollup \<Rightarrow> bytes \<Rightarrow> l1_env" where
  "l1_of r blob = (demo_l1 (be_enc 32 (unat (ru_stateRoot r))) blob)\<lparr>l1_batchCount := Some (ru_batchCount r),
     l1_batchBlobHash := (\<lambda>i. Some (be_enc 32 (unat (ru_batchBlobHash r i)))),
     l1_batchDataHash := (\<lambda>i. Some (be_enc 32 (unat (ru_batchDataHash r i))))\<rparr>"

lemma demo_hash_ok: "length demo_hash = 32" "demo_hash \<noteq> zero_bytes 32"
  by (simp_all add: demo_hash_def zero_bytes_def numeral_eq_Suc)

lemma dec_one: "dec_nat 1 = ''1''"
proof -
  have "(of_char (CHR ''1'') :: nat) = 49" by simp
  then have "char_of (49 :: nat) = CHR ''1''" by (metis char_of_char)
  then show ?thesis by (simp add: dec_nat.simps digit_def)
qed

lemma demo_serves:
  assumes "GetLatestBatch b = Some zb" "\<And>bid. GetBatch b bid = (if bid = 1 then Some zb else None)"
  shows "serves (pe_fetch (demo_prover_env zb)) [] b"
proof -
  have "(dec_nat (unat bid) = ''1'') = (bid = 1)" for bid :: u64
  proof
    assume "dec_nat (unat bid) = ''1''"
    then have "unat bid = unat (1 :: u64)" using dec_one by (metis dec_nat_inject unsigned_1)
    then show "bid = 1" by (simp only: word_unat_eq_iff)
  qed (use dec_one in simp)
  moreover have "dec_nat n \<noteq> ''latest''" for n
  proof
    assume eq: "dec_nat n = ''latest''"
    have "CHR ''l'' \<notin> set (dec_nat n)" by (rule not_in_dec_nat) simp
    then show False using eq by simp
  qed
  ultimately show ?thesis
    using assms by (simp add: serves_def fetchLatestBatch_def fetchBatchByID_def demo_prover_env_def)
qed

lemma demo_publishable:
  assumes "packBlob ''p'' = Inr blob"
  shows "publishable (pe_da (demo_prover_env zb)) (pe_kzg (demo_prover_env zb)) (l1_of r blob) [] zb"
proof -
  let ?D = "pe_da (demo_prover_env zb)"
  let ?p = "\<lparr>dp_Version = 1, dp_BatchID = zb_BatchID zb, dp_OldRoot = zb_OldRoot zb, dp_NewRoot = zb_NewRoot zb,
     dp_WithdrawalHash = zb_WithdrawalHash zb, dp_DepositHash = zb_DepositHash zb, dp_Transitions = zb_Transitions zb\<rparr>"
  have "length blob = blobLimbs * 32" using packBlob_packed(1) [OF assms] by (simp add: packed_upto_def)
  then have "fetchBlob (l1_of r blob) [] (''0x'' @ hex_encode demo_hash) = Inr blob"
    by (simp add: fetchBlob_def l1_of_def demo_l1_def)
  moreover have "decodeDAPayload ?D ''p'' = Inr ?p"
    by (simp add: decodeDAPayload_def gzipDecompress_def demo_prover_env_def demo_da_def demo_env_def read_limited_def
        MaxDecompressedPayloadLen_def)
  ultimately have "archived ?D (l1_of r blob) [] zb ''p'' demo_hash"
    unfolding archived_def using assms by (intro exI [of _ blob] exI [of _ ?p]) simp
  moreover have "EncodeBatchPayload ?D bid old new wh dh ts = Inr (''p'', demo_hash)" for bid old new wh dh ts
    by (simp add: EncodeBatchPayload_def gzipCompress_def demo_prover_env_def demo_da_def demo_env_def MaxPayloadLen_value)
  moreover have "\<exists>sc. BuildBlobSidecar (pe_kzg (demo_prover_env zb)) ''p'' = Inr (sc, demo_hash)"
    using assms by (simp add: BuildBlobSidecar_def demo_prover_env_def demo_hash_def)
  ultimately show ?thesis unfolding publishable_def using demo_hash_ok by blast
qed

lemma demo_cooperates:
  assumes "GetLatestBatch b = Some zb" "\<And>bid. GetBatch b bid = (if bid = 1 then Some zb else None)" "packBlob ''p'' = Inr blob"
  shows "cooperates G (\<lambda>_. zero_signature) (pe_da (demo_prover_env zb)) (l1_of r blob) [] demo_verifier demo_flags b (demo_prover_env zb)"
proof -
  have "groth_complete (pe_groth (demo_prover_env zb)) (pe_eth (demo_prover_env zb)) demo_verifier G"
    by (simp add: groth_complete_def demo_prover_env_def demo_verifier_def)
  moreover have "lands (pe_eth (demo_prover_env zb)) (pf_contract demo_flags)"
    by (simp add: lands_def demo_prover_env_def build_tx_def fee_caps_def Let_def)
  moreover have "pf_indexerURL demo_flags = []" "pe_expand (demo_prover_env zb) = (\<lambda>_. zero_signature)"
    by (simp_all add: demo_flags_def demo_prover_env_def)
  ultimately show ?thesis
    using demo_serves [OF assms(1,2)] demo_publishable [OF assms(3)] assms(2) by (simp add: cooperates_def split: if_splits)
qed

text \<open>25 deposits from the empty tree: one sealed batch.\<close>

lemma demo_sealed:
  assumes run: "seq_run demo_scheme demo_gnark_mimc (\<lambda>_. zero_signature) (demo_db, NewBatcher) 25 (t', b')"
  shows "\<exists>zb. GetLatestBatch b' = Some zb \<and> (\<forall>bid. GetBatch b' bid = (if bid = 1 then Some zb else None))"
proof -
  have inv: "db_inv (mimc demo_scheme) 28 demo_db" "ids_inv demo_db" by (simp_all add: demo_mimc_laws(2))
  obtain tr where tr: "length tr = 25" "b' = send (mimc demo_scheme) (sent_of demo_db tr)"
    using seq_run_trace [OF run demo_mimc_laws(1)] inv by (auto simp: send_def)
  obtain bs rs where s: "split_batches (sent_of demo_db tr) = (bs, rs)" by fastforce
  have one: "length bs = 1" using split_count [OF s] tr(1) by (simp add: BatchSize_def)
  then obtain xs where bs: "bs = [xs]" by (auto simp: length_Suc_conv)
  have b: "b' = batcher_of (mimc demo_scheme) (bs, rs)"
    using send_batcher_of [of "sent_of demo_db tr" "mimc demo_scheme"] s tr by (simp add: BatchSize_def)
  have u: "(1 \<le> unat bid \<and> unat bid \<le> Suc 0) = (bid = 1)" for bid :: u64
    by (auto simp: word_unat_eq_iff)
  have "GetLatestBatch b' = Some (sealed_batch (mimc demo_scheme) 1 xs)"
    "GetBatch b' bid = (if bid = 1 then Some (sealed_batch (mimc demo_scheme) 1 xs) else None)" for bid
    using u [of bid] by (auto simp: b bs GetBatch_def GetLatestBatch_def batcher_of_def)
  then show ?thesis by blast
qed

lemma demo_one_batch:
  "\<exists>t' b' zb. seq_run demo_scheme demo_gnark_mimc (\<lambda>_. zero_signature) (demo_db, NewBatcher) 25 (t', b') \<and>
     GetLatestBatch b' = Some zb \<and> (\<forall>bid. GetBatch b' bid = (if bid = 1 then Some zb else None))"
  using demo_deposits [of 25] demo_sealed by meson

theorem prover_settles_witness:
  "\<exists>E L b' zb s. GetBatch b' 1 = Some zb \<and> pr_last s = 0 \<and>
     ru_batchCount (pr_rollup (prover_rounds [E] demo_verifier demo_flags s)) = 1 \<and>
     zb_NewRoot zb = dec (uint (ru_stateRoot (pr_rollup (prover_rounds [E] demo_verifier demo_flags s)))) \<and>
     published demo_scheme (pe_da E) L [] b' 1"
proof -
  obtain t' b' zb where run: "seq_run demo_scheme demo_gnark_mimc (\<lambda>_. zero_signature) (demo_db, NewBatcher) 25 (t', b')"
    and zb: "GetLatestBatch b' = Some zb" "\<And>bid. GetBatch b' bid = (if bid = 1 then Some zb else None)"
    using demo_one_batch by blast
  have db: "NewLevelDBMerkleTree (mimc demo_scheme) Map.empty 28 = demo_db" by (simp add: demo_db_def demo_mimc_laws(2))
  obtain blob where blob: "packBlob ''p'' = Inr blob" by (simp add: packBlob_def MaxPayloadLen_value)
  let ?E = "demo_prover_env zb"
  let ?r = "new_rollup \<lparr>msg_sender = 9, block_timestamp = 1, tx_blobhash = 0\<rparr> (word_of_int (Root demo_db)) 0"
  define s where "s = \<lparr>pr_last = 0, pr_store = NewProverStore, pr_rollup = ?r\<rparr>"
  define s' where "s' = prover_rounds [?E] demo_verifier demo_flags s"
  let ?L = "l1_of (pr_rollup s') blob"
  have fresh: "pr_last s = 0" "ru_batchCount (pr_rollup s) = 0" "ru_stateRoot (pr_rollup s) = word_of_int (Root demo_db)"
    by (simp_all add: s_def new_rollup_def)
  have prover: "ru_isProver (pr_rollup s) (et_from (pe_eth ?E))" by (simp add: s_def new_rollup_def demo_prover_env_def)
  have coop: "\<forall>E \<in> set [?E]. cooperates demo_gnark_mimc (\<lambda>_. zero_signature) (pe_da ?E) ?L [] demo_verifier demo_flags b' E \<and>
      ru_isProver (pr_rollup s) (et_from (pe_eth E))"
    using demo_cooperates [OF zb blob] prover by simp
  have reads: "reads_contract ?L (pr_rollup s')" by (simp add: reads_contract_def l1_of_def demo_l1_def)
  have m: "1 = min (length [?E]) (25 div BatchSize)" and small: "25 div BatchSize + 1 < (2 :: nat) ^ 64"
    by (simp_all add: BatchSize_def)
  from prover_settles [OF demo_mimc_laws(1) run [folded db] small coop fresh(1,2) fresh(3) [folded db] s'_def reads m]
  have "ru_batchCount (pr_rollup s') = 1" "published demo_scheme (pe_da ?E) ?L [] b' 1"
    "zb_NewRoot zb = dec (uint (ru_stateRoot (pr_rollup s')))"
    using zb(2) [of 1] by simp_all
  then show ?thesis
    using zb(2) [of 1] fresh(1) s'_def
    by (intro exI [of _ ?E] exI [of _ ?L] exI [of _ b'] exI [of _ zb] exI [of _ s] conjI) simp_all
qed

text \<open>
  C6: a crash between inclusion and the save stops the prover for good. If the process dies after the
  contract took a batch that changes the root but before \<open>SaveLastProcessedBatch\<close>, the restarted
  prover sends the same batch again; the contract refuses it, in every later round and however well
  the services work, and the prover never gets past it.
\<close>
theorem crash_before_save_blocks:
  assumes coop: "\<forall>E \<in> set (E0 # Es). cooperates G expand D L api Ch fl b E"
    and latest: "GetLatestBatch b = Some newest" "pr_last s + 1 \<le> zb_BatchID newest"
    and zb: "GetBatch b (pr_last s + 1) = Some zb" "proves expand G zb c" "tc_NewRoot c \<noteq> tc_OldRoot c"
    and prover: "ru_isProver (pr_rollup s) (et_from (pe_eth E0))" and room: "ru_batchCount (pr_rollup s) \<noteq> - 1"
    and root: "ru_stateRoot (pr_rollup s) = word_of_int (tc_OldRoot c)"
    and start: "s = prover_start False (pr_store s) (pr_rollup s)"
  shows "\<exists>s1 s2. prover_round E0 Ch fl s = (Settled, s1) \<and> s2 = prover_start False (pr_store s) (pr_rollup s1) \<and>
    ru_batchCount (pr_rollup s2) = ru_batchCount (pr_rollup s) + 1 \<and> prover_rounds Es Ch fl s2 = s2 \<and>
    (\<forall>E \<in> set Es. prover_round E Ch fl s2 = (Failed_round ''reverted'', s2))"
proof -
  obtain s1 where s1: "prover_round E0 Ch fl s = (Settled, s1)" "ru_stateRoot (pr_rollup s1) = word_of_int (tc_NewRoot c)"
    "ru_batchCount (pr_rollup s1) = ru_batchCount (pr_rollup s) + 1"
    using round_settles [OF _ latest zb(1,2) prover root room] coop by (metis list.set_intros(1))
  let ?s2 = "prover_start False (pr_store s) (pr_rollup s1)"
  have "pr_last (prover_start False (pr_store s) r) = pr_last (prover_start False (pr_store s) (pr_rollup s))" for r
    by (simp add: prover_start_def Let_def)
  then have last: "pr_last ?s2 = pr_last s" using start by metis
  have rollup: "pr_rollup ?s2 = pr_rollup s1" by (simp add: prover_start_def Let_def)
  have canon: "fr (tc_NewRoot c) = tc_NewRoot c" "fr (tc_OldRoot c) = tc_OldRoot c"
    using zb(2) by (simp_all add: proves_def publics_def)
  have "(word_of_int (tc_NewRoot c) :: u256) \<noteq> word_of_int (tc_OldRoot c)"
    using canon [THEN fr_uint_word] zb(3) by metis
  then have "ru_stateRoot (pr_rollup ?s2) \<noteq> word_of_int (tc_OldRoot c)" by (simp add: rollup s1(2))
  then have "prover_round E Ch fl ?s2 = (Failed_round ''reverted'', ?s2)" if "E \<in> set Es" for E
    using round_reverts [of G expand D L api Ch fl b E newest ?s2 zb c] coop that latest zb by (simp add: last)
  then show ?thesis using s1 rollup rounds_revert by (intro exI [of _ s1] exI [of _ ?s2]) auto
qed

lemma fold_zeros: "fold_path (mimc_hash []) (v mod fr_modulus) (replicate n 0) (replicate n 0) = 4 ^ n * v mod fr_modulus"
proof (induction n arbitrary: v)
  case (Suc n)
  have "fold_path (mimc_hash []) (v mod fr_modulus) (replicate (Suc n) 0) (replicate (Suc n) 0) =
      fold_path (mimc_hash []) ((4 * v) mod fr_modulus) (replicate n 0) (replicate n 0)"
    by (simp add: linear_hash mod_simps)
  then show ?case unfolding Suc by (simp add: algebra_simps)
qed simp

lemma sbits_one: "sbits (Suc n) 1 = 1 # replicate n 0"
proof -
  have "1 div 2 ^ Suc l mod 2 = (0 :: nat)" for l
  proof -
    have "(1 :: nat) < 2 ^ Suc l" by (rule one_less_power) simp_all
    then show ?thesis by (simp only: div_less mod_0)
  qed
  then show ?thesis by (simp add: sbits_def map_upt_Suc map_replicate_const del: upt_Suc power_Suc)
qed

lemma linear_spath_zero: "spath (mimc_hash []) (\<lambda>_. 0) (Suc n) i = 0 # replicate n 0"
  by (simp add: spath_def tnode_zero map_replicate_const del: upt_Suc)

lemma demo_root:
  assumes "db_inv (mimc demo_scheme) 28 t" "balances t = [(0, 1) \<mapsto> deposited n]" "n < 100"
  shows "Root t = 2 ^ 55 * (20 * int n + 112) mod fr_modulus"
proof -
  let ?H = "mimc_hash []"
  let ?v = "20 * int n + 112"
  have leaf: "account_leaf ?H (deposited n) = ?v mod fr_modulus"
    using assms(3) by (simp add: account_leaf_def HashAccountLeaf_def deposited_def leaf_index_def linear_hash fr_def fr_modulus_def)
  have leaves: "map_leaves ?H (balances t) j = ((\<lambda>_. 0)(1 := ?v mod fr_modulus)) j" if "j < 2 ^ 28" for j
  proof -
    have "(of_nat (j div 256) :: u64) = 0 \<and> (of_nat (j mod 256) :: u32) = 1 \<longleftrightarrow> j = 1"
    proof
      assume *: "(of_nat (j div 256) :: u64) = 0 \<and> (of_nat (j mod 256) :: u32) = 1"
      have "unat (of_nat (j div 256) :: u64) = j div 256" "unat (of_nat (j mod 256) :: u32) = j mod 256"
        using that by (simp_all add: unat_of_nat)
      then have "j div 256 = 0" "j mod 256 = 1" using * by simp_all
      then show "j = 1" using div_mult_mod_eq [of j 256] by simp
    qed simp
    then show ?thesis by (simp add: map_leaves_def leaf_value_def assms(2) leaf)
  qed
  have "Root t = tnode ?H (map_leaves ?H (balances t)) 28 0"
    using Root_map_root [OF assms(1)] by (simp add: map_root_def demo_mimc_laws(2))
  also have "\<dots> = tnode ?H ((\<lambda>_. 0)(1 := ?v mod fr_modulus)) 28 0"
    by (rule tnode_cong) (rule leaves, simp)
  also have "\<dots> = fold_path ?H (?v mod fr_modulus) (spath ?H (\<lambda>_. 0) 28 1) (sbits 28 1)"
    using fold_spath [of ?H "?v mod fr_modulus" "\<lambda>_. 0" 28 1] by simp
  also have "spath ?H (\<lambda>_. 0) 28 1 = 0 # replicate 27 0"
    using linear_spath_zero [of 27 1] by simp
  also have "sbits 28 1 = 1 # replicate 27 0"
    using sbits_one [of 27] by simp
  also have "fold_path ?H (?v mod fr_modulus) (0 # replicate 27 0) (1 # replicate 27 0) =
      fold_path ?H ((2 * ?v) mod fr_modulus) (replicate 27 0) (replicate 27 0)"
    by (simp add: linear_hash mod_simps)
  also have "\<dots> = 2 ^ 55 * ?v mod fr_modulus" unfolding fold_zeros by simp
  finally show ?thesis .
qed

lemma demo_one_deposit_batch:
  "\<exists>b' zb c. GetLatestBatch b' = Some zb \<and> (\<forall>bid. GetBatch b' bid = (if bid = 1 then Some zb else None)) \<and>
     zb_BatchID zb = 1 \<and> proves (\<lambda>_. zero_signature) demo_gnark_mimc zb c \<and> tc_OldRoot c = Root demo_db \<and> tc_NewRoot c \<noteq> tc_OldRoot c"
proof -
  have inv: "db_inv (mimc demo_scheme) 28 demo_db" "ids_inv demo_db" by (simp_all add: demo_mimc_laws(2))
  obtain t' b' where run: "seq_run demo_scheme demo_gnark_mimc (\<lambda>_. zero_signature) (demo_db, NewBatcher) 25 (t', b')"
    "db_inv (mimc demo_scheme) 28 t'" "balances t' = [(0, 1) \<mapsto> deposited 25]"
    using demo_deposits_state [of 25] by auto
  obtain tr where tr: "length tr = 25" "trace_of (mimc demo_scheme) demo_gnark_mimc (\<lambda>_. zero_signature) demo_db tr"
    "b' = send (mimc demo_scheme) (sent_of demo_db tr)" "t' = end_tree demo_db tr"
    using seq_run_trace [OF run(1) demo_mimc_laws(1)] inv by (auto simp: send_def)
  obtain bs rs where s: "split_batches (sent_of demo_db tr) = (bs, rs)" by fastforce
  have one: "length bs = 1" using split_count [OF s] tr(1) by (simp add: BatchSize_def)
  have "bs ! 0 = sent_of demo_db tr" using block_at(1) [OF s, of 0] one tr(1) by (simp add: BatchSize_def)
  then have bs: "bs = [sent_of demo_db tr]" using one by (cases bs) auto
  have b: "b' = batcher_of (mimc demo_scheme) (bs, rs)"
    using send_batcher_of [of "sent_of demo_db tr" "mimc demo_scheme"] s tr by (simp add: BatchSize_def)
  let ?zb = "sealed_batch (mimc demo_scheme) 1 (sent_of demo_db tr)"
  have u: "(1 \<le> unat bid \<and> unat bid \<le> Suc 0) = (bid = 1)" for bid :: u64
    by (auto simp: word_unat_eq_iff)
  have zb: "GetLatestBatch b' = Some ?zb" "GetBatch b' bid = (if bid = 1 then Some ?zb else None)" for bid
    using u [of bid] by (auto simp: b bs GetBatch_def GetLatestBatch_def batcher_of_def)
  have len: "length tr = BatchSize" using tr(1) by (simp add: BatchSize_def)
  obtain c where c: "proves (\<lambda>_. zero_signature) demo_gnark_mimc ?zb c" "tc_OldRoot c = Root demo_db" "tc_NewRoot c = Root t'"
    using block_proves [OF demo_mimc_laws(1) tr(2) Root_canonical [OF inv(1)] len, of 1] tr(4) by blast
  have "Root demo_db = map_root (mimc_hash []) 28 Map.empty"
    using Root_map_root [OF demo_db_inv(1)] by (simp add: demo_db_empty)
  also have "\<dots> = tnode (mimc_hash []) (\<lambda>_. 0) 28 0"
    unfolding map_root_def by (rule tnode_cong) (simp add: map_leaves_def leaf_value_def)
  finally have "Root demo_db = 0" by (simp add: tnode_zero)
  moreover have "Root t' \<noteq> 0" using demo_root [OF run(2,3)] by (simp add: fr_modulus_def)
  moreover have "zb_BatchID ?zb = 1" by (simp add: sealed_batch_def open_batch_def)
  ultimately show ?thesis using zb c by (intro exI [of _ b'] exI [of _ ?zb] exI [of _ c]) simp
qed

theorem crash_before_save_blocks_witness:
  "\<exists>E s s1 s2. prover_round E demo_verifier demo_flags s = (Settled, s1) \<and>
     s2 = prover_start False NewProverStore (pr_rollup s1) \<and> ru_batchCount (pr_rollup s2) = 1 \<and>
     prover_round E demo_verifier demo_flags s2 = (Failed_round ''reverted'', s2)"
proof -
  obtain b' zb c where zb: "GetLatestBatch b' = Some zb" "\<And>bid. GetBatch b' bid = (if bid = 1 then Some zb else None)"
    "zb_BatchID zb = 1" "proves (\<lambda>_. zero_signature) demo_gnark_mimc zb c" "tc_OldRoot c = Root demo_db" "tc_NewRoot c \<noteq> tc_OldRoot c"
    using demo_one_deposit_batch by blast
  obtain blob where blob: "packBlob ''p'' = Inr blob" by (simp add: packBlob_def MaxPayloadLen_value)
  let ?E = "demo_prover_env zb"
  let ?r = "new_rollup \<lparr>msg_sender = 9, block_timestamp = 1, tx_blobhash = 0\<rparr> (word_of_int (Root demo_db)) 0"
  define s where "s = prover_start False NewProverStore ?r"
  have s: "pr_store s = NewProverStore" "pr_rollup s = ?r" "pr_last s = 0"
    by (simp_all add: s_def prover_start_def GetLastProcessedBatch_def NewProverStore_def bg_get_def split: sum.splits)
  have coop: "\<forall>E \<in> set (?E # [?E]). cooperates demo_gnark_mimc (\<lambda>_. zero_signature) (pe_da ?E) (l1_of ?r blob) [] demo_verifier
      demo_flags b' E"
    using demo_cooperates [OF zb(1,2) blob] by simp
  have "pr_last s + 1 \<le> zb_BatchID zb" "GetBatch b' (pr_last s + 1) = Some zb" using zb(2,3) s by simp_all
  moreover have "ru_isProver (pr_rollup s) (et_from (pe_eth ?E))" "ru_batchCount (pr_rollup s) \<noteq> - 1"
    "ru_stateRoot (pr_rollup s) = word_of_int (tc_OldRoot c)" "ru_batchCount (pr_rollup s) = 0"
    by (simp_all add: s(1,2) zb(5) new_rollup_def demo_prover_env_def)
  moreover have "s = prover_start False (pr_store s) (pr_rollup s)" unfolding s(1,2) by (rule s_def)
  ultimately show ?thesis
    using crash_before_save_blocks [OF coop zb(1) _ _ zb(4,6)] s(1) by force
qed

section \<open>A bogus circuit signature\<close>

text \<open>\<open>groth16.Prove\<close> fails on an assignment that does not satisfy the circuit.\<close>

definition groth_sound :: "groth_env \<Rightarrow> gnark \<Rightarrow> bool" where
  "groth_sound Q G \<longleftrightarrow> (\<forall>c. Define G c = None \<longrightarrow> gr_prove Q c = None)"

lemma unauthorised_unprovable:
  assumes "gnark_laws H G" "assign_op expand st = Some op" "\<not> auth_valid H G op"
    and "st \<in> set (zb_Transitions zb)" "length (zb_Transitions zb) \<le> BatchSize"
    and "generateProof_assignment expand zb = Some c"
  shows "Define G c = None"
proof -
  obtain ops where ops: "assign_ops expand (padded (zb_Transitions zb)) = Some ops" "tc_Ops c = ops"
    using assms(6) by (auto simp: generateProof_assignment_def split: if_splits bind_splits)
  have "st \<in> set (padded (zb_Transitions zb))" using set_padded [OF assms(5)] assms(4) by blast
  then have "op \<in> set ops" using assign_ops_mem [OF ops(1)] assms(2) by fastforce
  moreover have "length ops = BatchSize" using assign_ops_length [OF ops(1)] by simp
  ultimately show ?thesis
    using gnark_api.Define_unauthorised [OF gnark_api.intro [OF assms(1)], of op c] assms(3) ops(2) by simp
qed

text \<open>
  C5: one bogus circuit signature stops settlement. The order book only asks that the field is not
  empty. A funded trade whose circuit signatures do not verify is applied to the state and recorded in
  the batch all the same; but a batch holding its transition has no proof, so a prover that reaches it
  stays there, whatever else happens, for any number of rounds.
\<close>
theorem bogus_signature_halts:
  assumes laws: "gnark_laws (mimc C) G" and inv: "db_inv (mimc C) 28 t" "ids_inv t"
    and ok: "settleable (mimc C) t trade sb sq bb bq"
    and bogus: "\<not> auth_valid (mimc C) G (trade_op expand (mimc C) trade sb sq bb bq t)"
  shows "\<exists>t' st. applyTrade C trade t b = (Applied, t', AddTransition (mimc C) st (dec (Root t)) (dec (Root t')) b) \<and>
     (\<forall>zb Es Ch fl s. st \<in> set (zb_Transitions zb) \<and> length (zb_Transitions zb) \<le> BatchSize \<and>
        (\<forall>E \<in> set Es. pe_expand E = expand \<and> groth_sound (pe_groth E) G \<and>
           fetchBatchByID (pe_fetch E) (pf_indexerURL fl) (pr_last s + 1) = Inr (Some zb)) \<longrightarrow>
        prover_rounds Es Ch fl s = s)"
proof -
  have p: "trade_loaded t trade sb sq bb bq" "bs_AccountID sb \<noteq> bs_AccountID bb" "same_key sb sq" "same_key bb bq"
    and funds: "t_MatchAmount trade \<le> bs_Balance sb" "trade_quote trade \<le> bs_Balance bq"
    using ok by (simp_all add: settleable_def fill_funded_def)
  note ready = trade_fill_ready [OF inv(1) p]
  let ?t' = "fill_t4 (mimc C) t sb sq bb bq (t_MatchAmount trade) (trade_quote trade)"
  let ?st = "fill_transition (mimc C) (o_CircuitSignature (sell_of trade)) (o_CircuitSignature (buy_of trade))
    (t_MatchAmount trade) (trade_quote trade) sb sq bb bq t"
  have applied: "applyTrade C trade t b = (Applied, ?t', AddTransition (mimc C) ?st (dec (Root t)) (dec (Root ?t')) b)"
    unfolding applyTrade_loaded [OF inv p(1)] by (rule settle_fill_eq [OF ready funds])
  have assign: "assign_op expand ?st = Some (trade_op expand (mimc C) trade sb sq bb bq t)"
    by (simp add: trade_op_def assign_fill)
  have "prover_round E Ch fl s = (fst (prover_round E Ch fl s), s)"
    if "?st \<in> set (zb_Transitions zb)" "length (zb_Transitions zb) \<le> BatchSize" "pe_expand E = expand" "groth_sound (pe_groth E) G"
      "fetchBatchByID (pe_fetch E) (pf_indexerURL fl) (pr_last s + 1) = Inr (Some zb)" for zb E Ch fl s
  proof -
    have "zb_Transitions zb \<noteq> []" using that(1) by auto
    moreover have "generateProof E zb = None"
    proof (cases "generateProof_assignment expand zb")
      case (Some c)
      have "Define G c = None" by (rule unauthorised_unprovable [OF laws assign bogus that(1,2) Some])
      then show ?thesis using that(3,4) Some by (simp add: generateProof_def groth_sound_def)
    qed (use that(3) in \<open>simp add: generateProof_def\<close>)
    ultimately show ?thesis
      using that(5) by (simp add: prover_round_def Let_def split: sum.split option.split)
  qed
  then have "prover_rounds Es Ch fl s = s"
    if "?st \<in> set (zb_Transitions zb) \<and> length (zb_Transitions zb) \<le> BatchSize \<and>
        (\<forall>E \<in> set Es. pe_expand E = expand \<and> groth_sound (pe_groth E) G \<and>
           fetchBatchByID (pe_fetch E) (pf_indexerURL fl) (pr_last s + 1) = Inr (Some zb))" for zb Es Ch fl s
    using that by (induction Es) (simp, metis list.set_intros prover_rounds.simps(2) snd_conv)
  then show ?thesis using applied by (intro exI [of _ ?t'] exI [of _ ?st] conjI allI impI) blast+
qed

text \<open>A circuit that accepts no signature but the fixture, and a prover that knows it.\<close>

definition strict_gnark :: gnark where
  "strict_gnark = fr_gnark (mimc_hash []) (\<lambda>sig _ _. sig = dummy_sig)"

definition strict_env :: "zk_batch \<Rightarrow> prover_env" where
  "strict_env zb = (demo_prover_env zb)\<lparr>pe_groth := \<lparr>gr_prove = (\<lambda>c. if Define strict_gnark c = None then None else Some OtherProof),
     gr_verify = (\<lambda>_ _. True)\<rparr>\<rparr>"

theorem bogus_signature_halts_witness:
  "\<exists>st zb s. fst (applyTrade demo_scheme (demo_trade ''aa'' ''bb'') demo_market NewBatcher) = Applied \<and>
     currentBatch (snd (snd (applyTrade demo_scheme (demo_trade ''aa'' ''bb'') demo_market NewBatcher))) = zb \<and>
     zb_Transitions zb = [st] \<and> pr_last s = 0 \<and> prover_rounds (replicate 9 (strict_env zb)) demo_verifier demo_flags s = s"
proof -
  have laws: "gnark_laws (mimc demo_scheme) strict_gnark"
    by (simp add: strict_gnark_def fr_gnark_laws mimc_hash_canonical demo_mimc_laws(2))
  have inv: "db_inv (mimc demo_scheme) 28 demo_market" using demo_market_facts(1) by (simp add: demo_mimc_laws(2))
  have ok: "settleable (mimc demo_scheme) demo_market (demo_trade ''aa'' ''bb'') (demo_account 0 1 100) (demo_account 0 2 0) (demo_account 1 1 0) (demo_account 1 2 50)"
    using demo_trade_ok by (simp add: demo_mimc_laws(2))
  have "sig_RX (assign_sig (\<lambda>_. zero_signature) sig) = 0" for sig
    by (simp add: assign_sig_def assignEdDSASig_def zero_signature_def split: sum.split option.split)
  then have bogus: "\<not> auth_valid (mimc demo_scheme) strict_gnark (trade_op (\<lambda>_. zero_signature) (mimc demo_scheme) (demo_trade ''aa'' ''bb'')
     (demo_account 0 1 100) (demo_account 0 2 0) (demo_account 1 1 0) (demo_account 1 2 50) demo_market)"
    by (auto simp: auth_valid_def trade_op_def fill_op_def op_code_def op_codes sig_ok_def strict_gnark_def fr_gnark_def dummy_sig_def dummySigRX_def)
  obtain t' st where st: "applyTrade demo_scheme (demo_trade ''aa'' ''bb'') demo_market NewBatcher =
      (Applied, t', AddTransition (mimc demo_scheme) st (dec (Root demo_market)) (dec (Root t')) NewBatcher)"
    and halt: "\<And>zb Es Ch fl s. st \<in> set (zb_Transitions zb) \<and> length (zb_Transitions zb) \<le> BatchSize \<and>
        (\<forall>E \<in> set Es. pe_expand E = (\<lambda>_. zero_signature) \<and> groth_sound (pe_groth E) strict_gnark \<and>
           fetchBatchByID (pe_fetch E) (pf_indexerURL fl) (pr_last s + 1) = Inr (Some zb)) \<Longrightarrow> prover_rounds Es Ch fl s = s"
    using bogus_signature_halts [OF laws inv demo_market_facts(2) ok bogus, of NewBatcher] by blast
  define zb where "zb = currentBatch (AddTransition (mimc demo_scheme) st (dec (Root demo_market)) (dec (Root t')) NewBatcher)"
  have "batcher_of (mimc demo_scheme) ([], []) = NewBatcher"
    using send_batcher_of [of "[]" "mimc demo_scheme"] by (simp add: send_def split_batches_def)
  then have zb: "zb_Transitions zb = [st]"
    using AddTransition_pushed [of "mimc demo_scheme" st _ _ "[]" "[]"]
    by (simp add: zb_def batcher_of_pushed BatchSize_def) (simp add: pushed_def open_batch_def)
  let ?s = "prover_start False NewProverStore (new_rollup \<lparr>msg_sender = 9, block_timestamp = 1, tx_blobhash = 0\<rparr> 0 0)"
  have last: "pr_last ?s = 0"
    by (simp add: prover_start_def GetLastProcessedBatch_def NewProverStore_def bg_get_def Let_def split: sum.splits)
  have env: "pe_expand (strict_env zb) = (\<lambda>_. zero_signature)" "groth_sound (pe_groth (strict_env zb)) strict_gnark"
    "fetchBatchByID (pe_fetch (strict_env zb)) (pf_indexerURL demo_flags) 1 = Inr (Some zb)"
    using dec_one by (simp_all add: strict_env_def demo_prover_env_def groth_sound_def fetchBatchByID_def demo_flags_def)
  have "prover_rounds (replicate 9 (strict_env zb)) demo_verifier demo_flags ?s = ?s"
    by (rule halt [of zb]) (use zb env last in \<open>simp add: BatchSize_def\<close>)
  then show ?thesis using st zb last by (intro exI [of _ st] exI [of _ zb] exI [of _ ?s]) (simp add: zb_def)
qed

end
