(* ===== verification/SequencerRace.thy ===== *)
theory SequencerRace imports SequencerRun begin

text \<open>
  Two goroutines on one tree. The process of cmd/sequencer/main.go applies trades in one goroutine and
  deposits in another (deposit\_watcher.go), and the tree has no lock; \<open>applyTrade\<close> loads its four
  balances before it writes any. This theory cuts \<open>applyTrade\<close> there and lets a deposit run in between.
\<close>

section \<open>applyTrade in two parts\<close>

text \<open>What a trade holds between loading its balances and writing them.\<close>

record loaded_fill =
  lf_amount :: int
  lf_quote :: int
  lf_makerSig :: string
  lf_takerSig :: string
  lf_sellerBase :: balance_state
  lf_sellerQuote :: balance_state
  lf_buyerBase :: balance_state
  lf_buyerQuote :: balance_state

definition applyTrade_load :: "'c crypto_scheme \<Rightarrow> trade \<Rightarrow> mtree \<Rightarrow> (outcome + loaded_fill) \<times> mtree" where
  "applyTrade_load C trade tree =
     (case orient trade of
        None \<Rightarrow> (Inl (Skipped ''expected one buy and one sell''), tree)
      | Some (sellOrder, buyOrder) \<Rightarrow>
          if o_CircuitSignature sellOrder = [] \<or> o_CircuitSignature buyOrder = []
          then (Inl (Skipped ''missing circuit_signature''), tree)
          else
            let baseToken = o_TokenID sellOrder;
                quoteToken = (if o_TokenID sellOrder \<noteq> o_TokenID buyOrder then o_TokenID buyOrder
                              else quoteTokenForBook baseToken)
            in (case getOrCreateBalance C tree (o_MakerAddress sellOrder) baseToken of
                  (Inl err, tree) \<Rightarrow> (Inl (Skipped ''seller base''), tree)
                | (Inr sellerBase, tree) \<Rightarrow>
               (case getOrCreateBalance C tree (o_MakerAddress sellOrder) quoteToken of
                  (Inl err, tree) \<Rightarrow> (Inl (Skipped ''seller quote''), tree)
                | (Inr sellerQuote, tree) \<Rightarrow>
               (case getOrCreateBalance C tree (o_MakerAddress buyOrder) baseToken of
                  (Inl err, tree) \<Rightarrow> (Inl (Skipped ''buyer base''), tree)
                | (Inr buyerBase, tree) \<Rightarrow>
               (case getOrCreateBalance C tree (o_MakerAddress buyOrder) quoteToken of
                  (Inl err, tree) \<Rightarrow> (Inl (Skipped ''buyer quote''), tree)
                | (Inr buyerQuote, tree) \<Rightarrow>
                    (Inr \<lparr>lf_amount = t_MatchAmount trade, lf_quote = t_MatchAmount trade * t_MatchPrice trade,
                          lf_makerSig = o_CircuitSignature sellOrder, lf_takerSig = o_CircuitSignature buyOrder,
                          lf_sellerBase = sellerBase, lf_sellerQuote = sellerQuote,
                          lf_buyerBase = buyerBase, lf_buyerQuote = buyerQuote\<rparr>, tree))))))"

definition applyTrade_write :: "'c crypto_scheme \<Rightarrow> loaded_fill \<Rightarrow> mtree \<Rightarrow> batcher \<Rightarrow> outcome \<times> mtree \<times> batcher" where
  "applyTrade_write C f tree batch =
     settle_fill (mimc C) (lf_makerSig f) (lf_takerSig f) (lf_amount f) (lf_quote f)
       (lf_sellerBase f) (lf_sellerQuote f) (lf_buyerBase f) (lf_buyerQuote f) tree batch"

lemma applyTrade_parts:
  "applyTrade C trade tree batch =
     (case applyTrade_load C trade tree of
        (Inl out, tree) \<Rightarrow> (out, tree, batch)
      | (Inr f, tree) \<Rightarrow> applyTrade_write C f tree batch)"
proof (cases "orient trade")
  case None
  then show ?thesis by (simp add: applyTrade_def applyTrade_load_def)
next
  case (Some so)
  obtain so1 bo where so: "so = (so1, bo)" by (cases so)
  let ?q = "if o_TokenID so1 \<noteq> o_TokenID bo then o_TokenID bo else quoteTokenForBook (o_TokenID so1)"
  obtain r1 t1 where 1: "getOrCreateBalance C tree (o_MakerAddress so1) (o_TokenID so1) = (r1, t1)" by fastforce
  obtain r2 t2 where 2: "getOrCreateBalance C t1 (o_MakerAddress so1) ?q = (r2, t2)" by fastforce
  obtain r3 t3 where 3: "getOrCreateBalance C t2 (o_MakerAddress bo) (o_TokenID so1) = (r3, t3)" by fastforce
  obtain r4 t4 where 4: "getOrCreateBalance C t3 (o_MakerAddress bo) ?q = (r4, t4)" by fastforce
  note d = applyTrade_def applyTrade_load_def applyTrade_write_def Let_def Some so option.case prod.case 1 2 3 4
  show ?thesis
  proof (cases "o_CircuitSignature so1 = [] \<or> o_CircuitSignature bo = []")
    case True
    then show ?thesis by (simp only: d if_True sum.case)
  next
    case False
    then show ?thesis
      by (cases r1; cases r2; cases r3; cases r4) (simp_all only: d if_False sum.case loaded_fill.simps)
  qed
qed

text \<open>The deposit watcher runs between the two parts.\<close>

definition raced_trade ::
  "'c crypto_scheme \<Rightarrow> trade \<Rightarrow> deposit_event \<Rightarrow> mtree \<Rightarrow> batcher \<Rightarrow> outcome \<times> mtree \<times> batcher" where
  "raced_trade C trade event tree batch =
     (case applyTrade_load C trade tree of
        (Inl out, tree) \<Rightarrow> (case processDeposit C event tree batch of (_, tree, batch) \<Rightarrow> (out, tree, batch))
      | (Inr f, tree) \<Rightarrow> (case processDeposit C event tree batch of (_, tree, batch) \<Rightarrow> applyTrade_write C f tree batch))"

section \<open>The race\<close>

definition deposits_to :: "'c crypto_scheme \<Rightarrow> mtree \<Rightarrow> deposit_event \<Rightarrow> balance_state \<Rightarrow> bool" where
  "deposits_to C t ev r \<longleftrightarrow>
     (\<exists>hex. compressPubKeyHex C (ev_PubKeyX ev) (ev_PubKeyY ev) = Inr hex \<and> bs_AccountID r = account_for t hex) \<and>
     ev_TokenId ev = bs_TokenID r \<and> fr (ev_PubKeyX ev) = fr (bs_PubKeyX r) \<and> fr (ev_PubKeyY ev) = fr (bs_PubKeyY r) \<and>
     0 \<le> ev_Amount ev \<and> ev_Amount ev < 2 ^ 252"

lemma load_existing:
  assumes "db_inv (mimc C) 28 t" "ids_inv t" "trade_loaded t trade sb sq bb bq"
  shows "applyTrade_load C trade t =
    (Inr \<lparr>lf_amount = t_MatchAmount trade, lf_quote = trade_quote trade,
          lf_makerSig = o_CircuitSignature (sell_of trade), lf_takerSig = o_CircuitSignature (buy_of trade),
          lf_sellerBase = sb, lf_sellerQuote = sq, lf_buyerBase = bb, lf_buyerQuote = bq\<rparr>, t)"
proof -
  have s: "trade_signed trade" "holds t (sell_of trade) (base_token trade) sb"
    "holds t (sell_of trade) (quote_token trade) sq" "holds t (buy_of trade) (base_token trade) bb"
    "holds t (buy_of trade) (quote_token trade) bq"
    using assms(3) by (simp_all add: trade_loaded_def)
  note g = s(2-5) [THEN getOrCreate_existing [OF assms(1,2)], of C]
  have o: "orient trade = Some (sell_of trade, buy_of trade)" "o_CircuitSignature (sell_of trade) \<noteq> []"
    "o_CircuitSignature (buy_of trade) \<noteq> []" using s(1) by (simp_all add: trade_signed_def orient_eq)
  have b: "o_TokenID (sell_of trade) = base_token trade" by (simp add: base_token_def)
  have q: "(if base_token trade \<noteq> o_TokenID (buy_of trade) then o_TokenID (buy_of trade)
            else quoteTokenForBook (base_token trade)) = quote_token trade"
    by (simp add: quote_token_def base_token_def)
  show ?thesis
    by (simp only: applyTrade_load_def o option.case prod.case Let_def b q g sum.case if_False simp_thms trade_quote_def)
qed

text \<open>What the four writes leave, whatever the tree held: they need the slots only.\<close>

lemma stale_fill:
  assumes inv: "db_inv H 28 t1"
    and slots: "slot_ok 28 (bs_AccountID sb) (bs_TokenID sb)" "slot_ok 28 (bs_AccountID sq) (bs_TokenID sq)"
      "slot_ok 28 (bs_AccountID bb) (bs_TokenID bb)" "slot_ok 28 (bs_AccountID bq) (bs_TokenID bq)"
    and funds: "amount \<le> bs_Balance sb" "quote \<le> bs_Balance bq"
  shows "settle_fill H ms ts amount quote sb sq bb bq t1 b =
      (Applied, fill_t4 H t1 sb sq bb bq amount quote,
       AddTransition H (fill_transition H ms ts amount quote sb sq bb bq t1) (dec (Root t1))
         (dec (Root (fill_t4 H t1 sb sq bb bq amount quote))) b) \<and>
    balances (fill_t4 H t1 sb sq bb bq amount quote) =
      (balances t1)((bs_AccountID sb, bs_TokenID sb) \<mapsto> debit amount sb, (bs_AccountID sq, bs_TokenID sq) \<mapsto> credit quote sq,
                    (bs_AccountID bb, bs_TokenID bb) \<mapsto> credit amount bb, (bs_AccountID bq, bs_TokenID bq) \<mapsto> debit quote bq)"
proof -
  have s1: "slot_ok 28 (bs_AccountID (debit amount sb)) (bs_TokenID (debit amount sb))" using slots by simp
  note ok1 = SetBalance_ok [OF inv s1, folded fill_t1_def]
  have s2: "slot_ok 28 (bs_AccountID (credit quote sq)) (bs_TokenID (credit quote sq))" using slots by simp
  note ok2 = SetBalance_ok [OF ok1(2) s2, folded fill_t2_def]
  have s3: "slot_ok 28 (bs_AccountID (credit amount bb)) (bs_TokenID (credit amount bb))" using slots by simp
  note ok3 = SetBalance_ok [OF ok2(2) s3, folded fill_t3_def]
  have s4: "slot_ok 28 (bs_AccountID (debit quote bq)) (bs_TokenID (debit quote bq))" using slots by simp
  note ok4 = SetBalance_ok [OF ok3(2) s4, folded fill_t4_def]
  have "SetBalance H t1 (debit amount sb) = (Inr (), fill_t1 H t1 sb amount)"
    "SetBalance H (fill_t1 H t1 sb amount) (credit quote sq) = (Inr (), fill_t2 H t1 sb sq amount quote)"
    "SetBalance H (fill_t2 H t1 sb sq amount quote) (credit amount bb) = (Inr (), fill_t3 H t1 sb sq bb amount quote)"
    "SetBalance H (fill_t3 H t1 sb sq bb amount quote) (debit quote bq) = (Inr (), fill_t4 H t1 sb sq bb bq amount quote)"
    using ok1(1) ok2(1) ok3(1) ok4(1) by (simp_all add: prod_eq_iff fill_t1_def fill_t2_def fill_t3_def fill_t4_def)
  then show ?thesis using funds
    by (simp add: settle_fill_def Let_def fill_transition_def ok1(3) ok2(3) ok3(3) ok4(3))
qed

lemma fill_shape:
  assumes inv: "db_inv H 28 t1"
    and slots: "slot_ok 28 (bs_AccountID sb) (bs_TokenID sb)" "slot_ok 28 (bs_AccountID sq) (bs_TokenID sq)"
      "slot_ok 28 (bs_AccountID bb) (bs_TokenID bb)"
  shows "op_shape (fill_op expand H ms ts amount quote sb sq bb bq t1)"
proof -
  have inv1: "db_inv H 28 (fill_t1 H t1 sb amount)"
    unfolding fill_t1_def by (rule SetBalance_ok(2) [OF inv]) (simp add: slots)
  have inv2: "db_inv H 28 (fill_t2 H t1 sb sq amount quote)"
    unfolding fill_t2_def by (rule SetBalance_ok(2) [OF inv1]) (simp add: slots)
  have inv3: "db_inv H 28 (fill_t3 H t1 sb sq bb amount quote)"
    unfolding fill_t3_def by (rule SetBalance_ok(2) [OF inv2]) (simp add: slots)
  show ?thesis
    unfolding op_shape_def fill_op_def operation.simps
    using leg_of_tree(1) [OF inv] leg_of_tree(1) [OF inv1] leg_of_tree(1) [OF inv2] leg_of_tree(1) [OF inv3] by blast
qed

lemma race_steps:
  assumes inv: "db_inv (mimc C) 28 t" "ids_inv t" and trade: "settleable (mimc C) t trade sb sq bb bq"
    and r: "r \<in> {sb, sq, bb, bq}" "deposits_to C t ev r"
  defines "fill \<equiv> \<lambda>t1. fill_transition (mimc C) (o_CircuitSignature (sell_of trade)) (o_CircuitSignature (buy_of trade))
      (t_MatchAmount trade) (trade_quote trade) sb sq bb bq t1"
    and "after \<equiv> \<lambda>t1. fill_t4 (mimc C) t1 sb sq bb bq (t_MatchAmount trade) (trade_quote trade)"
  obtains t1 st1 where
    "processDeposit C ev t b = (Applied, t1, AddTransition (mimc C) st1 (dec (Root t)) (dec (Root t1)) b)"
    "balances t1 = (balances t)((bs_AccountID r, bs_TokenID r) \<mapsto> credit (ev_Amount ev) r)" "db_inv (mimc C) 28 t1"
    "raced_trade C trade ev t b = (Applied, after t1, AddTransition (mimc C) (fill t1) (dec (Root t1)) (dec (Root (after t1)))
       (AddTransition (mimc C) st1 (dec (Root t)) (dec (Root t1)) b))"
    "balances (after t1) = balances (after t)" "stored t r" "slot_ok 28 (bs_AccountID r) (bs_TokenID r)"
    "op_shape (fill_op expand (mimc C) (o_CircuitSignature (sell_of trade)) (o_CircuitSignature (buy_of trade))
       (t_MatchAmount trade) (trade_quote trade) sb sq bb bq t1)"
proof -
  let ?H = "mimc C" and ?m = "t_MatchAmount trade" and ?q = "trade_quote trade"
  have loaded: "trade_loaded t trade sb sq bb bq" and acc: "bs_AccountID sb \<noteq> bs_AccountID bb" "same_key sb sq" "same_key bb bq"
    and funds: "?m \<le> bs_Balance sb" "?q \<le> bs_Balance bq" using trade by (simp_all add: settleable_def fill_funded_def)
  note f = trade_loaded_facts [OF inv(1) loaded]
  note ready = trade_fill_ready [OF inv(1) loaded acc]
  have slots: "slot_ok 28 (bs_AccountID sb) (bs_TokenID sb)" "slot_ok 28 (bs_AccountID sq) (bs_TokenID sq)"
    "slot_ok 28 (bs_AccountID bb) (bs_TokenID bb)" "slot_ok 28 (bs_AccountID bq) (bs_TokenID bq)"
    using f(1-4) by (simp_all add: stored_slot [OF inv(1)])
  have rs: "stored t r" "slot_ok 28 (bs_AccountID r) (bs_TokenID r)" using r(1) f(1-4) slots by auto
  have at: "balances t (bs_AccountID r, bs_TokenID r) = Some r" using rs(1) by (simp add: stored_def)
  obtain hex where hex: "compressPubKeyHex C (ev_PubKeyX ev) (ev_PubKeyY ev) = Inr hex" "bs_AccountID r = account_for t hex"
    and ev: "ev_TokenId ev = bs_TokenID r" "0 \<le> ev_Amount ev" "ev_Amount ev < 2 ^ 252"
      "fr (ev_PubKeyX ev) = fr (bs_PubKeyX r)" "fr (ev_PubKeyY ev) = fr (bs_PubKeyY r)"
    using r(2) by (auto simp: deposits_to_def)
  have key: "key_matches t (bs_AccountID r) (ev_TokenId ev) (ev_PubKeyX ev) (ev_PubKeyY ev)"
    using ev by (simp add: key_matches_def at)
  obtain t1 st1 where d: "processDeposit C ev t b = (Applied, t1, AddTransition ?H st1 (dec (Root t)) (dec (Root t1)) b)"
    "balances t1 = (balances t)((bs_AccountID r, bs_TokenID r) \<mapsto> credit (ev_Amount ev) r)" "db_inv ?H 28 t1"
    using processDeposit_run [OF inv hex(1,2) _ key ev(2,3), of b undefined undefined] rs(2) ev(1)
    by (auto simp: deposit_record_def at)
  note stale = stale_fill [OF d(3) slots funds]
  have "raced_trade C trade ev t b = (Applied, after t1, AddTransition ?H (fill t1) (dec (Root t1)) (dec (Root (after t1)))
      (AddTransition ?H st1 (dec (Root t)) (dec (Root t1)) b))"
    using stale by (simp add: raced_trade_def load_existing [OF inv loaded] d(1) applyTrade_write_def fill_def after_def)
  moreover have "balances (after t1) = balances (after t)"
    using conjunct2 [OF stale] fill_steps(8) [OF ready, of ?m ?q] r(1) unfolding d(2) after_def by (auto simp: fun_upd_twist)
  ultimately show thesis by (intro that [OF d] rs fill_shape [OF d(3)] slots)
qed

text \<open>
  C13: a deposit that races a trade is lost. Let a trade have loaded its four balances when a deposit to
  one of them is processed; the trade then writes what it has loaded. The result holds exactly the
  balances of the trade without the deposit, although the deposit was credited in between and both the
  deposit and the trade are in the batch: the deposited amount is in no balance.
\<close>
theorem deposit_lost_in_race:
  assumes inv: "db_inv (mimc C) 28 t" "ids_inv t" and trade: "settleable (mimc C) t trade sb sq bb bq"
    and r: "r \<in> {sb, sq, bb, bq}" "deposits_to C t ev r"
  shows "\<exists>t1 b1 t2 st t' b'. processDeposit C ev t b = (Applied, t1, b1) \<and>
    total_supply t1 (ev_TokenId ev) = total_supply t (ev_TokenId ev) + ev_Amount ev \<and>
    raced_trade C trade ev t b = (Applied, t2, AddTransition (mimc C) st (dec (Root t1)) (dec (Root t2)) b1) \<and>
    applyTrade C trade t b = (Applied, t', b') \<and>
    balances t2 = balances t' \<and> (\<forall>tok. total_supply t2 tok = total_supply t tok)"
proof -
  let ?m = "t_MatchAmount trade" and ?q = "trade_quote trade"
  let ?t' = "fill_t4 (mimc C) t sb sq bb bq ?m ?q"
  have loaded: "trade_loaded t trade sb sq bb bq" and acc: "bs_AccountID sb \<noteq> bs_AccountID bb" "same_key sb sq" "same_key bb bq"
    and funds: "?m \<le> bs_Balance sb" "?q \<le> bs_Balance bq" using trade by (simp_all add: settleable_def fill_funded_def)
  note ready = trade_fill_ready [OF inv(1) loaded acc]
  obtain t1 st1 where race: "processDeposit C ev t b = (Applied, t1, AddTransition (mimc C) st1 (dec (Root t)) (dec (Root t1)) b)"
    "balances t1 = (balances t)((bs_AccountID r, bs_TokenID r) \<mapsto> credit (ev_Amount ev) r)"
    "\<exists>st t2. raced_trade C trade ev t b = (Applied, t2, AddTransition (mimc C) st (dec (Root t1)) (dec (Root t2))
       (AddTransition (mimc C) st1 (dec (Root t)) (dec (Root t1)) b)) \<and> balances t2 = balances ?t'"
    and rs: "stored t r" by (rule race_steps [OF inv trade r, of b]) blast
  have "\<exists>b'. applyTrade C trade t b = (Applied, ?t', b')"
    unfolding applyTrade_loaded [OF inv loaded] by (simp add: settle_fill_eq [OF ready funds])
  moreover have "total_supply ?t' tok = total_supply t tok" for tok by (rule fill_total [OF ready])
  moreover have "total_supply t1 (ev_TokenId ev) = total_supply t (ev_TokenId ev) + ev_Amount ev"
    using total_write [OF race(2), of "ev_TokenId ev"] amount_at_stored [OF rs] r(2) by (simp add: deposits_to_def)
  ultimately show ?thesis using race(1,3) by (metis total_supply_map)
qed

text \<open>A scheme whose compressed keys are the first account of the example market.\<close>

definition race_scheme :: crypto where
  "race_scheme = demo_scheme\<lparr>pt_Bytes := \<lambda>_ _. [CHR 0xAA]\<rparr>"

theorem deposit_lost_in_race_witness:
  "\<exists>t1 b1 t2 b2. processDeposit race_scheme demo_event demo_market NewBatcher = (Applied, t1, b1) \<and>
     total_supply t1 1 = total_supply demo_market 1 + 5 \<and>
     raced_trade race_scheme (demo_trade ''aa'' ''bb'') demo_event demo_market NewBatcher = (Applied, t2, b2) \<and>
     total_supply t2 1 = total_supply demo_market 1"
proof -
  have H: "mimc race_scheme = mimc_hash []" by (simp add: race_scheme_def demo_scheme_def)
  have "compressPubKeyHex race_scheme 3 4 = Inr ''0xaa''"
    by (simp add: compressPubKeyHex_def race_scheme_def demo_scheme_def) code_simp
  moreover have "account_for demo_market ''0xaa'' = 0"
    using demo_market_facts(3) by (simp add: account_for_def trim_prefix_def has_prefix_def)
  ultimately have to: "deposits_to race_scheme demo_market demo_event (demo_account 0 1 100)"
    by (simp add: deposits_to_def demo_event_def demo_account_def)
  show ?thesis
    using deposit_lost_in_race [OF _ demo_market_facts(2) _ _ to, unfolded H, OF demo_market_facts(1) demo_trade_ok, of NewBatcher]
    by (simp add: demo_event_def) blast
qed

section \<open>The raced batch has no proof\<close>

text \<open>
  A leg that shows a balance other than the stored one does not open the root, as long as the hash has
  no collision among the tuples the two openings hash.
\<close>

lemma stale_leg_rejected:
  assumes inv: "db_inv H 28 t" and slot: "slot_ok 28 (bs_AccountID r) (bs_TokenID r)"
    and stored: "balances t (bs_AccountID r, bs_TokenID r) = Some r1" and stale: "fr (bs_Balance r) \<noteq> fr (bs_Balance r1)"
    and keys: "fr (pk_X pk) = fr (bs_PubKeyX r)" "fr (pk_Y pk) = fr (bs_PubKeyY r)"
    and path: "GetPath t (leaf_index (bs_AccountID r) (bs_TokenID r)) = (path, bits)"
    and inj: "inj_on H ({leaf_preimage r, leaf_preimage r1} \<union>
                set (path_inputs H (account_leaf H r1) path (map unat bits)) \<union>
                set (path_inputs H (account_leaf H r) path (map unat bits)))"
  shows "\<not> leg_opens H (leg_of t (leaf_index (bs_AccountID r) (bs_TokenID r)) (bs_Balance r) (bs_Nonce r) False) pk (Root t)"
proof
  let ?w = "leaf_index (bs_AccountID r) (bs_TokenID r)"
  let ?u = "leg_of t ?w (bs_Balance r) (bs_Nonce r) False"
  note tinv = db_inv_tree [OF inv]
  note c = tree_invD [OF tinv]
  note leg = leg_of_tree(2,3) [OF inv, of ?w "bs_Balance r" "bs_Nonce r" False]
  have w: "unat ?w < 2 ^ 28" by (rule slot_okD(2) [OF slot c(3)])
  have path': "path = spath H (lf t) 28 (unat ?w)" "map unat bits = sbits 28 (unat ?w)"
    using GetPath_spec [OF tinv, of ?w] by (simp_all add: path)
  have lf: "lf t (unat ?w) = account_leaf H r1"
    using inv slot stored by (simp add: db_inv_def recs_inv_def leaf_value_def)
  have old: "leg_old H ?u pk = account_leaf H r"
    using keys c(1) by (simp add: leg_old_def leg_leaf_def leg_of_def boolToVar_def account_leaf_def HashAccountLeaf_def)
  assume "leg_opens H ?u pk (Root t)"
  then have "fold_path H (account_leaf H r) path (map unat bits) = Root t"
    unfolding leg_opens_def leg_fold_def old leg path' .
  then have "fold_path H (account_leaf H r) path (map unat bits) = fold_path H (account_leaf H r1) path (map unat bits)"
    using fold_spath_same [of H "lf t" "unat ?w" 28] w Root_spec [OF tinv] by (simp add: path' lf)
  then have "account_leaf H r = account_leaf H r1"
    by (rule conjunct1 [OF fold_path_binds]) (use inj in \<open>auto simp: path' elim: inj_on_subset\<close>)
  then have "leaf_preimage r = leaf_preimage r1"
    using inj unfolding account_leaf_preimage [OF c(1)] by (auto dest: inj_onD)
  then show False using stale by (simp add: leaf_preimage_def)
qed

text \<open>
  So the raced trade stops settlement: the deposit and the trade stand next to each other in the batch,
  but the trade's first leg shows the balance from before the deposit under the root from after it, and the
  circuit rejects the operation. No proof of this batch exists.
\<close>

theorem raced_trade_unprovable:
  assumes laws: "gnark_laws (mimc C) G" and inv: "db_inv (mimc C) 28 t" "ids_inv t"
    and trade: "settleable (mimc C) t trade sb sq bb bq"
    and dep: "deposits_to C t ev sb" "0 < ev_Amount ev" "bs_Balance sb + ev_Amount ev < fr_modulus"
    and path: "GetPath (fst (snd (processDeposit C ev t b))) (leaf_index (bs_AccountID sb) (bs_TokenID sb)) = (path, bits)"
    and inj: "inj_on (mimc C) ({leaf_preimage sb, leaf_preimage (credit (ev_Amount ev) sb)} \<union>
                set (path_inputs (mimc C) (account_leaf (mimc C) (credit (ev_Amount ev) sb)) path (map unat bits)) \<union>
                set (path_inputs (mimc C) (account_leaf (mimc C) sb) path (map unat bits)))"
  shows "\<exists>t1 b1 t2 st op. processDeposit C ev t b = (Applied, t1, b1) \<and>
    raced_trade C trade ev t b = (Applied, t2, AddTransition (mimc C) st (dec (Root t1)) (dec (Root t2)) b1) \<and>
    assign_op expand st = Some op \<and> processOperation G op (Root t1) wh dh = None"
proof -
  have sb: "sb \<in> {sb, sq, bb, bq}" by simp
  let ?fill = "fill_transition (mimc C) (o_CircuitSignature (sell_of trade)) (o_CircuitSignature (buy_of trade))
      (t_MatchAmount trade) (trade_quote trade) sb sq bb bq"
  let ?op = "fill_op expand (mimc C) (o_CircuitSignature (sell_of trade)) (o_CircuitSignature (buy_of trade))
      (t_MatchAmount trade) (trade_quote trade) sb sq bb bq"
  obtain t1 st1 t2 where race: "processDeposit C ev t b = (Applied, t1, AddTransition (mimc C) st1 (dec (Root t)) (dec (Root t1)) b)"
    "balances t1 = (balances t)((bs_AccountID sb, bs_TokenID sb) \<mapsto> credit (ev_Amount ev) sb)" "db_inv (mimc C) 28 t1"
    "raced_trade C trade ev t b = (Applied, t2, AddTransition (mimc C) (?fill t1) (dec (Root t1)) (dec (Root t2))
       (AddTransition (mimc C) st1 (dec (Root t)) (dec (Root t1)) b))"
    "slot_ok 28 (bs_AccountID sb) (bs_TokenID sb)" "op_shape (?op t1)"
    by (rule race_steps [OF inv trade sb dep(1), of b]) blast
  have "0 \<le> bs_Balance sb" using trade by (simp add: settleable_def fill_funded_def)
  then have stale: "fr (bs_Balance sb) \<noteq> fr (bs_Balance (credit (ev_Amount ev) sb))"
    using dep(2,3) by (simp add: fr_id)
  have "op_code (?op t1) = OpTrade" by (simp add: op_code_def fill_op_def op_codes)
  then have "\<not> legs_valid (mimc C) (?op t1) (Root t1)"
    using stale_leg_rejected [OF race(3,5) _ stale, of "op_MakerPubKey (?op t1)" path bits] race(1,2) path inj
    by (simp add: legs_valid_def op_codes) (simp add: fill_op_def)
  then have "processOperation G (?op t1) (Root t1) wh dh = None"
    using gnark_api.processOperation_eq [OF gnark_api.intro [OF laws], OF race(6), of "Root t1" wh dh] Root_canonical [OF race(3)] by (simp add: op_valid_def)
  then show ?thesis using race(1,4) assign_fill by blast
qed

end
