(* ===== verification/DepositWatcher.thy ===== *)
theory DepositWatcher imports SequencerRun begin

text \<open>
  The watcher of L1 deposits, \<open>StartDepositWatcher\<close> of sequencer/cmd/sequencer/deposit\_watcher.go: connecting,
  subscribing, and the loop over what the subscription delivers. The Ethereum client is a parameter; the
  deliveries are a list, in the order the select statement takes them. A log that a reorganisation of L1
  withdraws is delivered again, marked removed (\<open>Raw.Removed\<close> of the generated event type).
\<close>

section \<open>The watcher\<close>

datatype delivery =
    SubErr string
  | DepositLog bool deposit_event

record l1_watch =
  lw_dial :: "string \<Rightarrow> unit result"
  lw_bind :: "string \<Rightarrow> unit result"
  lw_watch :: "string \<Rightarrow> unit result"

text \<open>What the watcher is after some deliveries: still listening, or returned with its last log line.\<close>

datatype watcher = Listening | Returned string

fun watch_loop :: "'c crypto_scheme \<Rightarrow> delivery list \<Rightarrow> mtree \<Rightarrow> batcher \<Rightarrow> watcher \<times> mtree \<times> batcher" where
  "watch_loop C [] tree batch = (Listening, tree, batch)"
| "watch_loop C (SubErr err # ds) tree batch = (Returned (''Subscription error: '' @ err), tree, batch)"
| "watch_loop C (DepositLog removed event # ds) tree batch =
     (case processDeposit C event tree batch of (_, tree, batch) \<Rightarrow> watch_loop C ds tree batch)"

definition StartDepositWatcher ::
  "'c crypto_scheme \<Rightarrow> l1_watch \<Rightarrow> string \<Rightarrow> string \<Rightarrow> delivery list \<Rightarrow> mtree \<Rightarrow> batcher \<Rightarrow> watcher \<times> mtree \<times> batcher" where
  "StartDepositWatcher C W rpcURL contractAddr ds tree batch =
     (case lw_dial W rpcURL of
        Inl err \<Rightarrow> (Returned ''Failed to connect to Ethereum'', tree, batch)
      | Inr _ \<Rightarrow>
     (case lw_bind W contractAddr of
        Inl err \<Rightarrow> (Returned ''Failed to bind NowaRollup contract'', tree, batch)
      | Inr _ \<Rightarrow>
     (case lw_watch W contractAddr of
        Inl err \<Rightarrow> (Returned ''Failed to watch Deposit events'', tree, batch)
      | Inr _ \<Rightarrow> watch_loop C ds tree batch)))"

section \<open>What it credits\<close>

text \<open>The deliveries before the first subscription error, whose logs are the ones processed.\<close>

fun heard :: "delivery list \<Rightarrow> deposit_event list" where
  "heard [] = []"
| "heard (SubErr err # ds) = []"
| "heard (DepositLog removed event # ds) = event # heard ds"

definition on_curve :: "'c crypto_scheme \<Rightarrow> deposit_event \<Rightarrow> bool" where
  "on_curve C ev \<longleftrightarrow> pt_OnCurve C (fr (ev_PubKeyX ev)) (fr (ev_PubKeyY ev))"

definition credited :: "'c crypto_scheme \<Rightarrow> u32 \<Rightarrow> deposit_event list \<Rightarrow> int" where
  "credited C tok evs = (\<Sum>ev\<leftarrow>evs. if ev_TokenId ev = tok \<and> on_curve C ev then ev_Amount ev else 0)"

text \<open>
  What a deposit needs to be credited: room in the tree, the key the account has, an amount the circuit
  takes. A key off the curve needs nothing, it is skipped.
\<close>

definition creditable :: "'c crypto_scheme \<Rightarrow> mtree \<Rightarrow> deposit_event \<Rightarrow> bool" where
  "creditable C t ev \<longleftrightarrow>
     (case compressPubKeyHex C (ev_PubKeyX ev) (ev_PubKeyY ev) of
        Inl err \<Rightarrow> True
      | Inr hex \<Rightarrow> slot_ok 28 (account_for t hex) (ev_TokenId ev) \<and>
          key_matches t (account_for t hex) (ev_TokenId ev) (ev_PubKeyX ev) (ev_PubKeyY ev) \<and>
          0 \<le> ev_Amount ev \<and> ev_Amount ev < 2 ^ 252)"

fun all_creditable :: "'c crypto_scheme \<Rightarrow> mtree \<Rightarrow> batcher \<Rightarrow> deposit_event list \<Rightarrow> bool" where
  "all_creditable C t b [] \<longleftrightarrow> True"
| "all_creditable C t b (ev # evs) \<longleftrightarrow>
     creditable C t ev \<and> (case processDeposit C ev t b of (_, t, b) \<Rightarrow> all_creditable C t b evs)"

lemma credited_simps [simp]:
  "credited C tok [] = 0"
  "credited C tok (ev # evs) = (if ev_TokenId ev = tok \<and> on_curve C ev then ev_Amount ev else 0) + credited C tok evs"
  by (simp_all add: credited_def)

lemma compress_on_curve: "on_curve C ev \<longleftrightarrow> (\<exists>hex. compressPubKeyHex C (ev_PubKeyX ev) (ev_PubKeyY ev) = Inr hex)"
  by (simp add: on_curve_def compressPubKeyHex_def)

text \<open>One deposit: nothing, or a step of the sequencer's run that raises the total by the amount.\<close>

lemma deposit_credits:
  assumes inv: "db_inv (mimc C) 28 t" "ids_inv t" and ok: "creditable C t ev"
  obtains out t' b' where "processDeposit C ev t b = (out, t', b')" "db_inv (mimc C) 28 t'" "ids_inv t'"
    "total_supply t' tok = total_supply t tok + (if ev_TokenId ev = tok \<and> on_curve C ev then ev_Amount ev else 0)"
    "on_curve C ev \<longrightarrow> seq_step C G expand (t, b) (t', b')" "\<not> on_curve C ev \<longrightarrow> (t', b') = (t, b)"
proof (cases "compressPubKeyHex C (ev_PubKeyX ev) (ev_PubKeyY ev)")
  case (Inl err)
  have "processDeposit C ev t b = (Skipped ''invalid pubkey in Deposit event'', t, b)"
    by (simp add: processDeposit_def Inl Let_def)
  then show thesis by (rule that) (use inv Inl in \<open>simp_all add: compress_on_curve\<close>)
next
  case (Inr hex)
  let ?a = "account_for t hex" and ?tok = "ev_TokenId ev"
  have c: "slot_ok 28 ?a ?tok" "key_matches t ?a ?tok (ev_PubKeyX ev) (ev_PubKeyY ev)" "0 \<le> ev_Amount ev" "ev_Amount ev < 2 ^ 252"
    using ok by (simp_all add: creditable_def Inr)
  obtain t' b' where d: "processDeposit C ev t b = (Applied, t', b')"
    "balances t' = (balances t)((?a, ?tok) \<mapsto> credit (ev_Amount ev) (deposit_record t ?a ?tok (ev_PubKeyX ev) (ev_PubKeyY ev)))"
    "db_inv (mimc C) 28 t'" "ids_inv t'"
    using processDeposit_run [OF inv Inr refl c, of b G expand] by blast
  have step: "seq_step C G expand (t, b) (t', b')" by (rule seq_step.deposit [OF Inr c d(1)])
  have "bs_Balance (deposit_record t ?a ?tok (ev_PubKeyX ev) (ev_PubKeyY ev)) = amount_at t ?a ?tok"
    by (simp add: deposit_record_def amount_at_def split: option.split)
  then have "total_supply t' tok = total_supply t tok + (if ?tok = tok then ev_Amount ev else 0)"
    using total_write [OF d(2), of tok] by auto
  then show thesis using that [OF d(1,3,4)] step Inr by (simp add: compress_on_curve)
qed

text \<open>The loop over the deliveries.\<close>

lemma watch_credits:
  assumes "db_inv (mimc C) 28 t" "ids_inv t" "all_creditable C t b (heard ds)"
  shows "\<exists>w t' b'. watch_loop C ds t b = (w, t', b') \<and>
    total_supply t' tok = total_supply t tok + credited C tok (heard ds) \<and>
    (\<forall>s n. seq_run C G expand s n (t, b) \<longrightarrow> seq_run C G expand s (n + length (filter (on_curve C) (heard ds))) (t', b'))"
  using assms
proof (induction C ds t b rule: watch_loop.induct)
  case (3 C removed ev ds t b)
  have ok: "creditable C t ev" using 3(4) by simp
  obtain out t1 b1 where d: "processDeposit C ev t b = (out, t1, b1)" "db_inv (mimc C) 28 t1" "ids_inv t1"
    "total_supply t1 tok = total_supply t tok + (if ev_TokenId ev = tok \<and> on_curve C ev then ev_Amount ev else 0)"
    "on_curve C ev \<longrightarrow> seq_step C G expand (t, b) (t1, b1)" "\<not> on_curve C ev \<longrightarrow> (t1, b1) = (t, b)"
    by (rule deposit_credits [OF 3(2,3) ok])
  obtain w t' b' where r: "watch_loop C ds t1 b1 = (w, t', b')"
    "total_supply t' tok = total_supply t1 tok + credited C tok (heard ds)"
    "\<forall>s n. seq_run C G expand s n (t1, b1) \<longrightarrow> seq_run C G expand s (n + length (filter (on_curve C) (heard ds))) (t', b')"
    using 3(1) [OF d(1) [symmetric] refl] d(2,3) 3(4) d(1) by fastforce
  have "seq_run C G expand s (n + length (filter (on_curve C) (ev # heard ds))) (t', b')" if "seq_run C G expand s n (t, b)" for s n
  proof (cases "on_curve C ev")
    case True
    then have "seq_run C G expand s (Suc n) (t1, b1)" using seq_run.more [OF that] d(5) by simp
    then show ?thesis using r(3) True by fastforce
  qed (cases s, use that r(3) d(6) in simp)
  then show ?case using d(1,4) r(1,2) by simp
qed simp_all

lemma heard_length: "length (heard ds) \<le> length ds"
  by (induction ds rule: heard.induct) simp_all

lemma watch_listens: "fst (watch_loop C ds t b) = Listening \<longleftrightarrow> length (heard ds) = length ds"
proof (induction ds arbitrary: t b)
  case (Cons d ds)
  then show ?case using heard_length [of ds] by (cases d) (simp_all add: split_beta)
qed simp

text \<open>
  C12: the deposit watcher credits what it hears. It is a run of the sequencer: one step for every
  delivered log whose key is on the curve, until the subscription fails, and then it has returned. Each
  token's total grows by the amounts of these logs, whether a log says that it was removed or not.
\<close>
theorem watcher_credits_what_it_hears:
  assumes "db_inv (mimc C) 28 t" and "ids_inv t" and "all_creditable C t b (heard ds)"
    and "lw_dial W url = Inr ()" and "lw_bind W addr = Inr ()" and "lw_watch W addr = Inr ()"
    and "StartDepositWatcher C W url addr ds t b = (w, t', b')"
  shows "seq_run C G expand (t, b) (length (filter (on_curve C) (heard ds))) (t', b') \<and>
    total_supply t' tok = total_supply t tok + credited C tok (heard ds) \<and>
    (w = Listening \<longleftrightarrow> length (heard ds) = length ds)"
proof -
  have run: "watch_loop C ds t b = (w, t', b')" using assms(4-7) by (simp add: StartDepositWatcher_def)
  show ?thesis
    using watch_credits [OF assms(1-3), of tok G expand] seq_run.start [of C G expand "(t, b)"] watch_listens [of C ds t b] run
    by fastforce
qed

text \<open>A deposit, its removal by a reorganisation, and a deposit after the subscription has failed.\<close>

definition demo_deliveries :: "delivery list" where
  "demo_deliveries = [DepositLog False demo_event, DepositLog True demo_event, SubErr ''EOF'', DepositLog False demo_event]"

definition demo_watch :: l1_watch where
  "demo_watch = \<lparr>lw_dial = \<lambda>_. Inr (), lw_bind = \<lambda>_. Inr (), lw_watch = \<lambda>_. Inr ()\<rparr>"

lemma demo_deliveries_creditable: "all_creditable demo_scheme demo_db NewBatcher (heard demo_deliveries)"
proof -
  let ?key = "\<lambda>t. key_matches t 0 (ev_TokenId demo_event) (ev_PubKeyX demo_event) (ev_PubKeyY demo_event)"
  obtain hex where hex: "compressPubKeyHex demo_scheme (ev_PubKeyX demo_event) (ev_PubKeyY demo_event) = Inr hex"
    by (simp add: compressPubKeyHex_def demo_scheme_def)
  have slot: "slot_ok 28 0 (ev_TokenId demo_event)" and amount: "0 \<le> ev_Amount demo_event" "ev_Amount demo_event < 2 ^ 252"
    by (simp_all add: demo_event_def slot_ok_def)
  have creditable: "creditable demo_scheme t demo_event" if "account_for t hex = 0" "?key t" for t
    using that slot amount by (simp add: creditable_def hex)
  have t: "db_inv (mimc demo_scheme) 28 demo_db" "ids_inv demo_db" "account_for demo_db hex = 0" "?key demo_db"
    using demo_db_inv by (simp_all add: account_for_def key_matches_def demo_db_empty demo_mimc_laws(2))
  obtain t' b' where d: "processDeposit demo_scheme demo_event demo_db NewBatcher = (Applied, t', b')"
    "balances t' = (balances demo_db)((0, ev_TokenId demo_event) \<mapsto> credit (ev_Amount demo_event)
       (deposit_record demo_db 0 (ev_TokenId demo_event) (ev_PubKeyX demo_event) (ev_PubKeyY demo_event)))" "account_for t' hex = 0"
    using processDeposit_run [OF t(1,2) hex t(3) [symmetric] slot t(4) amount, of NewBatcher demo_gnark_mimc "\<lambda>_. zero_signature"]
    by blast
  have "?key t'" using t(4) by (simp add: key_matches_def d(2) deposit_record_def split: option.splits)
  then show ?thesis
    using creditable [OF t(3,4)] creditable [OF d(3)] d(1) by (simp add: demo_deliveries_def split_beta)
qed

theorem watcher_credits_what_it_hears_witness:
  "\<exists>t' b'. StartDepositWatcher demo_scheme demo_watch [] [] demo_deliveries demo_db NewBatcher = (Returned ''Subscription error: EOF'', t', b') \<and>
     seq_run demo_scheme demo_gnark_mimc (\<lambda>_. zero_signature) (demo_db, NewBatcher) 2 (t', b') \<and>
     total_supply t' 1 = 10"
proof -
  obtain w t' b' where run: "StartDepositWatcher demo_scheme demo_watch [] [] demo_deliveries demo_db NewBatcher = (w, t', b')"
    by (cases "StartDepositWatcher demo_scheme demo_watch [] [] demo_deliveries demo_db NewBatcher")
  have w: "w = Returned ''Subscription error: EOF''"
    using run by (simp add: StartDepositWatcher_def demo_watch_def demo_deliveries_def split_beta)
  have "on_curve demo_scheme demo_event" by (simp add: on_curve_def demo_scheme_def)
  then have heard: "length (filter (on_curve demo_scheme) (heard demo_deliveries)) = 2"
    "credited demo_scheme 1 (heard demo_deliveries) = 10"
    by (simp_all add: demo_deliveries_def demo_event_def)
  have inv: "db_inv (mimc demo_scheme) 28 demo_db" "ids_inv demo_db" using demo_db_inv by (simp_all add: demo_mimc_laws(2))
  have "total_supply demo_db 1 = 0" by (simp add: total_supply_def demo_db_empty)
  then show ?thesis
    using watcher_credits_what_it_hears [OF inv demo_deliveries_creditable _ _ _ run, of demo_gnark_mimc "\<lambda>_. zero_signature" 1]
      run w by (simp add: demo_watch_def heard)
qed

end
