(* ===== verification/EndToEnd.thy ===== *)
theory EndToEnd imports ProverRun Escape begin

text \<open>
  What the sequencer, the prover, the contract, the reconstruction and the escape hatch give together:
  the frame of the prover's rounds on the contract, and the exit from a tree that was rebuilt from L1.
\<close>

section \<open>What the rounds leave of the contract\<close>

text \<open>The storage the escape hatch reads and no batch writes.\<close>

definition exit_terms :: "rollup \<Rightarrow> (u32 \<Rightarrow> address) \<times> (u256 \<Rightarrow> address) \<times> (u256 \<Rightarrow> bool) \<times> u256" where
  "exit_terms r = (ru_tokens r, ru_depositorOf r, ru_escapeWithdrawn r, ru_escapeTimeout r)"

definition batch_time :: "eth_env \<Rightarrow> rollup \<Rightarrow> rollup \<Rightarrow> bool" where
  "batch_time Et r r' \<longleftrightarrow> ru_lastBatchAt r' = ru_lastBatchAt r \<or>
     (\<exists>tx. et_fate Et tx = Mined (ru_lastBatchAt r') \<or> et_fate Et tx = MinedUnseen (ru_lastBatchAt r'))"

lemma mine_frame:
  "exit_terms (snd (mine Et Ch tx ts r)) = exit_terms r"
  "ru_lastBatchAt (snd (mine Et Ch tx ts r)) \<in> {ru_lastBatchAt r, ts}"
  by (auto simp: mine_def submitBatch_def exit_terms_def emit_def Let_def split: option.split)

lemma snd_sum: "(\<And>e. P (snd (f e))) \<Longrightarrow> (\<And>v. P (snd (g v))) \<Longrightarrow> P (snd (case x of Inl e \<Rightarrow> f e | Inr v \<Rightarrow> g v))"
  by (cases x) simp_all

lemma snd_prod: "(\<And>a b. P (snd (h a b))) \<Longrightarrow> P (snd (case y of (a, b) \<Rightarrow> h a b))"
  by (cases y) simp

lemma snd_if: "P (snd u) \<Longrightarrow> P (snd v) \<Longrightarrow> P (snd (if c then u else v))"
  by simp

lemma submit_rule:
  assumes "P r"
    and "\<And>tx ts. et_fate Et tx = Mined ts \<or> et_fate Et tx = MinedUnseen ts \<Longrightarrow> P (snd (mine Et Ch tx ts r))"
  shows "P (snd (submitProofWithBlob D K Et Ch addr zb p r))"
proof -
  have fate: "P (snd (case et_fate Et tx of
      Mined ts \<Rightarrow> (case mine Et Ch tx ts r of (status, r) \<Rightarrow> (Inr status, r))
    | MinedUnseen ts \<Rightarrow> (Inl e, snd (mine Et Ch tx ts r)) | Dropped \<Rightarrow> (Inl e', r)))" for tx e e'
    using assms by (simp add: split_beta split: tx_fate.split)
  show ?thesis
  proof (cases p)
    case (Bn254 q)
    show ?thesis
      unfolding submitProofWithBlob_def Let_def Bn254 groth_proof.case
      by (intro snd_sum [where P = P] snd_prod [where P = P] snd_if [where P = P] fate) (simp_all add: assms(1))
  qed (simp add: submitProofWithBlob_def assms(1))
qed

lemma submit_frame:
  "exit_terms (snd (submitProofWithBlob D K Et Ch addr zb p r)) = exit_terms r"
  "batch_time Et r (snd (submitProofWithBlob D K Et Ch addr zb p r))"
proof -
  show "exit_terms (snd (submitProofWithBlob D K Et Ch addr zb p r)) = exit_terms r"
    by (rule submit_rule) (simp_all add: mine_frame)
  show "batch_time Et r (snd (submitProofWithBlob D K Et Ch addr zb p r))"
  proof (rule submit_rule)
    fix tx ts assume "et_fate Et tx = Mined ts \<or> et_fate Et tx = MinedUnseen ts"
    then show "batch_time Et r (snd (mine Et Ch tx ts r))"
      using mine_frame(2) [of Et Ch tx ts r] by (auto simp: batch_time_def)
  qed (simp add: batch_time_def)
qed

lemma round_frame:
  "exit_terms (pr_rollup (snd (prover_round E Ch fl s))) = exit_terms (pr_rollup s)"
  "batch_time (pe_eth E) (pr_rollup s) (pr_rollup (snd (prover_round E Ch fl s)))"
proof -
  have same: "batch_time Et r r" for Et r by (simp add: batch_time_def)
  note f = submit_frame [where Et = "pe_eth E"]
  show "exit_terms (pr_rollup (snd (prover_round E Ch fl s))) = exit_terms (pr_rollup s)"
    by (simp add: prover_round_def advance_def Let_def split_beta f split: sum.split option.split)
  show "batch_time (pe_eth E) (pr_rollup s) (pr_rollup (snd (prover_round E Ch fl s)))"
    by (simp add: prover_round_def advance_def Let_def split_beta f same split: sum.split option.split)
qed

lemma rounds_exit_terms: "exit_terms (pr_rollup (prover_rounds Es Ch fl s)) = exit_terms (pr_rollup s)"
  by (induction Es arbitrary: s) (simp_all add: round_frame(1))

section \<open>The last batch\<close>

lemma latest_is_last:
  assumes run: "seq_run C G expand (NewLevelDBMerkleTree (mimc C) Map.empty 28, NewBatcher) n (t', b')"
    and laws: "gnark_laws (mimc C) G" and small: "n div BatchSize + 1 < 2 ^ 64" and some: "BatchSize \<le> n"
  shows "\<exists>zb. GetLatestBatch b' = Some zb \<and> GetBatch b' (of_nat (n div BatchSize)) = Some zb"
proof -
  let ?t = "NewLevelDBMerkleTree (mimc C) Map.empty 28"
  have canon: "canonical (mimc C)" using laws by (simp add: gnark_laws_def)
  note new = New_db_inv [OF canon, of 28, simplified]
  obtain tr where tr: "length tr = n" "b' = send (mimc C) (sent_of ?t tr)"
    using seq_run_trace [OF run laws] new(1,3) by (auto simp: send_def)
  obtain bs rs where s: "split_batches (sent_of ?t tr) = (bs, rs)" by fastforce
  have b: "b' = batcher_of (mimc C) (bs, rs)" using send_batcher_of [of "sent_of ?t tr" "mimc C"] small s tr by simp
  have len: "length bs = n div BatchSize" using split_count [OF s] tr(1) by simp
  then have ne: "bs \<noteq> []" using some by (auto simp: BatchSize_def)
  have u: "unat (of_nat (length bs) :: u64) = length bs" using small len by (simp add: unat_of_nat)
  have "1 \<le> length bs" using ne by (cases bs) simp_all
  then show ?thesis
    using ne u unfolding len [symmetric]
    by (simp add: b GetLatestBatch_def GetBatch_def batcher_of_def last_conv_nth)
qed

lemma run_solvent:
  assumes run: "seq_run C G expand (NewLevelDBMerkleTree (mimc C) Map.empty 28, NewBatcher) n (t', b')"
    and laws: "gnark_laws (mimc C) G"
  shows "solvent t'"
proof -
  let ?t = "NewLevelDBMerkleTree (mimc C) Map.empty 28"
  have canon: "canonical (mimc C)" using laws by (simp add: gnark_laws_def)
  note new = New_db_inv [OF canon, of 28, simplified]
  obtain tr where tr: "trace_of (mimc C) G expand ?t tr" "t' = end_tree ?t tr"
    using seq_run_trace [OF run laws] new(1,3) by auto
  have "solvent ?t" by (simp add: solvent_def new(2))
  from replay_trace [OF tr(1) _ this mirrors_refl [OF new(1,2)] refl, of "\<lambda>_. True"] show ?thesis
    using tr(2) by (auto simp: carries_def)
qed

section \<open>The exit\<close>

text \<open>A value of the ABI's \<open>uint256\<close>.\<close>

definition uint256 :: "int \<Rightarrow> bool" where
  "uint256 v \<longleftrightarrow> 0 \<le> v \<and> v < 2 ^ 256"

lemma be_enc_word: "int (be_dec (be_enc 32 (unat (w :: u256)))) = uint w"
  using unsigned_less [of w, where 'a = nat] by (simp add: be_dec_enc)

section \<open>A depositor's exit\<close>

text \<open>A contract on which account 7 deposited token 1, and a time long after the last batch.\<close>

definition exit_rollup :: rollup where
  "exit_rollup = (new_rollup \<lparr>msg_sender = 9, block_timestamp = 1, tx_blobhash = 0\<rparr> (word_of_int (Root demo_db)) 50)
     \<lparr>ru_depositorOf := (\<lambda>_. 7), ru_tokens := (\<lambda>_. 5)\<rparr>"

definition exit_message :: message where
  "exit_message = \<lparr>msg_sender = 7, block_timestamp = 1000, tx_blobhash = 0\<rparr>"

definition exit_state :: prover_state where
  "exit_state = \<lparr>pr_last = 0, pr_store = NewProverStore, pr_rollup = exit_rollup\<rparr>"

lemma carries_mono: "carries K st \<Longrightarrow> (\<And>v. K v \<Longrightarrow> K' v) \<Longrightarrow> carries K' st"
  unfolding carries_def by blast

lemma exit_demo:
  obtains t' b' zb where "seq_run demo_scheme demo_gnark_mimc (\<lambda>_. zero_signature) (demo_db, NewBatcher) 25 (t', b')"
    "balances t' (0, 1) = Some (deposited 25)" "GetLatestBatch b' = Some zb"
    "\<forall>bid. GetBatch b' bid = (if bid = 1 then Some zb else None)"
    "\<forall>bid zb. GetBatch b' bid = Some zb \<longrightarrow> (\<forall>st \<in> set (zb_Transitions zb). carries uint256 st)"
proof -
  obtain t' b' where run: "seq_run demo_scheme demo_gnark_mimc (\<lambda>_. zero_signature) (demo_db, NewBatcher) 25 (t', b')"
    "balances t' = [(0, 1) \<mapsto> deposited 25]" "batcher_carries (\<lambda>v. v \<in> {0, 3, 4}) b'"
    using demo_deposits_state [of 25] by auto
  obtain zb where zb: "GetLatestBatch b' = Some zb" "\<forall>bid. GetBatch b' bid = (if bid = 1 then Some zb else None)"
    using demo_sealed [OF run(1)] by blast
  have "uint256 v" if "v \<in> {0, 3, 4}" for v using that by (auto simp: uint256_def)
  then have keys: "\<forall>bid zb. GetBatch b' bid = Some zb \<longrightarrow> (\<forall>st \<in> set (zb_Transitions zb). carries uint256 st)"
    using run(3) carries_mono unfolding batcher_carries_def by blast
  show ?thesis by (rule that [OF run(1) _ zb keys]) (simp add: run(2))
qed

lemma exit_open_after_rounds:
  "escape_open demo_verifier exit_message (pr_rollup (prover_rounds [demo_prover_env zb] demo_verifier demo_flags exit_state)) tok
     index x y amount"
proof -
  let ?r' = "pr_rollup (prover_rounds [demo_prover_env zb] demo_verifier demo_flags exit_state)"
  have "exit_terms ?r' = exit_terms exit_rollup"
    using rounds_exit_terms [of "[demo_prover_env zb]" demo_verifier demo_flags exit_state] by (simp only: exit_state_def) simp
  moreover have "batch_time (pe_eth (demo_prover_env zb)) exit_rollup ?r'"
    using round_frame(2) [of "demo_prover_env zb" exit_state demo_verifier demo_flags] by (simp add: exit_state_def)
  then have "ru_lastBatchAt ?r' = 1 \<or> ru_lastBatchAt ?r' = 100"
    by (auto simp: batch_time_def demo_prover_env_def exit_rollup_def new_rollup_def)
  ultimately show ?thesis
    by (auto simp: escape_open_def exit_terms_def exit_rollup_def new_rollup_def exit_message_def demo_verifier_def)
qed

end
