(* ===== verification/Json.thy ===== *)
theory Json imports GoText begin

text \<open>
  What the JSON-RPC client uses of \<open>encoding/json\<close>: values as trees (a number keeps its literal), the
  decoding of an object into a struct, and the look-up in a \<open>map[string]interface\{\}\<close>. The tokenizer
  is not modelled; of two members of one name the last counts. Also hexadecimal numbers as text:
  \<open>Sprintf\<close> and \<open>Sscanf\<close> with \<open>%x\<close>, and \<open>SetString\<close> in base 16.
\<close>

section \<open>Values\<close>

datatype json = JNull | JBool bool | JNum string | JStr string | JArr "json list" | JObj "(string \<times> json) list"

type_synonym members = "(string \<times> json) list"

definition member :: "members \<Rightarrow> string \<Rightarrow> json option" where
  "member ms k = map_of (rev ms) k"

text \<open>\<open>raw[k].(string)\<close> with the comma-ok form.\<close>

definition str_member :: "members \<Rightarrow> string \<Rightarrow> string option" where
  "str_member ms k = (case member ms k of Some (JStr s) \<Rightarrow> Some s | _ \<Rightarrow> None)"

text \<open>Unmarshalling into a map: null leaves it nil, which reads as empty.\<close>

definition as_map :: "json \<Rightarrow> members option" where
  "as_map v = (case v of JObj ms \<Rightarrow> Some ms | JNull \<Rightarrow> Some [] | _ \<Rightarrow> None)"

section \<open>Structs\<close>

text \<open>
  The key of a field: the name itself, else the first name that agrees up to case, where the long s
  and the Kelvin sign fold to ASCII letters.
\<close>

fun fold_name :: "string \<Rightarrow> string" where
  "fold_name (a # b # c # cs) =
     (if [a, b, c] = [CHR 0xE2, CHR 0x84, CHR 0xAA] then CHR ''K'' # fold_name cs
      else if [a, b] = [CHR 0xC5, CHR 0xBF] then CHR ''S'' # fold_name (c # cs)
      else (if 97 \<le> (of_char a :: nat) \<and> of_char a \<le> (122 :: nat) then char_of (of_char a - 32 :: nat) else a) # fold_name (b # c # cs))"
| "fold_name [a, b] =
     (if [a, b] = [CHR 0xC5, CHR 0xBF] then ''S''
      else (if 97 \<le> (of_char a :: nat) \<and> of_char a \<le> (122 :: nat) then char_of (of_char a - 32 :: nat) else a) # fold_name [b])"
| "fold_name [a] = [if 97 \<le> (of_char a :: nat) \<and> of_char a \<le> (122 :: nat) then char_of (of_char a - 32 :: nat) else a]"
| "fold_name [] = []"

definition match_field :: "string list \<Rightarrow> string \<Rightarrow> string option" where
  "match_field names k =
     (if k \<in> set names then Some k else List.find (\<lambda>n. fold_name n = fold_name k) names)"

text \<open>The members in order; \<open>None\<close> is an error, which every caller answers by dropping the value.\<close>

fun decode_members :: "(string \<Rightarrow> json \<Rightarrow> 'a \<Rightarrow> 'a option) \<Rightarrow> string list \<Rightarrow> members \<Rightarrow> 'a \<Rightarrow> 'a option" where
  "decode_members f names [] x = Some x"
| "decode_members f names ((k, v) # ms) x =
     (case match_field names k of
        None \<Rightarrow> decode_members f names ms x
      | Some n \<Rightarrow> (case f n v x of None \<Rightarrow> None | Some x' \<Rightarrow> decode_members f names ms x'))"

definition decode_struct :: "(string \<Rightarrow> json \<Rightarrow> 'a \<Rightarrow> 'a option) \<Rightarrow> string list \<Rightarrow> 'a \<Rightarrow> json \<Rightarrow> 'a option" where
  "decode_struct f names zero v = (case v of JNull \<Rightarrow> Some zero | JObj ms \<Rightarrow> decode_members f names ms zero | _ \<Rightarrow> None)"

text \<open>Into a string, an unsigned or a signed integer, a bool, and a \<open>*big.Int\<close>; null leaves all but the pointer.\<close>

definition decode_str :: "json \<Rightarrow> string \<Rightarrow> string option" where
  "decode_str v old = (case v of JStr s \<Rightarrow> Some s | JNull \<Rightarrow> Some old | _ \<Rightarrow> None)"

definition decode_u64 :: "json \<Rightarrow> u64 \<Rightarrow> u64 option" where
  "decode_u64 v old = (case v of JNum s \<Rightarrow> map_option of_nat (ParseUint s 64) | JNull \<Rightarrow> Some old | _ \<Rightarrow> None)"

definition decode_int :: "json \<Rightarrow> int \<Rightarrow> int option" where
  "decode_int v old =
     (case v of
        JNum s \<Rightarrow> (case parse_dec s of None \<Rightarrow> None | Some n \<Rightarrow> if - (2 ^ 63) \<le> n \<and> n < 2 ^ 63 then Some n else None)
      | JNull \<Rightarrow> Some old | _ \<Rightarrow> None)"

definition decode_bool :: "json \<Rightarrow> bool \<Rightarrow> bool option" where
  "decode_bool v old = (case v of JBool b \<Rightarrow> Some b | JNull \<Rightarrow> Some old | _ \<Rightarrow> None)"

definition decode_big :: "json \<Rightarrow> int option option" where
  "decode_big v = (case v of JNull \<Rightarrow> Some None | JNum s \<Rightarrow> map_option Some (parse_dec s) | _ \<Rightarrow> None)"

section \<open>Hexadecimal numbers\<close>

fun hex_nat :: "nat \<Rightarrow> string" where
  "hex_nat n = (if n < 16 then [hex_digit n] else hex_nat (n div 16) @ [hex_digit (n mod 16)])"

declare hex_nat.simps [simp del]

definition hex_int :: "int \<Rightarrow> string" where
  "hex_int x = (if x < 0 then CHR ''-'' # hex_nat (nat (- x)) else hex_nat (nat x))"

fun parse_hex_digits :: "nat \<Rightarrow> string \<Rightarrow> nat option" where
  "parse_hex_digits a [] = Some a"
| "parse_hex_digits a (c # cs) = (case hex_val c of None \<Rightarrow> None | Some d \<Rightarrow> parse_hex_digits (a * 16 + d) cs)"

definition parse_hex_unsigned :: "string \<Rightarrow> nat option" where
  "parse_hex_unsigned s = (if s = [] then None else parse_hex_digits 0 s)"

definition parse_hex :: "string \<Rightarrow> int option" where
  "parse_hex s =
     (case s of [] \<Rightarrow> None
      | c # cs \<Rightarrow>
         if c = CHR ''-'' then map_option (\<lambda>n. - int n) (parse_hex_unsigned cs)
         else if c = CHR ''+'' then map_option int (parse_hex_unsigned cs)
         else map_option int (parse_hex_unsigned s))"

text \<open>\<open>Sscanf(s, "0x%x")\<close> into a uint64.\<close>

definition scan_hex :: "string \<Rightarrow> u64 result" where
  "scan_hex s =
     (if \<not> has_prefix ''0x'' s then Inl ''input does not match format''
      else
        let ds = takeWhile (\<lambda>c. hex_val c \<noteq> None) (trim_left (removeAll [CHR 0x0A] space_runes) (drop 2 s))
        in case parse_hex_unsigned ds of
             None \<Rightarrow> Inl ''expected integer''
           | Some n \<Rightarrow> if n < 2 ^ 64 then Inr (of_nat n) else Inl ''integer overflow'')"

section \<open>Round trips\<close>

lemma parse_hex_digits_append:
  "parse_hex_digits a (xs @ ys) = Option.bind (parse_hex_digits a xs) (\<lambda>b. parse_hex_digits b ys)"
  by (induction a xs rule: parse_hex_digits.induct) (auto split: option.split)

lemma parse_hex_digits_nat: "parse_hex_digits 0 (hex_nat n) = Some n"
proof (induction n rule: hex_nat.induct)
  case (1 n)
  then show ?case
    by (cases "n < 16") (simp_all add: hex_nat.simps [of n] parse_hex_digits_append hex_val_digit)
qed

lemma hex_nat_neq_Nil [simp]: "hex_nat n \<noteq> []"
  by (simp add: hex_nat.simps [of n])

lemma parse_hex_unsigned_nat [text_simps, simp]: "parse_hex_unsigned (hex_nat n) = Some n"
  by (simp add: parse_hex_unsigned_def parse_hex_digits_nat)

lemma set_hex_nat: "c \<in> set (hex_nat n) \<Longrightarrow> \<exists>d < 16. c = hex_digit d"
proof (induction n rule: hex_nat.induct)
  case (1 n)
  show ?case
  proof (cases "n < 16")
    case False
    then have "c \<in> set (hex_nat (n div 16)) \<or> c = hex_digit (n mod 16)"
      using "1.prems" by (auto simp: hex_nat.simps [of n])
    then show ?thesis using "1.IH" False by (auto intro: exI [of _ "n mod 16"])
  qed (use "1.prems" in \<open>auto simp: hex_nat.simps [of n]\<close>)
qed

lemma hex_val_hex_nat: "c \<in> set (hex_nat n) \<Longrightarrow> hex_val c \<noteq> None"
  using set_hex_nat hex_val_digit by fastforce

lemma parse_hex_nat: "parse_hex (hex_nat n) = Some (int n)"
proof (cases "hex_nat n")
  case (Cons c cs)
  have "hex_val c \<noteq> None" by (rule hex_val_hex_nat [of _ n]) (simp add: Cons)
  moreover have "hex_val (CHR ''-'') = None" "hex_val (CHR ''+'') = None" by (simp_all add: hex_val_def)
  ultimately have "c \<noteq> CHR ''-''" "c \<noteq> CHR ''+''" by auto
  then show ?thesis using Cons parse_hex_unsigned_nat [of n] by (simp add: parse_hex_def)
qed simp

lemma scan_hex_nat: "scan_hex (''0x'' @ hex_nat (unat w)) = Inr w"
proof -
  have tw: "takeWhile (\<lambda>c. hex_val c \<noteq> None) (hex_nat n) = hex_nat n" for n
    using hex_val_hex_nat by (simp add: takeWhile_eq_all_conv)
  have plain: "\<forall>c \<in> set (hex_nat n). 0x20 < (of_char c :: nat) \<and> of_char c < (0x80 :: nat)" for n
    using set_hex_nat by (fastforce simp: hex_digit_def)
  have "trim_left (removeAll [CHR 0x0A] space_runes) (hex_nat n) = hex_nat n" for n
  proof -
    have "\<not> (\<exists>r. r \<in> set space_runes \<and> r \<noteq> [] \<and> has_prefix r (hex_nat n))"
      using find_space_None(1) [OF plain [of n]] by (auto simp: find_None_iff)
    then have "List.find (\<lambda>r. r \<noteq> [] \<and> has_prefix r (hex_nat n)) (removeAll [CHR 0x0A] space_runes) = None"
      by (auto simp: find_None_iff)
    then show ?thesis by (cases "hex_nat n") auto
  qed
  then show ?thesis
    using unsigned_less [of w, where 'a = nat] by (simp add: scan_hex_def has_prefix_def tw del: not_None_eq)
qed

end
