(* ===== verification/IndexerStore.thy ===== *)
theory IndexerStore imports Badger begin

text \<open>
  The indexer's data (indexer/internal/indexer/types, rpc.Transaction) and its batch store,
  indexer/internal/indexer/store.go: a cache of batches over Badger. JSON is the record
  \<open>batch_json\<close>; files, logging and the mutex are not modelled.
\<close>

section \<open>Data\<close>

record rpc_tx =
  rt_Hash :: string
  rt_From :: string
  rt_To :: string
  rt_ContractAddress :: string
  rt_Value :: "int option"
  rt_Data :: string
  rt_Nonce :: u64
  rt_Gas :: u64
  rt_GasPrice :: "int option"
  rt_GasTipCap :: "int option"
  rt_GasFeeCap :: "int option"
  rt_BlockNumber :: "int option"
  rt_BlockHash :: string
  rt_Index :: u64
  rt_IsContractDeployment :: bool

record parsed_trade =
  pt_MessageHash :: string
  pt_PubKeyX :: string
  pt_PubKeyY :: string
  pt_SigR :: string
  pt_SigS :: string
  pt_SignerAddress :: string

record execution_trace =
  et_TxHash :: string
  et_From :: string
  et_To :: string
  et_ContractAddress :: string
  et_IsContractDeployment :: bool
  et_Value :: string
  et_Nonce :: u64
  et_OldBalance :: string
  et_NewBalance :: string

record batch =
  ib_Number :: u64
  ib_Hash :: string
  ib_Transactions :: "rpc_tx list"
  ib_OldStateRoot :: string
  ib_NewStateRoot :: string
  ib_Timestamp :: int
  ib_Status :: string
  ib_Traces :: "execution_trace list"
  ib_Trades :: "parsed_trade list"

record batch_metadata =
  bm_Number :: u64
  bm_Hash :: string
  bm_PrevStateRoot :: string
  bm_NewStateRoot :: string
  bm_Timestamp :: int
  bm_TxCount :: nat

record batch_json =
  bj_marshal :: "batch \<Rightarrow> bytes result"
  bj_unmarshal :: "bytes \<Rightarrow> batch result"
  bj_marshalMeta :: "batch_metadata \<Rightarrow> bytes result"
  bj_unmarshalMeta :: "bytes \<Rightarrow> batch_metadata result"

record batch_store =
  bs_batches :: "u64 \<rightharpoonup> batch"
  bs_count :: u64
  bs_kv :: badger

section \<open>Batches\<close>

definition batchKey :: "u64 \<Rightarrow> string" where
  "batchKey n = ''batch:'' @ dec_nat (unat n)"

text \<open>The cache and the count change first, whatever becomes of the write.\<close>

definition cacheBatch :: "batch_store \<Rightarrow> batch \<Rightarrow> batch_store" where
  "cacheBatch bs b =
     bs\<lparr>bs_batches := (bs_batches bs)(ib_Number b \<mapsto> b),
        bs_count := (if ib_Number b > bs_count bs then ib_Number b else bs_count bs)\<rparr>"

definition SaveBatch :: "batch_json \<Rightarrow> batch_store \<Rightarrow> batch \<Rightarrow> unit result \<times> batch_store" where
  "SaveBatch J bs b =
     (let bs = cacheBatch bs b
      in case bj_marshal J b of
           Inl err \<Rightarrow> (Inl ''failed to marshal batch'', bs)
         | Inr data \<Rightarrow>
             (case bg_update (bs_kv bs) [(batchKey (ib_Number b), data)] of
                (Inl err, kv) \<Rightarrow> (Inl ''failed to set batch'', bs\<lparr>bs_kv := kv\<rparr>)
              | (Inr _, kv) \<Rightarrow> (Inr (), bs\<lparr>bs_kv := kv\<rparr>)))"

definition GetBatch_ix :: "batch_json \<Rightarrow> batch_store \<Rightarrow> u64 \<Rightarrow> batch result \<times> batch_store" where
  "GetBatch_ix J bs number =
     (case bs_batches bs number of
        Some b \<Rightarrow> (Inr b, bs)
      | None \<Rightarrow>
          (case bg_get (bs_kv bs) (batchKey number) of
             Inl err \<Rightarrow> (Inl ''failed to get batch'', bs)
           | Inr None \<Rightarrow> (Inl ''batch not found'', bs)
           | Inr (Some val) \<Rightarrow>
               (case bj_unmarshal J val of
                  Inl err \<Rightarrow> (Inl ''failed to get batch'', bs)
                | Inr b \<Rightarrow> (Inr b, bs\<lparr>bs_batches := (bs_batches bs)(number \<mapsto> b)\<rparr>))))"

definition GetLatestBatch_ix :: "batch_store \<Rightarrow> batch result" where
  "GetLatestBatch_ix bs =
     (if bs_count bs = 0 then Inl ''no batches available''
      else case bs_batches bs (bs_count bs) of None \<Rightarrow> Inl ''latest batch not found'' | Some b \<Rightarrow> Inr b)"

definition GetIncompleteBatch :: "batch_store \<Rightarrow> int \<Rightarrow> batch result" where
  "GetIncompleteBatch bs batchSize =
     (if bs_count bs = 0 then Inl ''no batches available''
      else case bs_batches bs (bs_count bs) of
             None \<Rightarrow> Inl ''latest batch not found''
           | Some b \<Rightarrow>
               if ib_Status b = ''pending'' \<and> int (length (ib_Trades b)) < batchSize then Inr b
               else Inl ''no incomplete batch'')"

definition GetAllBatches :: "batch_store \<Rightarrow> batch list" where
  "GetAllBatches bs = List.map_filter (\<lambda>i. bs_batches bs (of_nat i)) [1..<Suc (unat (bs_count bs))]"

definition Count_ix :: "batch_store \<Rightarrow> u64" where
  "Count_ix bs = bs_count bs"

text \<open>The iteration over the keys under \<open>batch:\<close>; a value that is not a batch ends it.\<close>

fun loadBatches :: "batch_json \<Rightarrow> string list \<Rightarrow> batch_store \<Rightarrow> unit result \<times> batch_store" where
  "loadBatches J [] bs = (Inr (), bs)"
| "loadBatches J (k # ks) bs =
     (case bg_get (bs_kv bs) k of
        Inr (Some val) \<Rightarrow>
          (case bj_unmarshal J val of
             Inl err \<Rightarrow> (Inl err, bs)
           | Inr b \<Rightarrow> loadBatches J ks (cacheBatch bs b))
      | _ \<Rightarrow> (Inl ''badger: read'', bs))"

definition NewBatchStore :: "batch_json \<Rightarrow> badger \<Rightarrow> batch_store result" where
  "NewBatchStore J kv =
     (case loadBatches J (bg_keys kv ''batch:'') \<lparr>bs_batches = Map.empty, bs_count = 0, bs_kv = kv\<rparr> of
        (Inl err, _) \<Rightarrow> Inl ''failed to load batches''
      | (Inr _, bs) \<Rightarrow> Inr bs)"

section \<open>Registers and block hashes\<close>

text \<open>\<open>binary.LittleEndian\<close>: eight bytes, and a value that is longer is read by its first eight.\<close>

definition le_enc64 :: "u64 \<Rightarrow> bytes" where
  "le_enc64 w = rev (be_enc 8 (unat w))"

definition le_dec64 :: "bytes \<Rightarrow> u64" where
  "le_dec64 val = of_nat (be_dec (rev (take 8 val)))"

definition set_register :: "string \<Rightarrow> batch_store \<Rightarrow> u64 \<Rightarrow> unit result \<times> batch_store" where
  "set_register key bs v =
     (case bg_update (bs_kv bs) [(key, le_enc64 v)] of (r, kv) \<Rightarrow> (r, bs\<lparr>bs_kv := kv\<rparr>))"

definition get_register :: "string \<Rightarrow> batch_store \<Rightarrow> u64 result" where
  "get_register key bs =
     (case bg_get (bs_kv bs) key of
        Inl err \<Rightarrow> Inl err
      | Inr None \<Rightarrow> Inr 0
      | Inr (Some val) \<Rightarrow> Inr (if 8 \<le> length val then le_dec64 val else 0))"

definition GetLastProcessedBlock :: "batch_store \<Rightarrow> u64 result" where
  "GetLastProcessedBlock = get_register ''state:lastBlock''"

definition SetLastProcessedBlock :: "batch_store \<Rightarrow> u64 \<Rightarrow> unit result \<times> batch_store" where
  "SetLastProcessedBlock = set_register ''state:lastBlock''"

definition GetLastDeletedBatch :: "batch_store \<Rightarrow> u64 result" where
  "GetLastDeletedBatch = get_register ''cleanup:lastDeleted''"

definition SetLastDeletedBatch :: "batch_store \<Rightarrow> u64 \<Rightarrow> unit result \<times> batch_store" where
  "SetLastDeletedBatch = set_register ''cleanup:lastDeleted''"

definition blockHashKey :: "u64 \<Rightarrow> string" where
  "blockHashKey n = ''blockhash:'' @ dec_nat (unat n)"

definition SetBlockHash :: "batch_store \<Rightarrow> u64 \<Rightarrow> string \<Rightarrow> unit result \<times> batch_store" where
  "SetBlockHash bs blockNum blockHash =
     (case bg_update (bs_kv bs) [(blockHashKey blockNum, blockHash)] of (r, kv) \<Rightarrow> (r, bs\<lparr>bs_kv := kv\<rparr>))"

definition GetBlockHash :: "batch_store \<Rightarrow> u64 \<Rightarrow> string result" where
  "GetBlockHash bs blockNum =
     (case bg_get (bs_kv bs) (blockHashKey blockNum) of
        Inl err \<Rightarrow> Inl err
      | Inr None \<Rightarrow> Inl ''block hash not found''
      | Inr (Some val) \<Rightarrow> Inr val)"

section \<open>Deletion\<close>

text \<open>\<open>Sscanf(key, "batch:%d", &n)\<close>, with 0 where it fails.\<close>

definition keyNumber :: "string \<Rightarrow> u64" where
  "keyNumber key = (case scan_uint (drop (length ''batch:'') key) of Inl _ \<Rightarrow> 0 | Inr n \<Rightarrow> n)"

text \<open>
  The transaction deletes and the cache follows key by key, so a failed write leaves the cache
  without the batches before it and the store with all of them.
\<close>

fun delete_after :: "u64 \<Rightarrow> string list \<Rightarrow> batch_store \<Rightarrow> unit result \<times> batch_store" where
  "delete_after batchNum [] bs = (Inr (), bs)"
| "delete_after batchNum (k # ks) bs =
     (if keyNumber k > batchNum then
        if bg_set_err (bs_kv bs) k then (Inl ''badger: write'', bs)
        else delete_after batchNum ks (bs\<lparr>bs_batches := (bs_batches bs)(keyNumber k := None)\<rparr>)
      else delete_after batchNum ks bs)"

definition DeleteBatchesAfter :: "batch_store \<Rightarrow> u64 \<Rightarrow> unit result \<times> batch_store" where
  "DeleteBatchesAfter bs batchNum =
     (let ks = bg_keys (bs_kv bs) ''batch:''
      in case delete_after batchNum ks bs of
           (Inl err, bs') \<Rightarrow> (Inl err, bs')
         | (Inr _, bs') \<Rightarrow>
             (case bg_delete_keys (bs_kv bs) (List.filter (\<lambda>k. keyNumber k > batchNum) ks) of
                (r, kv) \<Rightarrow> (r, bs'\<lparr>bs_count := (if batchNum < bs_count bs' then batchNum else bs_count bs'),
                                  bs_kv := kv\<rparr>)))"

definition ClearAll :: "batch_store \<Rightarrow> unit result \<times> batch_store" where
  "ClearAll bs =
     (case bg_delete_keys (bs_kv bs) (bg_keys (bs_kv bs) ''batch:'' @ bg_keys (bs_kv bs) ''blockhash:'' @ [''state:lastBlock'']) of
        (Inl err, kv) \<Rightarrow> (Inl err, bs\<lparr>bs_kv := kv\<rparr>)
      | (Inr _, kv) \<Rightarrow> (Inr (), \<lparr>bs_batches = Map.empty, bs_count = 0, bs_kv = kv\<rparr>))"

definition DeleteBatch :: "batch_store \<Rightarrow> u64 \<Rightarrow> unit result \<times> batch_store" where
  "DeleteBatch bs batchNum =
     (case bg_delete (bs_kv bs) (batchKey batchNum) of
        (Inl err, kv) \<Rightarrow> (Inl err, bs\<lparr>bs_kv := kv\<rparr>)
      | (Inr _, kv) \<Rightarrow> (Inr (), bs\<lparr>bs_batches := (bs_batches bs)(batchNum := None), bs_kv := kv\<rparr>))"

section \<open>Metadata\<close>

definition metaKey_ix :: "u64 \<Rightarrow> string" where
  "metaKey_ix n = ''meta:'' @ dec_nat (unat n)"

definition SaveBatchMetadata :: "batch_json \<Rightarrow> batch_store \<Rightarrow> batch \<Rightarrow> unit result \<times> batch_store" where
  "SaveBatchMetadata J bs b =
     (case bj_marshalMeta J \<lparr>bm_Number = ib_Number b, bm_Hash = ib_Hash b, bm_PrevStateRoot = ib_OldStateRoot b,
        bm_NewStateRoot = ib_NewStateRoot b, bm_Timestamp = ib_Timestamp b, bm_TxCount = length (ib_Transactions b)\<rparr> of
        Inl err \<Rightarrow> (Inl ''failed to marshal batch metadata'', bs)
      | Inr data \<Rightarrow>
          (case bg_update (bs_kv bs) [(metaKey_ix (ib_Number b), data)] of (r, kv) \<Rightarrow> (r, bs\<lparr>bs_kv := kv\<rparr>)))"

definition GetBatchMetadata :: "batch_json \<Rightarrow> batch_store \<Rightarrow> u64 \<Rightarrow> batch_metadata result" where
  "GetBatchMetadata J bs number =
     (case bg_get (bs_kv bs) (metaKey_ix number) of
        Inl err \<Rightarrow> Inl err
      | Inr None \<Rightarrow> Inl ''Key not found''
      | Inr (Some val) \<Rightarrow> bj_unmarshalMeta J val)"

section \<open>Keys and tables\<close>

lemma batchKey_inject [simp]: "batchKey m = batchKey n \<longleftrightarrow> m = n"
  by (simp add: batchKey_def word_unat_eq_iff)

lemma blockHashKey_inject [simp]: "blockHashKey m = blockHashKey n \<longleftrightarrow> m = n"
  by (simp add: blockHashKey_def word_unat_eq_iff)

lemma keyNumber_batchKey [simp]: "keyNumber (batchKey n) = n"
  by (simp add: keyNumber_def batchKey_def scan_uint_dec)

lemma batchKey_prefix [simp]: "has_prefix ''batch:'' (batchKey n)"
  by (simp add: batchKey_def has_prefix_def)

lemma batchKey_other [simp]:
  "batchKey m \<noteq> blockHashKey n" "batchKey m \<noteq> ''state:lastBlock''" "batchKey m \<noteq> ''cleanup:lastDeleted''"
  "batchKey m \<noteq> metaKey_ix n" "blockHashKey m \<noteq> ''state:lastBlock''" "blockHashKey m \<noteq> ''cleanup:lastDeleted''"
  "blockHashKey m \<noteq> metaKey_ix n"
  by (simp_all add: batchKey_def blockHashKey_def metaKey_ix_def)

lemma not_batch_key [simp]:
  "\<not> has_prefix ''batch:'' (blockHashKey n)" "\<not> has_prefix ''batch:'' ''state:lastBlock''"
  "\<not> has_prefix ''batch:'' ''cleanup:lastDeleted''" "\<not> has_prefix ''batch:'' (metaKey_ix n)"
  by (simp_all add: has_prefix_def blockHashKey_def metaKey_ix_def)

lemma le_dec_enc [simp]: "le_dec64 (le_enc64 w) = w"
  using unsigned_less [of w, where 'a = nat] by (simp add: le_dec64_def le_enc64_def be_dec_enc)

lemma length_le_enc64 [simp]: "length (le_enc64 w) = 8"
  by (simp add: le_enc64_def)

interpretation regs: kv_table "\<lambda>s. map_of (bg_db s)" "\<lambda>s k v. snd (bg_update s [(k, v)])" store_inv
  le_enc64 "\<lambda>val. Some (le_dec64 val)" "\<lambda>_. True" "\<lambda>k. k"
  by unfold_locales simp_all

interpretation hashes: kv_table "\<lambda>s. map_of (bg_db s)" "\<lambda>s k v. snd (bg_update s [(k, v)])" store_inv
  "\<lambda>h. h" Some "\<lambda>_. True" blockHashKey
  by unfold_locales simp_all

text \<open>A write to the store under one key, as every operation above that is not a deletion does it.\<close>

lemma bg_update_ok:
  assumes "store_inv kv"
  shows "bg_update kv [(k, v)] = (Inr (), snd (bg_update kv [(k, v)]))"
  by (rule bg_update_one [OF assms, of k v]) simp

lemma set_register_ok:
  assumes "store_inv (bs_kv bs)"
  shows "set_register key bs v = (Inr (), bs\<lparr>bs_kv := snd (bg_update (bs_kv bs) [(key, le_enc64 v)])\<rparr>)"
  by (subst set_register_def, subst bg_update_ok [OF assms]) simp

lemma register_roundtrip:
  assumes "store_inv (bs_kv bs)"
  shows "get_register k (snd (set_register key bs v)) = (if k = key then Inr v else get_register k bs)"
  unfolding set_register_ok [OF assms] get_register_def
  using assms bg.get_put [OF assms] bg.ok_put [OF assms] by (simp add: bg_get_ok)

lemma SetBlockHash_ok:
  assumes "store_inv (bs_kv bs)"
  shows "SetBlockHash bs n h = (Inr (), bs\<lparr>bs_kv := snd (bg_update (bs_kv bs) [(blockHashKey n, h)])\<rparr>)"
  by (subst SetBlockHash_def, subst bg_update_ok [OF assms]) simp

lemma block_hash_roundtrip:
  assumes "store_inv (bs_kv bs)"
  shows "GetBlockHash (snd (SetBlockHash bs n h)) m = (if m = n then Inr h else GetBlockHash bs m)"
  unfolding SetBlockHash_ok [OF assms] GetBlockHash_def
  using assms bg.get_put [OF assms] bg.ok_put [OF assms] by (simp add: bg_get_ok)

section \<open>A store that can be reopened\<close>

definition batch_json_keeps :: "batch_json \<Rightarrow> batch \<Rightarrow> bool" where
  "batch_json_keeps J b \<longleftrightarrow> (\<exists>z. bj_marshal J b = Inr z \<and> bj_unmarshal J z = Inr b)"

text \<open>Every cached batch is under its own number, up to the count, and the one at the count is cached.\<close>

definition cache_inv :: "batch_store \<Rightarrow> bool" where
  "cache_inv bs \<longleftrightarrow>
     (\<forall>n b. bs_batches bs n = Some b \<longrightarrow> ib_Number b = n \<and> n \<noteq> 0 \<and> n \<le> bs_count bs) \<and>
     (bs_count bs \<noteq> 0 \<longrightarrow> bs_batches bs (bs_count bs) \<noteq> None)"

text \<open>The keys under \<open>batch:\<close> hold the JSON of the batches of a map and nothing else.\<close>

definition holds_batches :: "batch_json \<Rightarrow> (string \<rightharpoonup> bytes) \<Rightarrow> (u64 \<rightharpoonup> batch) \<Rightarrow> bool" where
  "holds_batches J f m \<longleftrightarrow>
     (\<forall>k z. has_prefix ''batch:'' k \<and> f k = Some z \<longrightarrow> k \<in> batchKey ` dom m) \<and>
     (\<forall>n b. m n = Some b \<longrightarrow> (\<exists>z. f (batchKey n) = Some z \<and> bj_unmarshal J z = Inr b))"

definition batch_store_wf :: "batch_json \<Rightarrow> batch_store \<Rightarrow> bool" where
  "batch_store_wf J bs \<longleftrightarrow>
     cache_inv bs \<and> store_inv (bs_kv bs) \<and> holds_batches J (map_of (bg_db (bs_kv bs))) (bs_batches bs)"

lemma holds_batches_save:
  "holds_batches J f m \<Longrightarrow> bj_unmarshal J z = Inr b \<Longrightarrow> holds_batches J (f(batchKey n \<mapsto> z)) (m(n \<mapsto> b))"
  unfolding holds_batches_def by (auto split: if_splits)

lemma holds_batches_frame:
  assumes "holds_batches J f m" and "\<not> has_prefix ''batch:'' k"
  shows "holds_batches J (f(k \<mapsto> v)) m"
proof -
  have "batchKey n \<noteq> k" for n using assms(2) by auto
  then show ?thesis using assms unfolding holds_batches_def by (auto split: if_splits)
qed

lemma holds_batches_delete:
  assumes h: "holds_batches J f m"
  shows "holds_batches J (\<lambda>k. if k \<in> K then None else f k) (\<lambda>n. if batchKey n \<in> K then None else m n)"
  unfolding holds_batches_def
proof (intro conjI allI impI)
  fix k z assume k: "has_prefix ''batch:'' k \<and> (if k \<in> K then None else f k) = Some z"
  then have "k \<notin> K" "f k = Some z" by (auto split: if_splits)
  moreover obtain n b where "k = batchKey n" "m n = Some b" using h k calculation(2) by (auto simp: holds_batches_def)
  ultimately show "k \<in> batchKey ` dom (\<lambda>n. if batchKey n \<in> K then None else m n)" by (auto intro!: image_eqI [of _ _ n])
next
  fix n b assume "(if batchKey n \<in> K then None else m n) = Some b"
  then show "\<exists>z. (if batchKey n \<in> K then None else f (batchKey n)) = Some z \<and> bj_unmarshal J z = Inr b"
    using h by (auto simp: holds_batches_def split: if_splits)
qed

lemma holds_batches_key: "holds_batches J f m \<Longrightarrow> m n = Some b \<Longrightarrow> f (batchKey n) \<noteq> None"
  unfolding holds_batches_def by fastforce

lemma cache_invD:
  assumes "cache_inv bs" and "bs_batches bs n = Some b"
  shows "ib_Number b = n" and "n \<noteq> 0" and "n \<le> bs_count bs"
  using assms by (auto simp: cache_inv_def)

lemma cache_inv_cacheBatch:
  assumes "cache_inv bs" and "ib_Number b \<noteq> 0"
  shows "cache_inv (cacheBatch bs b)"
proof -
  have "m \<le> ib_Number b" if "bs_batches bs m = Some c" "ib_Number b > bs_count bs" for m c
    using assms(1) that by (auto simp: cache_inv_def dest!: spec [of _ m])
  then show ?thesis using assms by (auto simp: cache_inv_def cacheBatch_def not_less)
qed

lemma SaveBatch_ok:
  assumes "store_inv (bs_kv bs)" and "bj_marshal J b = Inr z"
  shows "SaveBatch J bs b = (Inr (), (cacheBatch bs b)\<lparr>bs_kv := snd (bg_update (bs_kv bs) [(batchKey (ib_Number b), z)])\<rparr>)"
proof -
  have kv: "bs_kv (cacheBatch bs b) = bs_kv bs" by (simp add: cacheBatch_def)
  show ?thesis
    by (simp only: SaveBatch_def Let_def assms(2) kv sum.case)
      (subst bg_update_ok [OF assms(1)], simp only: prod.case sum.case)
qed

lemma SaveBatch_wf:
  assumes "batch_store_wf J bs" and "batch_json_keeps J b" and "ib_Number b \<noteq> 0"
  shows "fst (SaveBatch J bs b) = Inr ()" and "batch_store_wf J (snd (SaveBatch J bs b))"
proof -
  obtain z where z: "bj_marshal J b = Inr z" "bj_unmarshal J z = Inr b" using assms(2) by (auto simp: batch_json_keeps_def)
  have inv: "store_inv (bs_kv bs)" "cache_inv bs" using assms(1) by (simp_all add: batch_store_wf_def)
  note s = SaveBatch_ok [OF inv(1) z(1)]
  show "fst (SaveBatch J bs b) = Inr ()" by (simp add: s)
  have c: "cache_inv (cacheBatch bs b)" by (rule cache_inv_cacheBatch [OF inv(2) assms(3)])
  have "holds_batches J (map_of (bg_db (snd (bg_update (bs_kv bs) [(batchKey (ib_Number b), z)]))))
      (bs_batches (cacheBatch bs b))"
    using assms(1) z(2) by (simp add: bg.get_put [OF inv(1)] cacheBatch_def batch_store_wf_def holds_batches_save)
  then show "batch_store_wf J (snd (SaveBatch J bs b))"
    using c bg.ok_put [OF inv(1)] by (simp add: s batch_store_wf_def cache_inv_def)
qed

lemma other_key_wf:
  assumes "batch_store_wf J bs" and "\<not> has_prefix ''batch:'' k"
  shows "batch_store_wf J (bs\<lparr>bs_kv := snd (bg_update (bs_kv bs) [(k, v)])\<rparr>)"
proof -
  have inv: "store_inv (bs_kv bs)" using assms(1) by (simp add: batch_store_wf_def)
  show ?thesis
    using assms bg.ok_put [OF inv]
    by (simp add: batch_store_wf_def cache_inv_def bg.get_put [OF inv] holds_batches_frame)
qed

lemma set_register_wf:
  assumes "batch_store_wf J bs" and "\<not> has_prefix ''batch:'' k"
  shows "batch_store_wf J (snd (set_register k bs v))"
proof -
  have inv: "store_inv (bs_kv bs)" using assms(1) by (simp add: batch_store_wf_def)
  show ?thesis unfolding set_register_ok [OF inv] snd_conv by (rule other_key_wf [OF assms])
qed

lemma SetBlockHash_wf: "batch_store_wf J bs \<Longrightarrow> batch_store_wf J (snd (SetBlockHash bs n h))"
proof -
  assume wf: "batch_store_wf J bs"
  then have inv: "store_inv (bs_kv bs)" by (simp add: batch_store_wf_def)
  show ?thesis unfolding SetBlockHash_ok [OF inv] snd_conv by (rule other_key_wf [OF wf]) simp
qed

lemma delete_keys_wf:
  assumes "batch_store_wf J bs" and "cache_inv (bs\<lparr>bs_batches := m, bs_count := c\<rparr>)"
    and "\<And>n. m n = (if batchKey n \<in> set ks then None else bs_batches bs n)"
  shows "fst (bg_delete_keys (bs_kv bs) ks) = Inr ()"
    "batch_store_wf J (bs\<lparr>bs_batches := m, bs_count := c, bs_kv := snd (bg_delete_keys (bs_kv bs) ks)\<rparr>)"
proof -
  have inv: "store_inv (bs_kv bs)" using assms(1) by (simp add: batch_store_wf_def)
  obtain kv where kv: "bg_delete_keys (bs_kv bs) ks = (Inr (), kv)" "store_inv kv"
    "map_of (bg_db kv) = (\<lambda>k. if k \<in> set ks then None else map_of (bg_db (bs_kv bs)) k)"
    by (rule bg_delete_keys_ok [OF inv]) blast
  show "fst (bg_delete_keys (bs_kv bs) ks) = Inr ()" by (simp add: kv)
  have "m = (\<lambda>n. if batchKey n \<in> set ks then None else bs_batches bs n)" using assms(3) by blast
  then show "batch_store_wf J (bs\<lparr>bs_batches := m, bs_count := c, bs_kv := snd (bg_delete_keys (bs_kv bs) ks)\<rparr>)"
    using assms(1,2) kv holds_batches_delete [of J "map_of (bg_db (bs_kv bs))" "bs_batches bs" "set ks"]
    by (simp add: batch_store_wf_def cache_inv_def)
qed

lemma DeleteBatch_wf:
  assumes "batch_store_wf J bs" and "n \<noteq> bs_count bs"
  shows "fst (DeleteBatch bs n) = Inr ()" and "batch_store_wf J (snd (DeleteBatch bs n))"
    and "bs_batches (snd (DeleteBatch bs n)) = (bs_batches bs)(n := None)"
    and "bs_count (snd (DeleteBatch bs n)) = bs_count bs"
proof -
  have c: "cache_inv (bs\<lparr>bs_batches := (bs_batches bs)(n := None), bs_count := bs_count bs\<rparr>)"
    using assms by (auto simp: batch_store_wf_def cache_inv_def split: if_splits)
  note d = delete_keys_wf [OF assms(1) c, of "[batchKey n]"]
  have "DeleteBatch bs n = (Inr (), bs\<lparr>bs_batches := (bs_batches bs)(n := None), bs_kv := snd (bg_delete_keys (bs_kv bs) [batchKey n])\<rparr>)"
    using d(1) by (auto simp: DeleteBatch_def bg_delete_one split: prod.split)
  then show "fst (DeleteBatch bs n) = Inr ()" "batch_store_wf J (snd (DeleteBatch bs n))"
    "bs_batches (snd (DeleteBatch bs n)) = (bs_batches bs)(n := None)" "bs_count (snd (DeleteBatch bs n)) = bs_count bs"
    using d(2) by (simp_all add: fun_eq_iff)
qed

text \<open>The loop of \<open>DeleteBatchesAfter\<close> takes from the cache what the transaction takes from the store.\<close>

lemma delete_after_ok:
  assumes "store_inv (bs_kv bs)"
  shows "delete_after n ks bs =
    (Inr (), bs\<lparr>bs_batches := (\<lambda>m. if m \<in> keyNumber ` {k \<in> set ks. keyNumber k > n} then None else bs_batches bs m)\<rparr>)"
  using assms
proof (induction n ks bs rule: delete_after.induct)
  case (2 n k ks bs)
  then have "\<not> bg_set_err (bs_kv bs) k" by (simp add: store_inv_def)
  then show ?case using 2 by (auto simp: fun_eq_iff intro!: arg_cong [where f = "\<lambda>m. bs\<lparr>bs_batches := m\<rparr>"])
qed simp

lemma DeleteBatchesAfter_wf:
  assumes "batch_store_wf J bs" and "n = 0 \<or> bs_batches bs n \<noteq> None"
  shows "fst (DeleteBatchesAfter bs n) = Inr ()" and "batch_store_wf J (snd (DeleteBatchesAfter bs n))"
    and "bs_batches (snd (DeleteBatchesAfter bs n)) = (\<lambda>m. if m > n then None else bs_batches bs m)"
    and "bs_count (snd (DeleteBatchesAfter bs n)) = min n (bs_count bs)"
proof -
  have inv: "store_inv (bs_kv bs)" "cache_inv bs" "holds_batches J (map_of (bg_db (bs_kv bs))) (bs_batches bs)"
    using assms(1) by (simp_all add: batch_store_wf_def)
  define ks where "ks = List.filter (\<lambda>k. keyNumber k > n) (bg_keys (bs_kv bs) ''batch:'')"
  have kB: "\<exists>m. k = batchKey m \<and> bs_batches bs m \<noteq> None" if k: "k \<in> set (bg_keys (bs_kv bs) ''batch:'')" for k
  proof -
    have "has_prefix ''batch:'' k \<and> map_of (bg_db (bs_kv bs)) k \<noteq> None" using bg_keys_dom [of k] k by blast
    then show ?thesis using inv(3) by (auto simp: holds_batches_def)
  qed
  have Bk: "batchKey m \<in> set (bg_keys (bs_kv bs) ''batch:'')" if "bs_batches bs m = Some b" for m b
    using holds_batches_key [OF inv(3) that] by (simp add: bg_keys_dom)
  have ks: "batchKey m \<in> set ks \<longleftrightarrow> m > n \<and> bs_batches bs m \<noteq> None" for m
    using Bk kB [of "batchKey m"] by (auto simp: ks_def)
  have "keyNumber ` {k \<in> set (bg_keys (bs_kv bs) ''batch:''). keyNumber k > n} = {m. m > n \<and> bs_batches bs m \<noteq> None}"
    using kB Bk by force
  then have m: "(\<lambda>m. if m \<in> keyNumber ` {k \<in> set (bg_keys (bs_kv bs) ''batch:''). keyNumber k > n} then None else bs_batches bs m)
    = (\<lambda>m. if m > n then None else bs_batches bs m)" by (auto simp: fun_eq_iff)
  let ?m = "\<lambda>m. if m > n then None else bs_batches bs m" and ?c = "if n < bs_count bs then n else bs_count bs"
  have pos: "0 < m" if "bs_batches bs m = Some b" for m b
    using cache_invD(2) [OF inv(2) that] by (simp add: word_neq_0_conv)
  have c: "cache_inv (bs\<lparr>bs_batches := ?m, bs_count := ?c\<rparr>)"
    using pos inv(2) assms(2) by (auto simp: cache_inv_def split: if_splits)
  have mk: "?m i = (if batchKey i \<in> set ks then None else bs_batches bs i)" for i by (simp add: ks)
  note d = delete_keys_wf [OF assms(1) c mk]
  have "DeleteBatchesAfter bs n =
    (Inr (), bs\<lparr>bs_batches := ?m, bs_count := ?c, bs_kv := snd (bg_delete_keys (bs_kv bs) ks)\<rparr>)"
    unfolding DeleteBatchesAfter_def Let_def delete_after_ok [OF inv(1)] m ks_def [symmetric]
    using d(1) by (auto split: prod.split)
  then show "fst (DeleteBatchesAfter bs n) = Inr ()" "batch_store_wf J (snd (DeleteBatchesAfter bs n))"
    "bs_batches (snd (DeleteBatchesAfter bs n)) = ?m" "bs_count (snd (DeleteBatchesAfter bs n)) = min n (bs_count bs)"
    using d(2) by (auto simp: min_def)
qed

section \<open>Reopening\<close>

lemma loadBatches_fold:
  assumes "\<forall>k \<in> set ks. \<exists>z b. map_of (bg_db (bs_kv bs)) k = Some z \<and> bj_unmarshal J z = Inr b \<and> dcd k = b"
    and "store_inv (bs_kv bs)"
  shows "loadBatches J ks bs = (Inr (), fold (\<lambda>k bs. cacheBatch bs (dcd k)) ks bs)"
  using assms
proof (induction ks arbitrary: bs)
  case (Cons k ks)
  obtain z b where "map_of (bg_db (bs_kv bs)) k = Some z" "bj_unmarshal J z = Inr b" "dcd k = b" using Cons.prems by auto
  moreover have "bs_kv (cacheBatch bs b) = bs_kv bs" by (simp add: cacheBatch_def)
  ultimately show ?case using Cons by (simp add: bg_get_ok)
qed simp

lemma fold_cacheBatch_kv: "bs_kv (fold (\<lambda>k bs. cacheBatch bs (dcd k)) ks bs) = bs_kv bs"
  by (induction ks arbitrary: bs) (simp_all add: cacheBatch_def)

lemma fold_cacheBatch_count:
  "(\<forall>k \<in> set ks. ib_Number (dcd k) \<le> c) \<Longrightarrow> bs_count bs \<le> c \<Longrightarrow> bs_count bs = c \<or> (\<exists>k \<in> set ks. ib_Number (dcd k) = c) \<Longrightarrow>
   bs_count (fold (\<lambda>k bs. cacheBatch bs (dcd k)) ks bs) = c"
proof (induction ks arbitrary: bs)
  case (Cons k ks)
  have "bs_count (cacheBatch bs (dcd k)) \<le> c" using Cons.prems by (simp add: cacheBatch_def)
  moreover have "bs_count (cacheBatch bs (dcd k)) = c \<or> (\<exists>k \<in> set ks. ib_Number (dcd k) = c)"
    using Cons.prems by (auto simp: cacheBatch_def)
  ultimately show ?case using Cons.IH [of "cacheBatch bs (dcd k)"] Cons.prems(1) by simp
qed simp

lemma fold_cacheBatch_batches:
  "(\<forall>k \<in> set ks. k = batchKey (ib_Number (dcd k))) \<Longrightarrow>
   bs_batches (fold (\<lambda>k bs. cacheBatch bs (dcd k)) ks bs) n =
     (if batchKey n \<in> set ks then Some (dcd (batchKey n)) else bs_batches bs n)"
proof (induction ks arbitrary: bs)
  case (Cons k ks)
  then have k: "k = batchKey (ib_Number (dcd k))" by simp
  have "bs_batches (cacheBatch bs (dcd k)) n = (if batchKey n = k then Some (dcd (batchKey n)) else bs_batches bs n)"
    using k by (auto simp: cacheBatch_def)
  then show ?case using Cons by simp
qed simp

text \<open>A well-formed store is the one its database opens.\<close>

lemma NewBatchStore_wf:
  assumes "batch_store_wf J bs"
  shows "NewBatchStore J (bs_kv bs) = Inr bs"
proof -
  have inv: "store_inv (bs_kv bs)" "cache_inv bs" "holds_batches J (map_of (bg_db (bs_kv bs))) (bs_batches bs)"
    using assms by (simp_all add: batch_store_wf_def)
  define dcd where "dcd k = the (bs_batches bs (keyNumber k))" for k
  define ks where "ks = bg_keys (bs_kv bs) ''batch:''"
  let ?s0 = "\<lparr>bs_batches = Map.empty, bs_count = 0, bs_kv = bs_kv bs\<rparr>"
  have ks: "k \<in> set ks \<longleftrightarrow> k \<in> batchKey ` dom (bs_batches bs)" for k
  proof
    assume "k \<in> set ks"
    then show "k \<in> batchKey ` dom (bs_batches bs)"
      using inv(3) unfolding ks_def bg_keys_dom holds_batches_def by blast
  next
    assume "k \<in> batchKey ` dom (bs_batches bs)"
    then obtain n b where "k = batchKey n" "bs_batches bs n = Some b" by auto
    then show "k \<in> set ks" using holds_batches_key [OF inv(3)] unfolding ks_def bg_keys_dom by simp
  qed
  have val: "\<exists>z b. map_of (bg_db (bs_kv bs)) k = Some z \<and> bj_unmarshal J z = Inr b \<and> dcd k = b" if "k \<in> set ks" for k
    using that inv(3) unfolding ks holds_batches_def dcd_def by auto
  have num: "k = batchKey (ib_Number (dcd k))" "ib_Number (dcd k) \<le> bs_count bs" if "k \<in> set ks" for k
    using that inv(2) unfolding ks dcd_def by (auto simp: cache_inv_def)
  have load: "loadBatches J ks ?s0 = (Inr (), fold (\<lambda>k bs. cacheBatch bs (dcd k)) ks ?s0)"
    using val inv(1) by (intro loadBatches_fold) simp_all
  have "bs_batches (fold (\<lambda>k bs. cacheBatch bs (dcd k)) ks ?s0) = bs_batches bs"
  proof
    fix n
    have "bs_batches bs n = (if batchKey n \<in> set ks then Some (dcd (batchKey n)) else None)"
      unfolding ks dcd_def by (cases "bs_batches bs n") auto
    then show "bs_batches (fold (\<lambda>k bs. cacheBatch bs (dcd k)) ks ?s0) n = bs_batches bs n"
      using num(1) by (subst fold_cacheBatch_batches) simp_all
  qed
  moreover have "bs_count (fold (\<lambda>k bs. cacheBatch bs (dcd k)) ks ?s0) = bs_count bs"
  proof (rule fold_cacheBatch_count)
    show "bs_count ?s0 = bs_count bs \<or> (\<exists>k \<in> set ks. ib_Number (dcd k) = bs_count bs)"
    proof (cases "bs_count bs = 0")
      case False
      then obtain b where b: "bs_batches bs (bs_count bs) = Some b" using inv(2) by (auto simp: cache_inv_def)
      then have "batchKey (bs_count bs) \<in> set ks" by (auto simp: ks)
      then show ?thesis using num(1) batchKey_inject by metis
    qed simp
  qed (use num(2) in simp_all)
  moreover have "bs_kv (fold (\<lambda>k bs. cacheBatch bs (dcd k)) ks ?s0) = bs_kv bs" by (simp add: fold_cacheBatch_kv)
  ultimately have "fold (\<lambda>k bs. cacheBatch bs (dcd k)) ks ?s0 = bs" by simp
  then show ?thesis using load by (simp add: NewBatchStore_def ks_def)
qed

section \<open>Every sequence of operations\<close>

lemma ClearAll_wf:
  assumes "batch_store_wf J bs"
  shows "fst (ClearAll bs) = Inr ()" and "batch_store_wf J (snd (ClearAll bs))"
proof -
  let ?ks = "bg_keys (bs_kv bs) ''batch:'' @ bg_keys (bs_kv bs) ''blockhash:'' @ [''state:lastBlock'']"
  have h: "holds_batches J (map_of (bg_db (bs_kv bs))) (bs_batches bs)" using assms by (simp add: batch_store_wf_def)
  have c: "cache_inv (bs\<lparr>bs_batches := Map.empty, bs_count := 0\<rparr>)" by (simp add: cache_inv_def)
  have m: "Map.empty n = (if batchKey n \<in> set ?ks then None else bs_batches bs n)" for n
    using holds_batches_key [OF h, of n] by (cases "bs_batches bs n") (auto simp: bg_keys_dom)
  note d = delete_keys_wf [OF assms c m]
  have "bs\<lparr>bs_batches := Map.empty, bs_count := 0, bs_kv := kv\<rparr> = \<lparr>bs_batches = Map.empty, bs_count = 0, bs_kv = kv\<rparr>" for kv
    by simp
  then have "ClearAll bs = (Inr (), bs\<lparr>bs_batches := Map.empty, bs_count := 0, bs_kv := snd (bg_delete_keys (bs_kv bs) ?ks)\<rparr>)"
    using d(1) by (simp only: ClearAll_def) (auto split: prod.split)
  then show "fst (ClearAll bs) = Inr ()" "batch_store_wf J (snd (ClearAll bs))" using d(2) by simp_all
qed

lemma SaveBatchMetadata_wf:
  assumes "batch_store_wf J bs"
  shows "batch_store_wf J (snd (SaveBatchMetadata J bs b))"
proof -
  have inv: "store_inv (bs_kv bs)" using assms by (simp add: batch_store_wf_def)
  show ?thesis
  proof (cases "bj_marshalMeta J \<lparr>bm_Number = ib_Number b, bm_Hash = ib_Hash b, bm_PrevStateRoot = ib_OldStateRoot b,
        bm_NewStateRoot = ib_NewStateRoot b, bm_Timestamp = ib_Timestamp b, bm_TxCount = length (ib_Transactions b)\<rparr>")
    case (Inr z)
    have "SaveBatchMetadata J bs b = (Inr (), bs\<lparr>bs_kv := snd (bg_update (bs_kv bs) [(metaKey_ix (ib_Number b), z)])\<rparr>)"
      by (simp only: SaveBatchMetadata_def Inr sum.case) (subst bg_update_ok [OF inv], simp only: prod.case)
    then show ?thesis using other_key_wf [OF assms] by simp
  qed (simp add: SaveBatchMetadata_def assms)
qed

lemma GetBatch_wf:
  assumes "batch_store_wf J bs"
  shows "GetBatch_ix J bs n = ((case bs_batches bs n of None \<Rightarrow> Inl ''batch not found'' | Some b \<Rightarrow> Inr b), bs)"
proof (cases "bs_batches bs n")
  case None
  have w: "store_inv (bs_kv bs)" "holds_batches J (map_of (bg_db (bs_kv bs))) (bs_batches bs)"
    using assms by (simp_all add: batch_store_wf_def)
  have "map_of (bg_db (bs_kv bs)) (batchKey n) = None"
  proof (rule ccontr)
    assume "map_of (bg_db (bs_kv bs)) (batchKey n) \<noteq> None"
    then have "batchKey n \<in> batchKey ` dom (bs_batches bs)" using w(2) batchKey_prefix [of n] unfolding holds_batches_def by blast
    then show False using None by auto
  qed
  then show ?thesis using None w(1) by (simp add: GetBatch_ix_def bg_get_ok)
qed (simp add: GetBatch_ix_def)

datatype store_op =
    OpSave batch | OpDelete u64 | OpDeleteAfter u64 | OpClear | OpLastBlock u64 | OpBlockHash u64 string
  | OpLastDeleted u64 | OpMetadata batch | OpRead u64

fun store_step :: "batch_json \<Rightarrow> store_op \<Rightarrow> batch_store \<Rightarrow> batch_store" where
  "store_step J (OpSave b) bs = snd (SaveBatch J bs b)"
| "store_step J (OpDelete n) bs = snd (DeleteBatch bs n)"
| "store_step J (OpDeleteAfter n) bs = snd (DeleteBatchesAfter bs n)"
| "store_step J OpClear bs = snd (ClearAll bs)"
| "store_step J (OpLastBlock n) bs = snd (SetLastProcessedBlock bs n)"
| "store_step J (OpBlockHash n h) bs = snd (SetBlockHash bs n h)"
| "store_step J (OpLastDeleted n) bs = snd (SetLastDeletedBatch bs n)"
| "store_step J (OpMetadata b) bs = snd (SaveBatchMetadata J bs b)"
| "store_step J (OpRead n) bs = snd (GetBatch_ix J bs n)"

text \<open>
  What the operations ask of their caller: batches are numbered from 1, only a batch before the
  latest is deleted by number, and a rollback goes to a batch that is there or to none.
\<close>

fun store_op_ok :: "batch_json \<Rightarrow> batch_store \<Rightarrow> store_op \<Rightarrow> bool" where
  "store_op_ok J bs (OpSave b) \<longleftrightarrow> batch_json_keeps J b \<and> ib_Number b \<noteq> 0"
| "store_op_ok J bs (OpDelete n) \<longleftrightarrow> n \<noteq> bs_count bs"
| "store_op_ok J bs (OpDeleteAfter n) \<longleftrightarrow> n = 0 \<or> bs_batches bs n \<noteq> None"
| "store_op_ok J bs _ \<longleftrightarrow> True"

inductive store_reachable :: "batch_json \<Rightarrow> batch_store \<Rightarrow> bool" for J where
  opened: "store_inv kv \<Longrightarrow> bg_db kv = [] \<Longrightarrow> NewBatchStore J kv = Inr bs \<Longrightarrow> store_reachable J bs"
| operated: "store_reachable J bs \<Longrightarrow> store_op_ok J bs opn \<Longrightarrow> store_reachable J (store_step J opn bs)"

lemma store_reachable_wf: "store_reachable J bs \<Longrightarrow> batch_store_wf J bs"
proof (induction rule: store_reachable.induct)
  case (opened kv bs)
  then have "bs = \<lparr>bs_batches = Map.empty, bs_count = 0, bs_kv = kv\<rparr>"
    by (simp add: NewBatchStore_def bg_keys_def)
  then show ?case using opened by (simp add: batch_store_wf_def cache_inv_def holds_batches_def)
next
  case (operated bs opn)
  show ?case
  proof (cases opn)
    case (OpSave b)
    then show ?thesis using operated SaveBatch_wf by simp
  next
    case (OpDelete n)
    then show ?thesis using operated DeleteBatch_wf by simp
  next
    case (OpDeleteAfter n)
    then show ?thesis using operated DeleteBatchesAfter_wf by simp
  next
    case OpClear
    then show ?thesis using operated ClearAll_wf by simp
  qed (use operated in \<open>simp_all add: SetLastProcessedBlock_def SetLastDeletedBatch_def set_register_wf SetBlockHash_wf
      SaveBatchMetadata_wf GetBatch_wf\<close>)
qed


definition demo_ibatch :: "u64 \<Rightarrow> batch" where
  "demo_ibatch n = \<lparr>ib_Number = n, ib_Hash = ''h'', ib_Transactions = [], ib_OldStateRoot = ''0x0'', ib_NewStateRoot = ''0x0'',
     ib_Timestamp = 0, ib_Status = ''pending'', ib_Traces = [], ib_Trades = []\<rparr>"

definition demo_batch_json :: batch_json where
  "demo_batch_json = \<lparr>bj_marshal = \<lambda>b. Inr (dec_nat (unat (ib_Number b))),
     bj_unmarshal = \<lambda>z. case parse_unsigned z of None \<Rightarrow> Inl ''invalid character'' | Some v \<Rightarrow> Inr (demo_ibatch (of_nat v)),
     bj_marshalMeta = \<lambda>m. Inr ''m'', bj_unmarshalMeta = \<lambda>z. Inl ''invalid character''\<rparr>"

definition demo_kv :: badger where
  "demo_kv = \<lparr>bg_db = [], bg_get_err = \<lambda>_. False, bg_set_err = \<lambda>_. False\<rparr>"

lemma demo_keeps: "batch_json_keeps demo_batch_json (demo_ibatch n)"
  by (simp add: batch_json_keeps_def demo_batch_json_def demo_ibatch_def)


end
