(* ===== verification/IndexerBatch.thy ===== *)
theory IndexerBatch imports IndexerStore begin

text \<open>
  Building batches in the indexer: the trades of a transaction's call data,
  indexer/internal/indexer/abi_parser.go, and the batch builder, indexer/internal/indexer/batch.go.
  The ABI decoder, EIP-712 hashing and secp256k1 of go-ethereum are the record \<open>abi_lib\<close>.
\<close>

section \<open>Call data\<close>

record abi_order =
  ao_UserAddress :: bytes
  ao_BaseToken :: bytes
  ao_QuoteToken :: bytes
  ao_Amount :: u64
  ao_IsAmountInQuote :: bool
  ao_Nonce :: int
  ao_OrderType :: "8 word"
  ao_Side :: "8 word"
  ao_LimitPrice :: u64
  ao_StopPrice :: u64
  ao_TimeInForce :: "8 word"
  ao_CancelAfter :: u64
  ao_WalletSignature :: bytes
  ao_BalanceSnapshot :: u64
  ao_AllowanceSnapshot :: u64

datatype typed_value = TStr string | TBool bool

record typed_domain =
  td_Name :: string
  td_Version :: string
  td_ChainId :: int
  td_VerifyingContract :: string

text \<open>
  \<open>al_MethodById\<close> finds the method of a selector; \<open>al_Unpack\<close> decodes its arguments, the two order
  arrays as \<open>mapToStruct\<close> converts them; the hashes are those of \<open>TypedData.HashStruct\<close>.
\<close>

record abi_lib =
  al_MethodById :: "bytes \<Rightarrow> unit result"
  al_Unpack :: "bytes \<Rightarrow> (abi_order list \<times> abi_order list) result"
  al_HashDomain :: "(string \<times> string) list \<Rightarrow> typed_domain \<Rightarrow> bytes result"
  al_HashMessage :: "(string \<times> string) list \<Rightarrow> (string \<times> typed_value) list \<Rightarrow> bytes result"
  al_Keccak256 :: "bytes \<Rightarrow> bytes"
  al_Ecrecover :: "bytes \<Rightarrow> bytes \<Rightarrow> bytes result"
  al_UnmarshalPubkey :: "bytes \<Rightarrow> (nat \<times> nat) result"
  al_PubkeyToAddress :: "nat \<times> nat \<Rightarrow> string"

definition orderbook_domain :: typed_domain where
  "orderbook_domain = \<lparr>td_Name = ''Nowa_Orderbook'', td_Version = ''1'', td_ChainId = 262144,
     td_VerifyingContract = ''0xd28c36adcd614d4ec42ca800114eded644b28189''\<rparr>"

definition domain_types :: "(string \<times> string) list" where
  "domain_types = [(''name'', ''string''), (''version'', ''string''), (''chainId'', ''uint256''),
     (''verifyingContract'', ''address'')]"

definition order_types :: "(string \<times> string) list" where
  "order_types =
     [(''userAddress'', ''address''), (''baseToken'', ''address''), (''quoteToken'', ''address''),
      (''amount'', ''uint64''), (''isAmountInQuote'', ''bool''), (''nonce'', ''uint128''),
      (''orderType'', ''uint8''), (''side'', ''uint8''), (''limitPrice'', ''uint64''), (''stopPrice'', ''uint64''),
      (''timeInForce'', ''uint8''), (''cancelAfter'', ''uint64''), (''balanceSnapshot'', ''uint64''),
      (''allowanceSnapshot'', ''uint64'')]"

definition order_typed_message :: "abi_order \<Rightarrow> (string \<times> typed_value) list" where
  "order_typed_message r =
     [(''userAddress'', TStr (''0x'' @ hex_encode (ao_UserAddress r))),
      (''baseToken'', TStr (''0x'' @ hex_encode (ao_BaseToken r))),
      (''quoteToken'', TStr (''0x'' @ hex_encode (ao_QuoteToken r))),
      (''amount'', TStr (dec_nat (unat (ao_Amount r)))),
      (''isAmountInQuote'', TBool (ao_IsAmountInQuote r)),
      (''nonce'', TStr (dec (ao_Nonce r))),
      (''orderType'', TStr (dec_nat (unat (ao_OrderType r)))),
      (''side'', TStr (dec_nat (unat (ao_Side r)))),
      (''limitPrice'', TStr (dec_nat (unat (ao_LimitPrice r)))),
      (''stopPrice'', TStr (dec_nat (unat (ao_StopPrice r)))),
      (''timeInForce'', TStr (dec_nat (unat (ao_TimeInForce r)))),
      (''cancelAfter'', TStr (dec_nat (unat (ao_CancelAfter r)))),
      (''balanceSnapshot'', TStr (dec_nat (unat (ao_BalanceSnapshot r)))),
      (''allowanceSnapshot'', TStr (dec_nat (unat (ao_AllowanceSnapshot r))))]"

text \<open>\<open>big.Int.Bytes\<close>: big-endian without leading zeros.\<close>

fun big_Bytes :: "nat \<Rightarrow> bytes" where
  "big_Bytes n = (if n = 0 then [] else big_Bytes (n div 256) @ [char_of (n mod 256)])"

declare big_Bytes.simps [simp del]

definition recovery_id :: "bytes \<Rightarrow> bytes" where
  "recovery_id sig = (if 27 \<le> (of_char (sig ! 64) :: nat) then sig[64 := char_of (of_char (sig ! 64) - 27 :: nat)] else sig)"

definition extractTrade :: "abi_lib \<Rightarrow> abi_order \<Rightarrow> parsed_trade result" where
  "extractTrade A r =
     (case al_HashDomain A domain_types orderbook_domain of
        Inl err \<Rightarrow> Inl err
      | Inr domainSeparator \<Rightarrow>
          (case al_HashMessage A order_types (order_typed_message r) of
             Inl err \<Rightarrow> Inl err
           | Inr typedDataHash \<Rightarrow>
               (let messageHash = al_Keccak256 A ([CHR 0x19, CHR 0x01] @ domainSeparator @ typedDataHash);
                    sig = ao_WalletSignature r
                in if length sig < 65 then Inl ''invalid signature length''
                   else
                     (let sig = recovery_id sig
                      in case al_Ecrecover A messageHash sig of
                           Inl err \<Rightarrow> Inl err
                         | Inr pubKeyBytes \<Rightarrow>
                             (case al_UnmarshalPubkey A pubKeyBytes of
                                Inl err \<Rightarrow> Inl err
                              | Inr (X, Y) \<Rightarrow>
                                  Inr \<lparr>pt_MessageHash = hex_encode messageHash, pt_PubKeyX = hex_encode (big_Bytes X),
                                    pt_PubKeyY = hex_encode (big_Bytes Y), pt_SigR = hex_encode (take 32 sig),
                                    pt_SigS = hex_encode (take 32 (drop 32 sig)),
                                    pt_SignerAddress = al_PubkeyToAddress A (X, Y)\<rparr>)))))"

definition ParseTradesFromTxData :: "abi_lib \<Rightarrow> string \<Rightarrow> parsed_trade list result" where
  "ParseTradesFromTxData A txDataHex =
     (case hex_decode (trim_prefix ''0x'' txDataHex) of
        None \<Rightarrow> Inl ''encoding/hex: invalid input''
      | Some txData \<Rightarrow>
          if length txData < 4 then Inl ''transaction data too short''
          else
            (case al_MethodById A (take 4 txData) of
               Inl err \<Rightarrow> Inl err
             | Inr _ \<Rightarrow>
                 (case al_Unpack A (drop 4 txData) of
                    Inl err \<Rightarrow> Inl err
                  | Inr (buys, sells) \<Rightarrow>
                      Inr (List.map_filter (\<lambda>r. case extractTrade A r of Inl _ \<Rightarrow> None | Inr t \<Rightarrow> Some t) (buys @ sells)))))"

section \<open>The batch builder\<close>

record batch_builder =
  bb_batchNum :: u64
  bb_processedTxs :: "string set"

definition NewBatchBuilder :: "u64 \<Rightarrow> batch_builder" where
  "NewBatchBuilder initialBatchNum = \<lparr>bb_batchNum = initialBatchNum, bb_processedTxs = {}\<rparr>"

definition filterProcessedTxs :: "batch_builder \<Rightarrow> rpc_tx list \<Rightarrow> rpc_tx list" where
  "filterProcessedTxs bb txs = List.filter (\<lambda>tx. rt_Hash tx \<notin> bb_processedTxs bb) txs"

text \<open>\<open>(*big.Int)(nil).String()\<close> is \<open><nil>\<close>.\<close>

definition tx_trace :: "rpc_tx \<Rightarrow> execution_trace" where
  "tx_trace tx =
     \<lparr>et_TxHash = rt_Hash tx, et_From = rt_From tx,
      et_To = (if rt_IsContractDeployment tx then [] else rt_To tx),
      et_ContractAddress = (if rt_IsContractDeployment tx then rt_ContractAddress tx else []),
      et_IsContractDeployment = rt_IsContractDeployment tx,
      et_Value = (case rt_Value tx of None \<Rightarrow> ''<nil>'' | Some v \<Rightarrow> dec v),
      et_Nonce = rt_Nonce tx, et_OldBalance = ''0'', et_NewBalance = ''0''\<rparr>"

definition tx_trades :: "abi_lib \<Rightarrow> rpc_tx \<Rightarrow> parsed_trade list" where
  "tx_trades A tx = (case ParseTradesFromTxData A (rt_Data tx) of Inl _ \<Rightarrow> [] | Inr ts \<Rightarrow> ts)"

definition batch_preimage :: "batch \<Rightarrow> string" where
  "batch_preimage b =
     dec_nat (unat (ib_Number b)) @ '':'' @ ib_OldStateRoot b @ '':'' @ ib_NewStateRoot b @ '':'' @ dec (ib_Timestamp b) @
     concat (map (\<lambda>tx. CHR '':'' # rt_Hash tx) (ib_Transactions b))"

definition computeBatchHash :: "abi_lib \<Rightarrow> batch \<Rightarrow> string" where
  "computeBatchHash A b = ''0x'' @ hex_encode (al_Keccak256 A (batch_preimage b))"

definition mark_processed :: "batch_builder \<Rightarrow> rpc_tx list \<Rightarrow> batch_builder" where
  "mark_processed bb txs = bb\<lparr>bb_processedTxs := bb_processedTxs bb \<union> rt_Hash ` set txs\<rparr>"

definition BuildBatch :: "abi_lib \<Rightarrow> int \<Rightarrow> batch_builder \<Rightarrow> rpc_tx list \<Rightarrow> batch result \<times> batch_builder" where
  "BuildBatch A now bb txs =
     (let txs = filterProcessedTxs bb txs
      in if txs = [] then (Inl ''no transactions provided (or all were duplicates)'', bb)
         else
           let b = \<lparr>ib_Number = bb_batchNum bb, ib_Hash = [], ib_Transactions = txs, ib_OldStateRoot = ''0x0'',
                 ib_NewStateRoot = ''0x0'', ib_Timestamp = now, ib_Status = ''pending'', ib_Traces = map tx_trace txs,
                 ib_Trades = concat (map (tx_trades A) txs)\<rparr>
           in (Inr (b\<lparr>ib_Hash := computeBatchHash A b\<rparr>), (mark_processed bb txs)\<lparr>bb_batchNum := bb_batchNum bb + 1\<rparr>))"

text \<open>\<open>AppendToBatch\<close> writes through the pointer it is given; the changed batch is the result.\<close>

definition AppendToBatch :: "abi_lib \<Rightarrow> batch_builder \<Rightarrow> batch \<Rightarrow> rpc_tx list \<Rightarrow> batch result \<times> batch_builder" where
  "AppendToBatch A bb b newTxs =
     (let newTxs = filterProcessedTxs bb newTxs
      in if newTxs = [] then (Inl ''no transactions to append (or all were duplicates)'', bb)
         else
           let b = b\<lparr>ib_Transactions := ib_Transactions b @ newTxs, ib_Traces := ib_Traces b @ map tx_trace newTxs,
                 ib_Trades := ib_Trades b @ concat (map (tx_trades A) newTxs)\<rparr>
           in (Inr (b\<lparr>ib_Hash := computeBatchHash A b\<rparr>), mark_processed bb newTxs))"

section \<open>Well-formed batches\<close>

text \<open>What every batch the builder made or extended satisfies.\<close>

definition built :: "abi_lib \<Rightarrow> batch \<Rightarrow> bool" where
  "built A b \<longleftrightarrow>
     ib_Transactions b \<noteq> [] \<and> ib_Status b = ''pending'' \<and> ib_Hash b = computeBatchHash A b \<and>
     ib_Traces b = map tx_trace (ib_Transactions b) \<and> ib_Trades b = concat (map (tx_trades A) (ib_Transactions b))"

lemma batch_preimage_hash [simp]: "batch_preimage (b\<lparr>ib_Hash := h\<rparr>) = batch_preimage b"
  by (simp add: batch_preimage_def)

lemma filterProcessedTxs_new:
  "\<forall>tx \<in> set txs. rt_Hash tx \<notin> bb_processedTxs bb \<Longrightarrow> filterProcessedTxs bb txs = txs"
  by (simp add: filterProcessedTxs_def)

lemma BuildBatch_built: "BuildBatch A now bb txs = (Inr b, bb') \<Longrightarrow> built A b \<and> ib_Number b = bb_batchNum bb"
  by (auto simp: BuildBatch_def Let_def built_def computeBatchHash_def batch_preimage_def split: if_splits)

lemma AppendToBatch_built: "built A b \<Longrightarrow> AppendToBatch A bb b txs = (Inr b', bb') \<Longrightarrow> built A b' \<and> ib_Number b' = ib_Number b"
  by (auto simp: AppendToBatch_def Let_def built_def computeBatchHash_def batch_preimage_def split: if_splits)

end
