(* ===== verification/IndexerConfig.thy ===== *)
theory IndexerConfig imports Prelude begin

text \<open>
  The indexer's configuration, indexer/internal/indexer/types/config.go and indexer/pkg/config/config.go:
  environment variables after \<open>godotenv\<close> are a function, a YAML file is what reading and decoding it
  does to a configuration. A panic is an error whose text says so.
\<close>

record indexer_config =
  ic_RPCURL :: string
  ic_WSURL :: string
  ic_BatchSize :: int
  ic_BatchInterval :: u64
  ic_APIPort :: int
  ic_StateDBPath :: string
  ic_IndexFromBlock :: u64
  ic_ProverAPI :: string
  ic_TargetContract :: string

definition DefaultConfig :: indexer_config where
  "DefaultConfig =
     \<lparr>ic_RPCURL = [], ic_WSURL = [], ic_BatchSize = 25, ic_BatchInterval = 5 * 1000000000, ic_APIPort = 8080,
      ic_StateDBPath = ''.nowa-zk/indexer/data'', ic_IndexFromBlock = 0, ic_ProverAPI = ''http://localhost:8081'',
      ic_TargetContract = []\<rparr>"

text \<open>\<open>strconv.Atoi\<close> with 64-bit integers, and \<open>ParseUint(s, 10, 64)\<close>.\<close>

definition Atoi :: "string \<Rightarrow> int option" where
  "Atoi s = (case parse_dec s of None \<Rightarrow> None | Some v \<Rightarrow> if - (2 ^ 63) \<le> v \<and> v < 2 ^ 63 then Some v else None)"

definition parse_u64 :: "string \<Rightarrow> u64 option" where
  "parse_u64 s = (case parse_unsigned s of None \<Rightarrow> None | Some v \<Rightarrow> if v < 2 ^ 64 then Some (of_nat v) else None)"

text \<open>An optional variable: unset leaves the configuration, a value that does not parse is an error.\<close>

definition env_set ::
  "(string \<Rightarrow> string) \<Rightarrow> string \<Rightarrow> (string \<Rightarrow> 'v option) \<Rightarrow> ('v \<Rightarrow> indexer_config \<Rightarrow> indexer_config) \<Rightarrow>
   indexer_config result \<Rightarrow> indexer_config result" where
  "env_set env key parse upd r =
     (case r of
        Inl err \<Rightarrow> Inl err
      | Inr c \<Rightarrow>
          if env key = [] then Inr c
          else case parse (env key) of None \<Rightarrow> Inl (''invalid '' @ key) | Some v \<Rightarrow> Inr (upd v c))"

definition env_rpc_url :: "(string \<Rightarrow> string) \<Rightarrow> string" where
  "env_rpc_url env =
     (if env ''NOWA_ZK_RPC_URL'' \<noteq> [] then env ''NOWA_ZK_RPC_URL''
      else if env ''L2_RPC_URL'' \<noteq> [] then env ''L2_RPC_URL''
      else if env ''RPC_URL'' \<noteq> [] then env ''RPC_URL''
      else env ''RPC'')"

definition LoadFromEnv :: "(string \<Rightarrow> string) \<Rightarrow> indexer_config result" where
  "LoadFromEnv env =
     env_set env ''TARGET_CONTRACT'' Some (\<lambda>v. ic_TargetContract_update (\<lambda>_. v))
    (env_set env ''PROVER_API'' Some (\<lambda>v. ic_ProverAPI_update (\<lambda>_. v))
    (env_set env ''INDEX_FROM_BLOCK'' parse_u64 (\<lambda>v. ic_IndexFromBlock_update (\<lambda>_. v))
    (env_set env ''STATE_DB_PATH'' Some (\<lambda>v. ic_StateDBPath_update (\<lambda>_. v))
    (env_set env ''API_PORT'' Atoi (\<lambda>v. ic_APIPort_update (\<lambda>_. v))
    (env_set env ''BATCH_INTERVAL'' Atoi (\<lambda>v. ic_BatchInterval_update (\<lambda>_. of_int v * 1000000000))
    (env_set env ''BATCH_SIZE'' Atoi (\<lambda>v. ic_BatchSize_update (\<lambda>_. v))
    (env_set env ''WS'' Some (\<lambda>v. ic_WSURL_update (\<lambda>_. v))
       (Inr (DefaultConfig\<lparr>ic_RPCURL := env_rpc_url env\<rparr>)))))))))"

datatype yaml_file = Missing | Unreadable | Yaml "indexer_config \<Rightarrow> indexer_config result"

definition LoadFromYAML :: "yaml_file \<Rightarrow> indexer_config result" where
  "LoadFromYAML f =
     (case f of
        Missing \<Rightarrow> Inl ''file does not exist''
      | Unreadable \<Rightarrow> Inl ''read error''
      | Yaml decode \<Rightarrow> (case decode DefaultConfig of Inl err \<Rightarrow> Inl ''failed to parse YAML config'' | Inr c \<Rightarrow> Inr c))"

definition override :: "('v \<Rightarrow> bool) \<Rightarrow> 'v \<Rightarrow> ('v \<Rightarrow> indexer_config \<Rightarrow> indexer_config) \<Rightarrow> indexer_config \<Rightarrow> indexer_config" where
  "override given v upd c = (if given v then upd v c else c)"

definition override_env :: "indexer_config \<Rightarrow> indexer_config \<Rightarrow> indexer_config" where
  "override_env e c =
     override (\<lambda>v. v \<noteq> []) (ic_TargetContract e) (\<lambda>v. ic_TargetContract_update (\<lambda>_. v))
    (override (\<lambda>v. v \<noteq> []) (ic_ProverAPI e) (\<lambda>v. ic_ProverAPI_update (\<lambda>_. v))
    (override (\<lambda>v. v > 0) (ic_IndexFromBlock e) (\<lambda>v. ic_IndexFromBlock_update (\<lambda>_. v))
    (override (\<lambda>v. v \<noteq> []) (ic_StateDBPath e) (\<lambda>v. ic_StateDBPath_update (\<lambda>_. v))
    (override (\<lambda>v. v > 0) (ic_APIPort e) (\<lambda>v. ic_APIPort_update (\<lambda>_. v))
    (override (\<lambda>v. v > 0) (ic_BatchSize e) (\<lambda>v. ic_BatchSize_update (\<lambda>_. v))
    (override (\<lambda>v. v \<noteq> []) (ic_WSURL e) (\<lambda>v. ic_WSURL_update (\<lambda>_. v))
    (override (\<lambda>v. v \<noteq> []) (ic_RPCURL e) (\<lambda>v. ic_RPCURL_update (\<lambda>_. v)) c)))))))"

definition override_flags :: "string \<Rightarrow> string \<Rightarrow> string \<Rightarrow> int \<Rightarrow> int \<Rightarrow> indexer_config \<Rightarrow> indexer_config" where
  "override_flags rpcURL wsURL stateDBPath batchSize apiPort c =
     override (\<lambda>v. v > 0) apiPort (\<lambda>v. ic_APIPort_update (\<lambda>_. v))
    (override (\<lambda>v. v > 0) batchSize (\<lambda>v. ic_BatchSize_update (\<lambda>_. v))
    (override (\<lambda>v. v \<noteq> []) stateDBPath (\<lambda>v. ic_StateDBPath_update (\<lambda>_. v))
    (override (\<lambda>v. v \<noteq> []) wsURL (\<lambda>v. ic_WSURL_update (\<lambda>_. v))
    (override (\<lambda>v. v \<noteq> []) rpcURL (\<lambda>v. ic_RPCURL_update (\<lambda>_. v)) c))))"

text \<open>
  An error of \<open>LoadFromEnv\<close> is dropped with its nil configuration, and the first field read from it
  is a nil dereference.
\<close>

definition LoadWithOverrides ::
  "(string \<Rightarrow> string) \<Rightarrow> (string \<Rightarrow> yaml_file) \<Rightarrow> string \<Rightarrow> string \<Rightarrow> string \<Rightarrow> string \<Rightarrow> int \<Rightarrow> int \<Rightarrow> indexer_config result" where
  "LoadWithOverrides env files configPath rpcURL wsURL stateDBPath batchSize apiPort =
     (let loaded = (if configPath = [] then Inr DefaultConfig
                    else if files configPath = Missing then Inr DefaultConfig
                    else LoadFromYAML (files configPath))
      in case loaded of
           Inl err \<Rightarrow> Inl err
         | Inr c \<Rightarrow>
             (case LoadFromEnv env of
                Inl err \<Rightarrow> Inl ''panic: invalid memory address or nil pointer dereference''
              | Inr e \<Rightarrow>
                  (let c = override_flags rpcURL wsURL stateDBPath batchSize apiPort (override_env e c)
                   in if ic_RPCURL c = [] then Inl ''NOWA_ZK_RPC_URL is required''
                      else if ic_TargetContract c = [] then Inl ''TARGET_CONTRACT is required''
                      else Inr c)))"

section \<open>Which source wins\<close>

lemma env_set_unset: "env key = [] \<Longrightarrow> env_set env key parse upd r = r"
  by (simp add: env_set_def split: sum.split)

definition field_is :: "(indexer_config \<Rightarrow> 'x) \<Rightarrow> 'x \<Rightarrow> indexer_config result \<Rightarrow> bool" where
  "field_is fld x r \<longleftrightarrow> (\<forall>c. r = Inr c \<longrightarrow> fld c = x)"

lemma field_is_env_set:
  "field_is fld x r \<Longrightarrow> env key = [] \<or> (\<forall>v c. fld (upd v c) = fld c) \<Longrightarrow> field_is fld x (env_set env key parse upd r)"
  by (auto simp: field_is_def env_set_def split: sum.splits option.splits)

lemma field_is_Inr: "fld c = x \<Longrightarrow> field_is fld x (Inr c)"
  by (simp add: field_is_def)

lemma LoadFromEnv_defaults:
  assumes "LoadFromEnv env = Inr e"
  shows "env ''BATCH_SIZE'' = [] \<Longrightarrow> ic_BatchSize e = 25" "env ''API_PORT'' = [] \<Longrightarrow> ic_APIPort e = 8080"
    "env ''STATE_DB_PATH'' = [] \<Longrightarrow> ic_StateDBPath e = ''.nowa-zk/indexer/data''"
    "env ''PROVER_API'' = [] \<Longrightarrow> ic_ProverAPI e = ''http://localhost:8081''"
proof -
  show "ic_BatchSize e = 25" if "env ''BATCH_SIZE'' = []"
  proof -
    have "field_is ic_BatchSize 25 (LoadFromEnv env)"
      unfolding LoadFromEnv_def by (intro field_is_env_set field_is_Inr) (simp_all add: that DefaultConfig_def)
    then show ?thesis using assms by (simp add: field_is_def)
  qed
  show "ic_APIPort e = 8080" if "env ''API_PORT'' = []"
  proof -
    have "field_is ic_APIPort 8080 (LoadFromEnv env)"
      unfolding LoadFromEnv_def by (intro field_is_env_set field_is_Inr) (simp_all add: that DefaultConfig_def)
    then show ?thesis using assms by (simp add: field_is_def)
  qed
  show "ic_StateDBPath e = ''.nowa-zk/indexer/data''" if "env ''STATE_DB_PATH'' = []"
  proof -
    have "field_is ic_StateDBPath ''.nowa-zk/indexer/data'' (LoadFromEnv env)"
      unfolding LoadFromEnv_def by (intro field_is_env_set field_is_Inr) (simp_all add: that DefaultConfig_def)
    then show ?thesis using assms by (simp add: field_is_def)
  qed
  show "ic_ProverAPI e = ''http://localhost:8081''" if "env ''PROVER_API'' = []"
  proof -
    have "field_is ic_ProverAPI ''http://localhost:8081'' (LoadFromEnv env)"
      unfolding LoadFromEnv_def by (intro field_is_env_set field_is_Inr) (simp_all add: that DefaultConfig_def)
    then show ?thesis using assms by (simp add: field_is_def)
  qed
qed

lemma override_skip: "(\<And>v c. fld (upd v c) = fld c) \<Longrightarrow> fld (override g v upd c) = fld c"
  by (simp add: override_def)

lemma override_take: "(\<And>v c. fld (upd v c) = v) \<Longrightarrow> fld (override g v upd c) = (if g v then v else fld c)"
  by (simp add: override_def)

lemma overridden:
  "ic_BatchSize (override_flags rpcURL wsURL dbPath batchSize apiPort (override_env e c)) =
     (if batchSize > 0 then batchSize else if ic_BatchSize e > 0 then ic_BatchSize e else ic_BatchSize c)"
  "ic_APIPort (override_flags rpcURL wsURL dbPath batchSize apiPort (override_env e c)) =
     (if apiPort > 0 then apiPort else if ic_APIPort e > 0 then ic_APIPort e else ic_APIPort c)"
  "ic_StateDBPath (override_flags rpcURL wsURL dbPath batchSize apiPort (override_env e c)) =
     (if dbPath \<noteq> [] then dbPath else if ic_StateDBPath e \<noteq> [] then ic_StateDBPath e else ic_StateDBPath c)"
  "ic_ProverAPI (override_flags rpcURL wsURL dbPath batchSize apiPort (override_env e c)) =
     (if ic_ProverAPI e \<noteq> [] then ic_ProverAPI e else ic_ProverAPI c)"
  by (simp_all add: override_flags_def override_env_def
      override_skip [of ic_BatchSize] override_take [of ic_BatchSize] override_skip [of ic_APIPort] override_take [of ic_APIPort]
      override_skip [of ic_StateDBPath] override_take [of ic_StateDBPath] override_skip [of ic_ProverAPI] override_take [of ic_ProverAPI])

text \<open>
  A configuration that loads has an endpoint and a target contract. Where neither a variable nor a
  flag is given, the batch size, the API port, the database path and the prover endpoint are the
  built-in defaults whatever the YAML file says: the defaults LoadFromEnv starts from count as values
  of the environment.
\<close>

theorem yaml_settings_lost:
  assumes "LoadWithOverrides env files path rpcURL wsURL dbPath batchSize apiPort = Inr c"
  shows "ic_RPCURL c \<noteq> [] \<and> ic_TargetContract c \<noteq> [] \<and>
    (env ''BATCH_SIZE'' = [] \<and> batchSize \<le> 0 \<longrightarrow> ic_BatchSize c = 25) \<and>
    (env ''API_PORT'' = [] \<and> apiPort \<le> 0 \<longrightarrow> ic_APIPort c = 8080) \<and>
    (env ''STATE_DB_PATH'' = [] \<and> dbPath = [] \<longrightarrow> ic_StateDBPath c = ''.nowa-zk/indexer/data'') \<and>
    (env ''PROVER_API'' = [] \<longrightarrow> ic_ProverAPI c = ''http://localhost:8081'')"
proof -
  obtain e c0 where e: "LoadFromEnv env = Inr e"
    and c: "c = override_flags rpcURL wsURL dbPath batchSize apiPort (override_env e c0)"
    "ic_RPCURL c \<noteq> []" "ic_TargetContract c \<noteq> []"
    using assms by (auto simp: LoadWithOverrides_def Let_def split: sum.splits if_splits)
  note d = LoadFromEnv_defaults [OF e]
  show ?thesis using c(2,3) d unfolding c(1) overridden by (intro conjI) simp_all
qed

definition demo_yaml :: "string \<Rightarrow> yaml_file" where
  "demo_yaml path = (if path = ''indexer.yaml'' then
     Yaml (\<lambda>c. Inr (c\<lparr>ic_RPCURL := ''http://node'', ic_TargetContract := ''0xd28c'', ic_BatchSize := 5, ic_APIPort := 9000\<rparr>))
     else Missing)"

lemma yaml_settings_lost_witness:
  "\<exists>c. LoadWithOverrides (\<lambda>_. []) demo_yaml ''indexer.yaml'' [] [] [] 0 0 = Inr c \<and>
     ic_RPCURL c = ''http://node'' \<and> ic_BatchSize c = 25 \<and> ic_APIPort c = 8080"
proof -
  have e: "LoadFromEnv (\<lambda>_. []) = Inr DefaultConfig"
    by (simp add: LoadFromEnv_def env_set_unset env_rpc_url_def DefaultConfig_def)
  have "\<exists>c. LoadWithOverrides (\<lambda>_. []) demo_yaml ''indexer.yaml'' [] [] [] 0 0 = Inr c \<and> ic_RPCURL c = ''http://node''"
    by (simp add: LoadWithOverrides_def e demo_yaml_def LoadFromYAML_def DefaultConfig_def override_flags_def
        override_env_def override_def)
  then obtain c where c: "LoadWithOverrides (\<lambda>_. []) demo_yaml ''indexer.yaml'' [] [] [] 0 0 = Inr c"
    "ic_RPCURL c = ''http://node''" by blast
  show ?thesis using yaml_settings_lost [OF c(1)] c by simp
qed

end
