(* ===== verification/Indexer.thy ===== *)
theory Indexer imports IndexerBatch IndexerConfig begin

text \<open>
  The indexer service, indexer/internal/indexer/indexer.go and process_block_range.go: start-up, the
  polling tick, block ranges, the reorg check, and the loops that put transactions into batches. What
  the node answers during a tick is a \<open>node_view\<close>. Shutdown by the context, the parallel fetch of a
  range (its results are indexed by block) and logging are not modelled.
\<close>

section \<open>The service\<close>

record rpc_block =
  rb_Number :: "int option"
  rb_Hash :: string
  rb_ParentHash :: string
  rb_Timestamp :: "int option"
  rb_StateRoot :: string
  rb_Transactions :: "rpc_tx list"

text \<open>\<open>ie_now\<close> is the clock: its answer to the \<open>k\<close>-th question.\<close>

record indexer_env =
  ie_config :: indexer_config
  ie_json :: batch_json
  ie_abi :: abi_lib
  ie_now :: "nat \<Rightarrow> int"

text \<open>
  \<open>BlockNumber\<close>, the answer to the \<open>k\<close>-th \<open>GetBlockByNumber\<close> of a block with its transactions, and
  the answer to the one without.
\<close>

record node_view =
  nv_BlockNumber :: "u64 result"
  nv_GetBlock :: "u64 \<Rightarrow> nat \<Rightarrow> rpc_block result"
  nv_GetHeader :: "u64 \<Rightarrow> rpc_block result"

text \<open>The notifier holds the numbers of the batches whose pointers are in the channel.\<close>

record service =
  sv_batches :: batch_store
  sv_builder :: batch_builder
  sv_clock :: nat
  sv_notifier :: "u64 list"

datatype loop_end = Drained | Aborted | Panicked

abbreviation batch_size :: "indexer_env \<Rightarrow> int" where
  "batch_size E \<equiv> ic_BatchSize (ie_config E)"

definition NotifyNewBatch :: "service \<Rightarrow> batch \<Rightarrow> service" where
  "NotifyNewBatch s b = (if length (sv_notifier s) < 100 then s\<lparr>sv_notifier := sv_notifier s @ [ib_Number b]\<rparr> else s)"

section \<open>Making and filling batches\<close>

definition createBatchFromTransactions :: "indexer_env \<Rightarrow> rpc_tx list \<Rightarrow> service \<Rightarrow> service" where
  "createBatchFromTransactions E txs s =
     (if txs = [] then s
      else
        case BuildBatch (ie_abi E) (ie_now E (sv_clock s)) (sv_builder s) txs of
          (Inl err, bb) \<Rightarrow> s\<lparr>sv_builder := bb\<rparr>
        | (Inr b, bb) \<Rightarrow>
            (let s = s\<lparr>sv_builder := bb, sv_clock := sv_clock s + 1\<rparr>
             in case SaveBatch (ie_json E) (sv_batches s) b of
                  (Inl err, bs) \<Rightarrow> s\<lparr>sv_batches := bs\<rparr>
                | (Inr _, bs) \<Rightarrow>
                    (let s = s\<lparr>sv_batches := bs\<rparr>
                     in if batch_size E \<le> int (length (ib_Trades b)) then NotifyNewBatch s b else s)))"

text \<open>The cached batch behind the pointer of \<open>GetIncompleteBatch\<close> is the one at the count.\<close>

definition write_through :: "batch_store \<Rightarrow> batch \<Rightarrow> batch_store" where
  "write_through bs b = bs\<lparr>bs_batches := (bs_batches bs)(bs_count bs \<mapsto> b)\<rparr>"

definition append_and_save :: "indexer_env \<Rightarrow> batch \<Rightarrow> rpc_tx list \<Rightarrow> service \<Rightarrow> unit result \<times> service" where
  "append_and_save E b txs s =
     (case AppendToBatch (ie_abi E) (sv_builder s) b txs of
        (Inl err, bb) \<Rightarrow> (Inl err, s\<lparr>sv_builder := bb\<rparr>)
      | (Inr b', bb) \<Rightarrow>
          (case SaveBatch (ie_json E) (write_through (sv_batches s) b') b' of
             (Inl err, bs) \<Rightarrow> (Inl err, s\<lparr>sv_builder := bb, sv_batches := bs\<rparr>)
           | (Inr _, bs) \<Rightarrow> (Inr (), NotifyNewBatch (s\<lparr>sv_builder := bb, sv_batches := bs\<rparr>) b')))"

text \<open>
  The loop of \<open>processBlockRange\<close> over the transactions of one block. \<open>None\<close> is a loop that does not
  end; slicing with a negative batch size panics.
\<close>

definition has_space :: "indexer_env \<Rightarrow> service \<Rightarrow> batch option" where
  "has_space E s =
     (case GetIncompleteBatch (sv_batches s) (batch_size E) of
        Inl err \<Rightarrow> None
      | Inr b \<Rightarrow> if 0 < batch_size E - int (length (ib_Transactions b)) then Some b else None)"

partial_function (option) batch_loop :: "indexer_env \<Rightarrow> rpc_tx list \<Rightarrow> service \<Rightarrow> (loop_end \<times> service) option" where
  "batch_loop E txs s =
     (if txs = [] then Some (Drained, s)
      else
        case has_space E s of
          Some b \<Rightarrow>
            (let added = take (nat (batch_size E - int (length (ib_Transactions b)))) txs
             in case append_and_save E b added s of
                  (Inl err, s') \<Rightarrow> Some (Aborted, s')
                | (Inr _, s') \<Rightarrow> batch_loop E (drop (length added) txs) s')
        | None \<Rightarrow>
            if batch_size E \<le> int (length txs) then
              if batch_size E < 0 then Some (Panicked, s)
              else batch_loop E (drop (nat (batch_size E)) txs)
                     (createBatchFromTransactions E (take (nat (batch_size E)) txs) s)
            else Some (Drained, createBatchFromTransactions E txs s))"

fun run_blocks :: "indexer_env \<Rightarrow> (u64 \<times> rpc_tx list) list \<Rightarrow> service \<Rightarrow> (loop_end \<times> service) option" where
  "run_blocks E [] s = Some (Drained, s)"
| "run_blocks E ((n, txs) # blocks) s =
     (case batch_loop E txs s of
        None \<Rightarrow> None
      | Some (r, s') \<Rightarrow> if r = Drained then run_blocks E blocks s' else Some (r, s'))"

section \<open>The chain\<close>

text \<open>Up to five attempts, the last error when all fail.\<close>

definition fetch_block :: "node_view \<Rightarrow> u64 \<Rightarrow> rpc_block result" where
  "fetch_block V n =
     (case List.find (\<lambda>k. is_ok (nv_GetBlock V n k)) [1..<6] of
        Some k \<Rightarrow> nv_GetBlock V n k
      | None \<Rightarrow> nv_GetBlock V n 5)"

text \<open>\<open>strings.ToLower\<close> on the ASCII text of an address.\<close>

definition ToLower :: "string \<Rightarrow> string" where
  "ToLower s = map (\<lambda>c. if 65 \<le> (of_char c :: nat) \<and> of_char c \<le> (90 :: nat) then char_of (of_char c + 32 :: nat) else c) s"

definition targetSelector :: string where
  "targetSelector = ''0x7864fe7a''"

definition relevant :: "indexer_env \<Rightarrow> rpc_tx \<Rightarrow> bool" where
  "relevant E tx \<longleftrightarrow>
     ToLower (rt_To tx) = ToLower (ic_TargetContract (ie_config E)) \<and> has_prefix targetSelector (rt_Data tx)"

fun find_fork :: "node_view \<Rightarrow> batch_store \<Rightarrow> nat \<Rightarrow> u64 result" where
  "find_fork V bs 0 = Inr 0"
| "find_fork V bs (Suc n) =
     (case nv_GetHeader V (of_nat (Suc n)) of
        Inl err \<Rightarrow> Inl ''failed to get block''
      | Inr blk \<Rightarrow>
          (case GetBlockHash bs (of_nat (Suc n)) of
             Inl err \<Rightarrow> find_fork V bs n
           | Inr storedHash \<Rightarrow> if storedHash = rb_Hash blk then Inr (of_nat (Suc n)) else find_fork V bs n))"

definition findForkPoint :: "node_view \<Rightarrow> batch_store \<Rightarrow> u64 \<Rightarrow> u64 result" where
  "findForkPoint V bs currentBlock = find_fork V bs (unat currentBlock)"

definition handleReorg :: "batch_store \<Rightarrow> u64 \<Rightarrow> unit result \<times> batch_store" where
  "handleReorg bs forkPoint =
     (case GetLatestBatch_ix bs of
        Inl err \<Rightarrow> (Inr (), bs)
      | Inr latest \<Rightarrow>
          (case DeleteBatchesAfter bs (ib_Number latest) of
             (Inl err, bs') \<Rightarrow> (Inl ''failed to delete batches'', bs')
           | (Inr _, bs') \<Rightarrow> (Inr (), bs')))"

text \<open>The three steps after a stored hash that differs; the caller gives up whatever they return.\<close>

definition roll_back :: "node_view \<Rightarrow> u64 \<Rightarrow> batch_store \<Rightarrow> batch_store" where
  "roll_back V blockNum bs =
     (case findForkPoint V bs blockNum of
        Inl err \<Rightarrow> bs
      | Inr forkPoint \<Rightarrow>
          (case handleReorg bs forkPoint of
             (Inl err, bs') \<Rightarrow> bs'
           | (Inr _, bs') \<Rightarrow> snd (SetLastProcessedBlock bs' forkPoint)))"

definition reorged :: "batch_store \<Rightarrow> u64 \<Rightarrow> string \<Rightarrow> bool" where
  "reorged bs n h = (case GetBlockHash bs n of Inl err \<Rightarrow> False | Inr storedHash \<Rightarrow> storedHash \<noteq> h)"

text \<open>The sequential pass over the fetched blocks; \<open>None\<close> where the range is given up.\<close>

fun check_blocks ::
  "indexer_env \<Rightarrow> node_view \<Rightarrow> u64 list \<Rightarrow> batch_store \<Rightarrow> (u64 \<times> rpc_tx list) list option \<times> batch_store" where
  "check_blocks E V [] bs = (Some [], bs)"
| "check_blocks E V (n # ns) bs =
     (case fetch_block V n of
        Inl err \<Rightarrow> (None, bs)
      | Inr blk \<Rightarrow>
          if reorged bs n (rb_Hash blk) then (None, roll_back V n bs)
          else
            (case check_blocks E V ns (snd (SetBlockHash bs n (rb_Hash blk))) of
               (None, bs') \<Rightarrow> (None, bs')
             | (Some blocks, bs') \<Rightarrow> (Some ((n, List.filter (relevant E) (rb_Transactions blk)) # blocks), bs')))"

definition range_blocks :: "u64 \<Rightarrow> u64 \<Rightarrow> u64 list" where
  "range_blocks startBlock endBlock = map (\<lambda>i. startBlock + of_nat i) [0..<unat (endBlock - startBlock + 1)]"

definition processBlockRange ::
  "indexer_env \<Rightarrow> node_view \<Rightarrow> u64 \<Rightarrow> u64 \<Rightarrow> service \<Rightarrow> (loop_end \<times> service) option" where
  "processBlockRange E V startBlock endBlock s =
     (case check_blocks E V (range_blocks startBlock endBlock) (sv_batches s) of
        (None, bs) \<Rightarrow> Some (Aborted, s\<lparr>sv_batches := bs\<rparr>)
      | (Some blocks, bs) \<Rightarrow> run_blocks E blocks (s\<lparr>sv_batches := bs\<rparr>))"

section \<open>The polling tick\<close>

definition set_last :: "service \<Rightarrow> u64 \<Rightarrow> service" where
  "set_last s n = s\<lparr>sv_batches := snd (SetLastProcessedBlock (sv_batches s) n)\<rparr>"

definition chunk_end :: "u64 \<Rightarrow> u64 \<Rightarrow> u64" where
  "chunk_end startBlock blockNum = (if startBlock + 99 > blockNum then blockNum else startBlock + 99)"

text \<open>
  The \<open>break\<close> after a failed range leaves the \<open>select\<close> and not the loop over the chunks. The result
  carries the last processed block of the loop.
\<close>

partial_function (option) poll_chunks ::
  "indexer_env \<Rightarrow> node_view \<Rightarrow> u64 \<Rightarrow> u64 \<Rightarrow> u64 \<Rightarrow> service \<Rightarrow> (loop_end \<times> u64 \<times> service) option" where
  "poll_chunks E V blockNum startBlock lastBlockNum s =
     (if startBlock \<le> blockNum then
        (case processBlockRange E V startBlock (chunk_end startBlock blockNum) s of
           None \<Rightarrow> None
         | Some (r, s') \<Rightarrow>
             if r = Drained then
               poll_chunks E V blockNum (startBlock + 100) (chunk_end startBlock blockNum)
                 (set_last s' (chunk_end startBlock blockNum))
             else if r = Aborted then poll_chunks E V blockNum (startBlock + 100) lastBlockNum s'
             else Some (Panicked, lastBlockNum, s'))
      else Some (Drained, lastBlockNum, s))"

definition poll_tick :: "indexer_env \<Rightarrow> node_view \<Rightarrow> u64 \<Rightarrow> service \<Rightarrow> (loop_end \<times> u64 \<times> service) option" where
  "poll_tick E V lastBlockNum s =
     (case nv_BlockNumber V of
        Inl err \<Rightarrow> Some (Drained, lastBlockNum, s)
      | Inr blockNum \<Rightarrow>
          if blockNum > lastBlockNum then poll_chunks E V blockNum (lastBlockNum + 1) lastBlockNum s
          else Some (Drained, lastBlockNum, s))"

section \<open>Start-up\<close>

text \<open>The number of the first batch to build.\<close>

definition initial_batch_number :: "indexer_env \<Rightarrow> batch_store \<Rightarrow> u64" where
  "initial_batch_number E bs =
     (case GetIncompleteBatch bs (batch_size E) of
        Inr b \<Rightarrow> ib_Number b
      | Inl _ \<Rightarrow> (case GetLatestBatch_ix bs of Inr b \<Rightarrow> ib_Number b + 1 | Inl _ \<Rightarrow> 1))"

definition start_service :: "indexer_env \<Rightarrow> badger \<Rightarrow> service result" where
  "start_service E kv =
     (case NewBatchStore (ie_json E) kv of
        Inl err \<Rightarrow> Inl ''failed to create batch store''
      | Inr bs \<Rightarrow> Inr \<lparr>sv_batches = bs, sv_builder = NewBatchBuilder (initial_batch_number E bs), sv_clock = 0,
                     sv_notifier = []\<rparr>)"

definition initStartingBlock :: "indexer_env \<Rightarrow> service \<Rightarrow> u64 \<times> service" where
  "initStartingBlock E s =
     (let fallback = (if ic_IndexFromBlock (ie_config E) > 0 then ic_IndexFromBlock (ie_config E) - 1 else 0)
      in case GetLastProcessedBlock (sv_batches s) of
           Inl err \<Rightarrow> (fallback, set_last s fallback)
         | Inr lastBlock \<Rightarrow> if lastBlock > 0 then (lastBlock, s) else (fallback, set_last s fallback))"

definition ClearAllData :: "indexer_env \<Rightarrow> badger \<Rightarrow> unit result \<times> badger" where
  "ClearAllData E kv =
     (case NewBatchStore (ie_json E) kv of
        Inl err \<Rightarrow> (Inl ''failed to open batch store for clearing'', kv)
      | Inr bs \<Rightarrow> (case ClearAll bs of (Inl err, bs') \<Rightarrow> (Inl ''failed to clear data'', bs_kv bs') | (Inr _, bs') \<Rightarrow> (Inr (), bs_kv bs')))"

section \<open>The block-wise path\<close>

text \<open>
  \<open>processBlock\<close> counts space in trades: the transactions that fit, the first one always.
\<close>

fun take_fitting :: "abi_lib \<Rightarrow> int \<Rightarrow> int \<Rightarrow> rpc_tx list \<Rightarrow> rpc_tx list" where
  "take_fitting A space tradesAdded [] = []"
| "take_fitting A space tradesAdded (tx # txs) =
     (let k = int (length (tx_trades A tx))
      in if tradesAdded > 0 \<and> tradesAdded + k > space then []
         else if tradesAdded + k \<ge> space then [tx]
         else tx # take_fitting A space (tradesAdded + k) txs)"

partial_function (option) block_loop :: "indexer_env \<Rightarrow> rpc_tx list \<Rightarrow> service \<Rightarrow> (loop_end \<times> service) option" where
  "block_loop E txs s =
     (if txs = [] then Some (Drained, s)
      else
        case GetIncompleteBatch (sv_batches s) (batch_size E) of
          Inr b \<Rightarrow>
            (let added = (if 0 < batch_size E - int (length (ib_Trades b))
                          then take_fitting (ie_abi E) (batch_size E - int (length (ib_Trades b))) 0 txs else [])
             in if added = [] then block_loop E txs s
                else
                  case append_and_save E b added s of
                    (Inl err, s') \<Rightarrow> Some (Aborted, s')
                  | (Inr _, s') \<Rightarrow> block_loop E (drop (length added) txs) s')
        | Inl err \<Rightarrow>
            (let added = take_fitting (ie_abi E) (batch_size E) 0 txs
             in block_loop E (drop (length added) txs) (createBatchFromTransactions E added s)))"

definition processBlock :: "indexer_env \<Rightarrow> node_view \<Rightarrow> u64 \<Rightarrow> service \<Rightarrow> (loop_end \<times> service) option" where
  "processBlock E V blockNum s =
     (case nv_GetBlock V blockNum 1 of
        Inl err \<Rightarrow> Some (Aborted, s)
      | Inr blk \<Rightarrow>
          if reorged (sv_batches s) blockNum (rb_Hash blk) then
            Some (Aborted, s\<lparr>sv_batches := roll_back V blockNum (sv_batches s)\<rparr>)
          else
            block_loop E (List.filter (relevant E) (rb_Transactions blk))
              (s\<lparr>sv_batches := snd (SetBlockHash (sv_batches s) blockNum (rb_Hash blk))\<rparr>))"

text \<open>\<open>catchUpBlocks\<close> stops at the first range that fails.\<close>

partial_function (option) catch_up_chunks ::
  "indexer_env \<Rightarrow> node_view \<Rightarrow> u64 \<Rightarrow> u64 \<Rightarrow> service \<Rightarrow> (loop_end \<times> service) option" where
  "catch_up_chunks E V currentBlockNum startBlock s =
     (if startBlock \<le> currentBlockNum then
        (case processBlockRange E V startBlock (chunk_end startBlock currentBlockNum) s of
           None \<Rightarrow> None
         | Some (r, s') \<Rightarrow>
             if r = Drained then
               catch_up_chunks E V currentBlockNum (chunk_end startBlock currentBlockNum + 1)
                 (set_last s' (chunk_end startBlock currentBlockNum))
             else Some (r, s'))
      else Some (Drained, s))"

definition catchUpBlocks :: "indexer_env \<Rightarrow> node_view \<Rightarrow> service \<Rightarrow> (loop_end \<times> service) option" where
  "catchUpBlocks E V s =
     (case initStartingBlock E s of
        (lastBlockNum, s) \<Rightarrow>
          (case nv_BlockNumber V of
             Inl err \<Rightarrow> Some (Drained, s)
           | Inr currentBlockNum \<Rightarrow>
               if currentBlockNum > lastBlockNum then catch_up_chunks E V currentBlockNum (lastBlockNum + 1) s
               else Some (Drained, s)))"

end
