(* ===== verification/RpcClient.thy ===== *)
theory RpcClient imports Json Indexer begin

text \<open>
  The JSON-RPC client of the indexer, indexer/pkg/rpc: configuration, requests with retries, blocks,
  transactions, receipts and accounts. The node is a function: what the \<open>k\<close>-th HTTP request of a
  client gets. Cancellation and waiting are not modelled; Keccak and the results \<open>math/big\<close> leaves
  undefined are parameters.
\<close>

section \<open>Configuration\<close>

text \<open>Durations are in nanoseconds.\<close>

record rpc_config =
  rf_RPCURL :: string
  rf_Timeout :: int
  rf_MaxRetries :: int
  rf_RetryBackoff :: int
  rf_MaxRetryBackoff :: int

definition DefaultConfig_rpc :: rpc_config where
  "DefaultConfig_rpc = \<lparr>rf_RPCURL = [], rf_Timeout = 30 * 10 ^ 9, rf_MaxRetries = 3, rf_RetryBackoff = 100 * 10 ^ 6,
     rf_MaxRetryBackoff = 10 * 10 ^ 9\<rparr>"

definition Validate_rpc :: "rpc_config \<Rightarrow> unit result" where
  "Validate_rpc c =
     (if rf_RPCURL c = [] then Inl ''invalid config: RPCURL - cannot be empty''
      else if rf_Timeout c \<le> 0 then Inl ''invalid config: Timeout - must be positive''
      else if rf_MaxRetries c < 0 then Inl ''invalid config: MaxRetries - cannot be negative''
      else if rf_RetryBackoff c \<le> 0 then Inl ''invalid config: RetryBackoff - must be positive''
      else if rf_MaxRetryBackoff c < rf_RetryBackoff c then Inl ''invalid config: MaxRetryBackoff - must be >= RetryBackoff''
      else Inr ())"

definition WithTimeout :: "int \<Rightarrow> rpc_config \<Rightarrow> rpc_config" where
  "WithTimeout timeout c = c\<lparr>rf_Timeout := timeout\<rparr>"

definition WithMaxRetries :: "int \<Rightarrow> rpc_config \<Rightarrow> rpc_config" where
  "WithMaxRetries maxRetries c = c\<lparr>rf_MaxRetries := maxRetries\<rparr>"

text \<open>\<open>time.Duration\<close> arithmetic wraps at 64 bits.\<close>

definition wrap64 :: "int \<Rightarrow> int" where
  "wrap64 x = sint (word_of_int x :: u64)"

definition env_int ::
  "(string \<Rightarrow> string) \<Rightarrow> string \<Rightarrow> (int \<Rightarrow> rpc_config \<Rightarrow> rpc_config) \<Rightarrow> rpc_config result \<Rightarrow> rpc_config result" where
  "env_int env key upd r =
     (case r of
        Inl err \<Rightarrow> Inl err
      | Inr c \<Rightarrow>
          if env key = [] then Inr c
          else case Atoi (env key) of None \<Rightarrow> Inl (''invalid '' @ key) | Some v \<Rightarrow> Inr (upd v c))"

definition LoadConfigFromEnv :: "(string \<Rightarrow> string) \<Rightarrow> rpc_config result" where
  "LoadConfigFromEnv env =
     (if env ''RPC'' = [] then Inl ''RPC environment variable is required''
      else
        case env_int env ''RPC_MAX_RETRY_BACKOFF'' (\<lambda>v. rf_MaxRetryBackoff_update (\<lambda>_. wrap64 (v * 10 ^ 9)))
            (env_int env ''RPC_RETRY_BACKOFF'' (\<lambda>v. rf_RetryBackoff_update (\<lambda>_. wrap64 (v * 10 ^ 6)))
            (env_int env ''RPC_MAX_RETRIES'' (\<lambda>v. rf_MaxRetries_update (\<lambda>_. v))
            (env_int env ''RPC_TIMEOUT'' (\<lambda>v. rf_Timeout_update (\<lambda>_. wrap64 (v * 10 ^ 9)))
               (Inr (DefaultConfig_rpc\<lparr>rf_RPCURL := env ''RPC''\<rparr>))))) of
          Inl err \<Rightarrow> Inl err
        | Inr c \<Rightarrow> (case Validate_rpc c of Inl err \<Rightarrow> Inl ''invalid configuration'' | Inr _ \<Rightarrow> Inr c))"

section \<open>The client\<close>

text \<open>The counter of request ids, and the number of HTTP requests sent so far.\<close>

record rpc_client =
  rc_config :: rpc_config
  rc_url :: string
  rc_requestIDCounter :: int
  rc_sent :: nat

definition new_client :: "rpc_config \<Rightarrow> string \<Rightarrow> rpc_client" where
  "new_client c url = \<lparr>rc_config = c, rc_url = url, rc_requestIDCounter = 0, rc_sent = 0\<rparr>"

definition NewClient :: "string \<Rightarrow> (rpc_config \<Rightarrow> rpc_config) list \<Rightarrow> rpc_client result" where
  "NewClient rpcURL opts =
     (let c = fold id opts (DefaultConfig_rpc\<lparr>rf_RPCURL := rpcURL\<rparr>)
      in case Validate_rpc c of Inl err \<Rightarrow> Inl err | Inr _ \<Rightarrow> Inr (new_client c rpcURL))"

definition NewClientFromEnv :: "(string \<Rightarrow> string) \<Rightarrow> rpc_client result" where
  "NewClientFromEnv env =
     (case LoadConfigFromEnv env of Inl err \<Rightarrow> Inl err | Inr c \<Rightarrow> Inr (new_client c (rf_RPCURL c)))"

record rpc_request =
  rq_JSONRPC :: string
  rq_Method :: string
  rq_Params :: "json list option"
  rq_ID :: int

record rpc_error =
  re_Code :: int
  re_Message :: string
  re_Data :: "json option"

text \<open>\<open>rr_Result\<close> is \<open>None\<close> for an empty raw message.\<close>

record rpc_response =
  rr_JSONRPC :: string
  rr_ID :: int
  rr_Result :: "json option"
  rr_Error :: "rpc_error option"

datatype http_body = ReadFailed | NotJson | Body json

datatype http_outcome = BadURL | NoConnection | Answer int http_body

type_synonym rpc_node = "nat \<Rightarrow> rpc_request \<Rightarrow> http_outcome"

definition error_field :: "string \<Rightarrow> json \<Rightarrow> rpc_error \<Rightarrow> rpc_error option" where
  "error_field n v e =
     (if n = ''code'' then map_option (\<lambda>c. e\<lparr>re_Code := c\<rparr>) (decode_int v (re_Code e))
      else if n = ''message'' then map_option (\<lambda>m. e\<lparr>re_Message := m\<rparr>) (decode_str v (re_Message e))
      else Some (e\<lparr>re_Data := (if v = JNull then None else Some v)\<rparr>))"

definition decode_error :: "json \<Rightarrow> rpc_error option option" where
  "decode_error v =
     (if v = JNull then Some None
      else map_option Some (decode_struct error_field [''code'', ''message'', ''data'']
             \<lparr>re_Code = 0, re_Message = [], re_Data = None\<rparr> v))"

definition response_field :: "string \<Rightarrow> json \<Rightarrow> rpc_response \<Rightarrow> rpc_response option" where
  "response_field n v r =
     (if n = ''jsonrpc'' then map_option (\<lambda>s. r\<lparr>rr_JSONRPC := s\<rparr>) (decode_str v (rr_JSONRPC r))
      else if n = ''id'' then map_option (\<lambda>i. r\<lparr>rr_ID := i\<rparr>) (decode_int v (rr_ID r))
      else if n = ''result'' then Some (r\<lparr>rr_Result := Some v\<rparr>)
      else map_option (\<lambda>e. r\<lparr>rr_Error := e\<rparr>) (decode_error v))"

definition decode_response :: "json \<Rightarrow> rpc_response option" where
  "decode_response v =
     decode_struct response_field [''jsonrpc'', ''id'', ''result'', ''error'']
       \<lparr>rr_JSONRPC = [], rr_ID = 0, rr_Result = None, rr_Error = None\<rparr> v"

definition doRequest :: "rpc_node \<Rightarrow> rpc_request \<Rightarrow> rpc_client \<Rightarrow> rpc_response result \<times> rpc_client" where
  "doRequest N req c =
     (let out = N (rc_sent c) req; c = c\<lparr>rc_sent := rc_sent c + 1\<rparr>
      in case out of
           BadURL \<Rightarrow> (Inl ''connection failed: new request'', c)
         | NoConnection \<Rightarrow> (Inl ''connection failed'', c)
         | Answer status body \<Rightarrow>
             if status \<noteq> 200 then (Inl (''unexpected status code: '' @ dec status), c)
             else (case body of
                     ReadFailed \<Rightarrow> (Inl ''failed to read response'', c)
                   | NotJson \<Rightarrow> (Inl ''failed to unmarshal response'', c)
                   | Body v \<Rightarrow> (case decode_response v of
                                 None \<Rightarrow> (Inl ''failed to unmarshal response'', c)
                               | Some resp \<Rightarrow> (Inr resp, c))))"

text \<open>The attempts that are left, with the last error.\<close>

fun call_loop :: "rpc_node \<Rightarrow> rpc_request \<Rightarrow> nat \<Rightarrow> string \<Rightarrow> rpc_client \<Rightarrow> rpc_response result \<times> rpc_client" where
  "call_loop N req 0 lastErr c =
     (Inl (''max retries ('' @ dec (rf_MaxRetries (rc_config c) + 1) @ '') exceeded, last error: '' @ lastErr), c)"
| "call_loop N req (Suc n) lastErr c =
     (case doRequest N req c of
        (Inl err, c) \<Rightarrow> call_loop N req n err c
      | (Inr resp, c) \<Rightarrow>
          (case rr_Error resp of
             Some e \<Rightarrow> (Inl (''RPC error ['' @ dec (re_Code e) @ '']: '' @ re_Message e), c)
           | None \<Rightarrow> (Inr resp, c)))"

definition call :: "rpc_node \<Rightarrow> string \<Rightarrow> json list option \<Rightarrow> rpc_client \<Rightarrow> rpc_response result \<times> rpc_client" where
  "call N method params c =
     (let c = c\<lparr>rc_requestIDCounter := rc_requestIDCounter c + 1\<rparr>;
          req = \<lparr>rq_JSONRPC = ''2.0'', rq_Method = method, rq_Params = params, rq_ID = rc_requestIDCounter c\<rparr>
      in call_loop N req (nat (rf_MaxRetries (rc_config c) + 1)) ''<nil>'' c)"

text \<open>The wait before an attempt.\<close>

fun backoff_loop :: "nat \<Rightarrow> int \<Rightarrow> int \<Rightarrow> int" where
  "backoff_loop 0 backoff maxBackoff = backoff"
| "backoff_loop (Suc n) backoff maxBackoff =
     (let backoff = wrap64 (backoff * 2)
      in if backoff > maxBackoff then maxBackoff else backoff_loop n backoff maxBackoff)"

definition calculateBackoff :: "rpc_config \<Rightarrow> int \<Rightarrow> int" where
  "calculateBackoff c attempt = backoff_loop (nat (attempt - 1)) (rf_RetryBackoff c) (rf_MaxRetryBackoff c)"

text \<open>A call whose result is a JSON string; an absent result does not parse.\<close>

definition string_result :: "string \<Rightarrow> rpc_response \<Rightarrow> string result" where
  "string_result what resp =
     (case rr_Result resp of
        None \<Rightarrow> Inl (''failed to unmarshal '' @ what)
      | Some v \<Rightarrow> (case decode_str v [] of None \<Rightarrow> Inl (''failed to unmarshal '' @ what) | Some s \<Rightarrow> Inr s))"

definition call_string ::
  "rpc_node \<Rightarrow> string \<Rightarrow> json list option \<Rightarrow> string \<Rightarrow> rpc_client \<Rightarrow> string result \<times> rpc_client" where
  "call_string N method params what c =
     (case call N method params c of
        (Inl err, c) \<Rightarrow> (Inl err, c)
      | (Inr resp, c) \<Rightarrow> (string_result what resp, c))"

definition scan_result :: "string \<Rightarrow> string result \<times> rpc_client \<Rightarrow> u64 result \<times> rpc_client" where
  "scan_result what out =
     (case out of
        (Inl err, c) \<Rightarrow> (Inl err, c)
      | (Inr s, c) \<Rightarrow> (case scan_hex s of Inl err \<Rightarrow> (Inl (''failed to parse '' @ what), c) | Inr n \<Rightarrow> (Inr n, c)))"

definition BlockNumber :: "rpc_node \<Rightarrow> rpc_client \<Rightarrow> u64 result \<times> rpc_client" where
  "BlockNumber N c = scan_result ''block number'' (call_string N ''eth_blockNumber'' None ''block number'' c)"

definition ChainID :: "rpc_node \<Rightarrow> rpc_client \<Rightarrow> u64 result \<times> rpc_client" where
  "ChainID N c = scan_result ''chain ID'' (call_string N ''eth_chainId'' None ''chain ID'' c)"

section \<open>Blocks and transactions\<close>

text \<open>
  What \<open>SetString\<close> leaves after a failure, and \<open>Uint64\<close> of a value that does not fit: both undefined.
\<close>

record big_env =
  be_failed :: "string \<Rightarrow> int"
  be_wide :: "int \<Rightarrow> u64"
  be_keccak :: "bytes \<Rightarrow> bytes"

definition parseHexBigInt :: "big_env \<Rightarrow> string \<Rightarrow> int" where
  "parseHexBigInt B hexStr =
     (if hexStr = [] \<or> hexStr = ''0x'' then 0
      else
        let hexStr = (if length hexStr > 2 \<and> has_prefix ''0x'' hexStr then drop 2 hexStr else hexStr)
        in case parse_hex hexStr of None \<Rightarrow> be_failed B hexStr | Some v \<Rightarrow> v)"

definition Uint64 :: "big_env \<Rightarrow> int \<Rightarrow> u64" where
  "Uint64 B v = (if 0 \<le> v \<and> v < 2 ^ 64 then of_int v else be_wide B v)"

text \<open>\<open>hex.DecodeString\<close> with the error ignored: the bytes before it.\<close>

fun hex_decode_some :: "string \<Rightarrow> bytes" where
  "hex_decode_some (c # d # cs) =
     (case (hex_val c, hex_val d) of (Some a, Some b) \<Rightarrow> char_of (a * 16 + b) # hex_decode_some cs | _ \<Rightarrow> [])"
| "hex_decode_some _ = []"

definition ComputeContractAddress :: "big_env \<Rightarrow> string \<Rightarrow> u64 \<Rightarrow> string" where
  "ComputeContractAddress B sender nonce =
     (let sender = trim_prefix ''0x'' sender;
          sender = (if length sender < 40 then replicate (40 - length sender) (CHR ''0'') @ sender else sender);
          sender = drop (length sender - 40) sender;
          hash = be_keccak B (hex_decode_some sender @ be_enc 8 (unat nonce))
      in ''0x'' @ hex_encode (drop (length hash - 20) hash))"

definition zero_tx :: rpc_tx where
  "zero_tx = \<lparr>rt_Hash = [], rt_From = [], rt_To = [], rt_ContractAddress = [], rt_Value = None, rt_Data = [], rt_Nonce = 0,
     rt_Gas = 0, rt_GasPrice = None, rt_GasTipCap = None, rt_GasFeeCap = None, rt_BlockNumber = None, rt_BlockHash = [],
     rt_Index = 0, rt_IsContractDeployment = False\<rparr>"

definition no_recipient :: "string \<Rightarrow> bool" where
  "no_recipient to \<longleftrightarrow> to = [] \<or> to = ''0x'' \<or> to = ''0x0000000000000000000000000000000000000000''"

definition str_or :: "members \<Rightarrow> string \<Rightarrow> string" where
  "str_or raw k = (case str_member raw k of Some s \<Rightarrow> s | None \<Rightarrow> [])"

definition big_or :: "big_env \<Rightarrow> members \<Rightarrow> string \<Rightarrow> int option" where
  "big_or B raw k = map_option (parseHexBigInt B) (str_member raw k)"

definition u64_or :: "big_env \<Rightarrow> members \<Rightarrow> string \<Rightarrow> u64" where
  "u64_or B raw k = (case str_member raw k of Some s \<Rightarrow> Uint64 B (parseHexBigInt B s) | None \<Rightarrow> 0)"

definition parseTransaction :: "big_env \<Rightarrow> members \<Rightarrow> rpc_tx" where
  "parseTransaction B raw =
     (let to = str_or raw ''to'';
          deploys = (no_recipient to \<and>
            (case str_member raw ''input'' of Some inp \<Rightarrow> inp \<noteq> [] \<and> inp \<noteq> ''0x'' | None \<Rightarrow> False));
          tx = \<lparr>rt_Hash = str_or raw ''hash'', rt_From = str_or raw ''from'', rt_To = to, rt_ContractAddress = [],
                rt_Value = big_or B raw ''value'', rt_Data = str_or raw ''input'', rt_Nonce = u64_or B raw ''nonce'',
                rt_Gas = u64_or B raw ''gas'', rt_GasPrice = big_or B raw ''gasPrice'',
                rt_GasTipCap = big_or B raw ''maxFeePerGas'', rt_GasFeeCap = big_or B raw ''maxPriorityFeePerGas'',
                rt_BlockNumber = big_or B raw ''blockNumber'', rt_BlockHash = str_or raw ''blockHash'',
                rt_Index = u64_or B raw ''transactionIndex'', rt_IsContractDeployment = deploys\<rparr>
      in if deploys then tx\<lparr>rt_ContractAddress := ComputeContractAddress B (rt_From tx) (rt_Nonce tx)\<rparr> else tx)"

definition tx_names :: "string list" where
  "tx_names = [''hash'', ''from'', ''to'', ''contractAddress'', ''value'', ''input'', ''nonce'', ''gas'', ''gasPrice'',
     ''maxFeePerGas'', ''maxPriorityFeePerGas'', ''blockNumber'', ''blockHash'', ''transactionIndex'', ''isContractDeployment'']"

definition tx_field :: "string \<Rightarrow> json \<Rightarrow> rpc_tx \<Rightarrow> rpc_tx option" where
  "tx_field n v tx =
     (if n = ''hash'' then map_option (\<lambda>s. tx\<lparr>rt_Hash := s\<rparr>) (decode_str v (rt_Hash tx))
      else if n = ''from'' then map_option (\<lambda>s. tx\<lparr>rt_From := s\<rparr>) (decode_str v (rt_From tx))
      else if n = ''to'' then map_option (\<lambda>s. tx\<lparr>rt_To := s\<rparr>) (decode_str v (rt_To tx))
      else if n = ''contractAddress'' then map_option (\<lambda>s. tx\<lparr>rt_ContractAddress := s\<rparr>) (decode_str v (rt_ContractAddress tx))
      else if n = ''value'' then map_option (\<lambda>x. tx\<lparr>rt_Value := x\<rparr>) (decode_big v)
      else if n = ''input'' then map_option (\<lambda>s. tx\<lparr>rt_Data := s\<rparr>) (decode_str v (rt_Data tx))
      else if n = ''nonce'' then map_option (\<lambda>x. tx\<lparr>rt_Nonce := x\<rparr>) (decode_u64 v (rt_Nonce tx))
      else if n = ''gas'' then map_option (\<lambda>x. tx\<lparr>rt_Gas := x\<rparr>) (decode_u64 v (rt_Gas tx))
      else if n = ''gasPrice'' then map_option (\<lambda>x. tx\<lparr>rt_GasPrice := x\<rparr>) (decode_big v)
      else if n = ''maxFeePerGas'' then map_option (\<lambda>x. tx\<lparr>rt_GasTipCap := x\<rparr>) (decode_big v)
      else if n = ''maxPriorityFeePerGas'' then map_option (\<lambda>x. tx\<lparr>rt_GasFeeCap := x\<rparr>) (decode_big v)
      else if n = ''blockNumber'' then map_option (\<lambda>x. tx\<lparr>rt_BlockNumber := x\<rparr>) (decode_big v)
      else if n = ''blockHash'' then map_option (\<lambda>s. tx\<lparr>rt_BlockHash := s\<rparr>) (decode_str v (rt_BlockHash tx))
      else if n = ''transactionIndex'' then map_option (\<lambda>x. tx\<lparr>rt_Index := x\<rparr>) (decode_u64 v (rt_Index tx))
      else map_option (\<lambda>b. tx\<lparr>rt_IsContractDeployment := b\<rparr>) (decode_bool v (rt_IsContractDeployment tx)))"

definition decode_tx :: "json \<Rightarrow> rpc_tx option" where
  "decode_tx v = decode_struct tx_field tx_names zero_tx v"

text \<open>A block as the client returns it: a transaction is a pointer, \<open>None\<close> when it is nil.\<close>

record client_block =
  cb_Number :: "int option"
  cb_Hash :: string
  cb_ParentHash :: string
  cb_Timestamp :: "int option"
  cb_StateRoot :: string
  cb_Transactions :: "rpc_tx option list"

definition zero_block :: client_block where
  "zero_block = \<lparr>cb_Number = None, cb_Hash = [], cb_ParentHash = [], cb_Timestamp = None, cb_StateRoot = [], cb_Transactions = []\<rparr>"

text \<open>The loop over the members of \<open>transactions\<close> skips what is not an object.\<close>

definition parse_txs :: "big_env \<Rightarrow> json list \<Rightarrow> rpc_tx list" where
  "parse_txs B vs = List.map_filter (\<lambda>v. case v of JObj ms \<Rightarrow> Some (parseTransaction B ms) | _ \<Rightarrow> None) vs"

definition parseBlock :: "big_env \<Rightarrow> members \<Rightarrow> bool \<Rightarrow> client_block" where
  "parseBlock B raw fullTx =
     \<lparr>cb_Number = big_or B raw ''number'', cb_Hash = str_or raw ''hash'', cb_ParentHash = str_or raw ''parentHash'',
      cb_Timestamp = big_or B raw ''timestamp'', cb_StateRoot = str_or raw ''stateRoot'',
      cb_Transactions =
        (if fullTx then (case member raw ''transactions'' of Some (JArr vs) \<Rightarrow> map Some (parse_txs B vs) | _ \<Rightarrow> []) else [])\<rparr>"

fun decode_txs :: "json list \<Rightarrow> rpc_tx option list option" where
  "decode_txs [] = Some []"
| "decode_txs (v # vs) =
     (case decode_txs vs of
        None \<Rightarrow> None
      | Some txs \<Rightarrow> if v = JNull then Some (None # txs) else map_option (\<lambda>tx. Some tx # txs) (decode_tx v))"

definition block_field :: "string \<Rightarrow> json \<Rightarrow> client_block \<Rightarrow> client_block option" where
  "block_field n v b =
     (if n = ''number'' then map_option (\<lambda>x. b\<lparr>cb_Number := x\<rparr>) (decode_big v)
      else if n = ''hash'' then map_option (\<lambda>s. b\<lparr>cb_Hash := s\<rparr>) (decode_str v (cb_Hash b))
      else if n = ''parentHash'' then map_option (\<lambda>s. b\<lparr>cb_ParentHash := s\<rparr>) (decode_str v (cb_ParentHash b))
      else if n = ''timestamp'' then map_option (\<lambda>x. b\<lparr>cb_Timestamp := x\<rparr>) (decode_big v)
      else if n = ''stateRoot'' then map_option (\<lambda>s. b\<lparr>cb_StateRoot := s\<rparr>) (decode_str v (cb_StateRoot b))
      else (case v of
              JNull \<Rightarrow> Some (b\<lparr>cb_Transactions := []\<rparr>)
            | JArr vs \<Rightarrow> map_option (\<lambda>txs. b\<lparr>cb_Transactions := txs\<rparr>) (decode_txs vs)
            | _ \<Rightarrow> None))"

definition decode_block :: "json \<Rightarrow> client_block option" where
  "decode_block v =
     decode_struct block_field [''number'', ''hash'', ''parentHash'', ''timestamp'', ''stateRoot'', ''transactions''] zero_block v"

text \<open>The struct, else the map, of a result.\<close>

definition typed_result :: "(json \<Rightarrow> 'a option) \<Rightarrow> (members \<Rightarrow> 'a) \<Rightarrow> string \<Rightarrow> rpc_response \<Rightarrow> 'a result" where
  "typed_result decode parse what resp =
     (case rr_Result resp of
        None \<Rightarrow> Inl (''failed to unmarshal '' @ what)
      | Some v \<Rightarrow>
          (case decode v of
             Some x \<Rightarrow> Inr x
           | None \<Rightarrow> (case as_map v of None \<Rightarrow> Inl (''failed to unmarshal '' @ what) | Some raw \<Rightarrow> Inr (parse raw))))"

definition get_block ::
  "big_env \<Rightarrow> rpc_node \<Rightarrow> string \<Rightarrow> string \<Rightarrow> bool \<Rightarrow> rpc_client \<Rightarrow> client_block result \<times> rpc_client" where
  "get_block B N method ref fullTx c =
     (case call N method (Some [JStr ref, JBool fullTx]) c of
        (Inl err, c) \<Rightarrow> (Inl err, c)
      | (Inr resp, c) \<Rightarrow> (typed_result decode_block (\<lambda>raw. parseBlock B raw fullTx) ''block'' resp, c))"

definition GetBlockByNumber :: "big_env \<Rightarrow> rpc_node \<Rightarrow> u64 \<Rightarrow> bool \<Rightarrow> rpc_client \<Rightarrow> client_block result \<times> rpc_client" where
  "GetBlockByNumber B N blockNumber fullTx c =
     get_block B N ''eth_getBlockByNumber'' (''0x'' @ hex_nat (unat blockNumber)) fullTx c"

definition GetBlockByHash :: "big_env \<Rightarrow> rpc_node \<Rightarrow> string \<Rightarrow> bool \<Rightarrow> rpc_client \<Rightarrow> client_block result \<times> rpc_client" where
  "GetBlockByHash B N blockHash fullTx c = get_block B N ''eth_getBlockByHash'' blockHash fullTx c"

record block_head =
  hd_Number :: "int option"
  hd_Hash :: string
  hd_ParentHash :: string
  hd_Timestamp :: "int option"
  hd_StateRoot :: string

definition parseBlockHeader :: "big_env \<Rightarrow> members \<Rightarrow> block_head" where
  "parseBlockHeader B raw =
     \<lparr>hd_Number = big_or B raw ''number'', hd_Hash = str_or raw ''hash'', hd_ParentHash = str_or raw ''parentHash'',
      hd_Timestamp = big_or B raw ''timestamp'', hd_StateRoot = str_or raw ''stateRoot''\<rparr>"

section \<open>Receipts and single transactions\<close>

record tx_receipt =
  rp_TransactionHash :: string
  rp_TransactionIndex :: string
  rp_BlockNumber :: string
  rp_BlockHash :: string
  rp_From :: string
  rp_To :: string
  rp_ContractAddress :: string
  rp_GasUsed :: string
  rp_CumulativeGasUsed :: string
  rp_Status :: string
  rp_Logs :: "json list"

definition zero_receipt :: tx_receipt where
  "zero_receipt = \<lparr>rp_TransactionHash = [], rp_TransactionIndex = [], rp_BlockNumber = [], rp_BlockHash = [], rp_From = [],
     rp_To = [], rp_ContractAddress = [], rp_GasUsed = [], rp_CumulativeGasUsed = [], rp_Status = [], rp_Logs = []\<rparr>"

definition parseTransactionReceipt :: "members \<Rightarrow> tx_receipt" where
  "parseTransactionReceipt raw =
     \<lparr>rp_TransactionHash = str_or raw ''transactionHash'', rp_TransactionIndex = str_or raw ''transactionIndex'',
      rp_BlockNumber = str_or raw ''blockNumber'', rp_BlockHash = str_or raw ''blockHash'', rp_From = str_or raw ''from'',
      rp_To = str_or raw ''to'',
      rp_ContractAddress = (if str_or raw ''contractAddress'' = ''0x'' then [] else str_or raw ''contractAddress''),
      rp_GasUsed = str_or raw ''gasUsed'', rp_CumulativeGasUsed = str_or raw ''cumulativeGasUsed'',
      rp_Status = str_or raw ''status'',
      rp_Logs = (case member raw ''logs'' of Some (JArr vs) \<Rightarrow> vs | _ \<Rightarrow> [])\<rparr>"

definition receipt_field :: "string \<Rightarrow> json \<Rightarrow> tx_receipt \<Rightarrow> tx_receipt option" where
  "receipt_field n v r =
     (if n = ''transactionHash'' then map_option (\<lambda>s. r\<lparr>rp_TransactionHash := s\<rparr>) (decode_str v (rp_TransactionHash r))
      else if n = ''transactionIndex'' then map_option (\<lambda>s. r\<lparr>rp_TransactionIndex := s\<rparr>) (decode_str v (rp_TransactionIndex r))
      else if n = ''blockNumber'' then map_option (\<lambda>s. r\<lparr>rp_BlockNumber := s\<rparr>) (decode_str v (rp_BlockNumber r))
      else if n = ''blockHash'' then map_option (\<lambda>s. r\<lparr>rp_BlockHash := s\<rparr>) (decode_str v (rp_BlockHash r))
      else if n = ''from'' then map_option (\<lambda>s. r\<lparr>rp_From := s\<rparr>) (decode_str v (rp_From r))
      else if n = ''to'' then map_option (\<lambda>s. r\<lparr>rp_To := s\<rparr>) (decode_str v (rp_To r))
      else if n = ''contractAddress'' then map_option (\<lambda>s. r\<lparr>rp_ContractAddress := s\<rparr>) (decode_str v (rp_ContractAddress r))
      else if n = ''gasUsed'' then map_option (\<lambda>s. r\<lparr>rp_GasUsed := s\<rparr>) (decode_str v (rp_GasUsed r))
      else if n = ''cumulativeGasUsed''
           then map_option (\<lambda>s. r\<lparr>rp_CumulativeGasUsed := s\<rparr>) (decode_str v (rp_CumulativeGasUsed r))
      else if n = ''status'' then map_option (\<lambda>s. r\<lparr>rp_Status := s\<rparr>) (decode_str v (rp_Status r))
      else (case v of JNull \<Rightarrow> Some (r\<lparr>rp_Logs := []\<rparr>) | JArr vs \<Rightarrow> Some (r\<lparr>rp_Logs := vs\<rparr>) | _ \<Rightarrow> None))"

definition decode_receipt :: "json \<Rightarrow> tx_receipt option" where
  "decode_receipt v =
     decode_struct receipt_field [''transactionHash'', ''transactionIndex'', ''blockNumber'', ''blockHash'', ''from'', ''to'',
       ''contractAddress'', ''gasUsed'', ''cumulativeGasUsed'', ''status'', ''logs''] zero_receipt v"

definition GetTransactionReceipt :: "rpc_node \<Rightarrow> string \<Rightarrow> rpc_client \<Rightarrow> tx_receipt result \<times> rpc_client" where
  "GetTransactionReceipt N txHash c =
     (case call N ''eth_getTransactionReceipt'' (Some [JStr txHash]) c of
        (Inl err, c) \<Rightarrow> (Inl err, c)
      | (Inr resp, c) \<Rightarrow> (typed_result decode_receipt parseTransactionReceipt ''receipt'' resp, c))"

definition GetTransactionByHash :: "big_env \<Rightarrow> rpc_node \<Rightarrow> string \<Rightarrow> rpc_client \<Rightarrow> rpc_tx result \<times> rpc_client" where
  "GetTransactionByHash B N txHash c =
     (case call N ''eth_getTransactionByHash'' (Some [JStr txHash]) c of
        (Inl err, c) \<Rightarrow> (Inl err, c)
      | (Inr resp, c) \<Rightarrow>
          (case typed_result decode_tx (parseTransaction B) ''transaction'' resp of
             Inl err \<Rightarrow> (Inl err, c)
           | Inr tx \<Rightarrow>
               if no_recipient (rt_To tx) \<and> rt_Data tx \<noteq> [] \<and> rt_Data tx \<noteq> ''0x'' then
                 (case GetTransactionReceipt N txHash c of
                    (receipt, c) \<Rightarrow>
                      (let tx = tx\<lparr>rt_IsContractDeployment := True\<rparr>
                       in (Inr (case receipt of
                                  Inr r \<Rightarrow> if rp_ContractAddress r \<noteq> [] then tx\<lparr>rt_ContractAddress := rp_ContractAddress r\<rparr>
                                           else tx\<lparr>rt_ContractAddress := ComputeContractAddress B (rt_From tx) (rt_Nonce tx)\<rparr>
                                | Inl err \<Rightarrow> tx\<lparr>rt_ContractAddress := ComputeContractAddress B (rt_From tx) (rt_Nonce tx)\<rparr>), c)))
               else (Inr tx, c)))"

definition GetTransactionsByBlock :: "big_env \<Rightarrow> rpc_node \<Rightarrow> u64 \<Rightarrow> rpc_client \<Rightarrow> rpc_tx option list result \<times> rpc_client" where
  "GetTransactionsByBlock B N blockNumber c =
     (case GetBlockByNumber B N blockNumber True c of
        (Inl err, c) \<Rightarrow> (Inl err, c)
      | (Inr block, c) \<Rightarrow> (Inr (cb_Transactions block), c))"

section \<open>Accounts\<close>

definition block_tag :: "int option \<Rightarrow> string" where
  "block_tag n = (case n of None \<Rightarrow> ''latest'' | Some x \<Rightarrow> ''0x'' @ hex_int x)"

definition GetBalance_rpc ::
  "big_env \<Rightarrow> rpc_node \<Rightarrow> string \<Rightarrow> int option \<Rightarrow> rpc_client \<Rightarrow> int result \<times> rpc_client" where
  "GetBalance_rpc B N address blockNumber c =
     (case call_string N ''eth_getBalance'' (Some [JStr address, JStr (block_tag blockNumber)]) ''balance'' c of
        (Inl err, c) \<Rightarrow> (Inl err, c)
      | (Inr balanceHex, c) \<Rightarrow> (Inr (parseHexBigInt B balanceHex), c))"

text \<open>\<open>int64(blockNumber)\<close> makes a number of \<open>2 ^ 63\<close> or more negative.\<close>

definition GetBalanceAtBlock :: "big_env \<Rightarrow> rpc_node \<Rightarrow> string \<Rightarrow> u64 \<Rightarrow> rpc_client \<Rightarrow> int result \<times> rpc_client" where
  "GetBalanceAtBlock B N address blockNumber c = GetBalance_rpc B N address (Some (sint blockNumber)) c"

definition GetTransactionCount ::
  "big_env \<Rightarrow> rpc_node \<Rightarrow> string \<Rightarrow> int option \<Rightarrow> rpc_client \<Rightarrow> u64 result \<times> rpc_client" where
  "GetTransactionCount B N address blockNumber c =
     (case call_string N ''eth_getTransactionCount'' (Some [JStr address, JStr (block_tag blockNumber)]) ''nonce'' c of
        (Inl err, c) \<Rightarrow> (Inl err, c)
      | (Inr nonceHex, c) \<Rightarrow> (Inr (Uint64 B (parseHexBigInt B nonceHex)), c))"

definition GetCode :: "rpc_node \<Rightarrow> string \<Rightarrow> int option \<Rightarrow> rpc_client \<Rightarrow> string result \<times> rpc_client" where
  "GetCode N address blockNumber c =
     call_string N ''eth_getCode'' (Some [JStr address, JStr (block_tag blockNumber)]) ''code'' c"

record account_state =
  as_Balance :: int
  as_Nonce :: u64
  as_Code :: string
  as_CodeHash :: string

definition GetAccountState ::
  "big_env \<Rightarrow> rpc_node \<Rightarrow> string \<Rightarrow> int option \<Rightarrow> rpc_client \<Rightarrow> account_state result \<times> rpc_client" where
  "GetAccountState B N address blockNumber c =
     (case GetBalance_rpc B N address blockNumber c of
        (Inl err, c) \<Rightarrow> (Inl ''failed to get balance'', c)
      | (Inr balance, c) \<Rightarrow>
     (case GetTransactionCount B N address blockNumber c of
        (Inl err, c) \<Rightarrow> (Inl ''failed to get nonce'', c)
      | (Inr nonce, c) \<Rightarrow>
     (case GetCode N address blockNumber c of
        (Inl err, c) \<Rightarrow> (Inl ''failed to get code'', c)
      | (Inr code, c) \<Rightarrow>
          (Inr \<lparr>as_Balance = balance, as_Nonce = nonce, as_Code = code,
                as_CodeHash = (if code \<noteq> [] \<and> code \<noteq> ''0x'' then ''0x'' else [])\<rparr>, c))))"

section \<open>Batch proofs\<close>

text \<open>The stubs of batch.go: a proof is checked for empty fields and refused in any case.\<close>

record batch_proof =
  bp_Proof :: bytes
  bp_PublicInputs :: "string list"
  bp_BatchHash :: string
  bp_StateRoot :: string

definition SubmitBatchProof :: "batch_proof option \<Rightarrow> unit result" where
  "SubmitBatchProof proof =
     (case proof of
        None \<Rightarrow> Inl ''proof cannot be nil''
      | Some p \<Rightarrow>
          if bp_BatchHash p = [] then Inl ''batchHash cannot be empty''
          else if bp_StateRoot p = [] then Inl ''stateRoot cannot be empty''
          else if bp_Proof p = [] then Inl ''proof data cannot be empty''
          else Inl ''SubmitBatchProof is not yet implemented'')"

end
