(* ===== verification/WebSocket.thy ===== *)
theory WebSocket imports RpcClient "HOL-Library.AList" begin

text \<open>
  The web-socket client of the indexer, indexer/pkg/rpc/websocket.go, and the header subscription of
  blocks.go. Goroutines are a step relation: the message handler is a program counter, calls of
  \<open>Subscribe\<close> in flight are a list, \<open>Close\<close> is cut at its locks. Channels are addresses of a store,
  because the table of subscribers and the callers share them. Connections are numbered by the dial
  that made them; what a dial, a write or the node does is the choice of the step.
\<close>

section \<open>Configuration and state\<close>

record ws_config =
  wf_URL :: string
  wf_PingInterval :: int
  wf_MaxReconnect :: int
  wf_ReconnectDelay :: int

definition DefaultWebSocketConfig :: ws_config where
  "DefaultWebSocketConfig =
     \<lparr>wf_URL = [], wf_PingInterval = 30 * 10 ^ 9, wf_MaxReconnect = 5, wf_ReconnectDelay = 10 ^ 9\<rparr>"

definition WithPingInterval :: "int \<Rightarrow> ws_config \<Rightarrow> ws_config" where
  "WithPingInterval interval c = c\<lparr>wf_PingInterval := interval\<rparr>"

definition WithMaxReconnect :: "int \<Rightarrow> ws_config \<Rightarrow> ws_config" where
  "WithMaxReconnect limit c = c\<lparr>wf_MaxReconnect := limit\<rparr>"

definition WithReconnectDelay :: "int \<Rightarrow> ws_config \<Rightarrow> ws_config" where
  "WithReconnectDelay delay c = c\<lparr>wf_ReconnectDelay := delay\<rparr>"

record ws_chan =
  wc_buf :: "rpc_response list"
  wc_closed :: bool

text \<open>
  Where the message handler is: at the top of its loop, in \<open>ReadMessage\<close> on a connection, waiting
  before or inside attempt \<open>a\<close> of \<open>reconnect\<close> with the current delay (the flag: the reconnect of the
  deferred recover, after which the handler ends), or gone.
\<close>

datatype ws_handler = LoopTop | InRead nat | BackOff nat int bool | InDial nat int bool | Ended

text \<open>A call of \<open>Subscribe\<close> that has registered its channel, and the connection it then read.\<close>

record ws_call =
  sc_req :: rpc_request
  sc_chan :: nat
  sc_conn :: "nat option"

text \<open>
  The client. \<open>ws_shut\<close> are the connections the client closed, \<open>ws_frames\<close> the requests written and
  on which connection, \<open>ws_closing\<close> the number of phases of \<open>Close\<close> that are done, \<open>ws_panicked\<close> an
  unrecovered panic, which ends the process.
\<close>

record ws_client =
  ws_url :: string
  ws_pingInterval :: int
  ws_maxReconnect :: int
  ws_reconnectDelay :: int
  ws_conn :: "nat option"
  ws_subscribers :: "(int \<times> nat) list"
  ws_chans :: "ws_chan list"
  ws_nextReqID :: int
  ws_cancelled :: bool
  ws_handler :: ws_handler
  ws_calls :: "ws_call list"
  ws_dials :: nat
  ws_shut :: "nat list"
  ws_frames :: "(nat \<times> rpc_request) list"
  ws_pings :: "nat list"
  ws_closing :: nat
  ws_panicked :: bool

section \<open>Connecting\<close>

definition shut :: "nat option \<Rightarrow> ws_client \<Rightarrow> ws_client" where
  "shut conn w = (case conn of None \<Rightarrow> w | Some k \<Rightarrow> w\<lparr>ws_shut := k # ws_shut w\<rparr>)"

definition connect :: "bool \<Rightarrow> ws_client \<Rightarrow> unit result \<times> ws_client" where
  "connect dialed w =
     (let w = shut (ws_conn w) w
      in if dialed then (Inr (), w\<lparr>ws_conn := Some (ws_dials w), ws_dials := ws_dials w + 1\<rparr>)
         else (Inl ''connection failed'', w))"

text \<open>The handler and the ping ticker start with the client; a ticker without a positive interval panics.\<close>

definition NewWebSocketClient :: "string \<Rightarrow> (ws_config \<Rightarrow> ws_config) list \<Rightarrow> bool \<Rightarrow> ws_client result" where
  "NewWebSocketClient wsURL opts dialed =
     (if wsURL = [] then Inl ''invalid config: WSURL - cannot be empty''
      else
        let config = fold id opts (DefaultWebSocketConfig\<lparr>wf_URL := wsURL\<rparr>);
            client = \<lparr>ws_url = wf_URL config, ws_pingInterval = wf_PingInterval config,
              ws_maxReconnect = wf_MaxReconnect config, ws_reconnectDelay = wf_ReconnectDelay config, ws_conn = None,
              ws_subscribers = [], ws_chans = [], ws_nextReqID = 1, ws_cancelled = False, ws_handler = LoopTop, ws_calls = [],
              ws_dials = 0, ws_shut = [], ws_frames = [], ws_pings = [], ws_closing = 0, ws_panicked = False\<rparr>
        in case connect dialed client of
             (Inl err, _) \<Rightarrow> Inl ''failed to connect''
           | (Inr _, w) \<Rightarrow> Inr (w\<lparr>ws_panicked := (ws_pingInterval w \<le> 0)\<rparr>))"

definition NewWebSocketClientFromEnv :: "(string \<Rightarrow> string) \<Rightarrow> bool \<Rightarrow> ws_client result" where
  "NewWebSocketClientFromEnv env dialed =
     (if env ''WS'' = [] then Inl ''WS environment variable is required'' else NewWebSocketClient (env ''WS'') [] dialed)"

definition IsConnected :: "ws_client \<Rightarrow> bool" where
  "IsConnected w = (ws_conn w \<noteq> None)"

text \<open>\<open>reconnect\<close>: its start, its wait, and what follows a dial.\<close>

definition start_reconnect :: "bool \<Rightarrow> ws_client \<Rightarrow> ws_client" where
  "start_reconnect recovering w =
     (shut (ws_conn w) w)\<lparr>ws_conn := None, ws_handler := BackOff 0 (ws_reconnectDelay w) recovering\<rparr>"

definition next_delay :: "int \<Rightarrow> int" where
  "next_delay delay = (let delay = wrap64 (delay * 2) in if delay > 30 * 10 ^ 9 then 30 * 10 ^ 9 else delay)"

definition reconnect_dial :: "nat \<Rightarrow> int \<Rightarrow> bool \<Rightarrow> bool \<Rightarrow> ws_client \<Rightarrow> ws_client" where
  "reconnect_dial attempt delay recovering dialed w =
     (case connect dialed w of
        (Inr _, w) \<Rightarrow> w\<lparr>ws_handler := (if recovering then Ended else LoopTop)\<rparr>
      | (Inl err, w) \<Rightarrow> w\<lparr>ws_handler := BackOff (attempt + 1) (next_delay delay) recovering\<rparr>)"

section \<open>Messages\<close>

text \<open>
  A map written back as JSON: a number goes through a float (\<open>F\<close>, of its literal). The order of the
  members, which \<open>Marshal\<close> sorts, is not observed.
\<close>

primrec remarshal :: "(string \<Rightarrow> string) \<Rightarrow> json \<Rightarrow> json" where
  "remarshal F JNull = JNull"
| "remarshal F (JBool b) = JBool b"
| "remarshal F (JNum s) = JNum (F s)"
| "remarshal F (JStr s) = JStr s"
| "remarshal F (JArr vs) = JArr (map (remarshal F) vs)"
| "remarshal F (JObj ms) = JObj (map (map_prod id (remarshal F)) ms)"

text \<open>A send that does not wait; \<open>None\<close>: the channel is closed and the send panics.\<close>

definition push :: "rpc_response \<Rightarrow> nat \<Rightarrow> ws_chan list \<Rightarrow> ws_chan list option" where
  "push resp a chans =
     (let ch = chans ! a
      in if wc_closed ch then None
         else if length (wc_buf ch) < 100 then Some (chans[a := ch\<lparr>wc_buf := wc_buf ch @ [resp]\<rparr>])
         else Some chans)"

fun broadcast :: "rpc_response \<Rightarrow> nat list \<Rightarrow> ws_chan list \<Rightarrow> bool \<times> ws_chan list" where
  "broadcast resp [] chans = (False, chans)"
| "broadcast resp (a # as) chans =
     (case push resp a chans of None \<Rightarrow> (True, chans) | Some chans \<Rightarrow> broadcast resp as chans)"

definition is_notification :: "members \<Rightarrow> bool" where
  "is_notification ms = (str_member ms ''method'' = Some ''eth_subscription'')"

text \<open>Whose channels get a message.\<close>

definition receivers :: "rpc_response \<Rightarrow> (int \<times> nat) list \<Rightarrow> nat list" where
  "receivers resp subs =
     (if (case rr_Result resp of None \<Rightarrow> False | Some v \<Rightarrow> (case as_map v of None \<Rightarrow> False | Some ms \<Rightarrow> is_notification ms))
      then map snd subs
      else if rr_ID resp > 0 then (case map_of subs (rr_ID resp) of None \<Rightarrow> [] | Some a \<Rightarrow> [a])
      else [])"

definition dispatchMessage :: "rpc_response \<Rightarrow> ws_client \<Rightarrow> bool \<times> ws_client" where
  "dispatchMessage resp w =
     (case broadcast resp (receivers resp (ws_subscribers w)) (ws_chans w) of
        (panicked, chans) \<Rightarrow> (panicked, w\<lparr>ws_chans := chans\<rparr>))"

definition notification_response :: "(string \<Rightarrow> string) \<Rightarrow> json \<Rightarrow> rpc_response" where
  "notification_response F v = \<lparr>rr_JSONRPC = ''2.0'', rr_ID = 0, rr_Result = Some (remarshal F v), rr_Error = None\<rparr>"

text \<open>What the handler makes of a message, \<open>None\<close> when it is not JSON.\<close>

definition parse_message :: "(string \<Rightarrow> string) \<Rightarrow> json option \<Rightarrow> rpc_response option" where
  "parse_message F msg =
     (case msg of
        None \<Rightarrow> None
      | Some v \<Rightarrow>
          (case as_map v of
             None \<Rightarrow> None
           | Some rawMsg \<Rightarrow> if is_notification rawMsg then Some (notification_response F v) else decode_response v))"

definition handle_message :: "(string \<Rightarrow> string) \<Rightarrow> json option \<Rightarrow> ws_client \<Rightarrow> ws_client" where
  "handle_message F msg w =
     (case parse_message F msg of
        None \<Rightarrow> w\<lparr>ws_handler := LoopTop\<rparr>
      | Some resp \<Rightarrow>
          (case dispatchMessage resp w of
             (True, w) \<Rightarrow> start_reconnect True w
           | (False, w) \<Rightarrow> w\<lparr>ws_handler := LoopTop\<rparr>))"

text \<open>After a failed read the connection is dropped without being closed.\<close>

definition read_failed :: "ws_client \<Rightarrow> ws_client" where
  "read_failed w =
     (let w = w\<lparr>ws_conn := None\<rparr>
      in if ws_cancelled w then w\<lparr>ws_handler := Ended\<rparr> else start_reconnect False w)"

definition ping_tick :: "bool \<Rightarrow> ws_client \<Rightarrow> ws_client" where
  "ping_tick written w =
     (case ws_conn w of Some k \<Rightarrow> if written then w\<lparr>ws_pings := ws_pings w @ [k]\<rparr> else w | None \<Rightarrow> w)"

section \<open>Subscribing and closing\<close>

text \<open>\<open>Subscribe\<close> in its three parts: registration, reading the connection, writing the request.\<close>

definition subscribe_register :: "string \<Rightarrow> json list option \<Rightarrow> ws_client \<Rightarrow> ws_call \<times> ws_client" where
  "subscribe_register meth params w =
     (let reqID = ws_nextReqID w;
          a = length (ws_chans w);
          req = \<lparr>rq_JSONRPC = ''2.0'', rq_Method = meth, rq_Params = params, rq_ID = reqID\<rparr>
      in (\<lparr>sc_req = req, sc_chan = a, sc_conn = None\<rparr>,
          w\<lparr>ws_nextReqID := reqID + 1, ws_chans := ws_chans w @ [\<lparr>wc_buf = [], wc_closed = False\<rparr>],
            ws_subscribers := AList.update reqID a (ws_subscribers w)\<rparr>))"

definition subscribe_conn :: "ws_call \<Rightarrow> ws_client \<Rightarrow> ws_call result" where
  "subscribe_conn c w = (case ws_conn w of None \<Rightarrow> Inl ''not connected'' | Some k \<Rightarrow> Inr (c\<lparr>sc_conn := Some k\<rparr>))"

text \<open>Closing a channel that is closed panics, and nothing recovers that.\<close>

definition close_chan :: "nat \<Rightarrow> ws_chan list \<Rightarrow> ws_chan list" where
  "close_chan a chans = chans[a := (chans ! a)\<lparr>wc_closed := True\<rparr>]"

definition subscribe_write :: "ws_call \<Rightarrow> nat \<Rightarrow> bool \<Rightarrow> ws_client \<Rightarrow> nat result \<times> ws_client" where
  "subscribe_write c k written w =
     (if written then (Inr (sc_chan c), w\<lparr>ws_frames := ws_frames w @ [(k, sc_req c)]\<rparr>)
      else
        let w = w\<lparr>ws_subscribers := AList.delete (rq_ID (sc_req c)) (ws_subscribers w)\<rparr>
        in if wc_closed (ws_chans w ! sc_chan c) then (Inl ''panic: close of closed channel'', w\<lparr>ws_panicked := True\<rparr>)
           else (Inl ''write failed'', w\<lparr>ws_chans := close_chan (sc_chan c) (ws_chans w)\<rparr>))"

definition Subscribe :: "string \<Rightarrow> json list option \<Rightarrow> bool \<Rightarrow> ws_client \<Rightarrow> nat result \<times> ws_client" where
  "Subscribe meth params written w =
     (case subscribe_register meth params w of
        (c, w) \<Rightarrow>
          (case subscribe_conn c w of
             Inl err \<Rightarrow> (Inl err, w)
           | Inr c \<Rightarrow> (case sc_conn c of None \<Rightarrow> (Inl ''not connected'', w) | Some k \<Rightarrow> subscribe_write c k written w)))"

text \<open>The three phases of \<open>Close\<close> before it waits for the goroutines.\<close>

definition close_cancel :: "ws_client \<Rightarrow> ws_client" where
  "close_cancel w = w\<lparr>ws_cancelled := True, ws_closing := 1\<rparr>"

definition close_conn :: "ws_client \<Rightarrow> ws_client" where
  "close_conn w = (shut (ws_conn w) w)\<lparr>ws_conn := None, ws_closing := 2\<rparr>"

definition close_subscribers :: "ws_client \<Rightarrow> ws_client" where
  "close_subscribers w =
     w\<lparr>ws_chans := fold close_chan (map snd (ws_subscribers w)) (ws_chans w), ws_subscribers := [], ws_closing := 3\<rparr>"

definition Close_ws :: "ws_client \<Rightarrow> ws_client" where
  "Close_ws w = close_subscribers (close_conn (close_cancel w))"

section \<open>New block headers\<close>

text \<open>The header a response carries: of a notification, or of a bare result with a number and a hash.\<close>

definition notification_head :: "members \<Rightarrow> members option" where
  "notification_head ms =
     (if is_notification ms then
        (case member ms ''params'' of
           Some (JObj params) \<Rightarrow> (case member params ''result'' of Some (JObj result) \<Rightarrow> Some result | _ \<Rightarrow> None)
         | _ \<Rightarrow> None)
      else None)"

definition head_of :: "big_env \<Rightarrow> rpc_response \<Rightarrow> block_head option" where
  "head_of B resp =
     (case rr_Result resp of
        None \<Rightarrow> None
      | Some v \<Rightarrow>
          (case as_map v of
             None \<Rightarrow> None
           | Some ms \<Rightarrow>
               (case notification_head ms of
                  Some result \<Rightarrow> Some (parseBlockHeader B result)
                | None \<Rightarrow>
                    if member ms ''number'' \<noteq> None \<and> member ms ''hash'' \<noteq> None then Some (parseBlockHeader B ms) else None)))"

text \<open>The forwarding goroutine: its source, a header it waits to hand on, and its output channel.\<close>

record head_sub =
  hs_src :: nat
  hs_hold :: "block_head option"
  hs_out :: "block_head list"
  hs_closed :: bool

definition SubscribeNewHeads :: "bool \<Rightarrow> ws_client \<Rightarrow> head_sub result \<times> ws_client" where
  "SubscribeNewHeads written w =
     (case Subscribe ''eth_subscribe'' (Some [JStr ''newHeads'']) written w of
        (Inl err, w) \<Rightarrow> (Inl (''failed to subscribe: '' @ err), w)
      | (Inr ch, w) \<Rightarrow> (Inr \<lparr>hs_src = ch, hs_hold = None, hs_out = [], hs_closed = False\<rparr>, w))"

text \<open>Its steps; \<open>None\<close>: it waits.\<close>

definition forward_receive :: "big_env \<Rightarrow> ws_client \<Rightarrow> head_sub \<Rightarrow> (ws_client \<times> head_sub) option" where
  "forward_receive B w h =
     (if hs_closed h \<or> hs_hold h \<noteq> None then None
      else
        let ch = ws_chans w ! hs_src h
        in case wc_buf ch of
             [] \<Rightarrow> if wc_closed ch then Some (w, h\<lparr>hs_closed := True\<rparr>) else None
           | resp # rest \<Rightarrow>
               Some (w\<lparr>ws_chans := (ws_chans w)[hs_src h := ch\<lparr>wc_buf := rest\<rparr>]\<rparr>, h\<lparr>hs_hold := head_of B resp\<rparr>))"

definition forward_send :: "head_sub \<Rightarrow> head_sub option" where
  "forward_send h =
     (case hs_hold h of
        None \<Rightarrow> None
      | Some header \<Rightarrow>
          if hs_closed h \<or> 100 \<le> length (hs_out h) then None
          else Some (h\<lparr>hs_hold := None, hs_out := hs_out h @ [header]\<rparr>))"

definition forward_stop :: "head_sub \<Rightarrow> head_sub" where
  "forward_stop h = h\<lparr>hs_hold := None, hs_closed := True\<rparr>"

section \<open>Interleaving\<close>

text \<open>
  One step of one goroutine: the handler, the ping ticker, a call of \<open>Subscribe\<close>, the caller of
  \<open>Close\<close>, or a reader of a channel. Nothing moves after an unrecovered panic. A write on a
  connection the client has closed fails.
\<close>

inductive ws_step :: "(string \<Rightarrow> string) \<Rightarrow> ws_client \<Rightarrow> ws_client \<Rightarrow> bool" for F where
  top_done: "\<not> ws_panicked w \<Longrightarrow> ws_handler w = LoopTop \<Longrightarrow> ws_cancelled w \<Longrightarrow> ws_step F w (w\<lparr>ws_handler := Ended\<rparr>)"
| top_nil: "\<not> ws_panicked w \<Longrightarrow> ws_handler w = LoopTop \<Longrightarrow> \<not> ws_cancelled w \<Longrightarrow> ws_conn w = None \<Longrightarrow>
    ws_step F w (start_reconnect False w)"
| top_read: "\<not> ws_panicked w \<Longrightarrow> ws_handler w = LoopTop \<Longrightarrow> \<not> ws_cancelled w \<Longrightarrow> ws_conn w = Some k \<Longrightarrow>
    ws_step F w (w\<lparr>ws_handler := InRead k\<rparr>)"
| top_deadline: "\<not> ws_panicked w \<Longrightarrow> ws_handler w = LoopTop \<Longrightarrow> \<not> ws_cancelled w \<Longrightarrow> ws_conn w = Some k \<Longrightarrow>
    ws_step F w (start_reconnect False (w\<lparr>ws_conn := None\<rparr>))"
| read_error: "\<not> ws_panicked w \<Longrightarrow> ws_handler w = InRead k \<Longrightarrow> ws_step F w (read_failed w)"
| read_message: "\<not> ws_panicked w \<Longrightarrow> ws_handler w = InRead k \<Longrightarrow> ws_step F w (handle_message F msg w)"
| wait_over: "\<not> ws_panicked w \<Longrightarrow> ws_handler w = BackOff a d f \<Longrightarrow> int a < ws_maxReconnect w \<Longrightarrow>
    ws_step F w (w\<lparr>ws_handler := InDial a d f\<rparr>)"
| wait_done: "\<not> ws_panicked w \<Longrightarrow> ws_handler w = BackOff a d f \<Longrightarrow> int a < ws_maxReconnect w \<Longrightarrow> ws_cancelled w \<Longrightarrow>
    ws_step F w (w\<lparr>ws_handler := Ended\<rparr>)"
| give_up: "\<not> ws_panicked w \<Longrightarrow> ws_handler w = BackOff a d f \<Longrightarrow> \<not> int a < ws_maxReconnect w \<Longrightarrow>
    ws_step F w (w\<lparr>ws_handler := Ended\<rparr>)"
| dial_out: "\<not> ws_panicked w \<Longrightarrow> ws_handler w = InDial a d f \<Longrightarrow> ws_step F w (reconnect_dial a d f dialed w)"
| ping: "\<not> ws_panicked w \<Longrightarrow> \<not> ws_cancelled w \<Longrightarrow> ws_step F w (ping_tick written w)"
| sub_register: "\<not> ws_panicked w \<Longrightarrow> subscribe_register meth params w = (c, w') \<Longrightarrow>
    ws_step F w (w'\<lparr>ws_calls := c # ws_calls w'\<rparr>)"
| sub_refused: "\<not> ws_panicked w \<Longrightarrow> ws_calls w = cs @ c # cs' \<Longrightarrow> sc_conn c = None \<Longrightarrow> subscribe_conn c w = Inl err \<Longrightarrow>
    ws_step F w (w\<lparr>ws_calls := cs @ cs'\<rparr>)"
| sub_conn: "\<not> ws_panicked w \<Longrightarrow> ws_calls w = cs @ c # cs' \<Longrightarrow> sc_conn c = None \<Longrightarrow> subscribe_conn c w = Inr c' \<Longrightarrow>
    ws_step F w (w\<lparr>ws_calls := cs @ c' # cs'\<rparr>)"
| sub_write: "\<not> ws_panicked w \<Longrightarrow> ws_calls w = cs @ c # cs' \<Longrightarrow> sc_conn c = Some k \<Longrightarrow> (written \<longrightarrow> k \<notin> set (ws_shut w)) \<Longrightarrow>
    subscribe_write c k written w = (r, w') \<Longrightarrow> ws_step F w (w'\<lparr>ws_calls := cs @ cs'\<rparr>)"
| cancel: "\<not> ws_panicked w \<Longrightarrow> ws_closing w = 0 \<Longrightarrow> ws_step F w (close_cancel w)"
| drop_conn: "\<not> ws_panicked w \<Longrightarrow> ws_closing w = 1 \<Longrightarrow> ws_step F w (close_conn w)"
| drop_subs: "\<not> ws_panicked w \<Longrightarrow> ws_closing w = 2 \<Longrightarrow> ws_step F w (close_subscribers w)"
| receive: "\<not> ws_panicked w \<Longrightarrow> a < length (ws_chans w) \<Longrightarrow> wc_buf (ws_chans w ! a) = resp # rest \<Longrightarrow>
    ws_step F w (w\<lparr>ws_chans := (ws_chans w)[a := (ws_chans w ! a)\<lparr>wc_buf := rest\<rparr>]\<rparr>)"

inductive ws_run :: "(string \<Rightarrow> string) \<Rightarrow> ws_client \<Rightarrow> ws_client \<Rightarrow> bool" for F where
  stay: "ws_run F w w"
| go: "ws_run F w w' \<Longrightarrow> ws_step F w' w'' \<Longrightarrow> ws_run F w w''"

definition ws_reachable :: "(string \<Rightarrow> string) \<Rightarrow> ws_client \<Rightarrow> bool" where
  "ws_reachable F w \<longleftrightarrow> (\<exists>url opts w0. NewWebSocketClient url opts True = Inr w0 \<and> 0 < ws_pingInterval w0 \<and> ws_run F w0 w)"

end
