(* ===== verification/IndexerRun.thy ===== *)
theory IndexerRun imports Indexer begin

text \<open>
  What the batching loops of the indexer do: they return for every positive batch size, and while no
  write fails they put every transaction of a range into the batches once and in order.
\<close>

section \<open>The loops return\<close>

lemma has_spaceD:
  assumes "has_space E s = Some b"
  shows "bs_count (sv_batches s) \<noteq> 0" "bs_batches (sv_batches s) (bs_count (sv_batches s)) = Some b"
    "ib_Status b = ''pending''" "int (length (ib_Trades b)) < batch_size E" "int (length (ib_Transactions b)) < batch_size E"
  using assms by (auto simp: has_space_def GetIncompleteBatch_def split: sum.splits option.splits if_splits)

lemma batch_loop_returns:
  assumes "0 < batch_size E"
  shows "\<exists>r s'. batch_loop E txs s = Some (r, s') \<and> r \<noteq> Panicked"
proof (induction "length txs" arbitrary: txs s rule: less_induct)
  case less
  show ?case
  proof (cases "txs = []")
    case False
    show ?thesis
    proof (cases "has_space E s")
      case None
      then show ?thesis using assms False less [of "drop (nat (batch_size E)) txs"]
        by (subst batch_loop.simps) simp
    next
      case (Some b)
      define added where "added = take (nat (batch_size E - int (length (ib_Transactions b)))) txs"
      have "length (drop (length added) txs) < length txs"
        using False has_spaceD(5) [OF Some] by (simp add: added_def)
      then have "\<exists>r s''. batch_loop E (drop (length added) txs) s' = Some (r, s'') \<and> r \<noteq> Panicked" for s'
        by (rule less)
      then show ?thesis using False Some
        by (subst batch_loop.simps) (auto simp: added_def [symmetric] split: prod.split sum.split)
    qed
  qed (subst batch_loop.simps, simp)
qed

lemma batch_loop_stuck:
  assumes "batch_size E = 0" and "txs \<noteq> []"
  shows "batch_loop E txs s = None"
proof (rule ccontr)
  assume "batch_loop E txs s \<noteq> None"
  then obtain y where y: "batch_loop E txs s = Some y" by blast
  have "batch_size E = 0 \<longrightarrow> txs = []"
  proof (rule batch_loop.raw_induct [where P = "\<lambda>E txs s y. batch_size E = 0 \<longrightarrow> txs = []", OF _ y], rule impI, rule ccontr)
    fix loop E txs s y
    assume IH: "\<And>E txs s y. loop E txs s = Some y \<Longrightarrow> batch_size E = 0 \<longrightarrow> txs = []"
      and z: "batch_size E = 0" "txs \<noteq> []"
      and body: "(if txs = [] then Some (Drained, s)
      else case has_space E s of
          None \<Rightarrow> if batch_size E \<le> int (length txs) then
              if batch_size E < 0 then Some (Panicked, s)
              else loop E (drop (nat (batch_size E)) txs) (createBatchFromTransactions E (take (nat (batch_size E)) txs) s)
            else Some (Drained, createBatchFromTransactions E txs s)
        | Some b \<Rightarrow>
            (let added = take (nat (batch_size E - int (length (ib_Transactions b)))) txs
             in case append_and_save E b added s of
                  (Inl err, s') \<Rightarrow> Some (Aborted, s')
                | (Inr _, s') \<Rightarrow> loop E (drop (length added) txs) s')) = Some y"
    have "has_space E s = None"
      by (simp add: has_space_def GetIncompleteBatch_def z(1) split: sum.split option.split)
    then have "loop E txs (createBatchFromTransactions E [] s) = Some y" using body z by simp
    from IH [OF this] z show False by simp
  qed
  then show False using assms by simp
qed

lemma run_blocks_returns:
  assumes "0 < batch_size E"
  shows "\<exists>r s'. run_blocks E blocks s = Some (r, s') \<and> r \<noteq> Panicked"
  using assms
proof (induction E blocks s rule: run_blocks.induct)
  case (2 E n txs blocks s)
  then show ?case using batch_loop_returns [OF "2.prems", of txs s] by (auto split: option.split prod.split)
qed simp

text \<open>
  C23: With a batch size of at least one, a block range is always processed to an end, whatever the
  node answers and whichever writes fail, and without a panic.
\<close>

theorem processBlockRange_returns:
  assumes "0 < ic_BatchSize (ie_config E)"
  shows "\<exists>r s'. processBlockRange E V startBlock endBlock s = Some (r, s') \<and> r \<noteq> Panicked"
  using run_blocks_returns [OF assms] by (auto simp: processBlockRange_def split: prod.split option.split)

section \<open>Transactions in order\<close>

definition ledger :: "batch_store \<Rightarrow> rpc_tx list" where
  "ledger bs = concat (map ib_Transactions (GetAllBatches bs))"

lemma ledger_alt:
  "ledger bs = concat (map (\<lambda>i. case bs_batches bs (of_nat i) of None \<Rightarrow> [] | Some b \<Rightarrow> ib_Transactions b) [1..<Suc (unat (bs_count bs))])"
proof -
  have "concat (map ib_Transactions (List.map_filter (\<lambda>i. bs_batches bs (of_nat i)) xs)) =
    concat (map (\<lambda>i. case bs_batches bs (of_nat i) of None \<Rightarrow> [] | Some b \<Rightarrow> ib_Transactions b) xs)" for xs
    by (induction xs) (auto simp: List.map_filter_def split: option.split)
  then show ?thesis by (simp add: ledger_def GetAllBatches_def)
qed

lemma of_nat_less_u64: "i < unat (n :: u64) \<Longrightarrow> of_nat i \<noteq> n"
  using unsigned_less [of n, where 'a = nat] by (auto simp: unat_of_nat)

lemma ledger_upt_cong:
  "n \<le> unat c \<Longrightarrow>
   map (\<lambda>i. case (m(c \<mapsto> b)) (of_nat i) of None \<Rightarrow> [] | Some b \<Rightarrow> ib_Transactions b) [1..<n] =
   map (\<lambda>i. case m (of_nat i) of None \<Rightarrow> [] | Some b \<Rightarrow> ib_Transactions b) [1..<n]"
  for c :: u64
  by (rule map_cong) (auto dest!: of_nat_less_u64 [OF less_le_trans])

lemma ledger_extend:
  assumes "bs_batches bs (bs_count bs) = Some b" and "bs_count bs \<noteq> 0" and "ib_Transactions b' = ib_Transactions b @ added"
    and "bs_batches bs' = (bs_batches bs)(bs_count bs \<mapsto> b')" and "bs_count bs' = bs_count bs"
  shows "ledger bs' = ledger bs @ added"
proof -
  have "0 < unat (bs_count bs)" using assms(2) by (simp add: unat_gt_0)
  then have u: "[1..<Suc (unat (bs_count bs))] = [1..<unat (bs_count bs)] @ [unat (bs_count bs)]" by simp
  show ?thesis
    unfolding ledger_alt assms(4,5) u map_append ledger_upt_cong [OF order_refl] using assms(1,3) by simp
qed

lemma ledger_new:
  assumes "bs_batches bs' = (bs_batches bs)(bs_count bs + 1 \<mapsto> b)" and "bs_count bs' = bs_count bs + 1"
    and "unat (bs_count bs) < 2 ^ 64 - 1"
  shows "ledger bs' = ledger bs @ ib_Transactions b"
proof -
  have c: "unat (bs_count bs + 1) = Suc (unat (bs_count bs))" using assms(3) by (simp add: unat_word_ariths)
  have u: "[1..<Suc (unat (bs_count bs + 1))] = [1..<Suc (unat (bs_count bs))] @ [Suc (unat (bs_count bs))]" by (simp add: c)
  have e: "Suc (unat (bs_count bs)) \<le> unat (bs_count bs + 1)" by (simp add: c)
  show ?thesis
    unfolding ledger_alt assms(1,2) u map_append ledger_upt_cong [OF e] by simp
qed

definition json_total :: "batch_json \<Rightarrow> bool" where
  "json_total J \<longleftrightarrow> (\<forall>b. is_ok (bj_marshal J b))"

text \<open>
  The state of a service since its first start on a store without failures: the next batch follows the
  latest, every batch is as the builder makes it and at most full, and all before the latest are closed.
\<close>

definition closed_batch :: "indexer_env \<Rightarrow> batch \<Rightarrow> bool" where
  "closed_batch E b \<longleftrightarrow> batch_size E \<le> int (length (ib_Trades b)) \<or> batch_size E \<le> int (length (ib_Transactions b))"

definition batch_ok :: "indexer_env \<Rightarrow> batch \<Rightarrow> bool" where
  "batch_ok E b \<longleftrightarrow> built (ie_abi E) b \<and> int (length (ib_Transactions b)) \<le> batch_size E"

definition running :: "indexer_env \<Rightarrow> service \<Rightarrow> bool" where
  "running E s \<longleftrightarrow>
     cache_inv (sv_batches s) \<and> store_inv (bs_kv (sv_batches s)) \<and>
     bb_batchNum (sv_builder s) = bs_count (sv_batches s) + 1 \<and>
     (\<forall>n b. bs_batches (sv_batches s) n = Some b \<longrightarrow>
        batch_ok E b \<and> (n \<noteq> bs_count (sv_batches s) \<longrightarrow> closed_batch E b))"

definition fresh_txs :: "service \<Rightarrow> rpc_tx list \<Rightarrow> bool" where
  "fresh_txs s txs \<longleftrightarrow> (\<forall>tx \<in> set txs. rt_Hash tx \<notin> bb_processedTxs (sv_builder s)) \<and> distinct (map rt_Hash txs)"

text \<open>What putting \<open>txs\<close> into batches does.\<close>

definition extends :: "indexer_env \<Rightarrow> rpc_tx list \<Rightarrow> service \<Rightarrow> service \<Rightarrow> bool" where
  "extends E txs s s' \<longleftrightarrow>
     running E s' \<and> ledger (sv_batches s') = ledger (sv_batches s) @ txs \<and>
     bb_processedTxs (sv_builder s') = bb_processedTxs (sv_builder s) \<union> rt_Hash ` set txs \<and>
     unat (bs_count (sv_batches s')) \<le> unat (bs_count (sv_batches s)) + length txs"

lemma extends_trans: "extends E xs s t \<Longrightarrow> extends E ys t u \<Longrightarrow> extends E (xs @ ys) s u"
  by (auto simp: extends_def)

lemma fresh_append: "fresh_txs s (xs @ ys) \<Longrightarrow> extends E xs s t \<Longrightarrow> fresh_txs t ys"
  by (auto simp: fresh_txs_def extends_def)

lemma SaveBatch_total:
  assumes "json_total J" and "store_inv (bs_kv bs)"
  obtains kv where "SaveBatch J bs b = (Inr (), (cacheBatch bs b)\<lparr>bs_kv := kv\<rparr>)" "store_inv kv"
proof -
  obtain z where "bj_marshal J b = Inr z" using assms(1) by (auto simp: json_total_def elim: is_okE)
  from SaveBatch_ok [OF assms(2) this] bg.ok_put [OF assms(2)] show thesis by (rule that)
qed

lemma cache_inv_kv [simp]: "cache_inv (bs\<lparr>bs_kv := kv\<rparr>) \<longleftrightarrow> cache_inv bs"
  by (simp add: cache_inv_def)

lemma create_result:
  assumes "json_total (ie_json E)" and "store_inv (bs_kv (sv_batches s))" and "txs \<noteq> []"
    and f: "filterProcessedTxs (sv_builder s) txs = txs"
  obtains b kv where "built (ie_abi E) b" "ib_Number b = bb_batchNum (sv_builder s)" "ib_Transactions b = txs"
    "sv_batches (createBatchFromTransactions E txs s) = (cacheBatch (sv_batches s) b)\<lparr>bs_kv := kv\<rparr>" "store_inv kv"
    "sv_builder (createBatchFromTransactions E txs s) =
       (mark_processed (sv_builder s) txs)\<lparr>bb_batchNum := bb_batchNum (sv_builder s) + 1\<rparr>"
proof -
  obtain b bb where b: "BuildBatch (ie_abi E) (ie_now E (sv_clock s)) (sv_builder s) txs = (Inr b, bb)"
    "ib_Transactions b = txs" "bb = (mark_processed (sv_builder s) txs)\<lparr>bb_batchNum := bb_batchNum (sv_builder s) + 1\<rparr>"
    using assms(3) by (simp add: BuildBatch_def Let_def f)
  obtain kv where sv: "SaveBatch (ie_json E) (sv_batches s) b = (Inr (), (cacheBatch (sv_batches s) b)\<lparr>bs_kv := kv\<rparr>)" "store_inv kv"
    by (rule SaveBatch_total [OF assms(1,2)])
  have "sv_batches (createBatchFromTransactions E txs s) = (cacheBatch (sv_batches s) b)\<lparr>bs_kv := kv\<rparr>"
    "sv_builder (createBatchFromTransactions E txs s) = bb"
    using assms(3) b(1) sv(1) by (simp_all add: createBatchFromTransactions_def Let_def NotifyNewBatch_def)
  then show thesis using that BuildBatch_built [OF b(1)] b(2,3) sv(2) by blast
qed

lemma append_result:
  assumes "json_total (ie_json E)" and "store_inv (bs_kv (sv_batches s))" and "txs \<noteq> []"
    and f: "filterProcessedTxs (sv_builder s) txs = txs" and "built (ie_abi E) b"
  obtains b' kv s' where "append_and_save E b txs s = (Inr (), s')" "built (ie_abi E) b'" "ib_Number b' = ib_Number b"
    "ib_Transactions b' = ib_Transactions b @ txs"
    "sv_batches s' = (cacheBatch (write_through (sv_batches s) b') b')\<lparr>bs_kv := kv\<rparr>" "store_inv kv"
    "sv_builder s' = mark_processed (sv_builder s) txs"
proof -
  obtain b' where b': "AppendToBatch (ie_abi E) (sv_builder s) b txs = (Inr b', mark_processed (sv_builder s) txs)"
    "ib_Transactions b' = ib_Transactions b @ txs"
    using assms(3) by (simp add: AppendToBatch_def Let_def f)
  have "store_inv (bs_kv (write_through (sv_batches s) b'))" using assms(2) by (simp add: write_through_def)
  from SaveBatch_total [OF assms(1) this, of b'] obtain kv where
    sv: "SaveBatch (ie_json E) (write_through (sv_batches s) b') b' =
      (Inr (), (cacheBatch (write_through (sv_batches s) b') b')\<lparr>bs_kv := kv\<rparr>)" "store_inv kv"
    by metis
  define s' where "s' = NotifyNewBatch (s\<lparr>sv_builder := mark_processed (sv_builder s) txs,
    sv_batches := (cacheBatch (write_through (sv_batches s) b') b')\<lparr>bs_kv := kv\<rparr>\<rparr>) b'"
  have "sv_batches s' = (cacheBatch (write_through (sv_batches s) b') b')\<lparr>bs_kv := kv\<rparr>"
    "sv_builder s' = mark_processed (sv_builder s) txs"
    by (simp_all add: s'_def NotifyNewBatch_def)
  moreover have "append_and_save E b txs s = (Inr (), s')" by (simp add: append_and_save_def b'(1) sv(1) s'_def)
  ultimately show thesis using that AppendToBatch_built [OF assms(5) b'(1)] b'(2) sv(2) by blast
qed

lemma create_extends:
  assumes r: "running E s" and J: "json_total (ie_json E)" and size: "int (length txs) \<le> batch_size E" and ne: "txs \<noteq> []"
    and fresh: "fresh_txs s txs" and bound: "unat (bs_count (sv_batches s)) < 2 ^ 64 - 1" and none: "has_space E s = None"
  shows "extends E txs s (createBatchFromTransactions E txs s)"
proof -
  let ?c = "bs_count (sv_batches s)" and ?bs = "sv_batches s"
  have inv: "cache_inv ?bs" "store_inv (bs_kv ?bs)" "bb_batchNum (sv_builder s) = ?c + 1"
    "\<And>n b. bs_batches ?bs n = Some b \<Longrightarrow> batch_ok E b \<and> (n \<noteq> ?c \<longrightarrow> closed_batch E b)"
    using r by (auto simp: running_def)
  have f: "filterProcessedTxs (sv_builder s) txs = txs" using fresh by (simp add: filterProcessedTxs_new fresh_txs_def)
  obtain b kv where b: "built (ie_abi E) b" "ib_Number b = ?c + 1" "ib_Transactions b = txs"
    and s': "sv_batches (createBatchFromTransactions E txs s) = (cacheBatch ?bs b)\<lparr>bs_kv := kv\<rparr>"
      "sv_builder (createBatchFromTransactions E txs s) = (mark_processed (sv_builder s) txs)\<lparr>bb_batchNum := ?c + 1 + 1\<rparr>"
    and kv: "store_inv kv"
    by (rule create_result [OF J inv(2) ne f]) (simp add: inv(3))
  have u: "unat (?c + 1) = Suc (unat ?c)" using bound by (simp add: unat_word_ariths)
  then have c: "?c < ?c + 1" "?c + 1 \<noteq> 0" by (auto simp: word_less_nat_alt)
  let ?bs' = "(cacheBatch ?bs b)\<lparr>bs_kv := kv\<rparr>"
  have new: "bs_batches ?bs' = (bs_batches ?bs)(?c + 1 \<mapsto> b)" "bs_count ?bs' = ?c + 1"
    using c by (simp_all add: cacheBatch_def b(2))
  have closed: "closed_batch E b'" if "bs_batches ?bs ?c = Some b'" for b'
  proof -
    have "ib_Status b' = ''pending''" "?c \<noteq> 0"
      using inv(4) [OF that] cache_invD(2) [OF inv(1) that] by (simp_all add: batch_ok_def built_def)
    then show ?thesis using none that
      by (auto simp: has_space_def GetIncompleteBatch_def closed_batch_def split: if_splits)
  qed
  have "running E (createBatchFromTransactions E txs s)"
    unfolding running_def s' new
  proof (intro conjI allI impI)
    show "cache_inv ?bs'" using cache_inv_cacheBatch [OF inv(1), of b] b(2) c(2) by simp
    show "store_inv (bs_kv ?bs')" using kv by simp
    show "bb_batchNum ((mark_processed (sv_builder s) txs)\<lparr>bb_batchNum := ?c + 1 + 1\<rparr>) = ?c + 1 + 1" by simp
    fix n b' assume n: "((bs_batches ?bs)(?c + 1 \<mapsto> b)) n = Some b'"
    then show "batch_ok E b'"
    proof (cases "n = ?c + 1")
      case True
      then have "b' = b" using n by simp
      then show ?thesis using b(1,3) size by (simp add: batch_ok_def)
    qed (use inv(4) in auto)
    assume "n \<noteq> ?c + 1"
    then show "closed_batch E b'" using n inv(4) closed by (cases "n = ?c") auto
  qed
  moreover have "ledger ?bs' = ledger ?bs @ txs" using ledger_new [OF new bound] b(3) by simp
  moreover have "Suc (unat ?c) \<le> unat ?c + length txs" using ne by (cases txs) simp_all
  ultimately show ?thesis unfolding extends_def s' new u by (simp add: mark_processed_def)
qed

lemma append_extends:
  assumes r: "running E s" and J: "json_total (ie_json E)" and some: "has_space E s = Some b" and ne: "txs \<noteq> []"
    and size: "int (length (ib_Transactions b)) + int (length txs) \<le> batch_size E" and fresh: "fresh_txs s txs"
  shows "\<exists>s'. append_and_save E b txs s = (Inr (), s') \<and> extends E txs s s'"
proof -
  let ?c = "bs_count (sv_batches s)" and ?bs = "sv_batches s"
  have inv: "cache_inv ?bs" "store_inv (bs_kv ?bs)" "bb_batchNum (sv_builder s) = ?c + 1"
    "\<And>n b. bs_batches ?bs n = Some b \<Longrightarrow> batch_ok E b \<and> (n \<noteq> ?c \<longrightarrow> closed_batch E b)"
    using r by (auto simp: running_def)
  note sp = has_spaceD [OF some]
  have f: "filterProcessedTxs (sv_builder s) txs = txs" using fresh by (simp add: filterProcessedTxs_new fresh_txs_def)
  have bb: "built (ie_abi E) b" "ib_Number b = ?c"
    using inv(4) [OF sp(2)] cache_invD(1) [OF inv(1) sp(2)] by (simp_all add: batch_ok_def)
  obtain b' kv s' where app: "append_and_save E b txs s = (Inr (), s')" and bn: "built (ie_abi E) b'" "ib_Number b' = ?c"
    and b': "ib_Transactions b' = ib_Transactions b @ txs"
    and s': "sv_batches s' = (cacheBatch (write_through ?bs b') b')\<lparr>bs_kv := kv\<rparr>" "sv_builder s' = mark_processed (sv_builder s) txs"
    and kv: "store_inv kv"
    by (rule append_result [OF J inv(2) ne f bb(1)]) (simp add: bb(2))
  let ?bs' = "(cacheBatch (write_through ?bs b') b')\<lparr>bs_kv := kv\<rparr>"
  have new: "bs_batches ?bs' = (bs_batches ?bs)(?c \<mapsto> b')" "bs_count ?bs' = ?c"
    by (simp_all add: cacheBatch_def write_through_def bn(2))
  note app
  moreover have "running E s'"
    unfolding running_def s' new
  proof (intro conjI allI impI)
    show "cache_inv ?bs'" using inv(1) sp(1) bn(2) by (auto simp: cache_inv_def new)
    show "store_inv (bs_kv ?bs')" using kv by simp
    show "bb_batchNum (mark_processed (sv_builder s) txs) = ?c + 1" using inv(3) by (simp add: mark_processed_def)
    fix n b2 assume n: "((bs_batches ?bs)(?c \<mapsto> b')) n = Some b2"
    then show "batch_ok E b2"
    proof (cases "n = ?c")
      case True
      then have "b2 = b'" using n by simp
      then show ?thesis using bn(1) size b' by (simp add: batch_ok_def)
    qed (use inv(4) in auto)
    assume "n \<noteq> ?c"
    then show "closed_batch E b2" using n inv(4) by auto
  qed
  moreover have "ledger ?bs' = ledger ?bs @ txs" by (rule ledger_extend [OF sp(2) sp(1) b' new])
  moreover have "bs_count (sv_batches s') = ?c" by (simp only: s' new)
  ultimately show ?thesis unfolding extends_def by (simp add: s' mark_processed_def)
qed

lemma batch_loop_extends:
  assumes "running E s" and "json_total (ie_json E)" and "0 < batch_size E" and "fresh_txs s txs"
    and "unat (bs_count (sv_batches s)) + length txs < 2 ^ 64 - 1"
  shows "\<exists>s'. batch_loop E txs s = Some (Drained, s') \<and> extends E txs s s'"
  using assms
proof (induction "length txs" arbitrary: txs s rule: less_induct)
  case less
  note r = less.prems(1) and J = less.prems(2) and size = less.prems(3) and fresh = less.prems(4) and bound = less.prems(5)
  have step: "\<exists>s'. batch_loop E (drop k txs) t = Some (Drained, s') \<and> extends E txs s s'"
    if k: "0 < k" "txs \<noteq> []" and t: "extends E (take k txs) s t" for k t
  proof -
    have "unat (bs_count (sv_batches t)) + length (drop k txs) < 2 ^ 64 - 1"
      using t bound by (auto simp: extends_def min_def split: if_splits)
    moreover have "fresh_txs t (drop k txs)" using fresh_append [OF _ t] fresh by simp
    moreover have "length (drop k txs) < length txs" using k by simp
    moreover have "running E t" using t by (simp add: extends_def)
    ultimately obtain s' where "batch_loop E (drop k txs) t = Some (Drained, s')" "extends E (drop k txs) t s'"
      using less.hyps J size by blast
    then show ?thesis using extends_trans [OF t, of "drop k txs" s'] by auto
  qed
  show ?case
  proof (cases "txs = []")
    case True
    then show ?thesis using r by (subst batch_loop.simps) (simp add: extends_def)
  next
    case ne: False
    show ?thesis
    proof (cases "has_space E s")
      case None
      have fr: "fresh_txs s (take k txs)" for k
        using fresh by (auto simp: fresh_txs_def take_map [symmetric] dest: in_set_takeD)
      have c: "unat (bs_count (sv_batches s)) < 2 ^ 64 - 1" using bound by simp
      show ?thesis
      proof (cases "batch_size E \<le> int (length txs)")
        case True
        define k where "k = nat (batch_size E)"
        have "0 < k" using size by (simp add: k_def)
        moreover have "extends E (take k txs) s (createBatchFromTransactions E (take k txs) s)"
          using ne calculation size by (intro create_extends [OF r J _ _ fr c None]) (simp_all add: k_def)
        ultimately show ?thesis using step [of k] ne None True size by (subst batch_loop.simps) (simp add: k_def)
      next
        case False
        then show ?thesis using create_extends [OF r J _ ne fresh c None] ne None
          by (subst batch_loop.simps) simp
      qed
    next
      case (Some b)
      define k where "k = nat (batch_size E - int (length (ib_Transactions b)))"
      have k: "0 < k" using has_spaceD(5) [OF Some] by (simp add: k_def)
      have l: "take k txs \<noteq> []" using k ne by simp
      have "fresh_txs s (take k txs)"
        using fresh by (auto simp: fresh_txs_def take_map [symmetric] dest: in_set_takeD)
      moreover have "int (length (ib_Transactions b)) + int (length (take k txs)) \<le> batch_size E"
        using has_spaceD(5) [OF Some] by (simp add: k_def)
      ultimately obtain t where t: "append_and_save E b (take k txs) s = (Inr (), t)" "extends E (take k txs) s t"
        using append_extends [OF r J Some l] by blast
      have "drop (length (take k txs)) txs = drop k txs" by (cases "k \<le> length txs") simp_all
      then show ?thesis using step [OF k ne t(2)] ne Some t(1)
        by (subst batch_loop.simps) (simp only: k_def [symmetric] Let_def option.case prod.case sum.case if_False)
    qed
  qed
qed

lemma run_blocks_extends:
  assumes "running E s" and "json_total (ie_json E)" and "0 < batch_size E" and "fresh_txs s (concat (map snd blocks))"
    and "unat (bs_count (sv_batches s)) + length (concat (map snd blocks)) < 2 ^ 64 - 1"
  shows "\<exists>s'. run_blocks E blocks s = Some (Drained, s') \<and> extends E (concat (map snd blocks)) s s'"
  using assms
proof (induction E blocks s rule: run_blocks.induct)
  case (1 E s)
  then show ?case by (simp add: extends_def)
next
  case (2 E n txs blocks s)
  have fr: "fresh_txs s (txs @ concat (map snd blocks))" using "2.prems"(4) by simp
  then have "fresh_txs s txs" by (auto simp: fresh_txs_def)
  then obtain t where t: "batch_loop E txs s = Some (Drained, t)" "extends E txs s t"
    using batch_loop_extends [OF "2.prems"(1-3), of txs] "2.prems"(5) by auto
  have "unat (bs_count (sv_batches t)) + length (concat (map snd blocks)) < 2 ^ 64 - 1"
    using t(2) "2.prems"(5) by (simp add: extends_def)
  moreover have "running E t" using t(2) by (simp add: extends_def)
  ultimately obtain s' where "run_blocks E blocks t = Some (Drained, s')" "extends E (concat (map snd blocks)) t s'"
    using "2.IH" [OF t(1), of Drained t] "2.prems"(2,3) fresh_append [OF fr t(2)] by auto
  then show ?case using extends_trans [OF t(2)] t(1) by auto
qed

section \<open>What the batching loops leave alone\<close>

text \<open>The keys that are not under \<open>batch:\<close> read the same.\<close>

definition same_other :: "service \<Rightarrow> service \<Rightarrow> bool" where
  "same_other s s' \<longleftrightarrow>
     (\<forall>k. \<not> has_prefix ''batch:'' k \<longrightarrow> bg_get (bs_kv (sv_batches s')) k = bg_get (bs_kv (sv_batches s)) k)"

lemma same_other_refl [simp]: "same_other s s"
  by (simp add: same_other_def)

lemma same_other_trans: "same_other s t \<Longrightarrow> same_other t u \<Longrightarrow> same_other s u"
  by (simp add: same_other_def)

lemma map_of_bg_put_other: "k' \<noteq> k \<Longrightarrow> map_of (bg_put k v db) k' = map_of db k'"
  by (induction k v db rule: bg_put.induct) auto

lemma bg_get_update_other: "k' \<noteq> k \<Longrightarrow> bg_get (snd (bg_update kv [(k, v)])) k' = bg_get kv k'"
  by (simp add: bg_update_def bg_get_def map_of_bg_put_other)

lemma SaveBatch_other:
  assumes "\<not> has_prefix ''batch:'' k"
  shows "bg_get (bs_kv (snd (SaveBatch J bs b))) k = bg_get (bs_kv bs) k"
proof (cases "bj_marshal J b")
  case (Inr z)
  have kv: "bs_kv (cacheBatch bs b) = bs_kv bs" by (simp add: cacheBatch_def)
  have "bs_kv (snd (SaveBatch J bs b)) = snd (bg_update (bs_kv bs) [(batchKey (ib_Number b), z)])"
    by (simp add: SaveBatch_def Let_def Inr kv split: prod.split sum.split)
  moreover have "k \<noteq> batchKey (ib_Number b)" using assms by auto
  ultimately show ?thesis by (simp add: bg_get_update_other)
qed (simp add: SaveBatch_def cacheBatch_def)

lemma create_other: "same_other s (createBatchFromTransactions E txs s)"
proof -
  obtain r bb where b: "BuildBatch (ie_abi E) (ie_now E (sv_clock s)) (sv_builder s) txs = (r, bb)" by fastforce
  show ?thesis
  proof (cases r)
    case (Inr b')
    obtain q bs where q: "SaveBatch (ie_json E) (sv_batches s) b' = (q, bs)" by fastforce
    have "bg_get (bs_kv bs) k = bg_get (bs_kv (sv_batches s)) k" if "\<not> has_prefix ''batch:'' k" for k
      using SaveBatch_other [OF that, of "ie_json E" "sv_batches s" b'] by (simp add: q)
    then show ?thesis using b q Inr
      by (cases q) (simp_all add: createBatchFromTransactions_def Let_def same_other_def NotifyNewBatch_def)
  qed (use b in \<open>simp add: createBatchFromTransactions_def same_other_def\<close>)
qed

lemma write_through_kv [simp]: "bs_kv (write_through bs b) = bs_kv bs"
  by (simp add: write_through_def)

lemma append_other: "same_other s (snd (append_and_save E b txs s))"
proof -
  obtain r bb where b: "AppendToBatch (ie_abi E) (sv_builder s) b txs = (r, bb)" by fastforce
  show ?thesis
  proof (cases r)
    case (Inr b')
    obtain q bs where q: "SaveBatch (ie_json E) (write_through (sv_batches s) b') b' = (q, bs)" by fastforce
    have "bg_get (bs_kv bs) k = bg_get (bs_kv (sv_batches s)) k" if "\<not> has_prefix ''batch:'' k" for k
      using SaveBatch_other [OF that, of "ie_json E" "write_through (sv_batches s) b'" b'] by (simp add: q)
    then show ?thesis using b q Inr by (cases q) (simp_all add: append_and_save_def same_other_def NotifyNewBatch_def)
  qed (use b in \<open>simp add: append_and_save_def same_other_def\<close>)
qed

lemma batch_loop_other: "batch_loop E txs s = Some y \<Longrightarrow> same_other s (snd y)"
proof (rule batch_loop.raw_induct [where P = "\<lambda>E txs s y. same_other s (snd y)"])
  fix loop E txs s y
  assume IH: "\<And>E txs s y. loop E txs s = Some y \<Longrightarrow> same_other s (snd y)"
    and body: "(if txs = [] then Some (Drained, s)
      else case has_space E s of
          None \<Rightarrow> if batch_size E \<le> int (length txs) then
              if batch_size E < 0 then Some (Panicked, s)
              else loop E (drop (nat (batch_size E)) txs) (createBatchFromTransactions E (take (nat (batch_size E)) txs) s)
            else Some (Drained, createBatchFromTransactions E txs s)
        | Some b \<Rightarrow>
            (let added = take (nat (batch_size E - int (length (ib_Transactions b)))) txs
             in case append_and_save E b added s of
                  (Inl err, s') \<Rightarrow> Some (Aborted, s')
                | (Inr _, s') \<Rightarrow> loop E (drop (length added) txs) s')) = Some y"
  show "same_other s (snd y)"
  proof (cases "has_space E s")
    case None
    show ?thesis
    proof (cases "txs \<noteq> [] \<and> batch_size E \<le> int (length txs) \<and> 0 \<le> batch_size E")
      case True
      then have "loop E (drop (nat (batch_size E)) txs) (createBatchFromTransactions E (take (nat (batch_size E)) txs) s) = Some y"
        using body None by simp
      from IH [OF this] show ?thesis by (rule same_other_trans [OF create_other])
    next
      case False
      then show ?thesis using body None create_other [of s E txs] by (auto split: if_splits)
    qed
  next
    case (Some b)
    let ?added = "take (nat (batch_size E - int (length (ib_Transactions b)))) txs"
    obtain r t where rt: "append_and_save E b ?added s = (r, t)" by fastforce
    have "same_other s t" using append_other [of s E b ?added] by (simp add: rt)
    then show ?thesis
    proof (cases "txs = []")
      case False
      show ?thesis
      proof (cases r)
        case (Inr u)
        then have "loop E (drop (length ?added) txs) t = Some y" using body Some rt False by (simp add: Let_def)
        from IH [OF this] show ?thesis by (rule same_other_trans [OF \<open>same_other s t\<close>])
      qed (use body Some rt False \<open>same_other s t\<close> in \<open>auto simp: Let_def\<close>)
    qed (use body in auto)
  qed
qed simp

lemma run_blocks_other: "run_blocks E blocks s = Some (r, s') \<Longrightarrow> same_other s s'"
proof (induction E blocks s rule: run_blocks.induct)
  case (2 E n txs blocks s)
  then obtain r0 t where t: "batch_loop E txs s = Some (r0, t)" by (auto split: option.splits)
  from batch_loop_other [OF t] have "same_other s t" by simp
  then show ?case using 2 t same_other_trans by (cases "r0 = Drained") auto
qed simp

lemma same_other_hash: "same_other s s' \<Longrightarrow> GetBlockHash (sv_batches s') n = GetBlockHash (sv_batches s) n"
  by (simp add: same_other_def GetBlockHash_def)

lemma same_other_register:
  "same_other s s' \<Longrightarrow> \<not> has_prefix ''batch:'' k \<Longrightarrow> get_register k (sv_batches s') = get_register k (sv_batches s)"
  by (simp add: same_other_def get_register_def)

section \<open>Ranges of a chain\<close>

text \<open>The node answers for the blocks of \<open>ns\<close> with the blocks of a chain, and no stored hash differs.\<close>

definition node_serves :: "node_view \<Rightarrow> (u64 \<Rightarrow> rpc_block) \<Rightarrow> u64 list \<Rightarrow> bool" where
  "node_serves V chain ns \<longleftrightarrow> (\<forall>n \<in> set ns. fetch_block V n = Inr (chain n))"

definition chain_txs :: "indexer_env \<Rightarrow> (u64 \<Rightarrow> rpc_block) \<Rightarrow> u64 list \<Rightarrow> rpc_tx list" where
  "chain_txs E chain ns = concat (map (\<lambda>n. List.filter (relevant E) (rb_Transactions (chain n))) ns)"

definition hashed :: "batch_store \<Rightarrow> u64 list \<Rightarrow> (u64 \<Rightarrow> rpc_block) \<Rightarrow> batch_store \<Rightarrow> bool" where
  "hashed bs ns chain bs' \<longleftrightarrow>
     bs_batches bs' = bs_batches bs \<and> bs_count bs' = bs_count bs \<and> store_inv (bs_kv bs') \<and>
     (\<forall>m. GetBlockHash bs' m = (if m \<in> set ns then Inr (rb_Hash (chain m)) else GetBlockHash bs m)) \<and>
     get_register ''state:lastBlock'' bs' = get_register ''state:lastBlock'' bs"

lemma get_register_hash: "get_register ''state:lastBlock'' (snd (SetBlockHash bs n h)) = get_register ''state:lastBlock'' bs"
proof -
  have "bs_kv (snd (SetBlockHash bs n h)) = snd (bg_update (bs_kv bs) [(blockHashKey n, h)])"
    by (simp add: SetBlockHash_def split: prod.split)
  moreover have "''state:lastBlock'' \<noteq> blockHashKey n" using batchKey_other(5) [of n] by metis
  ultimately show ?thesis unfolding get_register_def by (simp add: bg_get_update_other)
qed

lemma check_blocks_node_serves:
  assumes "store_inv (bs_kv bs)" and "distinct ns" and "node_serves V chain ns"
    and "\<forall>n \<in> set ns. \<not> reorged bs n (rb_Hash (chain n))"
  shows "\<exists>bs'. check_blocks E V ns bs =
      (Some (map (\<lambda>n. (n, List.filter (relevant E) (rb_Transactions (chain n)))) ns), bs') \<and> hashed bs ns chain bs'"
  using assms
proof (induction ns arbitrary: bs)
  case Nil
  then show ?case by (simp add: hashed_def)
next
  case (Cons n ns)
  let ?bs = "snd (SetBlockHash bs n (rb_Hash (chain n)))"
  note inv = Cons.prems(1)
  have h: "GetBlockHash ?bs m = (if m = n then Inr (rb_Hash (chain n)) else GetBlockHash bs m)" for m
    by (rule block_hash_roundtrip [OF inv])
  have st: "store_inv (bs_kv ?bs)" "bs_batches ?bs = bs_batches bs" "bs_count ?bs = bs_count bs"
    unfolding SetBlockHash_ok [OF inv] using bg.ok_put [OF inv] by simp_all
  have "\<forall>m \<in> set ns. \<not> reorged ?bs m (rb_Hash (chain m))"
    using Cons.prems(2,4) by (auto simp: reorged_def h)
  then obtain bs' where bs': "check_blocks E V ns ?bs =
      (Some (map (\<lambda>n. (n, List.filter (relevant E) (rb_Transactions (chain n)))) ns), bs')" "hashed ?bs ns chain bs'"
    using Cons.IH [OF st(1)] Cons.prems(2,3) by (auto simp: node_serves_def)
  have "fetch_block V n = Inr (chain n)" "\<not> reorged bs n (rb_Hash (chain n))"
    using Cons.prems(3,4) by (simp_all add: node_serves_def)
  then have "check_blocks E V (n # ns) bs =
      (Some (map (\<lambda>n. (n, List.filter (relevant E) (rb_Transactions (chain n)))) (n # ns)), bs')"
    using bs'(1) by simp
  moreover have "hashed bs (n # ns) chain bs'"
    using bs'(2) h Cons.prems(2) by (auto simp: hashed_def st get_register_hash)
  ultimately show ?case by blast
qed

lemma running_batches:
  "running E s \<Longrightarrow> bs_batches bs' = bs_batches (sv_batches s) \<Longrightarrow> bs_count bs' = bs_count (sv_batches s) \<Longrightarrow>
   store_inv (bs_kv bs') \<Longrightarrow> running E (s\<lparr>sv_batches := bs'\<rparr>)"
  by (simp add: running_def cache_inv_def)

lemma ledger_cong: "bs_batches bs' = bs_batches bs \<Longrightarrow> bs_count bs' = bs_count bs \<Longrightarrow> ledger bs' = ledger bs"
  by (simp add: ledger_def GetAllBatches_def)

lemma distinct_range_blocks: "distinct (range_blocks a b)"
proof -
  have "i = j" if "of_nat i = (of_nat j :: u64)" "i < unat (b - a + 1)" "j < unat (b - a + 1)" for i j
  proof -
    have "i < 2 ^ 64" "j < 2 ^ 64" using that(2,3) unsigned_less [of "b - a + 1", where 'a = nat] by simp_all
    then show ?thesis using that(1) by (simp add: of_nat_u64_inject)
  qed
  then show ?thesis by (auto simp: range_blocks_def distinct_map inj_on_def)
qed

definition batched :: "indexer_env \<Rightarrow> (u64 \<Rightarrow> rpc_block) \<Rightarrow> u64 list \<Rightarrow> service \<Rightarrow> service \<Rightarrow> bool" where
  "batched E chain ns s s' \<longleftrightarrow>
     extends E (chain_txs E chain ns) s s' \<and>
     (\<forall>m. GetBlockHash (sv_batches s') m = (if m \<in> set ns then Inr (rb_Hash (chain m)) else GetBlockHash (sv_batches s) m))"

lemma range_batched:
  assumes r: "running E s" and J: "json_total (ie_json E)" and size: "0 < batch_size E"
    and node_serves: "node_serves V chain (range_blocks a b)"
    and hashes: "\<forall>n \<in> set (range_blocks a b). \<not> reorged (sv_batches s) n (rb_Hash (chain n))"
    and fresh: "fresh_txs s (chain_txs E chain (range_blocks a b))"
    and bound: "unat (bs_count (sv_batches s)) + length (chain_txs E chain (range_blocks a b)) < 2 ^ 64 - 1"
  shows "\<exists>s'. processBlockRange E V a b s = Some (Drained, s') \<and> batched E chain (range_blocks a b) s s'"
proof -
  let ?ns = "range_blocks a b"
  let ?blocks = "map (\<lambda>n. (n, List.filter (relevant E) (rb_Transactions (chain n)))) ?ns"
  have "store_inv (bs_kv (sv_batches s))" using r by (simp add: running_def)
  then obtain bs where bs: "check_blocks E V ?ns (sv_batches s) = (Some ?blocks, bs)" "hashed (sv_batches s) ?ns chain bs"
    using check_blocks_node_serves [OF _ distinct_range_blocks node_serves hashes] by blast
  let ?s = "s\<lparr>sv_batches := bs\<rparr>"
  have txs: "concat (map snd ?blocks) = chain_txs E chain ?ns" by (simp add: chain_txs_def comp_def)
  have r': "running E ?s" using bs(2) r by (intro running_batches) (simp_all add: hashed_def)
  have "bs_count (sv_batches ?s) = bs_count (sv_batches s)" using bs(2) by (simp add: hashed_def)
  then obtain s' where s': "run_blocks E ?blocks ?s = Some (Drained, s')" "extends E (chain_txs E chain ?ns) ?s s'"
    using run_blocks_extends [OF r' J size, of ?blocks] fresh bound unfolding txs by (auto simp: fresh_txs_def)
  have "ledger bs = ledger (sv_batches s)" using bs(2) by (intro ledger_cong) (simp_all add: hashed_def)
  then have "extends E (chain_txs E chain ?ns) s s'"
    using s'(2) bs(2) by (simp add: extends_def hashed_def)
  moreover have "GetBlockHash (sv_batches s') m = GetBlockHash bs m" for m
    using same_other_hash [OF run_blocks_other [OF s'(1)]] by simp
  ultimately show ?thesis using s'(1) bs by (auto simp: processBlockRange_def batched_def hashed_def)
qed

section \<open>Polling a chain\<close>

definition span :: "nat \<Rightarrow> nat \<Rightarrow> u64 list" where
  "span i j = map of_nat [i..<j]"

lemma range_blocks_span: "i \<le> j \<Longrightarrow> j < 2 ^ 64 - 1 \<Longrightarrow> range_blocks (of_nat i) (of_nat j) = span i (Suc j)"
proof -
  assume ij: "i \<le> j" "j < 2 ^ 64 - 1"
  have "(of_nat j - of_nat i + 1 :: u64) = of_nat (Suc j - i)" using ij(1) by (simp add: of_nat_diff Suc_diff_le)
  moreover have "Suc j - i < 2 ^ 64" using ij(2) by simp
  ultimately have u: "unat (of_nat j - of_nat i + 1 :: u64) = Suc j - i" by (simp only: unat_of_nat) simp
  have "map (\<lambda>k. of_nat i + of_nat k) [0..<Suc j - i] = (map of_nat (map (\<lambda>k. k + i) [0..<Suc j - i]) :: u64 list)"
    by (simp add: add.commute)
  also have "map (\<lambda>k. k + i) [0..<Suc j - i] = [i..<Suc j]" using ij(1) by (subst map_add_upt) simp
  finally show ?thesis by (simp only: range_blocks_def u span_def)
qed

lemma span_append: "i \<le> j \<Longrightarrow> j \<le> k \<Longrightarrow> span i k = span i j @ span j k"
  unfolding span_def map_append [symmetric] using upt_add_eq_append [of i j "k - j"] by simp

lemma mem_span: "k < 2 ^ 64 \<Longrightarrow> n \<in> set (span i k) \<longleftrightarrow> i \<le> unat n \<and> unat n < k"
proof
  assume "k < 2 ^ 64" "n \<in> set (span i k)"
  then show "i \<le> unat n \<and> unat n < k" by (auto simp: span_def unat_of_nat)
next
  assume n: "i \<le> unat n \<and> unat n < k"
  then have "unat n \<in> {i..<k}" by simp
  then have "(of_nat (unat n) :: u64) \<in> of_nat ` {i..<k}" by (rule imageI)
  then show "n \<in> set (span i k)" by (simp add: span_def)
qed

lemma chain_txs_append: "chain_txs E chain (xs @ ys) = chain_txs E chain xs @ chain_txs E chain ys"
  by (simp add: chain_txs_def)

text \<open>Between ticks: the loop's last block is the stored one, and no block above it has a stored hash.\<close>

definition caught_up :: "indexer_env \<Rightarrow> u64 \<Rightarrow> service \<Rightarrow> bool" where
  "caught_up E lastBlock s \<longleftrightarrow>
     running E s \<and> GetLastProcessedBlock (sv_batches s) = Inr lastBlock \<and>
     (\<forall>n > lastBlock. \<not> is_ok (GetBlockHash (sv_batches s) n))"

lemma set_last_ok:
  assumes "store_inv (bs_kv (sv_batches s))"
  obtains kv where "set_last s n = s\<lparr>sv_batches := (sv_batches s)\<lparr>bs_kv := kv\<rparr>\<rparr>" "store_inv kv"
    "GetLastProcessedBlock (sv_batches (set_last s n)) = Inr n"
    "\<And>m. GetBlockHash (sv_batches (set_last s n)) m = GetBlockHash (sv_batches s) m"
proof -
  let ?kv = "snd (bg_update (bs_kv (sv_batches s)) [(''state:lastBlock'', le_enc64 n)])"
  have s: "set_last s n = s\<lparr>sv_batches := (sv_batches s)\<lparr>bs_kv := ?kv\<rparr>\<rparr>"
    by (simp add: set_last_def SetLastProcessedBlock_def set_register_ok [OF assms])
  moreover have "GetLastProcessedBlock (sv_batches (set_last s n)) = Inr n"
    unfolding set_last_def SetLastProcessedBlock_def GetLastProcessedBlock_def using register_roundtrip [OF assms] by simp
  moreover have "GetBlockHash (sv_batches (set_last s n)) m = GetBlockHash (sv_batches s) m" for m
    unfolding s GetBlockHash_def by (simp add: bg_get_update_other)
  ultimately show thesis using that [of ?kv] bg.ok_put [OF assms] by blast
qed

definition clear_from :: "nat \<Rightarrow> service \<Rightarrow> bool" where
  "clear_from i s \<longleftrightarrow> (\<forall>n. i \<le> unat n \<longrightarrow> \<not> is_ok (GetBlockHash (sv_batches s) n))"

lemma caught_up_clear: "caught_up E lastBlock s \<Longrightarrow> clear_from (Suc (unat lastBlock)) s"
  by (simp add: caught_up_def clear_from_def word_less_nat_alt Suc_le_eq)

lemma range_then_cursor:
  assumes b: "batched E chain (span i (Suc j)) s t" and clear: "clear_from i s" and i: "i \<le> j" and j: "j < 2 ^ 64 - 1"
  shows "extends E (chain_txs E chain (span i (Suc j))) s (set_last t (of_nat j))" and "caught_up E (of_nat j) (set_last t (of_nat j))"
proof -
  have t: "running E t" using b by (simp add: batched_def extends_def)
  then have "store_inv (bs_kv (sv_batches t))" by (simp add: running_def)
  then obtain kv where kv: "set_last t (of_nat j) = t\<lparr>sv_batches := (sv_batches t)\<lparr>bs_kv := kv\<rparr>\<rparr>" "store_inv kv"
    "GetLastProcessedBlock (sv_batches (set_last t (of_nat j))) = Inr (of_nat j)"
    "\<And>m. GetBlockHash (sv_batches (set_last t (of_nat j))) m = GetBlockHash (sv_batches t) m"
    by (rule set_last_ok [where n = "of_nat j"]) blast
  have r: "running E (set_last t (of_nat j))"
    unfolding kv(1) using t kv(2) by (intro running_batches) simp_all
  have "ledger ((sv_batches t)\<lparr>bs_kv := kv\<rparr>) = ledger (sv_batches t)" by (intro ledger_cong) simp_all
  then show "extends E (chain_txs E chain (span i (Suc j))) s (set_last t (of_nat j))"
    using b r unfolding batched_def extends_def by (simp add: kv(1))
  have uj: "unat (of_nat j :: u64) = j" using j by (simp add: unat_of_nat)
  have "\<not> is_ok (GetBlockHash (sv_batches t) n)" if "of_nat j < n" for n
  proof -
    have n: "j < unat n" using that uj by (simp add: word_less_nat_alt)
    then have "n \<notin> set (span i (Suc j))" using mem_span [of "Suc j" n i] j by simp
    then show ?thesis using b clear n i by (simp add: batched_def clear_from_def)
  qed
  then show "caught_up E (of_nat j) (set_last t (of_nat j))" using r kv(3,4) by (simp add: caught_up_def)
qed

lemma poll_chunks_follow:
  assumes "running E s" and J: "json_total (ie_json E)" and size: "0 < batch_size E"
    and i: "clear_from i s" "i \<le> unat N" and N: "unat N < 2 ^ 64 - 101"
    and serves: "node_serves V chain (span i (Suc (unat N)))"
    and "fresh_txs s (chain_txs E chain (span i (Suc (unat N))))"
    and "unat (bs_count (sv_batches s)) + length (chain_txs E chain (span i (Suc (unat N)))) < 2 ^ 64 - 1"
  shows "\<exists>s'. poll_chunks E V N (of_nat i) lastBlock s = Some (Drained, N, s') \<and>
    extends E (chain_txs E chain (span i (Suc (unat N)))) s s' \<and> caught_up E N s'"
  using assms
proof (induction "unat N - i" arbitrary: i lastBlock s rule: less_induct)
  case less
  note r = less.prems(1) and i = less.prems(4,5) and fresh = less.prems(8) and bound = less.prems(9)
  define j where "j = min (i + 99) (unat N)"
  have j: "i \<le> j" "j \<le> unat N" "j < 2 ^ 64 - 1" using i N by (auto simp: j_def)
  have ui: "unat (of_nat i :: u64) = i" "unat (of_nat i + 99 :: u64) = i + 99" "unat (of_nat i + 100 :: u64) = i + 100"
    using i N by (simp_all add: unat_of_nat unat_word_ariths)
  have ce: "chunk_end (of_nat i) N = of_nat j"
    using ui by (auto simp: chunk_end_def word_less_nat_alt j_def min_def)
  have le: "of_nat i \<le> N" using ui i by (simp add: word_le_nat_alt)
  have sp: "span i (Suc (unat N)) = span i (Suc j) @ span (Suc j) (Suc (unat N))" using j i by (intro span_append) simp_all
  have rb: "range_blocks (of_nat i) (of_nat j) = span i (Suc j)" by (rule range_blocks_span [OF j(1,3)])
  have "\<not> reorged (sv_batches s) n (rb_Hash (chain n))" if "n \<in> set (span i (Suc j))" for n
  proof -
    have "i \<le> unat n" using that mem_span [of "Suc j" n i] j(3) by simp
    then show ?thesis using i(1) by (cases "GetBlockHash (sv_batches s) n") (auto simp: clear_from_def reorged_def)
  qed
  moreover have "node_serves V chain (span i (Suc j))" using less.prems(7) unfolding sp node_serves_def by simp
  moreover have "fresh_txs s (chain_txs E chain (span i (Suc j)))"
    using fresh unfolding sp chain_txs_append by (auto simp: fresh_txs_def)
  moreover have "unat (bs_count (sv_batches s)) + length (chain_txs E chain (span i (Suc j))) < 2 ^ 64 - 1"
    using bound unfolding sp chain_txs_append by simp
  ultimately obtain t where t: "processBlockRange E V (of_nat i) (of_nat j) s = Some (Drained, t)" "batched E chain (span i (Suc j)) s t"
    using range_batched [OF r less.prems(2,3), of V chain "of_nat i" "of_nat j"] unfolding rb by blast
  note u = range_then_cursor [OF t(2) i(1) j(1,3)]
  let ?u = "set_last t (of_nat j)"
  have unfold1: "poll_chunks E V N (of_nat i) lastBlock s = poll_chunks E V N (of_nat i + 100) (of_nat j) ?u"
    by (subst poll_chunks.simps) (simp add: le ce t(1))
  show ?case
  proof (cases "unat N \<le> i + 99")
    case True
    then have "j = unat N" by (simp add: j_def)
    moreover have "\<not> of_nat i + 100 \<le> N" using True ui by (simp add: word_le_nat_alt)
    ultimately show ?thesis using u unfold1 by (subst (asm) (2) poll_chunks.simps) simp
  next
    case False
    then have jj: "j = i + 99" by (simp add: j_def)
    have uj: "unat (of_nat j :: u64) = j" using j by (simp add: unat_of_nat)
    have fr: "fresh_txs ?u (chain_txs E chain (span (Suc j) (Suc (unat N))))"
      using fresh_append [OF _ u(1)] fresh unfolding sp chain_txs_append by blast
    have bd: "unat (bs_count (sv_batches ?u)) + length (chain_txs E chain (span (Suc j) (Suc (unat N)))) < 2 ^ 64 - 1"
      using u(1) bound unfolding sp chain_txs_append by (simp add: extends_def)
    have ns: "node_serves V chain (span (Suc j) (Suc (unat N)))" using less.prems(7) unfolding sp node_serves_def by simp
    have m: "unat N - Suc j < unat N - i" "Suc j \<le> unat N" using jj False by simp_all
    have cl: "clear_from (Suc j) ?u" using caught_up_clear [OF u(2)] uj by simp
    have ru: "running E ?u" using u(2) by (simp add: caught_up_def)
    obtain s' where s': "poll_chunks E V N (of_nat (Suc j)) (of_nat j) ?u = Some (Drained, N, s')"
      "extends E (chain_txs E chain (span (Suc j) (Suc (unat N)))) ?u s'" "caught_up E N s'"
      using less.hyps [OF m(1) ru less.prems(2,3) cl m(2) less.prems(6) ns fr bd] by blast
    have e: "of_nat i + 100 = (of_nat (Suc j) :: u64)" by (simp add: jj)
    show ?thesis unfolding unfold1 e sp chain_txs_append using s' extends_trans [OF u(1) s'(2)] by blast
  qed
qed

lemma poll_tick_follow:
  assumes "caught_up E lastBlock s" and "json_total (ie_json E)" and "0 < batch_size E"
    and N: "nv_BlockNumber V = Inr N" "unat N < 2 ^ 64 - 101" and "node_serves V chain (span (Suc (unat lastBlock)) (Suc (unat N)))"
    and "fresh_txs s (chain_txs E chain (span (Suc (unat lastBlock)) (Suc (unat N))))"
    and "unat (bs_count (sv_batches s)) + length (chain_txs E chain (span (Suc (unat lastBlock)) (Suc (unat N)))) < 2 ^ 64 - 1"
  shows "\<exists>s'. poll_tick E V lastBlock s = Some (Drained, max lastBlock N, s') \<and>
    extends E (chain_txs E chain (span (Suc (unat lastBlock)) (Suc (unat N)))) s s' \<and> caught_up E (max lastBlock N) s'"
proof (cases "lastBlock < N")
  case True
  then have "Suc (unat lastBlock) \<le> unat N" by (simp add: word_less_nat_alt)
  moreover have "(of_nat (Suc (unat lastBlock)) :: u64) = lastBlock + 1" by simp
  ultimately show ?thesis
    using poll_chunks_follow [OF _ assms(2,3) caught_up_clear [OF assms(1)] _ N(2) assms(6-8)] assms(1) True N(1)
      less_imp_le [OF True]
    by (simp add: poll_tick_def max_def add.commute caught_up_def)
next
  case False
  then have "unat N \<le> unat lastBlock" "max lastBlock N = lastBlock"
    by (simp_all add: word_less_nat_alt max_def word_le_nat_alt) (metis le_antisym word_unat_eq_iff)
  then show ?thesis using False assms(1) N(1)
    by (simp add: poll_tick_def span_def chain_txs_def extends_def caught_up_def)
qed

section \<open>A service from its first start\<close>

fun poll_ticks :: "indexer_env \<Rightarrow> node_view list \<Rightarrow> u64 \<Rightarrow> service \<Rightarrow> (loop_end \<times> u64 \<times> service) option" where
  "poll_ticks E [] lastBlockNum s = Some (Drained, lastBlockNum, s)"
| "poll_ticks E (V # Vs) lastBlockNum s =
     (case poll_tick E V lastBlockNum s of
        None \<Rightarrow> None
      | Some (r, lastBlockNum', s') \<Rightarrow>
          if r = Panicked then Some (r, lastBlockNum', s') else poll_ticks E Vs lastBlockNum' s')"

text \<open>\<open>Start\<close> and then the polling loop.\<close>

definition indexer_run :: "indexer_env \<Rightarrow> badger \<Rightarrow> node_view list \<Rightarrow> (loop_end \<times> u64 \<times> service) option" where
  "indexer_run E kv Vs =
     (case start_service E kv of
        Inl err \<Rightarrow> Some (Aborted, 0, \<lparr>sv_batches = \<lparr>bs_batches = Map.empty, bs_count = 0, bs_kv = kv\<rparr>,
                                    sv_builder = NewBatchBuilder 1, sv_clock = 0, sv_notifier = []\<rparr>)
      | Inr s \<Rightarrow> (case initStartingBlock E s of (lastBlockNum, s) \<Rightarrow> poll_ticks E Vs lastBlockNum s))"

text \<open>A node that, when it answers, has a height up to \<open>tip\<close> and serves the chain up to that height.\<close>

definition on_chain :: "(u64 \<Rightarrow> rpc_block) \<Rightarrow> u64 \<Rightarrow> u64 \<Rightarrow> node_view \<Rightarrow> bool" where
  "on_chain chain first tip V \<longleftrightarrow>
     (\<forall>N. nv_BlockNumber V = Inr N \<longrightarrow> N \<le> tip \<and> node_serves V chain (span (Suc (unat first)) (Suc (unat N))))"

definition up_to :: "indexer_env \<Rightarrow> (u64 \<Rightarrow> rpc_block) \<Rightarrow> u64 \<Rightarrow> u64 \<Rightarrow> service \<Rightarrow> bool" where
  "up_to E chain first L s \<longleftrightarrow>
     caught_up E L s \<and> ledger (sv_batches s) = chain_txs E chain (span (Suc (unat first)) (Suc (unat L))) \<and>
     bb_processedTxs (sv_builder s) = rt_Hash ` set (ledger (sv_batches s)) \<and>
     unat (bs_count (sv_batches s)) \<le> length (ledger (sv_batches s))"

lemma poll_tick_up_to:
  assumes u: "up_to E chain first L s" and L: "first \<le> L" "L \<le> tip" and J: "json_total (ie_json E)" and size: "0 < batch_size E"
    and tip: "unat tip < 2 ^ 64 - 101" and V: "on_chain chain first tip V"
    and d: "distinct (map rt_Hash (chain_txs E chain (span (Suc (unat first)) (Suc (unat tip)))))"
    and len: "length (chain_txs E chain (span (Suc (unat first)) (Suc (unat tip)))) < 2 ^ 64 - 1"
  shows "\<exists>L' s'. poll_tick E V L s = Some (Drained, L', s') \<and> up_to E chain first L' s' \<and> L \<le> L' \<and> L' \<le> tip \<and>
    (\<forall>N. nv_BlockNumber V = Inr N \<longrightarrow> N \<le> L')"
proof (cases "nv_BlockNumber V")
  case (Inl err)
  then show ?thesis using u L by (simp add: poll_tick_def)
next
  case (Inr N)
  note le = L [unfolded word_le_nat_alt]
  have N: "N \<le> tip" "node_serves V chain (span (Suc (unat first)) (Suc (unat N)))" using V Inr by (simp_all add: on_chain_def)
  let ?T = "\<lambda>n. chain_txs E chain (span (Suc (unat first)) (Suc n))"
  define M where "M = max (unat L) (unat N)"
  have M: "unat L \<le> M" "unat N \<le> M" "M \<le> unat tip" "unat (max L N) = M"
    using le N(1) by (auto simp: M_def word_le_nat_alt max_def)
  have split: "span (Suc (unat first)) (Suc M) = span (Suc (unat first)) (Suc (unat L)) @ span (Suc (unat L)) (Suc M)"
    using le M by (intro span_append) simp_all
  have new: "span (Suc (unat L)) (Suc M) = span (Suc (unat L)) (Suc (unat N))" by (simp add: M_def span_def max_def)
  have TM: "?T M = ?T (unat L) @ chain_txs E chain (span (Suc (unat L)) (Suc (unat N)))"
    by (simp only: split chain_txs_append new)
  have "span (Suc (unat first)) (Suc (unat tip)) = span (Suc (unat first)) (Suc M) @ span (Suc M) (Suc (unat tip))"
    using le M by (intro span_append) simp_all
  then have Ttip: "?T (unat tip) = ?T M @ chain_txs E chain (span (Suc M) (Suc (unat tip)))" by (simp only: chain_txs_append)
  have serves: "node_serves V chain (span (Suc (unat L)) (Suc (unat N)))"
  proof -
    have "set (span (Suc (unat L)) (Suc (unat N))) \<subseteq> set (span (Suc (unat first)) (Suc (unat N)))"
      using le by (auto simp: span_def)
    then show ?thesis using N(2) by (auto simp: node_serves_def)
  qed
  have "distinct (map rt_Hash (?T M))" "length (?T M) < 2 ^ 64 - 1" using d len unfolding Ttip by simp_all
  then have "fresh_txs s (chain_txs E chain (span (Suc (unat L)) (Suc (unat N))))"
    "unat (bs_count (sv_batches s)) + length (chain_txs E chain (span (Suc (unat L)) (Suc (unat N)))) < 2 ^ 64 - 1"
    using u unfolding TM up_to_def by (auto simp: fresh_txs_def)
  moreover have "unat N < 2 ^ 64 - 101" using M tip by simp
  moreover have "caught_up E L s" using u by (simp add: up_to_def)
  ultimately obtain s' where s': "poll_tick E V L s = Some (Drained, max L N, s')"
    "extends E (chain_txs E chain (span (Suc (unat L)) (Suc (unat N)))) s s'" "caught_up E (max L N) s'"
    using poll_tick_follow [OF _ J size Inr _ serves] by blast
  have "up_to E chain first (max L N) s'"
    using u s'(2,3) TM unfolding up_to_def extends_def M(4) by auto
  then show ?thesis using s'(1) L N(1) Inr by (intro exI [of _ "max L N"] exI [of _ s']) auto
qed

lemma poll_ticks_up_to:
  assumes "up_to E chain first L s" and "first \<le> L" "L \<le> tip" and J: "json_total (ie_json E)" and size: "0 < batch_size E"
    and tip: "unat tip < 2 ^ 64 - 101" and "\<forall>V \<in> set Vs. on_chain chain first tip V"
    and d: "distinct (map rt_Hash (chain_txs E chain (span (Suc (unat first)) (Suc (unat tip)))))"
    and len: "length (chain_txs E chain (span (Suc (unat first)) (Suc (unat tip)))) < 2 ^ 64 - 1"
  shows "\<exists>L' s'. poll_ticks E Vs L s = Some (Drained, L', s') \<and> up_to E chain first L' s' \<and> L \<le> L' \<and> L' \<le> tip \<and>
    (\<forall>V \<in> set Vs. \<forall>N. nv_BlockNumber V = Inr N \<longrightarrow> N \<le> L')"
  using assms(1-3,7)
proof (induction Vs arbitrary: L s)
  case (Cons V Vs)
  have V: "on_chain chain first tip V" using Cons.prems(4) by simp
  obtain L1 s1 where 1: "poll_tick E V L s = Some (Drained, L1, s1)" "up_to E chain first L1 s1" "L \<le> L1" "L1 \<le> tip"
    "\<forall>N. nv_BlockNumber V = Inr N \<longrightarrow> N \<le> L1"
    using poll_tick_up_to [OF Cons.prems(1-3) J size tip V d len] by blast
  have "first \<le> L1" using Cons.prems(2) 1(3) by simp
  then obtain L' s' where 2: "poll_ticks E Vs L1 s1 = Some (Drained, L', s')" "up_to E chain first L' s'" "L1 \<le> L'" "L' \<le> tip"
    "\<forall>V \<in> set Vs. \<forall>N. nv_BlockNumber V = Inr N \<longrightarrow> N \<le> L'"
    using Cons.IH [OF 1(2) _ 1(4)] Cons.prems(4) by auto
  have "N \<le> L'" if "nv_BlockNumber V = Inr N" for N using 1(5) 2(3) that order_trans by blast
  moreover have "L \<le> L'" using 1(3) 2(3) by simp
  ultimately show ?case using 1(1) 2 by auto
qed simp

definition first_block :: "indexer_env \<Rightarrow> u64" where
  "first_block E = (if ic_IndexFromBlock (ie_config E) > 0 then ic_IndexFromBlock (ie_config E) - 1 else 0)"

lemma first_start:
  assumes "store_inv kv" and "bg_db kv = []"
  shows "\<exists>s. start_service E kv = Inr s \<and> (\<exists>s'. initStartingBlock E s = (first_block E, s') \<and> up_to E chain (first_block E) (first_block E) s')"
proof -
  define bs where "bs = \<lparr>bs_batches = Map.empty, bs_count = 0, bs_kv = kv\<rparr>"
  define s where "s = \<lparr>sv_batches = bs, sv_builder = NewBatchBuilder 1, sv_clock = 0, sv_notifier = []\<rparr>"
  have start: "start_service E kv = Inr s"
    using assms by (simp add: start_service_def NewBatchStore_def bg_keys_def initial_batch_number_def GetIncompleteBatch_def
        GetLatestBatch_ix_def s_def bs_def)
  have none: "GetLastProcessedBlock (sv_batches s) = Inr 0" "\<not> is_ok (GetBlockHash (sv_batches s) n)" for n
    using assms by (simp_all add: s_def bs_def GetLastProcessedBlock_def get_register_def GetBlockHash_def bg_get_ok)
  have init: "initStartingBlock E s = (first_block E, set_last s (first_block E))"
    by (simp add: initStartingBlock_def none first_block_def Let_def)
  have "store_inv (bs_kv (sv_batches s))" using assms by (simp add: s_def bs_def)
  then obtain kv' where kv': "set_last s (first_block E) = s\<lparr>sv_batches := (sv_batches s)\<lparr>bs_kv := kv'\<rparr>\<rparr>" "store_inv kv'"
    "GetLastProcessedBlock (sv_batches (set_last s (first_block E))) = Inr (first_block E)"
    "\<And>m. GetBlockHash (sv_batches (set_last s (first_block E))) m = GetBlockHash (sv_batches s) m"
    by (rule set_last_ok [where n = "first_block E"]) blast
  have "running E (set_last s (first_block E))"
    unfolding kv'(1) using kv'(2) by (simp add: running_def cache_inv_def s_def bs_def NewBatchBuilder_def)
  then have "caught_up E (first_block E) (set_last s (first_block E))" using kv'(3,4) none(2) by (simp add: caught_up_def)
  moreover have "ledger (sv_batches (set_last s (first_block E))) = []"
    unfolding kv'(1) by (simp add: ledger_def GetAllBatches_def s_def bs_def List.map_filter_def)
  moreover have "bb_processedTxs (sv_builder (set_last s (first_block E))) = {}" "bs_count (sv_batches (set_last s (first_block E))) = 0"
    unfolding kv'(1) by (simp_all add: s_def bs_def NewBatchBuilder_def)
  ultimately have "up_to E chain (first_block E) (first_block E) (set_last s (first_block E))"
    by (simp add: up_to_def chain_txs_def span_def)
  then show ?thesis using start init by blast
qed

text \<open>
  From its first start on an empty database, an indexer whose ticks all see one chain (each either
  failing to get the height or serving every block up to it) has, after any number of ticks, processed
  the chain to the greatest height seen, which is also the stored cursor. The transactions of all its
  batches, in batch order, are exactly the transactions of the chain to the target contract with the
  target selector, in chain order, each once. Each batch carries the traces, trades and hash of its
  transactions and at most BatchSize of them, and every batch but the latest is closed.
\<close>

theorem indexer_batches_the_chain:
  assumes db: "store_inv kv" "bg_db kv = []" and J: "json_total (ie_json E)" and size: "0 < ic_BatchSize (ie_config E)"
    and tip: "unat tip < 2 ^ 64 - 101" "first_block E \<le> tip" and V: "\<forall>V \<in> set Vs. on_chain chain (first_block E) tip V"
    and d: "distinct (map rt_Hash (chain_txs E chain (span (Suc (unat (first_block E))) (Suc (unat tip)))))"
    and len: "length (chain_txs E chain (span (Suc (unat (first_block E))) (Suc (unat tip)))) < 2 ^ 64 - 1"
  shows "\<exists>L s. indexer_run E kv Vs = Some (Drained, L, s) \<and> L \<le> tip \<and>
    (\<forall>V \<in> set Vs. \<forall>N. nv_BlockNumber V = Inr N \<longrightarrow> N \<le> L) \<and> GetLastProcessedBlock (sv_batches s) = Inr L \<and>
    concat (map ib_Transactions (GetAllBatches (sv_batches s))) = chain_txs E chain (span (Suc (unat (first_block E))) (Suc (unat L))) \<and>
    (\<forall>n b. bs_batches (sv_batches s) n = Some b \<longrightarrow>
       ib_Number b = n \<and> built (ie_abi E) b \<and> int (length (ib_Transactions b)) \<le> ic_BatchSize (ie_config E) \<and>
       (n \<noteq> bs_count (sv_batches s) \<longrightarrow> closed_batch E b))"
proof -
  obtain s0 s1 where s: "start_service E kv = Inr s0" "initStartingBlock E s0 = (first_block E, s1)"
    "up_to E chain (first_block E) (first_block E) s1" using first_start [OF db] by blast
  obtain L s' where L: "poll_ticks E Vs (first_block E) s1 = Some (Drained, L, s')" "up_to E chain (first_block E) L s'" "L \<le> tip"
    "\<forall>V \<in> set Vs. \<forall>N. nv_BlockNumber V = Inr N \<longrightarrow> N \<le> L"
    using poll_ticks_up_to [OF s(3) order_refl tip(2) J size tip(1) V d len] by blast
  have r: "running E s'" using L(2) by (simp add: up_to_def caught_up_def)
  have "indexer_run E kv Vs = Some (Drained, L, s')" using s(1,2) L(1) by (simp add: indexer_run_def)
  moreover have "GetLastProcessedBlock (sv_batches s') = Inr L"
    "concat (map ib_Transactions (GetAllBatches (sv_batches s'))) = chain_txs E chain (span (Suc (unat (first_block E))) (Suc (unat L)))"
    using L(2) by (simp_all add: up_to_def caught_up_def ledger_def)
  moreover have "ib_Number b = n \<and> built (ie_abi E) b \<and> int (length (ib_Transactions b)) \<le> ic_BatchSize (ie_config E) \<and>
       (n \<noteq> bs_count (sv_batches s') \<longrightarrow> closed_batch E b)" if "bs_batches (sv_batches s') n = Some b" for n b
    using r that cache_invD(1) [of "sv_batches s'"] by (auto simp: running_def batch_ok_def)
  ultimately show ?thesis using L(3,4) by blast
qed

definition demo_tx :: "string \<Rightarrow> string \<Rightarrow> rpc_tx" where
  "demo_tx h t = \<lparr>rt_Hash = h, rt_From = ''0xf'', rt_To = t, rt_ContractAddress = [], rt_Value = Some 0,
     rt_Data = ''0x7864fe7a00'', rt_Nonce = 0, rt_Gas = 0, rt_GasPrice = None, rt_GasTipCap = None, rt_GasFeeCap = None,
     rt_BlockNumber = None, rt_BlockHash = [], rt_Index = 0, rt_IsContractDeployment = False\<rparr>"

definition demo_block :: "string \<Rightarrow> rpc_tx list \<Rightarrow> rpc_block" where
  "demo_block h txs = \<lparr>rb_Number = None, rb_Hash = h, rb_ParentHash = [], rb_Timestamp = None, rb_StateRoot = [],
     rb_Transactions = txs\<rparr>"

definition demo_chain :: "u64 \<Rightarrow> rpc_block" where
  "demo_chain n =
     (if n = 1 then demo_block ''h1'' [demo_tx ''a'' ''0xAB'', demo_tx ''x'' ''0xcd'', demo_tx ''b'' ''0xab'', demo_tx ''c'' ''0xab'']
      else if n = 2 then demo_block ''h2'' [demo_tx ''d'' ''0xab'']
      else demo_block ''h'' [])"

definition demo_abi :: abi_lib where
  "demo_abi = \<lparr>al_MethodById = \<lambda>_. Inl ''no method'', al_Unpack = \<lambda>_. Inl ''abi'', al_HashDomain = \<lambda>_ _. Inl ''hash'',
     al_HashMessage = \<lambda>_ _. Inl ''hash'', al_Keccak256 = \<lambda>_. [], al_Ecrecover = \<lambda>_ _. Inl ''recovery'',
     al_UnmarshalPubkey = \<lambda>_. Inl ''key'', al_PubkeyToAddress = \<lambda>_. []\<rparr>"

definition demo_indexer :: indexer_env where
  "demo_indexer = \<lparr>ie_config = DefaultConfig\<lparr>ic_BatchSize := 2, ic_TargetContract := ''0xAB''\<rparr>, ie_json = demo_batch_json,
     ie_abi = demo_abi, ie_now = (\<lambda>k. int k)\<rparr>"

definition demo_view :: "u64 \<Rightarrow> node_view" where
  "demo_view N = \<lparr>nv_BlockNumber = Inr N, nv_GetBlock = \<lambda>n k. Inr (demo_chain n), nv_GetHeader = \<lambda>n. Inr (demo_chain n)\<rparr>"

lemma demo_total: "json_total (ie_json demo_indexer)"
  by (simp add: json_total_def demo_indexer_def demo_batch_json_def)

lemma demo_lower: "ToLower ''0xAB'' = ''0xab''" "ToLower ''0xab'' = ''0xab''" "ToLower ''0xcd'' = ''0xcd''"
  using char_of_char [of "CHR ''a''", where 'a = nat] char_of_char [of "CHR ''b''", where 'a = nat]
  by (simp_all add: ToLower_def)

lemma demo_relevant: "relevant demo_indexer (demo_tx h t) \<longleftrightarrow> ToLower t = ''0xab''"
  by (simp add: relevant_def demo_tx_def demo_indexer_def demo_lower has_prefix_def targetSelector_def)

lemma demo_chain_txs:
  "chain_txs demo_indexer demo_chain [1, 2] = [demo_tx ''a'' ''0xAB'', demo_tx ''b'' ''0xab'', demo_tx ''c'' ''0xab'', demo_tx ''d'' ''0xab'']"
  by (simp add: chain_txs_def demo_chain_def demo_block_def demo_relevant demo_lower)

lemma demo_span: "span (Suc 0) (Suc 2) = [1, 2]"
  by (simp add: span_def upt_rec)

lemma indexer_batches_the_chain_witness:
  "\<exists>s. indexer_run demo_indexer demo_kv [demo_view 1, demo_view 2] = Some (Drained, 2, s) \<and>
     concat (map ib_Transactions (GetAllBatches (sv_batches s))) =
       [demo_tx ''a'' ''0xAB'', demo_tx ''b'' ''0xab'', demo_tx ''c'' ''0xab'', demo_tx ''d'' ''0xab'']"
proof -
  have first: "first_block demo_indexer = 0" by (simp add: first_block_def demo_indexer_def DefaultConfig_def)
  have serves: "node_serves (demo_view N) demo_chain ns" for N ns
    by (simp add: node_serves_def fetch_block_def demo_view_def upt_rec)
  have V: "\<forall>V \<in> set [demo_view 1, demo_view 2]. on_chain demo_chain 0 2 V"
    using serves by (simp add: on_chain_def) (simp add: demo_view_def)
  have d: "distinct (map rt_Hash (chain_txs demo_indexer demo_chain (span (Suc (unat (0 :: u64))) (Suc (unat (2 :: u64))))))"
    "length (chain_txs demo_indexer demo_chain (span (Suc (unat (0 :: u64))) (Suc (unat (2 :: u64))))) < 2 ^ 64 - 1"
    using demo_chain_txs demo_span by (simp_all add: demo_tx_def)
  have kv: "store_inv demo_kv" "bg_db demo_kv = []" by (simp_all add: store_inv_def demo_kv_def)
  have size: "0 < ic_BatchSize (ie_config demo_indexer)" by (simp add: demo_indexer_def)
  obtain L s where r: "indexer_run demo_indexer demo_kv [demo_view 1, demo_view 2] = Some (Drained, L, s)" "L \<le> 2"
    "\<forall>V \<in> set [demo_view 1, demo_view 2]. \<forall>N. nv_BlockNumber V = Inr N \<longrightarrow> N \<le> L"
    "concat (map ib_Transactions (GetAllBatches (sv_batches s))) = chain_txs demo_indexer demo_chain (span (Suc (unat (0 :: u64))) (Suc (unat L)))"
    using indexer_batches_the_chain [OF kv demo_total size _ _ V [folded first] d [folded first], unfolded first] by auto
  have "nv_BlockNumber (demo_view 2) = Inr 2" by (simp add: demo_view_def)
  then have "2 \<le> L" using r(3) by simp
  then have "L = 2" using r(2) by simp
  then show ?thesis using r(1,4) demo_chain_txs demo_span by simp
qed

lemma processBlockRange_returns_witness:
  "\<forall>V s. \<exists>r s'. processBlockRange demo_indexer V 1 100 s = Some (r, s') \<and> r \<noteq> Panicked"
proof (intro allI)
  fix V s
  have "0 < ic_BatchSize (ie_config demo_indexer)" by (simp add: demo_indexer_def)
  then show "\<exists>r s'. processBlockRange demo_indexer V 1 100 s = Some (r, s') \<and> r \<noteq> Panicked" by (rule processBlockRange_returns)
qed

end
