(* ===== verification/IndexerFaults.thy ===== *)
theory IndexerFaults imports IndexerRun begin

text \<open>
  What the indexer does when the chain, the node or the process fails: a reorganisation, a range that
  cannot be fetched, and a restart.
\<close>

section \<open>Reorganisations\<close>

lemma roll_back_wf:
  assumes "batch_store_wf J bs"
  shows "batch_store_wf J (roll_back V n bs)" "bs_batches (roll_back V n bs) = bs_batches bs"
    "bs_count (roll_back V n bs) = bs_count bs"
    "GetBlockHash (roll_back V n bs) m = GetBlockHash bs m"
proof -
  define bs1 where "bs1 = snd (handleReorg bs 0)"
  have h: "handleReorg bs f = (Inr (), bs1) \<and> batch_store_wf J bs1 \<and> bs_batches bs1 = bs_batches bs \<and> bs_count bs1 = bs_count bs \<and>
      (\<forall>m. GetBlockHash bs1 m = GetBlockHash bs m)" for f
  proof (cases "GetLatestBatch_ix bs")
    case (Inl err)
    then show ?thesis using assms by (simp add: handleReorg_def bs1_def)
  next
    case (Inr b)
    then have b: "bs_count bs \<noteq> 0" "bs_batches bs (bs_count bs) = Some b"
      by (auto simp: GetLatestBatch_ix_def split: if_splits option.splits)
    have inv: "cache_inv bs" "store_inv (bs_kv bs)" "holds_batches J (map_of (bg_db (bs_kv bs))) (bs_batches bs)"
      using assms by (simp_all add: batch_store_wf_def)
    have num: "ib_Number b = bs_count bs" using cache_invD(1) [OF inv(1) b(2)] .
    note d = DeleteBatchesAfter_wf [OF assms, of "bs_count bs"]
    have dd: "fst (DeleteBatchesAfter bs (bs_count bs)) = Inr ()" using d(1) b(2) by simp
    have h1: "handleReorg bs f = (Inr (), snd (DeleteBatchesAfter bs (bs_count bs)))" for f
      using dd by (auto simp: handleReorg_def Inr num split: prod.split sum.split)
    have all: "\<not> m > bs_count bs" if "bs_batches bs m \<noteq> None" for m
      using that inv(1) by (auto simp: cache_inv_def not_less)
    have "(\<lambda>m. if m > bs_count bs then None else bs_batches bs m) = bs_batches bs"
    proof
      fix m show "(if m > bs_count bs then None else bs_batches bs m) = bs_batches bs m"
        using all [of m] by (cases "bs_batches bs m") auto
    qed
    moreover have "GetBlockHash (snd (DeleteBatchesAfter bs (bs_count bs))) m = GetBlockHash bs m" for m
    proof -
      let ?ks = "List.filter (\<lambda>k. keyNumber k > bs_count bs) (bg_keys (bs_kv bs) ''batch:'')"
      obtain kv where kv: "bg_delete_keys (bs_kv bs) ?ks = (Inr (), kv)" "store_inv kv"
        "map_of (bg_db kv) = (\<lambda>k. if k \<in> set ?ks then None else map_of (bg_db (bs_kv bs)) k)"
        by (rule bg_delete_keys_ok [OF inv(2), of ?ks]) blast
      have "bs_kv (snd (DeleteBatchesAfter bs (bs_count bs))) = kv"
        by (simp add: DeleteBatchesAfter_def Let_def delete_after_ok [OF inv(2)] kv(1))
      moreover have "blockHashKey m \<notin> set (bg_keys (bs_kv bs) ''batch:'')" by (simp add: bg_keys_def)
      ultimately show ?thesis using inv(2) kv(2,3) by (simp add: GetBlockHash_def bg_get_ok)
    qed
    ultimately show ?thesis using d b(2) by (simp add: h1 bs1_def)
  qed
  have r: "GetBlockHash (snd (SetLastProcessedBlock bs1 f)) m = GetBlockHash bs1 m" for f m
    by (simp add: SetLastProcessedBlock_def set_register_def GetBlockHash_def bg_get_update_other split: prod.split)
      (metis batchKey_other(5) bg_get_update_other snd_conv)
  have w: "batch_store_wf J (snd (SetLastProcessedBlock bs1 f))" "bs_batches (snd (SetLastProcessedBlock bs1 f)) = bs_batches bs1"
    "bs_count (snd (SetLastProcessedBlock bs1 f)) = bs_count bs1" for f
    using h by (simp_all add: SetLastProcessedBlock_def set_register_wf) (simp_all add: set_register_def split: prod.split)
  show "batch_store_wf J (roll_back V n bs)" "bs_batches (roll_back V n bs) = bs_batches bs"
    "bs_count (roll_back V n bs) = bs_count bs" "GetBlockHash (roll_back V n bs) m = GetBlockHash bs m"
    using h w r assms by (auto simp: roll_back_def split: sum.split)
qed

lemma check_blocks_stuck:
  assumes "batch_store_wf J bs" and "distinct ns" and "n \<in> set ns" and "reorged bs n (rb_Hash (chain n))" and "node_serves V chain ns"
  shows "\<exists>bs'. check_blocks E V ns bs = (None, bs') \<and> batch_store_wf J bs' \<and> bs_batches bs' = bs_batches bs \<and>
    bs_count bs' = bs_count bs \<and> GetBlockHash bs' n = GetBlockHash bs n"
  using assms
proof (induction ns arbitrary: bs)
  case (Cons k ns)
  note wf = Cons.prems(1)
  have inv: "store_inv (bs_kv bs)" using wf by (simp add: batch_store_wf_def)
  have k: "fetch_block V k = Inr (chain k)" using Cons.prems(5) by (simp add: node_serves_def)
  show ?case
  proof (cases "reorged bs k (rb_Hash (chain k))")
    case True
    then show ?thesis using k roll_back_wf [OF wf, of V k] by simp
  next
    case False
    then have "n \<noteq> k" using Cons.prems(4) by auto
    let ?bs = "snd (SetBlockHash bs k (rb_Hash (chain k)))"
    have h: "GetBlockHash ?bs n = GetBlockHash bs n" using \<open>n \<noteq> k\<close> block_hash_roundtrip [OF inv] by simp
    have "bs_batches ?bs = bs_batches bs" "bs_count ?bs = bs_count bs" by (simp_all add: SetBlockHash_def split: prod.split)
    moreover obtain bs' where "check_blocks E V ns ?bs = (None, bs')" "batch_store_wf J bs'" "bs_batches bs' = bs_batches ?bs"
      "bs_count bs' = bs_count ?bs" "GetBlockHash bs' n = GetBlockHash ?bs n"
      using Cons.IH [OF SetBlockHash_wf [OF wf], of k "rb_Hash (chain k)"] Cons.prems(2,3,4,5) \<open>n \<noteq> k\<close> h
      by (auto simp: node_serves_def reorged_def)
    ultimately show ?thesis using k False h by auto
  qed
qed simp

text \<open>
  C21: Once the stored hash of a block differs from the chain's, a range with this block is given up on
  every attempt: the rollback deletes no batch, the transactions stay in their batches, and the stored
  hash stays what it was, so the next attempt on the same chain ends the same way.
\<close>

theorem reorg_never_resolves:
  assumes "batch_store_wf (ie_json E) (sv_batches s)" and "n \<in> set (range_blocks a b)"
    and "GetBlockHash (sv_batches s) n = Inr h" and "h \<noteq> rb_Hash (chain n)" and "node_serves V chain (range_blocks a b)"
  shows "\<exists>s'. processBlockRange E V a b s = Some (Aborted, s') \<and>
    GetAllBatches (sv_batches s') = GetAllBatches (sv_batches s) \<and> sv_builder s' = sv_builder s \<and>
    batch_store_wf (ie_json E) (sv_batches s') \<and> GetBlockHash (sv_batches s') n = Inr h"
proof -
  have "reorged (sv_batches s) n (rb_Hash (chain n))" using assms(3,4) by (simp add: reorged_def)
  then obtain bs' where "check_blocks E V (range_blocks a b) (sv_batches s) = (None, bs')" "batch_store_wf (ie_json E) bs'"
    "bs_batches bs' = bs_batches (sv_batches s)" "bs_count bs' = bs_count (sv_batches s)"
    "GetBlockHash bs' n = GetBlockHash (sv_batches s) n"
    using check_blocks_stuck [OF assms(1) distinct_range_blocks assms(2) _ assms(5)] by blast
  then show ?thesis using assms(3) by (simp add: processBlockRange_def GetAllBatches_def)
qed

lemma reorg_never_resolves_witness:
  "\<exists>s'. processBlockRange demo_indexer (demo_view 2) 1 2
      \<lparr>sv_batches = snd (SetBlockHash \<lparr>bs_batches = Map.empty, bs_count = 0, bs_kv = demo_kv\<rparr> 2 ''stale''),
       sv_builder = NewBatchBuilder 1, sv_clock = 0, sv_notifier = []\<rparr> = Some (Aborted, s') \<and>
     GetAllBatches (sv_batches s') = [] \<and> GetBlockHash (sv_batches s') 2 = Inr ''stale''"
proof -
  let ?bs = "\<lparr>bs_batches = Map.empty, bs_count = 0, bs_kv = demo_kv\<rparr>"
  let ?s = "\<lparr>sv_batches = snd (SetBlockHash ?bs 2 ''stale''), sv_builder = NewBatchBuilder 1, sv_clock = 0, sv_notifier = []\<rparr>"
  have kv: "store_inv demo_kv" by (simp add: store_inv_def demo_kv_def)
  have "batch_store_wf (ie_json demo_indexer) ?bs"
    using kv by (simp add: batch_store_wf_def cache_inv_def holds_batches_def demo_kv_def)
  then have wf: "batch_store_wf (ie_json demo_indexer) (sv_batches ?s)" by (simp add: SetBlockHash_wf)
  have h: "GetBlockHash (sv_batches ?s) 2 = Inr ''stale''" using block_hash_roundtrip [of ?bs] kv by simp
  have r: "range_blocks 1 2 = [1, 2]" by (simp add: range_blocks_def upt_rec)
  have "node_serves (demo_view 2) demo_chain (range_blocks 1 2)"
    by (simp add: node_serves_def fetch_block_def demo_view_def upt_rec)
  moreover have "GetAllBatches (sv_batches ?s) = []"
    by (simp add: GetAllBatches_def SetBlockHash_def List.map_filter_def split: prod.split)
  moreover have "''stale'' \<noteq> rb_Hash (demo_chain 2)" by (simp add: demo_chain_def demo_block_def)
  ultimately show ?thesis using reorg_never_resolves [OF wf _ h, of 1 2 demo_chain "demo_view 2"] by (auto simp: r)
qed

section \<open>Blocks below the cursor\<close>

lemma GetBlockHash_other: "m \<noteq> n \<Longrightarrow> GetBlockHash (snd (SetBlockHash bs n h)) m = GetBlockHash bs m"
  by (simp add: SetBlockHash_def GetBlockHash_def bg_get_update_other split: prod.split)
    (metis batchKey_other(5) bg_get_update_other blockHashKey_inject snd_conv)

lemma GetBlockHash_set_last: "GetBlockHash (sv_batches (set_last s n)) m = GetBlockHash (sv_batches s) m"
  by (simp add: set_last_def SetLastProcessedBlock_def set_register_def GetBlockHash_def split: prod.split)
    (metis batchKey_other(5) bg_get_update_other snd_conv)

lemma check_blocks_agree:
  assumes "distinct ns" and "\<forall>n \<in> set ns. fetch_block V n = fetch_block V' n \<and> \<not> is_ok (GetBlockHash bs n)"
  shows "check_blocks E V ns bs = check_blocks E V' ns bs \<and>
    (\<forall>m. m \<notin> set ns \<longrightarrow> GetBlockHash (snd (check_blocks E V ns bs)) m = GetBlockHash bs m)"
  using assms
proof (induction ns arbitrary: bs)
  case (Cons n ns)
  show ?case
  proof (cases "fetch_block V n")
    case (Inl err)
    then show ?thesis using Cons.prems(2) by (auto dest: sym)
  next
    case (Inr blk)
    let ?bs = "snd (SetBlockHash bs n (rb_Hash blk))"
    have "\<not> reorged bs n (rb_Hash blk)"
      using Cons.prems(2) by (cases "GetBlockHash bs n") (auto simp: reorged_def)
    moreover have "fetch_block V' n = Inr blk" using Inr Cons.prems(2) by simp
    moreover have h: "\<forall>k \<in> set ns. fetch_block V k = fetch_block V' k \<and> \<not> is_ok (GetBlockHash ?bs k)"
    proof
      fix k assume "k \<in> set ns"
      then show "fetch_block V k = fetch_block V' k \<and> \<not> is_ok (GetBlockHash ?bs k)"
        using Cons.prems GetBlockHash_other [of k n bs "rb_Hash blk"] by (cases "k = n") auto
    qed
    moreover have "distinct ns" using Cons.prems(1) by simp
    note IH = Cons.IH [OF this h]
    moreover obtain q bs' where q: "check_blocks E V ns ?bs = (q, bs')" by fastforce
    ultimately show ?thesis using Inr GetBlockHash_other [of _ n bs "rb_Hash blk"] IH [THEN conjunct1, symmetric]
      by (cases q) auto
  qed
qed simp

lemma range_agree:
  assumes "\<forall>n \<in> set (range_blocks a b). nv_GetBlock V n = nv_GetBlock V' n \<and> \<not> is_ok (GetBlockHash (sv_batches s) n)"
  shows "processBlockRange E V a b s = processBlockRange E V' a b s"
    and "processBlockRange E V a b s = Some (r, s') \<Longrightarrow> m \<notin> set (range_blocks a b) \<Longrightarrow>
      GetBlockHash (sv_batches s') m = GetBlockHash (sv_batches s) m"
proof -
  have "\<forall>n \<in> set (range_blocks a b). fetch_block V n = fetch_block V' n \<and> \<not> is_ok (GetBlockHash (sv_batches s) n)"
  proof
    fix n assume "n \<in> set (range_blocks a b)"
    then have "nv_GetBlock V n = nv_GetBlock V' n" "\<not> is_ok (GetBlockHash (sv_batches s) n)" using assms by blast+
    then show "fetch_block V n = fetch_block V' n \<and> \<not> is_ok (GetBlockHash (sv_batches s) n)"
      by (simp only: fetch_block_def) simp
  qed
  note c = check_blocks_agree [OF distinct_range_blocks this, of E]
  then show "processBlockRange E V a b s = processBlockRange E V' a b s" by (simp add: processBlockRange_def)
  obtain q bs where q: "check_blocks E V (range_blocks a b) (sv_batches s) = (q, bs)" by fastforce
  show "GetBlockHash (sv_batches s') m = GetBlockHash (sv_batches s) m"
    if r: "processBlockRange E V a b s = Some (r, s')" and m: "m \<notin> set (range_blocks a b)"
  proof (cases q)
    case None
    then have "s' = s\<lparr>sv_batches := bs\<rparr>" using r q by (simp add: processBlockRange_def)
    then show ?thesis using c m q by simp
  next
    case (Some blocks)
    then have "run_blocks E blocks (s\<lparr>sv_batches := bs\<rparr>) = Some (r, s')" using r q by (simp add: processBlockRange_def)
    from same_other_hash [OF run_blocks_other [OF this]] show ?thesis using c m q by simp
  qed
qed

lemma poll_chunks_agree:
  assumes "\<forall>n. i \<le> unat n \<longrightarrow> nv_GetBlock V n = nv_GetBlock V' n" and "clear_from i s" and "unat N < 2 ^ 64 - 101"
    and "i \<le> unat N + 100"
  shows "poll_chunks E V N (of_nat i) lastBlock s = poll_chunks E V' N (of_nat i) lastBlock s"
  using assms
proof (induction "unat N + 100 - i" arbitrary: i lastBlock s rule: less_induct)
  case less
  show ?case
  proof (cases "i \<le> unat N")
    case False
    then have "\<not> of_nat i \<le> N" using less.prems(3,4) by (simp add: word_le_nat_alt unat_of_nat)
    then show ?thesis by (subst (1 2) poll_chunks.simps) simp
  next
    case True
    define j where "j = min (i + 99) (unat N)"
    have j: "i \<le> j" "j \<le> i + 99" "j < 2 ^ 64 - 1" using True less.prems(3) by (auto simp: j_def)
    have ui: "unat (of_nat i :: u64) = i" "unat (of_nat i + 99 :: u64) = i + 99"
      using True less.prems(3) by (simp_all add: unat_of_nat unat_word_ariths)
    have ce: "chunk_end (of_nat i) N = of_nat j"
      using ui by (auto simp: chunk_end_def word_less_nat_alt j_def min_def)
    have le: "of_nat i \<le> N" using ui True by (simp add: word_le_nat_alt)
    have rb: "range_blocks (of_nat i) (of_nat j) = span i (Suc j)" by (rule range_blocks_span [OF j(1,3)])
    have mem: "n \<in> set (range_blocks (of_nat i) (of_nat j)) \<longleftrightarrow> i \<le> unat n \<and> unat n \<le> j" for n
      unfolding rb using mem_span [of "Suc j" n i] j(3) by auto
    have all: "\<forall>n \<in> set (range_blocks (of_nat i) (of_nat j)). nv_GetBlock V n = nv_GetBlock V' n \<and>
        \<not> is_ok (GetBlockHash (sv_batches s) n)"
      using less.prems(1,2) by (auto simp: mem clear_from_def)
    note ra = range_agree [OF all]
    have next_chunk: "poll_chunks E V N (of_nat (i + 100)) L t = poll_chunks E V' N (of_nat (i + 100)) L t"
      if "clear_from (i + 100) t" for L t
      using less.hyps [of "i + 100" t L] less.prems(1,3) True that by simp
    have cl: "clear_from (i + 100) t \<and> clear_from (i + 100) (set_last t c)"
      if "processBlockRange E V (of_nat i) (of_nat j) s = Some (r, t)" for r t c
    proof -
      have "GetBlockHash (sv_batches t) n = GetBlockHash (sv_batches s) n" if "i + 100 \<le> unat n" for n
        using ra(2) [OF \<open>processBlockRange E V (of_nat i) (of_nat j) s = Some (r, t)\<close>, of n] mem [of n] that j(2) by simp
      then show ?thesis using less.prems(2) by (simp add: clear_from_def GetBlockHash_set_last)
    qed
    have e: "(of_nat i + 100 :: u64) = of_nat (i + 100)" by simp
    show ?thesis
    proof (cases "processBlockRange E V (of_nat i) (of_nat j) s")
      case None
      then show ?thesis using ra(1) [of E] by (subst (1 2) poll_chunks.simps) (simp add: le ce)
    next
      case (Some rt)
      obtain r t where rt: "rt = (r, t)" by fastforce
      note S = Some [unfolded rt]
      have S': "processBlockRange E V' (of_nat i) (of_nat j) s = Some (r, t)" using ra(1) [of E] S by simp
      show ?thesis
        by (subst (1 2) poll_chunks.simps) (simp only: le ce S S' e if_True option.case prod.case next_chunk cl [OF S])
    qed
  qed
qed

text \<open>
  While no hash is stored above the cursor, which holds after every successful tick, a tick does
  not depend on the blocks up to the cursor: whatever two nodes answer for those, it ends the same
  way. A reorganisation of processed blocks is therefore never noticed.
\<close>

theorem processed_reorg_unseen:
  assumes "\<forall>n > lastBlock. \<not> is_ok (GetBlockHash (sv_batches s) n)" and "nv_BlockNumber V = nv_BlockNumber V'"
    and "\<forall>n > lastBlock. nv_GetBlock V n = nv_GetBlock V' n"
    and "\<forall>N. nv_BlockNumber V = Inr N \<longrightarrow> unat N < 2 ^ 64 - 101"
  shows "poll_tick E V lastBlock s = poll_tick E V' lastBlock s"
proof (cases "nv_BlockNumber V")
  case (Inr N)
  then have N': "nv_BlockNumber V' = Inr N" using assms(2) by simp
  have "poll_chunks E V N (lastBlock + 1) lastBlock s = poll_chunks E V' N (lastBlock + 1) lastBlock s" if "N > lastBlock"
  proof -
    have i: "(of_nat (Suc (unat lastBlock)) :: u64) = lastBlock + 1" by simp
    have "\<forall>n. Suc (unat lastBlock) \<le> unat n \<longrightarrow> nv_GetBlock V n = nv_GetBlock V' n" "clear_from (Suc (unat lastBlock)) s"
      using assms(1,3) by (simp_all add: clear_from_def word_less_nat_alt Suc_le_eq)
    moreover have "Suc (unat lastBlock) \<le> unat N + 100" using that by (simp add: word_less_nat_alt)
    ultimately show ?thesis
      using poll_chunks_agree [of "Suc (unat lastBlock)" V V' s N E lastBlock] assms(4) Inr unfolding i by simp
  qed
  then show ?thesis by (simp add: poll_tick_def Inr N')
next
  case (Inl err)
  then have "nv_BlockNumber V' = Inl err" using assms(2) by simp
  then show ?thesis using Inl by (simp add: poll_tick_def)
qed

definition idle_service :: service where
  "idle_service = \<lparr>sv_batches = \<lparr>bs_batches = Map.empty, bs_count = 0, bs_kv = demo_kv\<rparr>, sv_builder = NewBatchBuilder 1,
     sv_clock = 0, sv_notifier = []\<rparr>"

definition forked_view :: "u64 \<Rightarrow> node_view" where
  "forked_view N = \<lparr>nv_BlockNumber = Inr N, nv_GetBlock = \<lambda>n k. Inr (if n \<le> 1 then demo_block ''other'' [] else demo_chain n),
     nv_GetHeader = \<lambda>n. Inr (demo_block ''other'' [])\<rparr>"

lemma idle_hashes: "\<not> is_ok (GetBlockHash (sv_batches idle_service) n)"
  by (simp add: idle_service_def demo_kv_def GetBlockHash_def bg_get_def)

lemma processed_reorg_unseen_witness:
  "nv_GetBlock (demo_view 2) 1 \<noteq> nv_GetBlock (forked_view 2) 1 \<and>
   poll_tick demo_indexer (demo_view 2) 1 idle_service = poll_tick demo_indexer (forked_view 2) 1 idle_service"
proof -
  have "\<forall>n > 1. \<not> is_ok (GetBlockHash (sv_batches idle_service) n)" using idle_hashes by simp
  moreover have "nv_BlockNumber (demo_view 2) = nv_BlockNumber (forked_view 2)" by (simp add: demo_view_def forked_view_def)
  moreover have "\<forall>n > 1. nv_GetBlock (demo_view 2) n = nv_GetBlock (forked_view 2) n"
    by (auto simp: demo_view_def forked_view_def)
  moreover have "\<forall>N. nv_BlockNumber (demo_view 2) = Inr N \<longrightarrow> unat N < 2 ^ 64 - 101" by (simp add: demo_view_def)
  ultimately have "poll_tick demo_indexer (demo_view 2) 1 idle_service = poll_tick demo_indexer (forked_view 2) 1 idle_service"
    by (rule processed_reorg_unseen)
  moreover have "nv_GetBlock (demo_view 2) 1 \<noteq> nv_GetBlock (forked_view 2) 1"
    by (auto simp: demo_view_def forked_view_def demo_chain_def demo_block_def fun_eq_iff)
  ultimately show ?thesis by blast
qed

section \<open>A range that cannot be fetched\<close>

lemma check_blocks_fetch_fails:
  assumes "store_inv (bs_kv bs)" and "distinct ns" and "m \<in> set ns" and "fetch_block V m = Inl err"
    and "\<forall>n \<in> set ns. \<not> is_ok (GetBlockHash bs n)"
  shows "\<exists>bs'. check_blocks E V ns bs = (None, bs') \<and> bs_batches bs' = bs_batches bs \<and> bs_count bs' = bs_count bs \<and>
    store_inv (bs_kv bs') \<and> (\<forall>k. k \<notin> set ns \<longrightarrow> GetBlockHash bs' k = GetBlockHash bs k)"
  using assms
proof (induction ns arbitrary: bs)
  case (Cons n ns)
  show ?case
  proof (cases "fetch_block V n")
    case (Inl e)
    then show ?thesis using Cons.prems(1) by simp
  next
    case (Inr blk)
    let ?bs = "snd (SetBlockHash bs n (rb_Hash blk))"
    have m: "m \<in> set ns" using Cons.prems(3,4) Inr by auto
    have st: "store_inv (bs_kv ?bs)" "bs_batches ?bs = bs_batches bs" "bs_count ?bs = bs_count bs"
      unfolding SetBlockHash_ok [OF Cons.prems(1)] using bg.ok_put [OF Cons.prems(1)] by simp_all
    have "\<not> is_ok (GetBlockHash ?bs k)" if "k \<in> set ns" for k
      using Cons.prems(2,5) that GetBlockHash_other [of k n bs "rb_Hash blk"] by (cases "k = n") auto
    then obtain bs' where bs': "check_blocks E V ns ?bs = (None, bs')" "bs_batches bs' = bs_batches ?bs" "bs_count bs' = bs_count ?bs"
      "store_inv (bs_kv bs')" "\<forall>k. k \<notin> set ns \<longrightarrow> GetBlockHash bs' k = GetBlockHash ?bs k"
      using Cons.IH [OF st(1)] Cons.prems(2,4) m by auto
    have "\<not> reorged bs n (rb_Hash blk)"
      using Cons.prems(5) by (cases "GetBlockHash bs n") (auto simp: reorged_def)
    then show ?thesis using bs' st Inr GetBlockHash_other [of _ n bs "rb_Hash blk"] by auto
  qed
qed simp

text \<open>
  C20: When one of the next hundred blocks cannot be fetched but the later ones can, the tick goes on
  with the following ranges and the cursor, in memory and in the store, ends at the chain's height: the
  transactions of the failed range are in no batch, and no later tick looks at these blocks again.
\<close>

theorem failed_range_skipped:
  assumes cu: "caught_up E L s" and J: "json_total (ie_json E)" and size: "0 < ic_BatchSize (ie_config E)"
    and N: "nv_BlockNumber V = Inr N" "unat L + 100 < unat N" "unat N < 2 ^ 64 - 101"
    and m: "unat L < unat m" "unat m \<le> unat L + 100" "fetch_block V m = Inl err"
    and serves: "node_serves V chain (span (unat L + 101) (Suc (unat N)))"
    and fresh: "fresh_txs s (chain_txs E chain (span (unat L + 101) (Suc (unat N))))"
    and bound: "unat (bs_count (sv_batches s)) + length (chain_txs E chain (span (unat L + 101) (Suc (unat N)))) < 2 ^ 64 - 1"
  shows "\<exists>s'. poll_tick E V L s = Some (Drained, N, s') \<and> GetLastProcessedBlock (sv_batches s') = Inr N \<and>
    (\<forall>n > N. \<not> is_ok (GetBlockHash (sv_batches s') n)) \<and>
    concat (map ib_Transactions (GetAllBatches (sv_batches s'))) =
      concat (map ib_Transactions (GetAllBatches (sv_batches s))) @ chain_txs E chain (span (unat L + 101) (Suc (unat N)))"
proof -
  define i j where "i = Suc (unat L)" and "j = unat L + 100"
  have ij: "i \<le> j" "j < 2 ^ 64 - 1" using N by (simp_all add: i_def j_def)
  have i: "(of_nat i :: u64) = L + 1" by (simp add: i_def)
  have r: "running E s" and cl: "clear_from i s" using cu caught_up_clear [OF cu] by (simp_all add: caught_up_def i_def)
  then have inv: "store_inv (bs_kv (sv_batches s))" by (simp add: running_def)
  have ui: "unat (of_nat i :: u64) = i" "unat (of_nat i + 99 :: u64) = i + 99"
    using N by (simp_all add: unat_of_nat unat_word_ariths i_def)
  have ce: "chunk_end (of_nat i) N = of_nat j"
    using ui N(2) by (simp add: chunk_end_def word_less_nat_alt i_def j_def)
  have le: "of_nat i \<le> N" using ui(1) N(2) by (simp add: word_le_nat_alt i_def)
  have rb: "range_blocks (of_nat i) (of_nat j) = span i (Suc j)" by (rule range_blocks_span [OF ij])
  have mem: "n \<in> set (span i (Suc j)) \<longleftrightarrow> i \<le> unat n \<and> unat n \<le> j" for n using mem_span [of "Suc j" n i] ij(2) by auto
  have d: "distinct (span i (Suc j))" using distinct_range_blocks [of "of_nat i" "of_nat j"] by (simp only: rb)
  have "m \<in> set (span i (Suc j))" unfolding mem using m by (simp add: i_def j_def)
  moreover have "\<forall>n \<in> set (span i (Suc j)). \<not> is_ok (GetBlockHash (sv_batches s) n)" using cl by (simp add: mem clear_from_def)
  ultimately obtain bs where bs: "check_blocks E V (span i (Suc j)) (sv_batches s) = (None, bs)"
    "bs_batches bs = bs_batches (sv_batches s)" "bs_count bs = bs_count (sv_batches s)" "store_inv (bs_kv bs)"
    "\<forall>k. k \<notin> set (span i (Suc j)) \<longrightarrow> GetBlockHash bs k = GetBlockHash (sv_batches s) k"
    using check_blocks_fetch_fails [OF inv d _ m(3), of E] by blast
  define t where "t = s\<lparr>sv_batches := bs\<rparr>"
  have t: "running E t" unfolding t_def by (rule running_batches [OF r bs(2-4)])
  have clt: "clear_from (Suc j) t"
    unfolding clear_from_def
  proof (intro allI impI)
    fix n :: u64 assume n: "Suc j \<le> unat n"
    then have "n \<notin> set (span i (Suc j))" unfolding mem by simp
    moreover have "i \<le> unat n" using n ij by simp
    ultimately show "\<not> is_ok (GetBlockHash (sv_batches t) n)" using bs(5) cl by (simp add: t_def clear_from_def)
  qed
  have led: "ledger (sv_batches t) = ledger (sv_batches s)" unfolding t_def using ledger_cong [OF bs(2,3)] by simp
  have p1: "poll_tick E V L s = poll_chunks E V N (of_nat (Suc j)) L t"
  proof -
    have "processBlockRange E V (of_nat i) (of_nat j) s = Some (Aborted, t)"
      by (simp add: processBlockRange_def rb bs(1) t_def)
    then have "poll_chunks E V N (of_nat i) L s = poll_chunks E V N (of_nat i + 100) L t"
      by (subst poll_chunks.simps) (simp add: le ce)
    moreover have "of_nat i + 100 = (of_nat (Suc j) :: u64)" by (simp add: i_def j_def)
    moreover have "L < N" using N(2) by (simp add: word_less_nat_alt)
    ultimately show ?thesis unfolding poll_tick_def N(1) sum.case i by (simp only: if_True)
  qed
  have e: "unat L + 101 = Suc j" by (simp add: j_def)
  obtain s' where s': "poll_chunks E V N (of_nat (Suc j)) L t = Some (Drained, N, s')"
    "extends E (chain_txs E chain (span (Suc j) (Suc (unat N)))) t s'" "caught_up E N s'"
  proof -
    have "fresh_txs t (chain_txs E chain (span (Suc j) (Suc (unat N))))" using fresh unfolding e by (simp add: fresh_txs_def t_def)
    moreover have "bs_count (sv_batches t) = bs_count (sv_batches s)" using bs(3) by (simp add: t_def)
    moreover have "Suc j \<le> unat N" using N(2) by (simp add: j_def)
    ultimately show thesis using that poll_chunks_follow [OF t J size clt _ N(3), of V chain L] serves bound unfolding e by auto
  qed
  have "poll_tick E V L s = Some (Drained, N, s')" using p1 s'(1) by simp
  moreover have "ledger (sv_batches s') = ledger (sv_batches s) @ chain_txs E chain (span (unat L + 101) (Suc (unat N)))"
    using s'(2) led unfolding e by (simp add: extends_def)
  ultimately show ?thesis using s'(3) by (auto simp: caught_up_def ledger_def)
qed

definition late_chain :: "u64 \<Rightarrow> rpc_block" where
  "late_chain n = demo_block ''h'' (if n = 1 then [demo_tx ''a'' ''0xab''] else if n = 101 then [demo_tx ''z'' ''0xab''] else [])"

definition failing_view :: node_view where
  "failing_view = \<lparr>nv_BlockNumber = Inr 101, nv_GetBlock = \<lambda>n k. if n = 1 then Inl ''timeout'' else Inr (late_chain n),
     nv_GetHeader = \<lambda>n. Inl ''timeout''\<rparr>"

lemma idle_running: "running E idle_service"
  by (simp add: running_def idle_service_def cache_inv_def NewBatchBuilder_def store_inv_def demo_kv_def)

lemma idle_caught_up: "caught_up demo_indexer 0 idle_service"
proof -
  have "GetLastProcessedBlock (sv_batches idle_service) = Inr 0"
    by (simp add: idle_service_def demo_kv_def GetLastProcessedBlock_def get_register_def bg_get_def)
  then show ?thesis using idle_hashes idle_running by (simp add: caught_up_def)
qed

lemma failed_range_skipped_witness:
  "\<exists>s'. poll_tick demo_indexer failing_view 0 idle_service = Some (Drained, 101, s') \<and>
     GetLastProcessedBlock (sv_batches s') = Inr 101 \<and>
     concat (map ib_Transactions (GetAllBatches (sv_batches s'))) = [demo_tx ''z'' ''0xab'']"
proof -
  have sp: "span (unat (0 :: u64) + 101) (Suc (unat (101 :: u64))) = [101]" by (simp add: span_def upt_rec)
  have tx: "chain_txs demo_indexer late_chain [101] = [demo_tx ''z'' ''0xab'']"
    by (simp add: chain_txs_def late_chain_def demo_block_def demo_relevant demo_lower)
  have "fetch_block failing_view 1 = Inl ''timeout''"
    by (simp add: fetch_block_def failing_view_def find_None_iff [THEN iffD2])
  moreover have "node_serves failing_view late_chain (span (unat (0 :: u64) + 101) (Suc (unat (101 :: u64))))"
    unfolding sp by (simp add: node_serves_def fetch_block_def failing_view_def upt_rec)
  moreover have "fresh_txs idle_service (chain_txs demo_indexer late_chain (span (unat (0 :: u64) + 101) (Suc (unat (101 :: u64)))))"
    unfolding sp tx by (simp add: fresh_txs_def idle_service_def NewBatchBuilder_def)
  moreover have "unat (bs_count (sv_batches idle_service)) +
      length (chain_txs demo_indexer late_chain (span (unat (0 :: u64) + 101) (Suc (unat (101 :: u64))))) < 2 ^ 64 - 1"
    unfolding sp tx by (simp add: idle_service_def)
  moreover have "nv_BlockNumber failing_view = Inr 101" by (simp add: failing_view_def)
  moreover have "0 < ic_BatchSize (ie_config demo_indexer)" by (simp add: demo_indexer_def)
  moreover have "GetAllBatches (sv_batches idle_service) = []"
    by (simp add: idle_service_def GetAllBatches_def List.map_filter_def)
  ultimately show ?thesis
    using failed_range_skipped [OF idle_caught_up demo_total, of failing_view 101 1 "''timeout''" late_chain] unfolding sp tx
    by auto
qed

section \<open>Restarts\<close>

lemma start_wf:
  assumes "batch_store_wf (ie_json E) bs"
  shows "start_service E (bs_kv bs) =
    Inr \<lparr>sv_batches = bs, sv_builder = NewBatchBuilder (initial_batch_number E bs), sv_clock = 0, sv_notifier = []\<rparr>"
  using NewBatchStore_wf [OF assms] by (simp add: start_service_def)

lemma batch_loop_one:
  assumes "has_space E s = None" and "txs \<noteq> []" and "int (length txs) \<le> batch_size E"
  shows "batch_loop E txs s = Some (Drained, createBatchFromTransactions E txs s)"
proof (cases "int (length txs) = batch_size E")
  case True
  have "batch_loop E txs s = batch_loop E [] (createBatchFromTransactions E txs s)"
    by (subst batch_loop.simps) (use assms True in auto)
  then show ?thesis by (simp add: batch_loop.simps)
qed (subst batch_loop.simps, use assms in auto)

text \<open>
  C19: A service restarted while its latest batch is incomplete gives the next batch the number of that
  one. If more transactions come than the batch has room for, it is filled and then replaced under its
  number, in the cache and in the store, by the batch of the rest: its transactions, those of before the
  restart and those that filled it, are in no batch any more.
\<close>

theorem restart_overwrites_latest:
  assumes wf: "batch_store_wf (ie_json E) bs" and J: "json_total (ie_json E)"
    and inc: "GetIncompleteBatch bs (ic_BatchSize (ie_config E)) = Inr b" and ok: "batch_ok E b"
    and room: "int (length (ib_Transactions b)) + int room = ic_BatchSize (ie_config E)" "0 < room"
    and txs: "distinct (map rt_Hash txs)" "room < length txs" "int (length txs) \<le> int room + ic_BatchSize (ie_config E)"
  shows "\<exists>s0 s' b'. start_service E (bs_kv bs) = Inr s0 \<and> batch_loop E txs s0 = Some (Drained, s') \<and>
    bs_count (sv_batches s') = bs_count bs \<and> bs_batches (sv_batches s') = (bs_batches bs)(bs_count bs \<mapsto> b') \<and>
    ib_Transactions b' = drop room txs"
proof -
  let ?c = "bs_count bs"
  have b: "?c \<noteq> 0" "bs_batches bs ?c = Some b"
    using inc by (auto simp: GetIncompleteBatch_def split: if_splits option.splits)
  have inv: "cache_inv bs" "store_inv (bs_kv bs)" using wf by (simp_all add: batch_store_wf_def)
  have num: "ib_Number b = ?c" by (rule cache_invD(1) [OF inv(1) b(2)])
  define s0 where "s0 = \<lparr>sv_batches = bs, sv_builder = NewBatchBuilder ?c, sv_clock = 0, sv_notifier = []\<rparr>"
  have start: "start_service E (bs_kv bs) = Inr s0"
    unfolding start_wf [OF wf] s0_def by (simp add: initial_batch_number_def inc num)
  have sp: "has_space E s0 = Some b" using inc room by (simp add: has_space_def s0_def)
  have k: "nat (batch_size E - int (length (ib_Transactions b))) = room" using room(1) by linarith
  have f: "filterProcessedTxs (sv_builder s0) xs = xs" for xs
    by (simp add: s0_def NewBatchBuilder_def filterProcessedTxs_def)
  have built: "built (ie_abi E) b" using ok by (simp add: batch_ok_def)
  have ne: "take room txs \<noteq> []" using room(2) txs(2) by auto
  have inv0: "store_inv (bs_kv (sv_batches s0))" using inv(2) by (simp add: s0_def)
  obtain b1 kv s1 where app: "append_and_save E b (take room txs) s0 = (Inr (), s1)"
    and b1: "built (ie_abi E) b1" "ib_Number b1 = ?c" "ib_Transactions b1 = ib_Transactions b @ take room txs"
    and s1: "sv_batches s1 = (cacheBatch (write_through bs b1) b1)\<lparr>bs_kv := kv\<rparr>" "store_inv kv"
      "sv_builder s1 = mark_processed (NewBatchBuilder ?c) (take room txs)"
    by (rule append_result [OF J inv0 ne f built]) (simp add: s0_def num)
  have m1: "bs_batches (sv_batches s1) = (bs_batches bs)(?c \<mapsto> b1)" "bs_count (sv_batches s1) = ?c"
    by (simp_all add: s1(1) cacheBatch_def write_through_def b1(2))
  have "length (take room txs) = room" using txs(2) by simp
  then have full: "int (length (ib_Transactions b1)) = batch_size E" using room(1) by (simp add: b1(3))
  have none: "has_space E s1 = None"
    using full by (auto simp: has_space_def GetIncompleteBatch_def m1 split: sum.split)
  have rest: "drop room txs \<noteq> []" "int (length (drop room txs)) \<le> batch_size E" using txs by auto
  have loop: "batch_loop E txs s0 = Some (Drained, createBatchFromTransactions E (drop room txs) s1)"
  proof -
    have "batch_loop E txs s0 = batch_loop E (drop room txs) s1"
      using ne app sp txs(2) by (subst batch_loop.simps) (auto simp: k)
    then show ?thesis using batch_loop_one [OF none rest] by simp
  qed
  have "set (map rt_Hash (take room txs)) \<inter> set (map rt_Hash (drop room txs)) = {}"
    using txs(1) by (metis append_take_drop_id distinct_append map_append)
  then have f1: "filterProcessedTxs (sv_builder s1) (drop room txs) = drop room txs"
    by (intro filterProcessedTxs_new) (auto simp: s1(3) mark_processed_def NewBatchBuilder_def)
  have inv1: "store_inv (bs_kv (sv_batches s1))" using s1(1,2) by simp
  have n1: "bb_batchNum (sv_builder s1) = ?c" by (simp add: s1(3) mark_processed_def NewBatchBuilder_def)
  obtain b2 kv2 where b2: "ib_Number b2 = ?c" "ib_Transactions b2 = drop room txs"
    "sv_batches (createBatchFromTransactions E (drop room txs) s1) = (cacheBatch (sv_batches s1) b2)\<lparr>bs_kv := kv2\<rparr>"
    by (rule create_result [OF J inv1 rest(1) f1]) (simp add: n1)
  have "bs_batches (sv_batches (createBatchFromTransactions E (drop room txs) s1)) = (bs_batches bs)(?c \<mapsto> b2)"
    "bs_count (sv_batches (createBatchFromTransactions E (drop room txs) s1)) = ?c"
    by (simp_all add: b2(1,3) cacheBatch_def m1)
  then show ?thesis using start loop b2(2) by blast
qed

text \<open>
  A process that dies after the batches of a range are saved and before the cursor is stored starts
  the range again, and as the set of processed hashes was only in memory, every transaction of the range
  is batched a second time. (The latest batch is complete, so the restarted service numbers on.)
\<close>

theorem crash_before_cursor_duplicates:
  assumes run: "running E s" and J: "json_total (ie_json E)" and size: "0 < ic_BatchSize (ie_config E)"
    and serves: "node_serves V chain (range_blocks a b)"
    and hashes: "\<forall>n \<in> set (range_blocks a b). \<not> reorged (sv_batches s) n (rb_Hash (chain n))"
    and fresh: "fresh_txs s (chain_txs E chain (range_blocks a b))"
    and bound: "unat (bs_count (sv_batches s)) + 2 * length (chain_txs E chain (range_blocks a b)) < 2 ^ 64 - 1"
    and crash: "processBlockRange E V a b s = Some (Drained, s1)" "batch_store_wf (ie_json E) (sv_batches s1)"
    and complete: "\<not> is_ok (GetIncompleteBatch (sv_batches s1) (ic_BatchSize (ie_config E)))" "bs_count (sv_batches s1) \<noteq> 0"
  shows "\<exists>s2 s3. start_service E (bs_kv (sv_batches s1)) = Inr s2 \<and> processBlockRange E V a b s2 = Some (Drained, s3) \<and>
    concat (map ib_Transactions (GetAllBatches (sv_batches s3))) =
      concat (map ib_Transactions (GetAllBatches (sv_batches s))) @ chain_txs E chain (range_blocks a b) @
      chain_txs E chain (range_blocks a b)"
proof -
  let ?T = "chain_txs E chain (range_blocks a b)"
  have bound1: "unat (bs_count (sv_batches s)) + length ?T < 2 ^ 64 - 1" using bound by simp
  have b1: "batched E chain (range_blocks a b) s s1"
    using range_batched [OF run J size serves hashes fresh bound1] crash(1) by simp
  then have e1: "running E s1" "ledger (sv_batches s1) = ledger (sv_batches s) @ ?T"
    "unat (bs_count (sv_batches s1)) \<le> unat (bs_count (sv_batches s)) + length ?T"
    by (simp_all add: batched_def extends_def)
  let ?bs = "sv_batches s1" and ?c = "bs_count (sv_batches s1)"
  define s2 where "s2 = \<lparr>sv_batches = ?bs, sv_builder = NewBatchBuilder (?c + 1), sv_clock = 0, sv_notifier = []\<rparr>"
  have inv: "cache_inv ?bs" using crash(2) by (simp add: batch_store_wf_def)
  then obtain lb where lb: "bs_batches ?bs ?c = Some lb" "ib_Number lb = ?c" using complete(2) by (auto simp: cache_inv_def)
  obtain err where "GetIncompleteBatch ?bs (batch_size E) = Inl err"
    using complete(1) by (cases "GetIncompleteBatch ?bs (batch_size E)") auto
  then have "initial_batch_number E ?bs = ?c + 1"
    using lb complete(2) by (simp add: initial_batch_number_def GetLatestBatch_ix_def)
  then have start: "start_service E (bs_kv ?bs) = Inr s2" by (simp add: start_wf [OF crash(2)] s2_def)
  have r2: "running E s2" using e1(1) by (simp add: running_def s2_def NewBatchBuilder_def)
  have "distinct (map rt_Hash ?T)" using fresh by (simp add: fresh_txs_def)
  then have f2: "fresh_txs s2 ?T" by (simp add: fresh_txs_def s2_def NewBatchBuilder_def)
  have h2: "\<forall>n \<in> set (range_blocks a b). \<not> reorged (sv_batches s2) n (rb_Hash (chain n))"
    using b1 by (simp add: batched_def reorged_def s2_def)
  have bound2: "unat (bs_count (sv_batches s2)) + length ?T < 2 ^ 64 - 1" using e1(3) bound by (simp add: s2_def)
  obtain s3 where "processBlockRange E V a b s2 = Some (Drained, s3)" "ledger (sv_batches s3) = ledger ?bs @ ?T"
    using range_batched [OF r2 J size serves h2 f2 bound2] by (auto simp: batched_def extends_def s2_def)
  then show ?thesis using start e1(2) by (auto simp: ledger_def)
qed

definition one_batch :: "abi_lib \<Rightarrow> rpc_tx list \<Rightarrow> batch" where
  "one_batch A txs = \<lparr>ib_Number = 1, ib_Hash = ''0x'', ib_Transactions = txs, ib_OldStateRoot = ''0x0'',
     ib_NewStateRoot = ''0x0'', ib_Timestamp = 0, ib_Status = ''pending'', ib_Traces = map tx_trace txs, ib_Trades = concat (map (tx_trades A) txs)\<rparr>"

definition one_json :: "abi_lib \<Rightarrow> rpc_tx list \<Rightarrow> batch_json" where
  "one_json A txs = \<lparr>bj_marshal = \<lambda>b. Inr ''j'', bj_unmarshal = \<lambda>z. Inr (one_batch A txs),
     bj_marshalMeta = \<lambda>m. Inr ''m'', bj_unmarshalMeta = \<lambda>z. Inl ''invalid character''\<rparr>"

definition one_indexer :: "abi_lib \<Rightarrow> rpc_tx list \<Rightarrow> indexer_env" where
  "one_indexer A txs = demo_indexer\<lparr>ie_json := one_json A txs, ie_abi := A\<rparr>"

definition one_store :: "abi_lib \<Rightarrow> rpc_tx list \<Rightarrow> batch_store" where
  "one_store A txs = snd (SaveBatch (one_json A txs) \<lparr>bs_batches = Map.empty, bs_count = 0, bs_kv = demo_kv\<rparr> (one_batch A txs))"

lemma demo_no_trades: "tx_trades demo_abi tx = []"
  by (simp add: tx_trades_def ParseTradesFromTxData_def demo_abi_def split: option.split)

lemma concat_no_trades: "concat (map (tx_trades demo_abi) txs) = []"
  by (induction txs) (simp_all add: demo_no_trades)

lemma built_one: "txs \<noteq> [] \<Longrightarrow> built demo_abi (one_batch demo_abi txs)"
  by (simp add: built_def one_batch_def concat_no_trades computeBatchHash_def) (simp add: demo_abi_def)

lemma one_total: "json_total (ie_json (one_indexer A txs))"
  by (simp add: json_total_def one_indexer_def one_json_def)

lemma one_wf: "batch_store_wf (one_json A txs) (one_store A txs)"
  unfolding one_store_def
proof (rule SaveBatch_wf(2))
  show "batch_store_wf (one_json A txs) \<lparr>bs_batches = Map.empty, bs_count = 0, bs_kv = demo_kv\<rparr>"
    by (simp add: batch_store_wf_def cache_inv_def holds_batches_def store_inv_def demo_kv_def)
qed (simp_all add: batch_json_keeps_def one_json_def one_batch_def)

lemma one_store_batches: "bs_batches (one_store A txs) = [1 \<mapsto> one_batch A txs]" "bs_count (one_store A txs) = 1"
  by (simp_all add: one_store_def SaveBatch_def one_json_def cacheBatch_def one_batch_def demo_kv_def bg_update_def)

lemma one_size: "ic_BatchSize (ie_config (one_indexer A txs)) = 2"
  by (simp add: one_indexer_def demo_indexer_def)

lemma restart_overwrites_latest_witness:
  "\<exists>s0 s' b'. start_service (one_indexer demo_abi [demo_tx ''a'' ''0xab'']) (bs_kv (one_store demo_abi [demo_tx ''a'' ''0xab''])) = Inr s0 \<and>
     batch_loop (one_indexer demo_abi [demo_tx ''a'' ''0xab'']) [demo_tx ''b'' ''0xab'', demo_tx ''c'' ''0xab''] s0 = Some (Drained, s') \<and>
     bs_batches (sv_batches s') = [1 \<mapsto> b'] \<and> ib_Transactions b' = [demo_tx ''c'' ''0xab'']"
proof -
  let ?a = "[demo_tx ''a'' ''0xab'']" and ?t = "[demo_tx ''b'' ''0xab'', demo_tx ''c'' ''0xab'']"
  have inc: "GetIncompleteBatch (one_store demo_abi ?a) (ic_BatchSize (ie_config (one_indexer demo_abi ?a))) = Inr (one_batch demo_abi ?a)"
    unfolding GetIncompleteBatch_def one_size one_store_batches by (simp add: one_batch_def demo_no_trades)
  have ok: "batch_ok (one_indexer demo_abi ?a) (one_batch demo_abi ?a)"
    using built_one [of ?a] by (simp add: batch_ok_def one_size) (simp add: one_batch_def one_indexer_def demo_indexer_def)
  have wf: "batch_store_wf (ie_json (one_indexer demo_abi ?a)) (one_store demo_abi ?a)" using one_wf by (simp add: one_indexer_def)
  have room: "int (length (ib_Transactions (one_batch demo_abi ?a))) + int 1 = ic_BatchSize (ie_config (one_indexer demo_abi ?a))"
    unfolding one_size by (simp add: one_batch_def)
  have "distinct (map rt_Hash ?t)" by (simp add: demo_tx_def)
  then show ?thesis
    using restart_overwrites_latest [OF wf one_total inc ok room, of ?t] unfolding one_size one_store_batches
    by auto
qed

definition pair_chain :: "u64 \<Rightarrow> rpc_block" where
  "pair_chain n = demo_block ''h'' (if n = 1 then [demo_tx ''a'' ''0xab'', demo_tx ''b'' ''0xab''] else [])"

definition pair_view :: node_view where
  "pair_view = \<lparr>nv_BlockNumber = Inr 1, nv_GetBlock = \<lambda>n k. Inr (pair_chain n), nv_GetHeader = \<lambda>n. Inr (pair_chain n)\<rparr>"

definition demo_order :: abi_order where
  "demo_order = \<lparr>ao_UserAddress = [], ao_BaseToken = [], ao_QuoteToken = [], ao_Amount = 1, ao_IsAmountInQuote = False,
     ao_Nonce = 1, ao_OrderType = 0, ao_Side = 0, ao_LimitPrice = 1, ao_StopPrice = 0, ao_TimeInForce = 0, ao_CancelAfter = 0,
     ao_WalletSignature = replicate 65 (CHR ''s''), ao_BalanceSnapshot = 0, ao_AllowanceSnapshot = 0\<rparr>"

definition trading_abi :: abi_lib where
  "trading_abi = \<lparr>al_MethodById = \<lambda>_. Inr (), al_Unpack = \<lambda>_. Inr ([demo_order], []), al_HashDomain = \<lambda>_ _. Inr ''d'',
     al_HashMessage = \<lambda>_ _. Inr ''m'', al_Keccak256 = \<lambda>_. [], al_Ecrecover = \<lambda>_ _. Inr ''k'',
     al_UnmarshalPubkey = \<lambda>_. Inr (1, 2), al_PubkeyToAddress = \<lambda>_. ''0xf''\<rparr>"

lemma trading_one: "length (tx_trades trading_abi (demo_tx h t)) = Suc 0"
proof -
  have "trim_prefix ''0x'' ''0x7864fe7a00'' = ''7864fe7a00''" by (simp add: trim_prefix_def has_prefix_def)
  moreover obtain bs where "hex_decode ''7864fe7a00'' = Some bs" "length bs = 5" by (simp add: hex_val_def)
  moreover obtain tr where "extractTrade trading_abi demo_order = Inr tr"
    by (simp add: extractTrade_def trading_abi_def) (simp add: demo_order_def Let_def)
  ultimately show ?thesis
    by (simp add: tx_trades_def ParseTradesFromTxData_def demo_tx_def List.map_filter_def) (simp add: trading_abi_def List.map_filter_def)
qed

lemma crash_before_cursor_duplicates_witness:
  "\<exists>s1 s2 s3. processBlockRange (one_indexer trading_abi [demo_tx ''a'' ''0xab'', demo_tx ''b'' ''0xab'']) pair_view 1 1 idle_service = Some (Drained, s1) \<and>
     start_service (one_indexer trading_abi [demo_tx ''a'' ''0xab'', demo_tx ''b'' ''0xab'']) (bs_kv (sv_batches s1)) = Inr s2 \<and>
     processBlockRange (one_indexer trading_abi [demo_tx ''a'' ''0xab'', demo_tx ''b'' ''0xab'']) pair_view 1 1 s2 = Some (Drained, s3) \<and>
     concat (map ib_Transactions (GetAllBatches (sv_batches s3))) =
       [demo_tx ''a'' ''0xab'', demo_tx ''b'' ''0xab'', demo_tx ''a'' ''0xab'', demo_tx ''b'' ''0xab'']"
proof -
  let ?t = "[demo_tx ''a'' ''0xab'', demo_tx ''b'' ''0xab'']"
  let ?E = "one_indexer trading_abi ?t"
  have rb: "range_blocks 1 1 = [1]" by (simp add: range_blocks_def)
  have rel: "relevant ?E (demo_tx h t) \<longleftrightarrow> relevant demo_indexer (demo_tx h t)" for h t
    by (simp add: relevant_def one_indexer_def)
  have T: "chain_txs ?E pair_chain [1] = ?t"
    by (simp add: chain_txs_def pair_chain_def demo_block_def rel demo_relevant demo_lower)
  have serves: "node_serves pair_view pair_chain ns" for ns
    by (simp add: node_serves_def fetch_block_def pair_view_def upt_rec)
  let ?bs0 = "\<lparr>bs_batches = Map.empty, bs_count = 0, bs_kv = demo_kv\<rparr>"
  define bs where "bs = snd (SetBlockHash ?bs0 1 (rb_Hash (pair_chain 1)))"
  define s where "s = idle_service\<lparr>sv_batches := bs\<rparr>"
  have kv: "store_inv demo_kv" by (simp add: store_inv_def demo_kv_def)
  have wf0: "batch_store_wf (one_json trading_abi ?t) ?bs0" using kv by (simp add: batch_store_wf_def cache_inv_def holds_batches_def demo_kv_def)
  have wfs: "batch_store_wf (one_json trading_abi ?t) bs" unfolding bs_def by (rule SetBlockHash_wf [OF wf0])
  have bs: "bs_batches bs = Map.empty" "bs_count bs = 0" by (simp_all add: bs_def SetBlockHash_def split: prod.split)
  have "check_blocks ?E pair_view (range_blocks 1 1) (sv_batches idle_service) = (Some [(1, ?t)], bs)"
  proof -
    have "fetch_block pair_view 1 = Inr (pair_chain 1)" by (simp add: fetch_block_def pair_view_def upt_rec)
    moreover have "List.filter (relevant ?E) (rb_Transactions (pair_chain 1)) = ?t" using T by (simp add: chain_txs_def)
    moreover have "\<not> reorged ?bs0 1 h" for h by (simp add: reorged_def GetBlockHash_def bg_get_def demo_kv_def)
    ultimately show ?thesis unfolding rb by (simp add: idle_service_def bs_def)
  qed
  then have P: "processBlockRange ?E pair_view 1 1 idle_service = run_blocks ?E [(1, ?t)] s"
    by (simp add: processBlockRange_def s_def)
  have none: "has_space ?E s = None" by (simp add: has_space_def GetIncompleteBatch_def s_def bs)
  have P1: "processBlockRange ?E pair_view 1 1 idle_service = Some (Drained, createBatchFromTransactions ?E ?t s)"
    using batch_loop_one [OF none, of ?t] by (simp add: P one_size)
  have kvs: "store_inv (bs_kv (sv_batches s))" using wfs by (simp add: s_def batch_store_wf_def)
  have bb: "sv_builder s = NewBatchBuilder 1" "sv_clock s = 0" by (simp_all add: s_def idle_service_def)
  define s1 where "s1 = createBatchFromTransactions ?E ?t s"
  have hash: "computeBatchHash trading_abi b = ''0x''" for b by (simp add: computeBatchHash_def) (simp add: trading_abi_def)
  have b1: "fst (BuildBatch (ie_abi ?E) (ie_now ?E (sv_clock s)) (sv_builder s) ?t) = Inr (one_batch trading_abi ?t)"
    by (simp add: BuildBatch_def Let_def filterProcessedTxs_def bb NewBatchBuilder_def one_indexer_def demo_indexer_def hash one_batch_def)
  have S: "sv_batches s1 = snd (SaveBatch (one_json trading_abi ?t) bs (one_batch trading_abi ?t))"
  proof -
    obtain bb' where "BuildBatch (ie_abi ?E) (ie_now ?E (sv_clock s)) (sv_builder s) ?t = (Inr (one_batch trading_abi ?t), bb')"
      using b1 by (cases "BuildBatch (ie_abi ?E) (ie_now ?E (sv_clock s)) (sv_builder s) ?t") auto
    then show ?thesis unfolding s1_def
      by (simp add: createBatchFromTransactions_def Let_def NotifyNewBatch_def s_def one_indexer_def split: prod.split sum.split)
  qed
  have keep: "batch_json_keeps (one_json trading_abi ?t) (one_batch trading_abi ?t)" by (simp add: batch_json_keeps_def one_json_def)
  have nz: "ib_Number (one_batch trading_abi ?t) = 1" by (simp add: one_batch_def)
  have wf1: "batch_store_wf (ie_json ?E) (sv_batches s1)"
    using SaveBatch_wf(2) [OF wfs keep] unfolding S nz by (simp add: one_indexer_def)
  have "bj_marshal (one_json trading_abi ?t) (one_batch trading_abi ?t) = Inr ''j''" by (simp add: one_json_def)
  from SaveBatch_ok [OF _ this, of bs] kvs
  have m1: "bs_count (sv_batches s1) = 1" "bs_batches (sv_batches s1) = [1 \<mapsto> one_batch trading_abi ?t]"
    unfolding S by (simp_all add: s_def cacheBatch_def nz bs)
  have hashes: "\<forall>n \<in> set (range_blocks 1 1). \<not> reorged (sv_batches idle_service) n (rb_Hash (pair_chain n))"
    using idle_hashes by (metis is_ok_simps(1) old.sum.simps(5) reorged_def sum.exhaust)
  have fresh: "fresh_txs idle_service (chain_txs ?E pair_chain (range_blocks 1 1))"
    unfolding rb T by (simp add: fresh_txs_def idle_service_def NewBatchBuilder_def demo_tx_def)
  have bound: "unat (bs_count (sv_batches idle_service)) + 2 * length (chain_txs ?E pair_chain (range_blocks 1 1)) < 2 ^ 64 - 1"
    unfolding rb T by (simp add: idle_service_def)
  have complete: "\<not> is_ok (GetIncompleteBatch (sv_batches s1) (ic_BatchSize (ie_config ?E)))"
    unfolding GetIncompleteBatch_def one_size m1 by (simp add: one_batch_def trading_one)
  have empty: "GetAllBatches (sv_batches idle_service) = []" by (simp add: idle_service_def GetAllBatches_def List.map_filter_def)
  have "0 < ic_BatchSize (ie_config ?E)" "bs_count (sv_batches s1) \<noteq> 0" by (simp_all add: one_size m1)
  from crash_before_cursor_duplicates [OF idle_running one_total this(1) serves hashes fresh bound P1 [folded s1_def] wf1 complete this(2)]
  show ?thesis using P1 unfolding rb T empty s1_def by auto
qed

section \<open>A batch size of zero\<close>

lemma take_fitting_first: "txs \<noteq> [] \<Longrightarrow> take_fitting A space 0 txs \<noteq> []"
  by (cases txs) (simp_all add: Let_def)

lemma block_loop_returns: "\<exists>r s'. block_loop E txs s = Some (r, s') \<and> r \<noteq> Panicked"
proof (induction "length txs" arbitrary: txs s rule: less_induct)
  case less
  show ?case
  proof (cases "txs = []")
    case False
    have IH: "\<exists>r s''. block_loop E (drop (length added) txs) s' = Some (r, s'') \<and> r \<noteq> Panicked" if "added \<noteq> []" for added :: "rpc_tx list" and s'
      using less [of "drop (length added) txs"] that False by simp
    show ?thesis
    proof (cases "GetIncompleteBatch (sv_batches s) (batch_size E)")
      case (Inl err)
      then show ?thesis using IH [OF take_fitting_first [OF False]] False by (subst block_loop.simps) (simp add: Let_def)
    next
      case (Inr b)
      then have "0 < batch_size E - int (length (ib_Trades b))"
        by (auto simp: GetIncompleteBatch_def split: if_splits option.splits)
      then show ?thesis using Inr False IH take_fitting_first [OF False]
        by (subst block_loop.simps) (auto simp: Let_def split: prod.split sum.split)
    qed
  qed (subst block_loop.simps, simp)
qed

lemma run_blocks_stuck:
  "batch_size E = 0 \<Longrightarrow> concat (map snd blocks) \<noteq> [] \<Longrightarrow> run_blocks E blocks s = None"
proof (induction E blocks s rule: run_blocks.induct)
  case (2 E n txs blocks s)
  show ?case
  proof (cases "txs = []")
    case True
    then show ?thesis using "2.IH" [of "(Drained, s)" Drained s] "2.prems" by (simp add: batch_loop.simps)
  qed (use batch_loop_stuck "2.prems" in simp)
qed simp

text \<open>
  C24: With a batch size of zero a range that holds a relevant transaction is never finished: the loop
  slices off nothing and tries again. The block-wise path over the same transactions returns for every
  batch size.
\<close>

theorem zero_batch_size_hangs:
  assumes "ic_BatchSize (ie_config E) = 0" and "store_inv (bs_kv (sv_batches s))"
    and "node_serves V chain (range_blocks a b)" and "\<forall>n \<in> set (range_blocks a b). \<not> reorged (sv_batches s) n (rb_Hash (chain n))"
    and "chain_txs E chain (range_blocks a b) \<noteq> []"
  shows "processBlockRange E V a b s = None \<and> (\<forall>n. \<exists>r s'. processBlock E V n s = Some (r, s') \<and> r \<noteq> Panicked)"
proof -
  let ?blocks = "map (\<lambda>n. (n, List.filter (relevant E) (rb_Transactions (chain n)))) (range_blocks a b)"
  obtain bs where "check_blocks E V (range_blocks a b) (sv_batches s) = (Some ?blocks, bs)"
    using check_blocks_node_serves [OF assms(2) distinct_range_blocks assms(3,4)] by blast
  moreover have "concat (map snd ?blocks) \<noteq> []" using assms(5) by (simp add: chain_txs_def comp_def)
  ultimately have "processBlockRange E V a b s = None"
    using run_blocks_stuck [of E ?blocks] assms(1) by (simp add: processBlockRange_def)
  moreover have "\<exists>r s'. processBlock E V n s = Some (r, s') \<and> r \<noteq> Panicked" for n
    using block_loop_returns by (auto simp: processBlock_def split: sum.split)
  ultimately show ?thesis by blast
qed

lemma zero_batch_size_hangs_witness:
  "processBlockRange (demo_indexer\<lparr>ie_config := (ie_config demo_indexer)\<lparr>ic_BatchSize := 0\<rparr>\<rparr>) pair_view 1 1 idle_service = None"
proof -
  let ?E = "demo_indexer\<lparr>ie_config := (ie_config demo_indexer)\<lparr>ic_BatchSize := 0\<rparr>\<rparr>"
  have rb: "range_blocks 1 1 = [1]" by (simp add: range_blocks_def)
  have rel: "relevant ?E (demo_tx h t) \<longleftrightarrow> relevant demo_indexer (demo_tx h t)" for h t by (simp add: relevant_def)
  have "chain_txs ?E pair_chain (range_blocks 1 1) \<noteq> []"
    by (simp add: rb chain_txs_def pair_chain_def demo_block_def rel demo_relevant demo_lower)
  moreover have "node_serves pair_view pair_chain (range_blocks 1 1)"
    by (simp add: node_serves_def fetch_block_def pair_view_def upt_rec)
  moreover have "\<forall>n \<in> set (range_blocks 1 1). \<not> reorged (sv_batches idle_service) n (rb_Hash (pair_chain n))"
    using idle_hashes by (metis is_ok_simps(1) old.sum.simps(5) reorged_def sum.exhaust)
  moreover have "store_inv (bs_kv (sv_batches idle_service))" using idle_running [of ?E] by (simp add: running_def)
  ultimately show ?thesis using zero_batch_size_hangs [of ?E] by simp
qed

end
