(* ===== verification/RpcRun.thy ===== *)
theory RpcRun imports RpcClient IndexerFaults begin

text \<open>
  The JSON-RPC client at work: what a call returns over its retries, the waits between them, blocks
  read back from the node's JSON, and what the indexer makes of a block the node does not have.
\<close>

section \<open>Retries\<close>

text \<open>What the \<open>k\<close>-th request gets, as \<open>doRequest\<close> returns it.\<close>

definition reply_at :: "rpc_node \<Rightarrow> rpc_request \<Rightarrow> nat \<Rightarrow> rpc_response result" where
  "reply_at N req k =
     (case N k req of
        BadURL \<Rightarrow> Inl ''connection failed: new request''
      | NoConnection \<Rightarrow> Inl ''connection failed''
      | Answer status body \<Rightarrow>
          if status \<noteq> 200 then Inl (''unexpected status code: '' @ dec status)
          else (case body of
                  ReadFailed \<Rightarrow> Inl ''failed to read response''
                | NotJson \<Rightarrow> Inl ''failed to unmarshal response''
                | Body v \<Rightarrow> (case decode_response v of None \<Rightarrow> Inl ''failed to unmarshal response'' | Some resp \<Rightarrow> Inr resp)))"

lemma doRequest_eq: "doRequest N req c = (reply_at N req (rc_sent c), c\<lparr>rc_sent := rc_sent c + 1\<rparr>)"
  by (simp add: doRequest_def reply_at_def Let_def split: http_outcome.split http_body.split option.split)

definition rpc_answer :: "rpc_response \<Rightarrow> rpc_response result" where
  "rpc_answer resp =
     (case rr_Error resp of Some e \<Rightarrow> Inl (''RPC error ['' @ dec (re_Code e) @ '']: '' @ re_Message e) | None \<Rightarrow> Inr resp)"

text \<open>The replies before the first good one fail.\<close>

definition first_reply :: "rpc_node \<Rightarrow> rpc_request \<Rightarrow> nat \<Rightarrow> nat \<Rightarrow> rpc_response \<Rightarrow> bool" where
  "first_reply N req sent k resp \<longleftrightarrow>
     (\<forall>i < k. \<not> is_ok (reply_at N req (sent + i))) \<and> reply_at N req (sent + k) = Inr resp"

lemma first_reply_exists:
  assumes "\<not> (\<forall>i < n. \<not> is_ok (reply_at N req (sent + i)))"
  obtains k resp where "k < n" "first_reply N req sent k resp"
proof -
  let ?P = "\<lambda>i. i < n \<and> is_ok (reply_at N req (sent + i))"
  have ex: "?P (LEAST i. ?P i)" by (rule LeastI_ex) (use assms in auto)
  have "\<not> is_ok (reply_at N req (sent + i))" if "i < (LEAST i. ?P i)" for i
    using not_less_Least [OF that] ex that by auto
  then show ?thesis using that ex by (auto simp: first_reply_def is_ok_def split: sum.splits)
qed

lemma call_loop_first:
  "first_reply N req (rc_sent c) k resp \<Longrightarrow> k < n \<Longrightarrow>
   call_loop N req n err c = (rpc_answer resp, c\<lparr>rc_sent := rc_sent c + k + 1\<rparr>)"
proof (induction n arbitrary: k err c)
  case (Suc n)
  show ?case
  proof (cases k)
    case 0
    then show ?thesis using Suc.prems by (simp add: first_reply_def doRequest_eq rpc_answer_def split: option.split)
  next
    case (Suc j)
    have "\<not> is_ok (reply_at N req (rc_sent c))" using Suc.prems(1) \<open>k = Suc j\<close> by (auto simp: first_reply_def dest: spec [of _ 0])
    then obtain e where e: "reply_at N req (rc_sent c) = Inl e" by (auto simp: is_ok_def split: sum.splits)
    let ?c = "c\<lparr>rc_sent := rc_sent c + 1\<rparr>"
    have "first_reply N req (rc_sent ?c) j resp"
      using Suc.prems(1) \<open>k = Suc j\<close> by (auto simp: first_reply_def dest: spec [of _ "Suc _"])
    from Suc.IH [OF this, of e] show ?thesis using Suc.prems(2) \<open>k = Suc j\<close> by (simp add: doRequest_eq e)
  qed
qed simp

lemma call_loop_none:
  "\<forall>i < n. \<not> is_ok (reply_at N req (rc_sent c + i)) \<Longrightarrow>
   \<exists>last. call_loop N req n err c =
     (Inl (''max retries ('' @ dec (rf_MaxRetries (rc_config c) + 1) @ '') exceeded, last error: '' @ last),
      c\<lparr>rc_sent := rc_sent c + n\<rparr>)"
proof (induction n arbitrary: err c)
  case 0
  then show ?case by simp
next
  case (Suc n)
  have "\<not> is_ok (reply_at N req (rc_sent c))" using Suc.prems by (auto dest: spec [of _ 0])
  then obtain e where e: "reply_at N req (rc_sent c) = Inl e" by (auto simp: is_ok_def split: sum.splits)
  let ?c = "c\<lparr>rc_sent := rc_sent c + 1\<rparr>"
  have "\<forall>i < n. \<not> is_ok (reply_at N req (rc_sent ?c + i))" using Suc.prems by (auto dest: spec [of _ "Suc _"])
  from Suc.IH [OF this, of e] show ?case by (simp add: doRequest_eq e)
qed

definition request_of :: "string \<Rightarrow> json list option \<Rightarrow> rpc_client \<Rightarrow> rpc_request" where
  "request_of method params c =
     \<lparr>rq_JSONRPC = ''2.0'', rq_Method = method, rq_Params = params, rq_ID = rc_requestIDCounter c + 1\<rparr>"

lemma call_first:
  assumes "first_reply N (request_of m p c) (rc_sent c) k resp" and "int k \<le> rf_MaxRetries (rc_config c)"
  shows "call N m p c =
    (rpc_answer resp, c\<lparr>rc_requestIDCounter := rc_requestIDCounter c + 1, rc_sent := rc_sent c + k + 1\<rparr>)"
  using call_loop_first [of N "request_of m p c" "c\<lparr>rc_requestIDCounter := rc_requestIDCounter c + 1\<rparr>" k resp
      "nat (rf_MaxRetries (rc_config c) + 1)"] assms
  by (simp add: call_def request_of_def Let_def)

section \<open>The waits\<close>

lemma wrap64_id: "- (2 ^ 63) \<le> x \<Longrightarrow> x < 2 ^ 63 \<Longrightarrow> wrap64 x = x"
  by (simp add: wrap64_def int_word_sint)

lemma backoff_loop_min:
  assumes "0 < b" "b \<le> m" "m < 2 ^ 62"
  shows "backoff_loop n b m = min (b * 2 ^ n) m"
  using assms(1,2)
proof (induction n arbitrary: b)
  case (Suc n)
  have w: "wrap64 (b * 2) = b * 2" using Suc.prems assms(3) by (intro wrap64_id) simp_all
  show ?case
  proof (cases "b * 2 > m")
    case True
    have "b * 2 \<le> b * 2 * 2 ^ n" using Suc.prems by simp
    then have "m \<le> b * 2 ^ Suc n" using True by (simp add: algebra_simps)
    then show ?thesis using True by (simp add: w)
  next
    case False
    then show ?thesis using Suc.IH [of "b * 2"] Suc.prems by (simp add: w algebra_simps)
  qed
qed simp

section \<open>What a node answers\<close>

text \<open>Quantities are hexadecimal with a prefix; an absent recipient, price or number is null.\<close>

definition hex_text :: "nat \<Rightarrow> string" where
  "hex_text n = ''0x'' @ hex_nat n"

definition quantity :: "nat \<Rightarrow> json" where
  "quantity n = JStr (hex_text n)"

definition opt_quantity :: "int option \<Rightarrow> json" where
  "opt_quantity x = (case x of None \<Rightarrow> JNull | Some v \<Rightarrow> quantity (nat v))"

definition eth_tx :: "rpc_tx \<Rightarrow> json" where
  "eth_tx tx = JObj
     [(''hash'', JStr (rt_Hash tx)), (''from'', JStr (rt_From tx)),
      (''to'', if rt_To tx = [] then JNull else JStr (rt_To tx)), (''input'', JStr (rt_Data tx)),
      (''value'', opt_quantity (rt_Value tx)), (''nonce'', quantity (unat (rt_Nonce tx))),
      (''gas'', quantity (unat (rt_Gas tx))), (''gasPrice'', opt_quantity (rt_GasPrice tx)),
      (''maxFeePerGas'', opt_quantity (rt_GasTipCap tx)), (''maxPriorityFeePerGas'', opt_quantity (rt_GasFeeCap tx)),
      (''blockNumber'', opt_quantity (rt_BlockNumber tx)), (''blockHash'', JStr (rt_BlockHash tx)),
      (''transactionIndex'', quantity (unat (rt_Index tx)))]"

definition eth_block :: "rpc_block \<Rightarrow> json" where
  "eth_block b = JObj
     [(''number'', opt_quantity (rb_Number b)), (''hash'', JStr (rb_Hash b)), (''parentHash'', JStr (rb_ParentHash b)),
      (''timestamp'', opt_quantity (rb_Timestamp b)), (''stateRoot'', JStr (rb_StateRoot b)),
      (''transactions'', JArr (map eth_tx (rb_Transactions b)))]"

definition eth_response :: "int \<Rightarrow> json \<Rightarrow> json" where
  "eth_response i v = JObj [(''jsonrpc'', JStr ''2.0''), (''id'', JNum (dec i)), (''result'', v)]"

text \<open>Fields a block can have: the derived ones agree with the others.\<close>

definition natural :: "int option \<Rightarrow> bool" where
  "natural x \<longleftrightarrow> (case x of None \<Rightarrow> True | Some v \<Rightarrow> 0 \<le> v)"

definition deploys :: "rpc_tx \<Rightarrow> bool" where
  "deploys tx \<longleftrightarrow> no_recipient (rt_To tx) \<and> rt_Data tx \<noteq> [] \<and> rt_Data tx \<noteq> ''0x''"

definition wf_tx :: "big_env \<Rightarrow> rpc_tx \<Rightarrow> bool" where
  "wf_tx B tx \<longleftrightarrow> natural (rt_Value tx) \<and> natural (rt_GasPrice tx) \<and> natural (rt_GasTipCap tx) \<and>
     natural (rt_GasFeeCap tx) \<and> natural (rt_BlockNumber tx) \<and> rt_IsContractDeployment tx = deploys tx \<and>
     rt_ContractAddress tx = (if deploys tx then ComputeContractAddress B (rt_From tx) (rt_Nonce tx) else [])"

definition wf_block :: "big_env \<Rightarrow> rpc_block \<Rightarrow> bool" where
  "wf_block B b \<longleftrightarrow> rb_Number b \<noteq> None \<and> natural (rb_Number b) \<and> natural (rb_Timestamp b) \<and>
     (\<forall>tx \<in> set (rb_Transactions b). wf_tx B tx)"

text \<open>A client's block without nil transactions, as the indexer uses it.\<close>

definition block_of :: "client_block \<Rightarrow> rpc_block" where
  "block_of cb =
     \<lparr>rb_Number = cb_Number cb, rb_Hash = cb_Hash cb, rb_ParentHash = cb_ParentHash cb, rb_Timestamp = cb_Timestamp cb,
      rb_StateRoot = cb_StateRoot cb, rb_Transactions = map the (cb_Transactions cb)\<rparr>"

lemma parse_quantity: "parseHexBigInt B (hex_text n) = int n"
  by (simp add: hex_text_def parseHexBigInt_def has_prefix_def parse_hex_nat)

lemma parse_opt_quantity:
  "natural x \<Longrightarrow> (case opt_quantity x of JStr s \<Rightarrow> Some s | _ \<Rightarrow> None) = map_option (\<lambda>v. hex_text (nat v)) x"
  by (cases x) (simp_all add: opt_quantity_def quantity_def)

lemma map_parse_quantity: "natural x \<Longrightarrow> map_option (parseHexBigInt B) (map_option (\<lambda>v. hex_text (nat v)) x) = x"
  using parse_quantity [of B] by (cases x) (simp_all add: natural_def)

lemma Uint64_unat: "Uint64 B (int (unat w)) = w"
  using unsigned_less [of w, where 'a = int] by (simp add: Uint64_def)

lemma parse_u64_quantity: "Uint64 B (parseHexBigInt B (hex_text (unat w))) = w"
  by (simp only: parse_quantity Uint64_unat)

lemma parse_eth_tx:
  assumes "wf_tx B tx" and "eth_tx tx = JObj ms"
  shows "parseTransaction B ms = tx"
proof -
  have ms: "ms = (case eth_tx tx of JObj ms \<Rightarrow> ms | _ \<Rightarrow> [])" using assms(2) by simp
  have to: "str_or ms ''to'' = rt_To tx" by (simp add: ms eth_tx_def str_or_def str_member_def member_def)
  have strs: "str_or ms ''hash'' = rt_Hash tx" "str_or ms ''from'' = rt_From tx" "str_or ms ''input'' = rt_Data tx"
    "str_or ms ''blockHash'' = rt_BlockHash tx" "str_member ms ''input'' = Some (rt_Data tx)"
    by (simp_all add: ms eth_tx_def str_or_def str_member_def member_def)
  have bigs: "big_or B ms ''value'' = rt_Value tx" "big_or B ms ''gasPrice'' = rt_GasPrice tx"
    "big_or B ms ''maxFeePerGas'' = rt_GasTipCap tx" "big_or B ms ''maxPriorityFeePerGas'' = rt_GasFeeCap tx"
    "big_or B ms ''blockNumber'' = rt_BlockNumber tx"
    using assms(1) by (simp_all add: ms eth_tx_def big_or_def str_member_def member_def wf_tx_def parse_opt_quantity map_parse_quantity)
  have nums: "u64_or B ms ''nonce'' = rt_Nonce tx" "u64_or B ms ''gas'' = rt_Gas tx" "u64_or B ms ''transactionIndex'' = rt_Index tx"
    using parse_u64_quantity [of B] by (simp_all add: ms eth_tx_def u64_or_def str_member_def member_def quantity_def)
  show ?thesis
    using assms(1) unfolding parseTransaction_def Let_def to strs bigs nums
    by (intro rpc_tx.equality) (simp_all add: wf_tx_def deploys_def)
qed

lemma parse_eth_block:
  assumes "wf_block B b" and "eth_block b = JObj ms"
  shows "block_of (parseBlock B ms True) = b"
proof -
  have ms: "ms = (case eth_block b of JObj ms \<Rightarrow> ms | _ \<Rightarrow> [])" using assms(2) by simp
  have strs: "str_or ms ''hash'' = rb_Hash b" "str_or ms ''parentHash'' = rb_ParentHash b" "str_or ms ''stateRoot'' = rb_StateRoot b"
    "member ms ''transactions'' = Some (JArr (map eth_tx (rb_Transactions b)))"
    by (simp_all add: ms eth_block_def str_or_def str_member_def member_def)
  have bigs: "big_or B ms ''number'' = rb_Number b" "big_or B ms ''timestamp'' = rb_Timestamp b"
    using assms(1) by (simp_all add: ms eth_block_def big_or_def str_member_def member_def wf_block_def parse_opt_quantity map_parse_quantity)
  have "parse_txs B (map eth_tx txs) = txs" if "\<forall>tx \<in> set txs. wf_tx B tx" for txs
    using that
  proof (induction txs)
    case (Cons tx txs)
    obtain ts where ts: "eth_tx tx = JObj ts" by (simp add: eth_tx_def)
    have "parseTransaction B ts = tx" by (rule parse_eth_tx [OF _ ts]) (use Cons.prems in simp)
    then show ?case using Cons by (simp add: parse_txs_def ts map_filter_simps)
  qed (simp add: parse_txs_def map_filter_simps)
  then have "parse_txs B (map eth_tx (rb_Transactions b)) = rb_Transactions b" using assms(1) by (simp add: wf_block_def)
  then show ?thesis by (cases b) (simp add: block_of_def parseBlock_def strs bigs comp_def)
qed

lemma decode_eth_block:
  assumes "wf_block B b"
  shows "decode_block (eth_block b) = None"
proof -
  obtain v where v: "rb_Number b = Some v" using assms by (auto simp: wf_block_def)
  show ?thesis
    by (simp add: decode_block_def eth_block_def decode_struct_def match_field_def block_field_def decode_big_def
        opt_quantity_def quantity_def v)
qed

lemma decode_eth_response:
  assumes "- (2 ^ 63) \<le> i" "i < 2 ^ 63"
  shows "decode_response (eth_response i v) = Some \<lparr>rr_JSONRPC = ''2.0'', rr_ID = i, rr_Result = Some v, rr_Error = None\<rparr>"
  using assms
  by (simp add: decode_response_def eth_response_def decode_struct_def match_field_def response_field_def decode_str_def decode_int_def)

section \<open>Properties of the client\<close>

lemma reply_served:
  assumes "N k req = Answer 200 (Body (eth_response i v))" and "- (2 ^ 63) \<le> i" "i < 2 ^ 63"
  shows "reply_at N req k = Inr \<lparr>rr_JSONRPC = ''2.0'', rr_ID = i, rr_Result = Some v, rr_Error = None\<rparr>"
  using assms by (simp add: reply_at_def decode_eth_response)

definition block_request :: "u64 \<Rightarrow> rpc_client \<Rightarrow> rpc_request" where
  "block_request n c = request_of ''eth_getBlockByNumber'' (Some [JStr (hex_text (unat n)), JBool True]) c"

lemma GetBlock_served:
  assumes "\<forall>i < k. \<not> is_ok (reply_at N (block_request n c) (rc_sent c + i))"
    and "N (rc_sent c + k) (block_request n c) = Answer 200 (Body (eth_response i v))"
    and "int k \<le> rf_MaxRetries (rc_config c)" "- (2 ^ 63) \<le> i" "i < 2 ^ 63"
  shows "GetBlockByNumber B N n True c =
    (case decode_block v of
       Some b \<Rightarrow> Inr b
     | None \<Rightarrow> (case as_map v of None \<Rightarrow> Inl ''failed to unmarshal block'' | Some raw \<Rightarrow> Inr (parseBlock B raw True)),
     c\<lparr>rc_requestIDCounter := rc_requestIDCounter c + 1, rc_sent := rc_sent c + k + 1\<rparr>)"
proof -
  let ?resp = "\<lparr>rr_JSONRPC = ''2.0'', rr_ID = i, rr_Result = Some v, rr_Error = None\<rparr>"
  have "first_reply N (block_request n c) (rc_sent c) k ?resp"
    using assms(1) reply_served [of N "rc_sent c + k" "block_request n c" i v] assms(2,4,5) by (simp add: first_reply_def)
  from call_first [OF this [unfolded block_request_def] assms(3)] show ?thesis
    by (simp add: GetBlockByNumber_def get_block_def hex_text_def rpc_answer_def typed_result_def split: option.split)
qed


definition demo_big :: big_env where
  "demo_big = \<lparr>be_failed = (\<lambda>_. 0), be_wide = (\<lambda>_. 0), be_keccak = id\<rparr>"

definition demo_rpc_tx :: rpc_tx where
  "demo_rpc_tx = zero_tx\<lparr>rt_Hash := ''0x1'', rt_To := ''0xd28c'', rt_Value := Some 255, rt_Data := ''0x7864fe7a00'', rt_Nonce := 7\<rparr>"

definition demo_rpc_block :: rpc_block where
  "demo_rpc_block = \<lparr>rb_Number = Some 18, rb_Hash = ''0xb'', rb_ParentHash = ''0xa'', rb_Timestamp = Some 1700000000,
     rb_StateRoot = ''0xc'', rb_Transactions = [demo_rpc_tx]\<rparr>"

text \<open>A node that drops the first connection and then serves block 18.\<close>

definition demo_node :: rpc_node where
  "demo_node k req =
     (if k = 0 then NoConnection
      else Answer 200 (Body (eth_response (rq_ID req) (if rq_Params req = Some [JStr (hex_text 18), JBool True]
                                                       then eth_block demo_rpc_block else JNull))))"

definition demo_client :: rpc_client where
  "demo_client = new_client (DefaultConfig_rpc\<lparr>rf_RPCURL := ''http://node''\<rparr>) ''http://node''"

lemma demo_client_facts: "rc_sent demo_client = 0" "rf_MaxRetries (rc_config demo_client) = 3" "rc_requestIDCounter demo_client = 0"
  by (simp_all add: demo_client_def new_client_def DefaultConfig_rpc_def)




section \<open>A block the node does not have\<close>

text \<open>What the client makes of block \<open>n\<close>, for the indexer.\<close>

definition node_block :: "big_env \<Rightarrow> rpc_node \<Rightarrow> rpc_client \<Rightarrow> u64 \<Rightarrow> rpc_block result" where
  "node_block B N c n = (case fst (GetBlockByNumber B N n True c) of Inl err \<Rightarrow> Inl err | Inr cb \<Rightarrow> Inr (block_of cb))"

lemma node_block_null:
  assumes "N (rc_sent c) (block_request n c) = Answer 200 (Body (eth_response i JNull))"
    and "0 \<le> rf_MaxRetries (rc_config c)" "- (2 ^ 63) \<le> i" "i < 2 ^ 63"
  shows "node_block B N c n = Inr (block_of zero_block)"
  using GetBlock_served [of 0 N n c i JNull B] assms
  by (simp add: node_block_def decode_block_def decode_struct_def)

lemma fetch_first: "nv_GetBlock V n 1 = Inr blk \<Longrightarrow> fetch_block V n = Inr blk"
  by (simp add: fetch_block_def upt_rec)

lemma one_block: "range_blocks n n = [n]"
  by (simp add: range_blocks_def)

lemma process_one_block:
  assumes "nv_GetBlock V n 1 = Inr blk" "rb_Transactions blk = []" "\<not> is_ok (GetBlockHash (sv_batches s) n)"
  shows "processBlockRange E V n n s = Some (Drained, s\<lparr>sv_batches := snd (SetBlockHash (sv_batches s) n (rb_Hash blk))\<rparr>)"
  using assms
  by (auto simp: processBlockRange_def one_block fetch_first reorged_def is_ok_def batch_loop.simps split: sum.splits)

lemma process_one_reorg:
  assumes "nv_GetBlock V n 1 = Inr blk" "GetBlockHash (sv_batches s) n = Inr h" "h \<noteq> rb_Hash blk"
  shows "\<exists>s'. processBlockRange E V n n s = Some (Aborted, s')"
  using assms by (simp add: processBlockRange_def one_block fetch_first reorged_def)

text \<open>
  C26: a block the node does not have yet is skipped for good. When the node announces the next block
  but answers the request for it with a null result, the client returns a block without hash and
  transactions instead of an error; the tick stores the empty hash, moves the cursor past the block and
  puts nothing into any batch. Whenever the node serves the real block later, its hash does not match
  the empty one and the range is given up as a reorganisation.
\<close>
theorem missing_block_swallowed:
  assumes cu: "caught_up E L s" and L: "unat L < 2 ^ 64 - 102"
    and V: "nv_BlockNumber V = Inr (L + 1)" "nv_GetBlock V (L + 1) 1 = node_block B N c (L + 1)"
    and null: "N (rc_sent c) (block_request (L + 1) c) = Answer 200 (Body (eth_response i JNull))"
    and c: "0 \<le> rf_MaxRetries (rc_config c)" "- (2 ^ 63) \<le> i" "i < 2 ^ 63"
  shows "\<exists>s'. poll_tick E V L s = Some (Drained, L + 1, s') \<and> GetLastProcessedBlock (sv_batches s') = Inr (L + 1) \<and>
    GetAllBatches (sv_batches s') = GetAllBatches (sv_batches s) \<and> GetBlockHash (sv_batches s') (L + 1) = Inr [] \<and>
    (\<forall>V' blk. nv_GetBlock V' (L + 1) 1 = Inr blk \<and> rb_Hash blk \<noteq> [] \<longrightarrow>
       (\<exists>s''. processBlockRange E V' (L + 1) (L + 1) s' = Some (Aborted, s'')))"
proof -
  let ?n = "L + 1"
  define t where "t = s\<lparr>sv_batches := snd (SetBlockHash (sv_batches s) ?n [])\<rparr>"
  have u: "unat ?n = unat L + 1" "unat (?n + 99) = unat L + 100" "unat (?n + 100) = unat L + 101"
    using L by (simp_all add: unat_word_ariths)
  have inv: "store_inv (bs_kv (sv_batches s))" using cu by (simp add: caught_up_def running_def)
  have less: "L < ?n" using u(1) by (simp add: word_less_nat_alt)
  then have none: "\<not> is_ok (GetBlockHash (sv_batches s) ?n)" using cu by (simp add: caught_up_def)
  have blk: "nv_GetBlock V ?n 1 = Inr (block_of zero_block)" using V(2) node_block_null [of N c ?n i B] null c by simp
  have "rb_Transactions (block_of zero_block) = []" "rb_Hash (block_of zero_block) = []" by (simp_all add: block_of_def zero_block_def)
  with process_one_block [OF blk _ none] have range: "processBlockRange E V ?n ?n s = Some (Drained, t)" by (simp add: t_def)
  have ce: "chunk_end ?n ?n = ?n" using u by (simp add: chunk_end_def word_less_nat_alt)
  have stop: "\<not> ?n + 100 \<le> ?n" using u by (simp add: word_le_nat_alt)
  have tick: "poll_tick E V L s = Some (Drained, ?n, set_last t ?n)"
    using less V(1) range stop by (simp add: poll_tick_def ce poll_chunks.simps)
  have tinv: "store_inv (bs_kv (sv_batches t))" "bs_batches (sv_batches t) = bs_batches (sv_batches s)"
    "bs_count (sv_batches t) = bs_count (sv_batches s)"
    unfolding t_def SetBlockHash_ok [OF inv] using bg.ok_put [OF inv] by simp_all
  have th: "GetBlockHash (sv_batches t) ?n = Inr []" unfolding t_def using block_hash_roundtrip [OF inv] by simp
  obtain kv where kv: "set_last t ?n = t\<lparr>sv_batches := (sv_batches t)\<lparr>bs_kv := kv\<rparr>\<rparr>"
    "GetLastProcessedBlock (sv_batches (set_last t ?n)) = Inr ?n"
    "\<And>m. GetBlockHash (sv_batches (set_last t ?n)) m = GetBlockHash (sv_batches t) m"
    by (rule set_last_ok [OF tinv(1), of ?n]) blast
  have "GetAllBatches (sv_batches (set_last t ?n)) = GetAllBatches (sv_batches s)"
    unfolding kv(1) using tinv(2,3) by (simp add: GetAllBatches_def)
  moreover have "\<exists>s''. processBlockRange E V' ?n ?n (set_last t ?n) = Some (Aborted, s'')"
    if "nv_GetBlock V' ?n 1 = Inr blk" "rb_Hash blk \<noteq> []" for V' blk
    by (rule process_one_reorg [OF that(1), of _ "[]"]) (use that(2) kv(3) th in simp_all)
  ultimately show ?thesis using tick kv(2,3) th by (intro exI [of _ "set_last t ?n"]) simp
qed

text \<open>A node whose height is 1 and that has no block 1 yet, and the same node once it has it.\<close>

definition lagging_node :: rpc_node where
  "lagging_node k req = Answer 200 (Body (eth_response (rq_ID req) JNull))"

definition lagging_view :: node_view where
  "lagging_view = \<lparr>nv_BlockNumber = Inr 1, nv_GetBlock = (\<lambda>n k. node_block demo_big lagging_node demo_client n),
     nv_GetHeader = (\<lambda>n. Inl ''not found'')\<rparr>"

definition synced_view :: node_view where
  "synced_view = lagging_view\<lparr>nv_GetBlock := (\<lambda>n k. Inr demo_rpc_block)\<rparr>"

theorem missing_block_swallowed_witness:
  "\<exists>s' s''. poll_tick demo_indexer lagging_view 0 idle_service = Some (Drained, 1, s') \<and>
     GetAllBatches (sv_batches s') = GetAllBatches (sv_batches idle_service) \<and>
     processBlockRange demo_indexer synced_view 1 1 s' = Some (Aborted, s'')"
proof -
  have V: "nv_BlockNumber lagging_view = Inr (0 + 1)"
    "nv_GetBlock lagging_view (0 + 1) 1 = node_block demo_big lagging_node demo_client (0 + 1)"
    "lagging_node (rc_sent demo_client) (block_request (0 + 1) demo_client) = Answer 200 (Body (eth_response 1 JNull))"
    by (simp_all add: lagging_view_def lagging_node_def block_request_def request_of_def demo_client_facts)
  have "nv_GetBlock synced_view 1 1 = Inr demo_rpc_block" "rb_Hash demo_rpc_block \<noteq> []"
    by (simp_all add: synced_view_def demo_rpc_block_def)
  moreover have "unat (0 :: u64) < 2 ^ 64 - 102" "0 \<le> rf_MaxRetries (rc_config demo_client)" "- (2 ^ 63) \<le> (1 :: int)" "(1 :: int) < 2 ^ 63"
    by (simp_all add: demo_client_facts)
  ultimately show ?thesis
    using missing_block_swallowed [OF idle_caught_up _ V] by (simp only: add_0_left) blast
qed

end
