(* ===== verification/WebSocketRun.thy ===== *)
theory WebSocketRun imports WebSocket RpcRun begin

text \<open>
  What every interleaving of the web-socket client keeps: the table of subscribers holds open channels
  only, so no message is sent on a closed one, queues stay within their capacity and request ids are
  used once; then what does go wrong: a Close that overtakes a Subscribe, and subscriptions that do not
  survive a reconnect.
\<close>

section \<open>Fields\<close>

lemma shut_fields [simp]:
  "ws_conn (shut k w) = ws_conn w" "ws_subscribers (shut k w) = ws_subscribers w" "ws_chans (shut k w) = ws_chans w"
  "ws_nextReqID (shut k w) = ws_nextReqID w" "ws_cancelled (shut k w) = ws_cancelled w" "ws_handler (shut k w) = ws_handler w"
  "ws_calls (shut k w) = ws_calls w" "ws_dials (shut k w) = ws_dials w" "ws_frames (shut k w) = ws_frames w"
  "ws_closing (shut k w) = ws_closing w" "ws_panicked (shut k w) = ws_panicked w"
  "ws_maxReconnect (shut k w) = ws_maxReconnect w" "ws_reconnectDelay (shut k w) = ws_reconnectDelay w"
  "set (ws_shut (shut k w)) = set (ws_shut w) \<union> set_option k"
  by (auto simp: shut_def split: option.split)

lemma start_reconnect_fields [simp]:
  "ws_conn (start_reconnect f w) = None" "ws_subscribers (start_reconnect f w) = ws_subscribers w"
  "ws_chans (start_reconnect f w) = ws_chans w" "ws_nextReqID (start_reconnect f w) = ws_nextReqID w"
  "ws_cancelled (start_reconnect f w) = ws_cancelled w"
  "ws_handler (start_reconnect f w) = BackOff 0 (ws_reconnectDelay w) f" "ws_calls (start_reconnect f w) = ws_calls w"
  "ws_dials (start_reconnect f w) = ws_dials w" "ws_frames (start_reconnect f w) = ws_frames w"
  "ws_closing (start_reconnect f w) = ws_closing w" "ws_panicked (start_reconnect f w) = ws_panicked w"
  "set (ws_shut (start_reconnect f w)) = set (ws_shut w) \<union> set_option (ws_conn w)"
  by (simp_all add: start_reconnect_def)

lemma ping_fields [simp]:
  "ws_conn (ping_tick f w) = ws_conn w" "ws_subscribers (ping_tick f w) = ws_subscribers w" "ws_chans (ping_tick f w) = ws_chans w"
  "ws_nextReqID (ping_tick f w) = ws_nextReqID w" "ws_handler (ping_tick f w) = ws_handler w"
  "ws_calls (ping_tick f w) = ws_calls w" "ws_dials (ping_tick f w) = ws_dials w" "ws_frames (ping_tick f w) = ws_frames w"
  "ws_closing (ping_tick f w) = ws_closing w" "ws_panicked (ping_tick f w) = ws_panicked w" "ws_shut (ping_tick f w) = ws_shut w"
  by (simp_all add: ping_tick_def split: option.split)

section \<open>Channels\<close>

text \<open>Sending and receiving leave the channels open or closed as they were.\<close>

definition same_flags :: "ws_chan list \<Rightarrow> ws_chan list \<Rightarrow> bool" where
  "same_flags cs cs' \<longleftrightarrow> length cs' = length cs \<and> (\<forall>i < length cs. wc_closed (cs' ! i) = wc_closed (cs ! i))"

definition small :: "ws_chan list \<Rightarrow> bool" where
  "small cs \<longleftrightarrow> (\<forall>ch \<in> set cs. length (wc_buf ch) \<le> 100)"

definition pushed :: "rpc_response \<Rightarrow> ws_chan \<Rightarrow> ws_chan" where
  "pushed resp ch = (if length (wc_buf ch) < 100 then ch\<lparr>wc_buf := wc_buf ch @ [resp]\<rparr> else ch)"

lemma push_open:
  "\<not> wc_closed (cs ! a) \<Longrightarrow> push resp a cs = Some (cs[a := pushed resp (cs ! a)])"
  by (simp add: push_def pushed_def Let_def)

lemma broadcast_open:
  "distinct as \<Longrightarrow> \<forall>a \<in> set as. a < length cs \<and> \<not> wc_closed (cs ! a) \<Longrightarrow>
   \<exists>cs'. broadcast resp as cs = (False, cs') \<and> length cs' = length cs \<and>
     (\<forall>i < length cs. cs' ! i = (if i \<in> set as then pushed resp (cs ! i) else cs ! i))"
proof (induction as arbitrary: cs)
  case (Cons a as)
  let ?cs = "cs[a := pushed resp (cs ! a)]"
  have "\<forall>b \<in> set as. b < length ?cs \<and> \<not> wc_closed (?cs ! b)" using Cons.prems by (auto simp: nth_list_update)
  with Cons.IH [of ?cs] Cons.prems(1) obtain cs' where
    cs': "broadcast resp as ?cs = (False, cs')" "length cs' = length cs"
      "\<forall>i < length cs. cs' ! i = (if i \<in> set as then pushed resp (?cs ! i) else ?cs ! i)" by auto
  then have "broadcast resp (a # as) cs = (False, cs')" using Cons.prems by (simp add: push_open)
  moreover have "\<forall>i < length cs. cs' ! i = (if i \<in> set (a # as) then pushed resp (cs ! i) else cs ! i)"
    using cs'(3) Cons.prems by (auto simp: nth_list_update)
  ultimately show ?case using cs'(2) by blast
qed simp

lemma pushed_facts: "wc_closed (pushed resp ch) = wc_closed ch" "length (wc_buf ch) \<le> 100 \<Longrightarrow> length (wc_buf (pushed resp ch)) \<le> 100"
  by (auto simp: pushed_def)

lemma close_chan_nth:
  "length (close_chan a cs) = length cs"
  "i < length cs \<Longrightarrow> wc_closed (close_chan a cs ! i) \<longleftrightarrow> i = a \<or> wc_closed (cs ! i)"
  "i < length cs \<Longrightarrow> wc_buf (close_chan a cs ! i) = wc_buf (cs ! i)"
  by (cases "i = a"; simp add: close_chan_def)+

lemma close_chans_nth:
  "length (fold close_chan as cs) = length cs"
  "i < length cs \<Longrightarrow> wc_closed (fold close_chan as cs ! i) \<longleftrightarrow> i \<in> set as \<or> wc_closed (cs ! i)"
  "i < length cs \<Longrightarrow> wc_buf (fold close_chan as cs ! i) = wc_buf (cs ! i)"
  by (induction as arbitrary: cs) (auto simp: close_chan_nth)

lemma small_nth: "small cs \<longleftrightarrow> (\<forall>i < length cs. length (wc_buf (cs ! i)) \<le> 100)"
  by (simp add: small_def all_set_conv_all_nth)

section \<open>The invariant\<close>

definition table_ok :: "(int \<times> nat) list \<Rightarrow> ws_chan list \<Rightarrow> int \<Rightarrow> bool" where
  "table_ok subs cs next \<longleftrightarrow> distinct (map fst subs) \<and> distinct (map snd subs) \<and>
     (\<forall>(i, a) \<in> set subs. i < next \<and> a < length cs \<and> \<not> wc_closed (cs ! a))"

definition calls_ok :: "ws_call list \<Rightarrow> (int \<times> nat) list \<Rightarrow> ws_chan list \<Rightarrow> int \<Rightarrow> nat \<Rightarrow> bool" where
  "calls_ok calls subs cs next closing \<longleftrightarrow> distinct (map (rq_ID \<circ> sc_req) calls) \<and> distinct (map sc_chan calls) \<and>
     (\<forall>c \<in> set calls. rq_ID (sc_req c) < next \<and> sc_chan c < length cs \<and> (closing < 3 \<longrightarrow> \<not> wc_closed (cs ! sc_chan c)) \<and>
        (closing < 3 \<longrightarrow> (rq_ID (sc_req c), sc_chan c) \<in> set subs) \<and> (\<forall>(i, a) \<in> set subs. i = rq_ID (sc_req c) \<longleftrightarrow> a = sc_chan c))"

definition frames_ok :: "(nat \<times> rpc_request) list \<Rightarrow> ws_call list \<Rightarrow> int \<Rightarrow> nat \<Rightarrow> bool" where
  "frames_ok frames calls next dials \<longleftrightarrow> distinct (map (rq_ID \<circ> snd) frames) \<and>
     (\<forall>(k, r) \<in> set frames. k < dials \<and> rq_ID r < next \<and> (\<forall>c \<in> set calls. rq_ID (sc_req c) \<noteq> rq_ID r)) \<and>
     (\<forall>c \<in> set calls. rq_ID (sc_req c) < next \<and> (\<forall>k. sc_conn c = Some k \<longrightarrow> k < dials))"

definition handler_ok :: "ws_handler \<Rightarrow> bool" where
  "handler_ok h \<longleftrightarrow> (\<forall>a d. h \<noteq> BackOff a d True \<and> h \<noteq> InDial a d True)"

definition ws_inv :: "ws_client \<Rightarrow> bool" where
  "ws_inv w \<longleftrightarrow> small (ws_chans w) \<and> table_ok (ws_subscribers w) (ws_chans w) (ws_nextReqID w) \<and>
     calls_ok (ws_calls w) (ws_subscribers w) (ws_chans w) (ws_nextReqID w) (ws_closing w) \<and>
     frames_ok (ws_frames w) (ws_calls w) (ws_nextReqID w) (ws_dials w) \<and> handler_ok (ws_handler w) \<and>
     (\<forall>k. ws_conn w = Some k \<longrightarrow> k < ws_dials w) \<and> (ws_panicked w \<longrightarrow> 3 \<le> ws_closing w)"

lemma handler_ok_simps [simp]:
  "handler_ok LoopTop" "handler_ok (InRead k)" "handler_ok Ended" "handler_ok (BackOff a d f) \<longleftrightarrow> \<not> f" "handler_ok (InDial a d f) \<longleftrightarrow> \<not> f"
  by (auto simp: handler_ok_def)

lemma same_flags_ok:
  "same_flags cs cs' \<Longrightarrow> table_ok subs cs n \<Longrightarrow> table_ok subs cs' n"
  "same_flags cs cs' \<Longrightarrow> table_ok subs cs n \<Longrightarrow> calls_ok calls subs cs n z \<Longrightarrow> calls_ok calls subs cs' n z"
  unfolding same_flags_def table_ok_def calls_ok_def by (auto split: prod.splits)

lemma receivers_cases:
  "receivers resp subs = map snd subs \<or> receivers resp subs = [] \<or> (\<exists>a. map_of subs (rr_ID resp) = Some a \<and> receivers resp subs = [a])"
  unfolding receivers_def by (auto split: option.split)

lemma receivers_open:
  assumes t: "table_ok subs cs n"
  shows "distinct (receivers resp subs) \<and> (\<forall>a \<in> set (receivers resp subs). a < length cs \<and> \<not> wc_closed (cs ! a))"
proof -
  have subs: "distinct (map snd subs)" "\<forall>(i, a) \<in> set subs. a < length cs \<and> \<not> wc_closed (cs ! a)"
    using t by (auto simp: table_ok_def)
  then have all: "\<forall>a \<in> set (map snd subs). a < length cs \<and> \<not> wc_closed (cs ! a)" by auto
  from receivers_cases [of resp subs] show ?thesis
  proof (elim disjE exE conjE)
    fix a assume a: "map_of subs (rr_ID resp) = Some a" "receivers resp subs = [a]"
    then have "(rr_ID resp, a) \<in> set subs" by (simp add: map_of_SomeD)
    with subs(2) a(2) show ?thesis by fastforce
  qed (use subs(1) all in simp_all)
qed

lemma dispatch_open:
  assumes inv: "ws_inv w"
  shows "\<exists>cs'. dispatchMessage resp w = (False, w\<lparr>ws_chans := cs'\<rparr>) \<and> length cs' = length (ws_chans w) \<and>
    (\<forall>i < length (ws_chans w). cs' ! i =
       (if i \<in> set (receivers resp (ws_subscribers w)) then pushed resp (ws_chans w ! i) else ws_chans w ! i))"
proof -
  have "table_ok (ws_subscribers w) (ws_chans w) (ws_nextReqID w)" using inv by (simp add: ws_inv_def)
  then obtain cs' where cs': "broadcast resp (receivers resp (ws_subscribers w)) (ws_chans w) = (False, cs')"
    "length cs' = length (ws_chans w)"
    "\<forall>i < length (ws_chans w). cs' ! i =
       (if i \<in> set (receivers resp (ws_subscribers w)) then pushed resp (ws_chans w ! i) else ws_chans w ! i)"
    using broadcast_open [OF conjunct1 [OF receivers_open] conjunct2 [OF receivers_open]] by blast
  then show ?thesis by (intro exI [of _ cs']) (simp add: dispatchMessage_def)
qed

lemma keep_channels:
  assumes "ws_inv w" "same_flags (ws_chans w) cs'" "small cs'"
  shows "ws_inv (w\<lparr>ws_chans := cs'\<rparr>)"
  using assms same_flags_ok [OF assms(2)] by (simp add: ws_inv_def)

lemma dispatch_inv:
  assumes inv: "ws_inv w"
  obtains cs' where "dispatchMessage resp w = (False, w\<lparr>ws_chans := cs'\<rparr>)" "ws_inv (w\<lparr>ws_chans := cs'\<rparr>)"
proof -
  obtain cs' where d: "dispatchMessage resp w = (False, w\<lparr>ws_chans := cs'\<rparr>)" "length cs' = length (ws_chans w)"
    and at: "\<forall>i < length (ws_chans w). cs' ! i =
       (if i \<in> set (receivers resp (ws_subscribers w)) then pushed resp (ws_chans w ! i) else ws_chans w ! i)"
    using dispatch_open [OF inv, of resp] by blast
  have "same_flags (ws_chans w) cs'" using d(2) at by (simp add: same_flags_def pushed_facts)
  moreover have "small cs'" using d(2) at inv by (simp add: ws_inv_def small_nth pushed_facts)
  ultimately show ?thesis using that d(1) keep_channels [OF inv] by blast
qed

section \<open>Every step keeps it\<close>

lemma update_new: "k \<notin> fst ` set xs \<Longrightarrow> AList.update k v xs = xs @ [(k, v)]"
  by (induction xs) auto

lemma register_inv:
  assumes inv: "ws_inv w" and r: "subscribe_register meth params w = (c, w')"
  shows "ws_inv (w'\<lparr>ws_calls := c # ws_calls w'\<rparr>)"
proof -
  let ?n = "ws_nextReqID w" and ?cs = "ws_chans w" and ?subs = "ws_subscribers w"
  have new: "?n \<notin> fst ` set ?subs" using inv by (auto simp: ws_inv_def table_ok_def)
  note upd = update_new [OF new]
  have c: "rq_ID (sc_req c) = ?n" "sc_chan c = length ?cs" "sc_conn c = None"
    and w': "w' = w\<lparr>ws_nextReqID := ?n + 1, ws_chans := ?cs @ [\<lparr>wc_buf = [], wc_closed = False\<rparr>],
        ws_subscribers := AList.update ?n (length ?cs) ?subs\<rparr>"
    using r by (auto simp: subscribe_register_def Let_def)
  have "table_ok (AList.update ?n (length ?cs) ?subs) (ws_chans w') (?n + 1)"
    using inv new unfolding ws_inv_def table_ok_def upd w' by (fastforce simp: nth_append)
  moreover have "calls_ok (c # ws_calls w) (AList.update ?n (length ?cs) ?subs) (ws_chans w') (?n + 1) (ws_closing w)"
    using inv new c unfolding ws_inv_def table_ok_def calls_ok_def upd w' by (fastforce simp: nth_append image_iff)
  moreover have "frames_ok (ws_frames w) (c # ws_calls w) (?n + 1) (ws_dials w)"
    using inv c unfolding ws_inv_def frames_ok_def by fastforce
  moreover have "small (ws_chans w')" using inv by (auto simp: ws_inv_def small_def w')
  ultimately show ?thesis using inv by (simp add: ws_inv_def w')
qed

lemma write_inv:
  assumes inv: "ws_inv w" and calls: "ws_calls w = cs @ c # cs'" and conn: "sc_conn c = Some k"
    and r: "subscribe_write c k written w = (r, w')"
  shows "ws_inv (w'\<lparr>ws_calls := cs @ cs'\<rparr>)"
proof (cases written)
  case True
  then have "w' = w\<lparr>ws_frames := ws_frames w @ [(k, sc_req c)]\<rparr>" using r by (simp add: subscribe_write_def)
  moreover have "calls_ok (cs @ cs') (ws_subscribers w) (ws_chans w) (ws_nextReqID w) (ws_closing w)"
    using inv calls by (auto simp: ws_inv_def calls_ok_def)
  moreover have "frames_ok (ws_frames w @ [(k, sc_req c)]) (cs @ cs') (ws_nextReqID w) (ws_dials w)"
    using inv calls conn unfolding ws_inv_def frames_ok_def calls_ok_def by (fastforce simp: image_iff)
  ultimately show ?thesis using inv by (simp add: ws_inv_def)
next
  case False
  let ?i = "rq_ID (sc_req c)" and ?a = "sc_chan c"
  let ?subs = "AList.delete ?i (ws_subscribers w)" and ?chans = "close_chan (sc_chan c) (ws_chans w)"
  have subs: "set ?subs \<subseteq> set (ws_subscribers w)" "\<forall>(i, a) \<in> set ?subs. i \<noteq> ?i"
    by (auto simp: AList.delete_eq)
  have dist: "distinct (map fst ?subs)" "distinct (map snd ?subs)"
    using inv by (auto simp: ws_inv_def table_ok_def AList.delete_eq distinct_map inj_on_def)
  have own: "\<forall>(i, a) \<in> set (ws_subscribers w). i = ?i \<longleftrightarrow> a = ?a" "?a < length (ws_chans w)"
    using inv calls by (auto simp: ws_inv_def calls_ok_def)
  then have apart: "\<forall>(i, a) \<in> set ?subs. a \<noteq> ?a" using subs by fastforce
  have calls': "calls_ok (cs @ cs') ?subs (ws_chans w) (ws_nextReqID w) (ws_closing w)"
  proof -
    have ok: "calls_ok (cs @ cs') (ws_subscribers w) (ws_chans w) (ws_nextReqID w) (ws_closing w)"
      using inv calls by (auto simp: ws_inv_def calls_ok_def)
    have "distinct (map (rq_ID \<circ> sc_req) (cs @ c # cs'))" using inv calls by (simp add: ws_inv_def calls_ok_def)
    then have "?i \<notin> (rq_ID \<circ> sc_req) ` set (cs @ cs')" by auto
    then have other: "?i \<noteq> rq_ID (sc_req c')" if "c' \<in> set (cs @ cs')" for c' using that by (metis comp_apply image_eqI)
    have "(rq_ID (sc_req c'), a) \<in> set ?subs \<longleftrightarrow> (rq_ID (sc_req c'), a) \<in> set (ws_subscribers w)"
      if "c' \<in> set (cs @ cs')" for c' a using other [OF that] by (simp add: AList.delete_eq)
    moreover have "\<forall>c' \<in> set (cs @ cs'). \<forall>x \<in> set ?subs. case x of (i, a) \<Rightarrow> i = rq_ID (sc_req c') \<longleftrightarrow> a = sc_chan c'"
      using ok subs(1) unfolding calls_ok_def by blast
    ultimately show ?thesis using ok unfolding calls_ok_def by simp
  qed
  have frames': "frames_ok (ws_frames w) (cs @ cs') (ws_nextReqID w) (ws_dials w)"
    using inv calls unfolding ws_inv_def frames_ok_def by auto
  have table': "table_ok ?subs (ws_chans w) (ws_nextReqID w)"
    using inv dist subs(1) unfolding ws_inv_def table_ok_def by fastforce
  show ?thesis
  proof (cases "wc_closed (ws_chans w ! ?a)")
    case True
    then have w': "w' = w\<lparr>ws_subscribers := ?subs, ws_panicked := True\<rparr>" using r False by (simp add: subscribe_write_def Let_def)
    have "3 \<le> ws_closing w" using True inv calls by (force simp: ws_inv_def calls_ok_def)
    then show ?thesis using inv calls' frames' table' by (simp add: ws_inv_def w')
  next
    case ajar: False
    then have w': "w' = w\<lparr>ws_subscribers := ?subs, ws_chans := ?chans\<rparr>" using r False by (simp add: subscribe_write_def Let_def)
    have "distinct (map sc_chan (cs @ c # cs'))" using inv calls by (simp add: ws_inv_def calls_ok_def)
    then have "?a \<notin> sc_chan ` set (cs @ cs')" by auto
    then have "sc_chan c' \<noteq> ?a" if "c' \<in> set (cs @ cs')" for c'
      using that by (metis image_eqI)
    then have "calls_ok (cs @ cs') ?subs ?chans (ws_nextReqID w) (ws_closing w)"
      using calls' unfolding calls_ok_def by (simp add: close_chan_nth)
    moreover have "table_ok ?subs ?chans (ws_nextReqID w)"
      using table' apart unfolding table_ok_def by (fastforce simp: close_chan_nth)
    moreover have "small ?chans" using inv by (simp add: ws_inv_def small_nth close_chan_nth)
    ultimately show ?thesis using inv frames' by (simp add: ws_inv_def w')
  qed
qed

lemma close_inv: "ws_inv w \<Longrightarrow> ws_closing w = 2 \<Longrightarrow> ws_inv (close_subscribers w)"
  unfolding ws_inv_def close_subscribers_def
  by (simp add: table_ok_def calls_ok_def small_nth close_chans_nth)

lemma message_inv:
  assumes inv: "ws_inv w"
  shows "ws_inv (handle_message F msg w)"
proof (cases "parse_message F msg")
  case None
  then show ?thesis using inv by (simp add: handle_message_def ws_inv_def)
next
  case (Some resp)
  obtain cs' where "dispatchMessage resp w = (False, w\<lparr>ws_chans := cs'\<rparr>)" "ws_inv (w\<lparr>ws_chans := cs'\<rparr>)"
    using dispatch_inv [OF inv] by blast
  then show ?thesis by (simp add: handle_message_def Some ws_inv_def)
qed

lemma frames_more: "frames_ok frames calls n k \<Longrightarrow> k \<le> k' \<Longrightarrow> frames_ok frames calls n k'"
  unfolding frames_ok_def by (fastforce split: prod.splits)

lemma dial_inv:
  assumes inv: "ws_inv w" and h: "ws_handler w = InDial a d f"
  shows "ws_inv (reconnect_dial a d f dialed w)"
proof -
  have "\<not> f" using inv h by (simp add: ws_inv_def)
  then show ?thesis using inv
    by (cases dialed) (auto simp: reconnect_dial_def connect_def Let_def ws_inv_def less_Suc_eq elim: frames_more)
qed

lemma start_inv: "ws_inv w \<Longrightarrow> ws_inv (start_reconnect False w)"
  by (simp add: ws_inv_def)

lemma conn_inv:
  assumes inv: "ws_inv w" and calls: "ws_calls w = cs @ c # cs'" and r: "subscribe_conn c w = Inr c'"
  shows "ws_inv (w\<lparr>ws_calls := cs @ c' # cs'\<rparr>)"
proof -
  obtain k where k: "ws_conn w = Some k" "c' = c\<lparr>sc_conn := Some k\<rparr>" using r by (auto simp: subscribe_conn_def split: option.splits)
  then have "k < ws_dials w" using inv by (simp add: ws_inv_def)
  with inv calls k(2) show ?thesis by (auto simp: ws_inv_def calls_ok_def frames_ok_def)
qed

lemma drop_call_inv: "ws_inv w \<Longrightarrow> ws_calls w = cs @ c # cs' \<Longrightarrow> ws_inv (w\<lparr>ws_calls := cs @ cs'\<rparr>)"
  by (auto simp: ws_inv_def calls_ok_def frames_ok_def)

lemma receive_inv:
  assumes inv: "ws_inv w" and a: "a < length (ws_chans w)" and buf: "wc_buf (ws_chans w ! a) = resp # rest"
  shows "ws_inv (w\<lparr>ws_chans := (ws_chans w)[a := (ws_chans w ! a)\<lparr>wc_buf := rest\<rparr>]\<rparr>)"
proof (rule keep_channels [OF inv])
  show "same_flags (ws_chans w) ((ws_chans w)[a := (ws_chans w ! a)\<lparr>wc_buf := rest\<rparr>])"
    using a by (auto simp: same_flags_def nth_list_update)
  have "length (wc_buf (ws_chans w ! a)) \<le> 100" using inv a by (simp add: ws_inv_def small_nth)
  then have "length rest \<le> 100" by (simp add: buf)
  then show "small ((ws_chans w)[a := (ws_chans w ! a)\<lparr>wc_buf := rest\<rparr>])"
    using inv a by (auto simp: ws_inv_def small_nth nth_list_update)
qed

lemma calls_closing: "calls_ok calls subs cs n z \<Longrightarrow> z \<le> z' \<Longrightarrow> z' < 3 \<Longrightarrow> calls_ok calls subs cs n z'"
  by (auto simp: calls_ok_def)

lemma ws_step_inv: "ws_step F w w' \<Longrightarrow> ws_inv w \<Longrightarrow> ws_inv w'"
proof (induction rule: ws_step.induct)
  case (top_deadline w k)
  then have "ws_inv (w\<lparr>ws_conn := None\<rparr>)" by (simp add: ws_inv_def)
  then show ?case by (rule start_inv)
next
  case (read_error w k)
  then show ?case by (simp add: read_failed_def Let_def ws_inv_def)
next
  case (read_message w k msg)
  then show ?case by (simp add: message_inv)
next
  case (wait_over w a d f)
  then show ?case by (simp add: ws_inv_def)
next
  case (dial_out w a d f dialed)
  then show ?case by (simp add: dial_inv)
next
  case (sub_register w meth params c w')
  then show ?case by (simp add: register_inv)
next
  case (sub_refused w cs c cs' err)
  then show ?case by (simp add: drop_call_inv)
next
  case (sub_conn w cs c cs' c')
  then show ?case by (simp add: conn_inv)
next
  case (sub_write w cs c cs' k written r w')
  from write_inv [OF sub_write(6,2,3,5)] show ?case .
next
  case (drop_subs w)
  then show ?case by (simp add: close_inv)
next
  case (receive w a resp rest)
  then show ?case by (simp add: receive_inv)
qed (auto simp: ws_inv_def start_reconnect_def close_cancel_def close_conn_def elim: calls_closing)

lemma ws_run_inv: "ws_run F w w' \<Longrightarrow> ws_inv w \<Longrightarrow> ws_inv w'"
  by (induction rule: ws_run.induct) (auto dest: ws_step_inv)

lemma new_client_inv: "NewWebSocketClient url opts dialed = Inr w \<Longrightarrow> 0 < ws_pingInterval w \<Longrightarrow> ws_inv w"
  by (auto simp: NewWebSocketClient_def connect_def shut_def Let_def ws_inv_def small_def table_ok_def calls_ok_def frames_ok_def
      split: if_splits)

lemma reachable_inv: "ws_reachable F w \<Longrightarrow> ws_inv w"
  unfolding ws_reachable_def by (blast intro: ws_run_inv new_client_inv)

section \<open>What holds throughout\<close>


section \<open>A Close that overtakes a Subscribe\<close>

text \<open>The call \<open>c\<close> waits to write on a connection that was closed, and its channel was closed with it.\<close>

definition doomed :: "ws_call \<Rightarrow> ws_client \<Rightarrow> bool" where
  "doomed c w \<longleftrightarrow> c \<in> set (ws_calls w) \<and> (\<exists>k. sc_conn c = Some k \<and> k \<in> set (ws_shut w)) \<and>
     wc_closed (ws_chans w ! sc_chan c)"

lemma doomed_kept:
  "doomed c w \<Longrightarrow> ws_calls w' = ws_calls w \<Longrightarrow> set (ws_shut w) \<subseteq> set (ws_shut w') \<Longrightarrow>
   wc_closed (ws_chans w' ! sc_chan c) = wc_closed (ws_chans w ! sc_chan c) \<Longrightarrow> doomed c w'"
  by (auto simp: doomed_def)

lemma connect_fields [simp]:
  "ws_calls (snd (connect b w)) = ws_calls w" "ws_chans (snd (connect b w)) = ws_chans w"
  "set (ws_shut w) \<subseteq> set (ws_shut (snd (connect b w)))"
  by (auto simp: connect_def Let_def)

lemma dial_fields:
  "ws_calls (reconnect_dial a d f b w) = ws_calls w" "ws_chans (reconnect_dial a d f b w) = ws_chans w"
  "set (ws_shut w) \<subseteq> set (ws_shut (reconnect_dial a d f b w))" "ws_dials w \<le> ws_dials (reconnect_dial a d f b w)"
  "ws_subscribers (reconnect_dial a d f b w) = ws_subscribers w" "ws_frames (reconnect_dial a d f b w) = ws_frames w"
  "ws_closing (reconnect_dial a d f b w) = ws_closing w"
  by (cases b; auto simp: reconnect_dial_def connect_def Let_def)+

lemma message_fields:
  assumes "ws_inv w"
  shows "ws_calls (handle_message F msg w) = ws_calls w" "ws_shut (handle_message F msg w) = ws_shut w"
    "ws_dials (handle_message F msg w) = ws_dials w" "ws_subscribers (handle_message F msg w) = ws_subscribers w"
    "ws_frames (handle_message F msg w) = ws_frames w" "ws_closing (handle_message F msg w) = ws_closing w"
proof -
  have "\<exists>cs'. handle_message F msg w = w\<lparr>ws_chans := cs', ws_handler := LoopTop\<rparr>"
  proof (cases "parse_message F msg")
    case None
    then show ?thesis by (intro exI [of _ "ws_chans w"]) (simp add: handle_message_def)
  next
    case (Some resp)
    obtain cs' where "dispatchMessage resp w = (False, w\<lparr>ws_chans := cs'\<rparr>)" using dispatch_inv [OF assms, of resp] by blast
    then show ?thesis by (intro exI [of _ cs']) (simp add: handle_message_def Some)
  qed
  then show "ws_calls (handle_message F msg w) = ws_calls w" "ws_shut (handle_message F msg w) = ws_shut w"
    "ws_dials (handle_message F msg w) = ws_dials w" "ws_subscribers (handle_message F msg w) = ws_subscribers w"
    "ws_frames (handle_message F msg w) = ws_frames w" "ws_closing (handle_message F msg w) = ws_closing w"
    by auto
qed

lemma same_flags_message:
  assumes inv: "ws_inv w"
  shows "same_flags (ws_chans w) (ws_chans (handle_message F msg w))"
proof (cases "parse_message F msg")
  case (Some resp)
  from dispatch_open [OF inv, of resp] show ?thesis
    by (auto simp: handle_message_def Some same_flags_def pushed_facts split: if_splits)
qed (simp add: handle_message_def same_flags_def)

lemma doomed_write:
  assumes d: "doomed c w" and calls: "ws_calls w = cs @ c' # cs'" and conn: "sc_conn c' = Some k"
    and written: "written \<longrightarrow> k \<notin> set (ws_shut w)" and r: "subscribe_write c' k written w = (r, w')" and inv: "ws_inv w"
  shows "doomed c (w'\<lparr>ws_calls := cs @ cs'\<rparr>) \<or> ws_panicked w'"
proof (cases "c = c'")
  case True
  then have "\<not> written" "wc_closed (ws_chans w ! sc_chan c')" using d conn written by (auto simp: doomed_def)
  then show ?thesis using r by (auto simp: subscribe_write_def Let_def)
next
  case False
  then have "c \<in> set (cs @ cs')" using d calls by (auto simp: doomed_def)
  moreover have "sc_chan c < length (ws_chans w)" using d inv by (auto simp: doomed_def ws_inv_def calls_ok_def)
  ultimately show ?thesis using d r
    by (auto simp: doomed_def subscribe_write_def Let_def close_chan_nth split: if_splits)
qed

lemma doomed_step: "ws_step F w w' \<Longrightarrow> ws_inv w \<Longrightarrow> doomed c w \<Longrightarrow> doomed c w' \<or> ws_panicked w'"
proof (induction rule: ws_step.induct)
  case (read_message w k msg)
  then have "sc_chan c < length (ws_chans w)" by (auto simp: doomed_def ws_inv_def calls_ok_def)
  then show ?case
    using read_message same_flags_message [OF read_message(3), of F msg]
    by (intro disjI1 doomed_kept [OF read_message(4)]) (auto simp: message_fields same_flags_def)
next
  case (read_error w k)
  then show ?case by (auto simp: doomed_def read_failed_def Let_def)
next
  case (dial_out w a d f dialed)
  then show ?case by (intro disjI1 doomed_kept [OF dial_out(4)]) (auto simp: dial_fields)
next
  case (sub_register w meth params c' w')
  then have "sc_chan c < length (ws_chans w)" by (auto simp: doomed_def ws_inv_def calls_ok_def)
  with sub_register show ?case by (auto simp: doomed_def subscribe_register_def Let_def nth_append)
next
  case (sub_refused w cs c' cs' err)
  then have "c \<noteq> c'" by (auto simp: doomed_def)
  with sub_refused show ?case by (auto simp: doomed_def)
next
  case (sub_conn w cs c0 cs' c')
  then have "c \<noteq> c0" by (auto simp: doomed_def)
  with sub_conn show ?case by (auto simp: doomed_def)
next
  case (sub_write w cs c' cs' k written r w')
  from doomed_write [OF sub_write(7,2,3,4,5,6)] show ?case by simp
next
  case (drop_subs w)
  then have "sc_chan c < length (ws_chans w)" by (auto simp: doomed_def ws_inv_def calls_ok_def)
  with drop_subs show ?case by (simp add: doomed_def close_subscribers_def close_chans_nth)
next
  case (receive w a resp rest)
  then show ?case by (cases "sc_chan c = a") (simp_all add: doomed_def)
qed (auto simp: doomed_def start_reconnect_def close_cancel_def close_conn_def)

lemma no_step_after_panic: "ws_step F w w' \<Longrightarrow> \<not> ws_panicked w"
  by (induction rule: ws_step.induct) auto

lemma doomed_run: "ws_run F w w' \<Longrightarrow> ws_inv w \<Longrightarrow> doomed c w \<Longrightarrow> doomed c w' \<or> ws_panicked w'"
proof (induction rule: ws_run.induct)
  case (go w w' w'')
  then have "doomed c w'" using no_step_after_panic [OF go(2)] by blast
  then show ?case using doomed_step [OF go(2)] ws_run_inv [OF go(1) go(4)] by blast
qed simp

lemma Close_run:
  assumes "\<not> ws_panicked w" "ws_closing w = 0"
  shows "ws_run F w (Close_ws w)" "ws_panicked (Close_ws w) = ws_panicked w"
proof -
  have "ws_step F w (close_cancel w)" by (rule cancel) (use assms in simp_all)
  moreover have "ws_step F (close_cancel w) (close_conn (close_cancel w))"
    by (rule drop_conn) (use assms in \<open>simp_all add: close_cancel_def\<close>)
  moreover have "ws_step F (close_conn (close_cancel w)) (Close_ws w)"
    unfolding Close_ws_def by (rule drop_subs) (use assms in \<open>simp_all add: close_cancel_def close_conn_def\<close>)
  ultimately show "ws_run F w (Close_ws w)" by (meson ws_run.intros)
  show "ws_panicked (Close_ws w) = ws_panicked w"
    by (simp add: Close_ws_def close_subscribers_def close_conn_def close_cancel_def)
qed

text \<open>
  C29: a Close that overtakes a Subscribe ends the process. When Close runs while a call of Subscribe has
  read the connection and not yet written its request, that write must fail on the closed connection,
  and the call then closes a channel Close has closed already: in every run from there the call either
  is still waiting or the process has panicked, and the panic is reachable.
\<close>
theorem close_overtakes_subscribe:
  assumes reach: "ws_reachable F w" and alive: "\<not> ws_panicked w" "ws_closing w = 0"
    and call: "c \<in> set (ws_calls w)" "sc_conn c = Some k" "ws_conn w = Some k"
  shows "ws_run F w (Close_ws w) \<and> (\<forall>w'. ws_run F (Close_ws w) w' \<longrightarrow> c \<in> set (ws_calls w') \<or> ws_panicked w') \<and>
    (\<exists>w'. ws_run F (Close_ws w) w' \<and> ws_panicked w')"
proof -
  let ?w = "Close_ws w"
  have inv: "ws_inv w" using reach by (rule reachable_inv)
  have run: "ws_run F w ?w" "\<not> ws_panicked ?w" using Close_run [OF alive] alive by simp_all
  have "(rq_ID (sc_req c), sc_chan c) \<in> set (ws_subscribers w)" "sc_chan c < length (ws_chans w)"
    using inv call(1) alive(2) by (auto simp: ws_inv_def calls_ok_def)
  then have "sc_chan c \<in> set (map snd (ws_subscribers w))" "sc_chan c < length (ws_chans w)" by force+
  then have closed: "wc_closed (ws_chans ?w ! sc_chan c)"
    by (simp add: Close_ws_def close_subscribers_def close_conn_def close_cancel_def close_chans_nth del: set_map)
  have fields: "ws_calls ?w = ws_calls w" "k \<in> set (ws_shut ?w)"
    using call(3) by (simp_all add: Close_ws_def close_subscribers_def close_conn_def close_cancel_def)
  then have doom: "doomed c ?w" using call closed by (auto simp: doomed_def)
  obtain cs cs' where calls: "ws_calls ?w = cs @ c # cs'" using call(1) fields(1) by (metis split_list)
  obtain w' where w': "subscribe_write c k False ?w = (Inl ''panic: close of closed channel'', w')" "ws_panicked w'"
    using closed by (simp add: subscribe_write_def Let_def)
  have "ws_step F ?w (w'\<lparr>ws_calls := cs @ cs'\<rparr>)" by (rule ws_step.sub_write [OF run(2) calls call(2) _ w'(1)]) simp
  then have "ws_run F ?w (w'\<lparr>ws_calls := cs @ cs'\<rparr>)" by (meson ws_run.intros)
  with w'(2) have "\<exists>w'. ws_run F ?w w' \<and> ws_panicked w'" by (intro exI [of _ "w'\<lparr>ws_calls := cs @ cs'\<rparr>"]) simp
  moreover have "c \<in> set (ws_calls w') \<or> ws_panicked w'" if "ws_run F ?w w'" for w'
    using doomed_run [OF that _ doom] ws_run_inv [OF run(1) inv] by (auto simp: doomed_def)
  ultimately show ?thesis using run(1) by blast
qed

section \<open>Subscriptions and reconnects\<close>

text \<open>Subscriber \<open>i\<close> is in the table and its request has been written.\<close>

definition subscribed :: "int \<Rightarrow> nat \<Rightarrow> ws_client \<Rightarrow> bool" where
  "subscribed i a w \<longleftrightarrow> (i, a) \<in> set (ws_subscribers w) \<and> i \<in> (rq_ID \<circ> snd) ` set (ws_frames w)"

definition grows :: "ws_client \<Rightarrow> ws_client \<Rightarrow> bool" where
  "grows w w' \<longleftrightarrow> ws_closing w \<le> ws_closing w' \<and> (\<exists>new. ws_frames w' = ws_frames w @ new) \<and>
     (ws_closing w' < 3 \<longrightarrow> (\<forall>i a. subscribed i a w \<longrightarrow> subscribed i a w'))"

lemma grows_same:
  "ws_closing w' = ws_closing w \<Longrightarrow> ws_frames w' = ws_frames w \<Longrightarrow> set (ws_subscribers w) \<subseteq> set (ws_subscribers w') \<Longrightarrow> grows w w'"
  by (auto simp: grows_def subscribed_def)

lemma grows_write:
  assumes inv: "ws_inv w" and c: "c \<in> set (ws_calls w)" and r: "subscribe_write c k written w = (r, w')"
  shows "grows w (w'\<lparr>ws_calls := calls\<rparr>)"
proof (cases written)
  case True
  then show ?thesis using r by (auto simp: subscribe_write_def grows_def subscribed_def)
next
  case False
  have "rq_ID (sc_req c) \<notin> (rq_ID \<circ> snd) ` set (ws_frames w)" using inv c by (fastforce simp: ws_inv_def frames_ok_def)
  then have kept: "(i, a) \<in> set (AList.delete (rq_ID (sc_req c)) (ws_subscribers w))" if "subscribed i a w" for i a
  proof -
    have "(i, a) \<in> set (ws_subscribers w)" "i \<in> (rq_ID \<circ> snd) ` set (ws_frames w)" using that by (simp_all only: subscribed_def)
    moreover from this(2) have "rq_ID (sc_req c) \<noteq> i" using \<open>rq_ID (sc_req c) \<notin> _\<close> by metis
    ultimately show ?thesis by (simp add: AList.delete_eq)
  qed
  have "ws_frames w' = ws_frames w" "ws_closing w' = ws_closing w"
    "ws_subscribers w' = AList.delete (rq_ID (sc_req c)) (ws_subscribers w)"
    using r False by (auto simp: subscribe_write_def Let_def split: if_splits)
  with kept show ?thesis unfolding grows_def by (simp add: subscribed_def)
qed

lemma step_grows: "ws_step F w w' \<Longrightarrow> ws_inv w \<Longrightarrow> grows w w'"
proof (induction rule: ws_step.induct)
  case (sub_register w meth params c w')
  then have "ws_nextReqID w \<notin> fst ` set (ws_subscribers w)" by (auto simp: ws_inv_def table_ok_def)
  with sub_register show ?case by (intro grows_same) (auto simp: subscribe_register_def Let_def update_new)
next
  case (sub_write w cs c cs' k written r w')
  then show ?case by (intro grows_write [OF _ _ sub_write(5)]) auto
next
  case (cancel w)
  then show ?case by (simp add: grows_def close_cancel_def subscribed_def)
next
  case (drop_conn w)
  then show ?case by (simp add: grows_def close_conn_def subscribed_def)
next
  case (drop_subs w)
  then show ?case by (simp add: grows_def close_subscribers_def)
qed (auto intro!: grows_same simp: dial_fields message_fields read_failed_def Let_def)

lemma run_grows: "ws_run F w w' \<Longrightarrow> ws_inv w \<Longrightarrow> grows w w'"
proof (induction rule: ws_run.induct)
  case (go w w' w'')
  have "grows w w'" "grows w' w''" using go step_grows ws_run_inv by blast+
  then show ?case by (auto simp: grows_def)
qed (simp add: grows_def)


section \<open>Headers\<close>

text \<open>The notification of a new header, and the members of the header in it.\<close>

definition eth_head :: "block_head \<Rightarrow> members" where
  "eth_head h =
     [(''number'', opt_quantity (hd_Number h)), (''hash'', JStr (hd_Hash h)), (''parentHash'', JStr (hd_ParentHash h)),
      (''timestamp'', opt_quantity (hd_Timestamp h)), (''stateRoot'', JStr (hd_StateRoot h))]"

definition new_head :: "string \<Rightarrow> block_head \<Rightarrow> json" where
  "new_head sub h = JObj
     [(''jsonrpc'', JStr ''2.0''), (''method'', JStr ''eth_subscription''),
      (''params'', JObj [(''subscription'', JStr sub), (''result'', JObj (eth_head h))])]"

lemma remarshal_new_head: "remarshal F (new_head sub h) = new_head sub h"
  by (simp add: new_head_def eth_head_def opt_quantity_def quantity_def split: option.split)

lemma parse_eth_head: "natural (hd_Number h) \<Longrightarrow> natural (hd_Timestamp h) \<Longrightarrow> parseBlockHeader B (eth_head h) = h"
  by (rule block_head.equality)
    (simp_all add: parseBlockHeader_def eth_head_def big_or_def str_or_def str_member_def member_def
      opt_quantity_def quantity_def natural_def parse_quantity split: option.splits)

lemma head_of_new_head:
  assumes "natural (hd_Number h)" "natural (hd_Timestamp h)"
  shows "head_of B (notification_response F (new_head sub h)) = Some h"
  by (simp add: notification_response_def remarshal_new_head)
    (simp add: new_head_def head_of_def as_map_def notification_head_def is_notification_def str_member_def member_def
      parse_eth_head [OF assms])

text \<open>
  A new header reaches every subscriber. When the handler reads the notification of a header, every
  subscriber of the table whose queue has room gets one response more, at the end of its queue, and the
  forwarding goroutine makes exactly that header of it; the other queues are unchanged.
\<close>
theorem header_reaches_subscribers:
  assumes reach: "ws_reachable F w" and h: "natural (hd_Number h)" "natural (hd_Timestamp h)"
  shows "\<exists>resp. head_of B resp = Some h \<and>
    (\<forall>a < length (ws_chans w). wc_buf (ws_chans (handle_message F (Some (new_head sub h)) w) ! a) =
       wc_buf (ws_chans w ! a) @
         (if a \<in> snd ` set (ws_subscribers w) \<and> length (wc_buf (ws_chans w ! a)) < 100 then [resp] else []))"
proof -
  let ?resp = "notification_response F (new_head sub h)"
  have inv: "ws_inv w" using reach by (rule reachable_inv)
  have parse: "parse_message F (Some (new_head sub h)) = Some ?resp"
    by (simp add: parse_message_def new_head_def as_map_def is_notification_def str_member_def member_def)
  have "rr_Result ?resp = Some (new_head sub h)" by (simp add: notification_response_def remarshal_new_head)
  then have "receivers ?resp (ws_subscribers w) = map snd (ws_subscribers w)"
    by (simp add: receivers_def new_head_def as_map_def is_notification_def str_member_def member_def)
  then obtain cs' where "dispatchMessage ?resp w = (False, w\<lparr>ws_chans := cs'\<rparr>)"
    "\<forall>i < length (ws_chans w). cs' ! i = (if i \<in> snd ` set (ws_subscribers w) then pushed ?resp (ws_chans w ! i) else ws_chans w ! i)"
    using dispatch_open [OF inv, of ?resp] by auto
  then show ?thesis
    by (intro exI [of _ ?resp]) (simp add: handle_message_def parse head_of_new_head [OF h] pushed_def)
qed

section \<open>A run of the client\<close>

definition demo_ws :: ws_client where
  "demo_ws = (case NewWebSocketClient ''ws://node'' [] True of Inr w \<Rightarrow> w)"

text \<open>One subscriber: its call registered, then about to write, then done.\<close>

definition demo_call :: ws_call where
  "demo_call = (fst (subscribe_register ''eth_subscribe'' (Some [JStr ''newHeads'']) demo_ws))\<lparr>sc_conn := Some 0\<rparr>"

definition demo_calling :: ws_client where
  "demo_calling = (snd (subscribe_register ''eth_subscribe'' (Some [JStr ''newHeads'']) demo_ws))\<lparr>ws_calls := [demo_call]\<rparr>"

definition demo_subscribed :: ws_client where
  "demo_subscribed = (snd (subscribe_write demo_call 0 True demo_calling))\<lparr>ws_calls := []\<rparr>"

definition demo_reconnected :: ws_client where
  "demo_reconnected =
     reconnect_dial 0 (10 ^ 9) False True
       ((read_failed (demo_subscribed\<lparr>ws_handler := InRead 0\<rparr>))\<lparr>ws_handler := InDial 0 (10 ^ 9) False\<rparr>)"

lemmas demo_ws_defs = demo_ws_def demo_call_def demo_calling_def demo_subscribed_def NewWebSocketClient_def
  DefaultWebSocketConfig_def connect_def shut_def subscribe_register_def subscribe_write_def

lemma demo_calling_reachable: "ws_reachable F demo_calling"
proof -
  let ?c = "fst (subscribe_register ''eth_subscribe'' (Some [JStr ''newHeads'']) demo_ws)"
  let ?r = "snd (subscribe_register ''eth_subscribe'' (Some [JStr ''newHeads'']) demo_ws)"
  have new: "NewWebSocketClient ''ws://node'' [] True = Inr demo_ws" "0 < ws_pingInterval demo_ws"
    by (simp_all add: demo_ws_defs Let_def)
  have "ws_step F demo_ws (?r\<lparr>ws_calls := ?c # ws_calls ?r\<rparr>)"
    by (rule ws_step.sub_register) (simp_all add: demo_ws_defs Let_def)
  moreover have "ws_step F (?r\<lparr>ws_calls := [?c]\<rparr>) ((?r\<lparr>ws_calls := [?c]\<rparr>)\<lparr>ws_calls := [] @ demo_call # []\<rparr>)"
    by (rule ws_step.sub_conn [where c = ?c]) (simp_all add: demo_ws_defs Let_def subscribe_conn_def)
  moreover have "ws_calls ?r = []" by (simp add: demo_ws_defs Let_def)
  ultimately have "ws_step F demo_ws (?r\<lparr>ws_calls := [?c]\<rparr>)" "ws_step F (?r\<lparr>ws_calls := [?c]\<rparr>) demo_calling"
    by (simp_all add: demo_calling_def)
  then have "ws_run F demo_ws demo_calling" by (meson ws_run.intros)
  then show ?thesis using new by (auto simp: ws_reachable_def)
qed

lemma demo_subscribed_reachable: "ws_reachable F demo_subscribed"
proof -
  have "ws_step F demo_calling ((snd (subscribe_write demo_call 0 True demo_calling))\<lparr>ws_calls := [] @ []\<rparr>)"
    by (rule ws_step.sub_write [where c = demo_call and k = 0 and written = True])
      (simp_all add: demo_ws_defs Let_def)
  then show ?thesis using demo_calling_reachable [of F] by (auto simp: ws_reachable_def demo_subscribed_def intro: ws_run.intros)
qed

lemma demo_reconnected_run: "ws_run F demo_subscribed demo_reconnected"
proof -
  let ?r = "demo_subscribed\<lparr>ws_handler := InRead 0\<rparr>"
  have "ws_step F demo_subscribed ?r" by (rule top_read) (simp_all add: demo_ws_defs Let_def)
  moreover have "ws_step F ?r (read_failed ?r)" by (rule read_error) (simp_all add: demo_ws_defs Let_def)
  moreover have "ws_step F (read_failed ?r) ((read_failed ?r)\<lparr>ws_handler := InDial 0 (10 ^ 9) False\<rparr>)"
    by (rule wait_over) (simp_all add: read_failed_def start_reconnect_def demo_ws_defs Let_def)
  moreover have "ws_step F ((read_failed ?r)\<lparr>ws_handler := InDial 0 (10 ^ 9) False\<rparr>) demo_reconnected"
    unfolding demo_reconnected_def by (rule dial_out) (simp_all add: read_failed_def start_reconnect_def demo_ws_defs Let_def)
  ultimately show ?thesis by (meson ws_run.intros)
qed


theorem close_overtakes_subscribe_witness: "\<exists>w'. ws_run id (Close_ws demo_calling) w' \<and> ws_panicked w'"
  using close_overtakes_subscribe [OF demo_calling_reachable, of demo_call 0 id]
  by (simp add: demo_calling_def demo_ws_defs Let_def)


theorem header_reaches_subscribers_witness:
  "\<exists>resp. head_of demo_big resp = Some \<lparr>hd_Number = Some 18, hd_Hash = ''0xb'', hd_ParentHash = ''0xa'', hd_Timestamp = None, hd_StateRoot = []\<rparr> \<and>
     wc_buf (ws_chans (handle_message id (Some (new_head ''0x1''
       \<lparr>hd_Number = Some 18, hd_Hash = ''0xb'', hd_ParentHash = ''0xa'', hd_Timestamp = None, hd_StateRoot = []\<rparr>)) demo_subscribed) ! 0) = [resp]"
proof -
  let ?h = "\<lparr>hd_Number = Some 18, hd_Hash = ''0xb'', hd_ParentHash = ''0xa'', hd_Timestamp = None, hd_StateRoot = []\<rparr>"
  have "ws_chans demo_subscribed = [\<lparr>wc_buf = [], wc_closed = False\<rparr>]" "ws_subscribers demo_subscribed = [(1, 0)]"
    by (simp_all add: demo_ws_defs Let_def)
  then show ?thesis
    using header_reaches_subscribers [OF demo_subscribed_reachable [of id], of ?h demo_big "''0x1''"] by (simp add: natural_def)
qed

end
