(* ===== verification/IndexerServices.thy ===== *)
theory IndexerServices imports IndexerFaults begin

text \<open>
  The indexer's services beside the batching loop: the clean-up job (cleanup.go, internal/prover/client.go),
  the HTTP handlers the prover reads batches from (api.go), the transaction pool (pool.go) and the
  placeholder Merkle tree (pkg/smt). Fiber, JSON and the tickers are not modelled; the web-socket hub is in IndexerFeeds.
\<close>

section \<open>Clean-up\<close>

text \<open>A reply of the prover is an error of the request or a status with a body.\<close>

definition GetLatestProvenBatch :: "(string \<Rightarrow> u64 result) \<Rightarrow> (nat \<times> string) result \<Rightarrow> u64 result" where
  "GetLatestProvenBatch decode reply =
     (case reply of
        Inl err \<Rightarrow> Inl ''failed to query prover API''
      | Inr (status, body) \<Rightarrow>
          if status = 404 then Inr 0
          else if status \<noteq> 200 then Inl ''prover API returned status''
          else (case decode body of Inl err \<Rightarrow> Inl ''failed to decode response'' | Inr n \<Rightarrow> Inr n))"

definition cleanup_one :: "u64 \<Rightarrow> nat \<times> batch_store \<Rightarrow> nat \<times> batch_store" where
  "cleanup_one batchNum = (\<lambda>(deleteCount, bs).
     case DeleteBatch bs batchNum of
       (Inl err, bs') \<Rightarrow> (deleteCount, bs')
     | (Inr _, bs') \<Rightarrow> (deleteCount + 1, bs'))"

definition CleanupOldBatches :: "batch_store \<Rightarrow> u64 result \<Rightarrow> unit result \<times> batch_store" where
  "CleanupOldBatches bs proven =
     (case GetLastDeletedBatch bs of
        Inl err \<Rightarrow> (Inl ''failed to get last deleted batch'', bs)
      | Inr lastDeleted \<Rightarrow>
          (case proven of
             Inl err \<Rightarrow> (Inr (), bs)
           | Inr latestProven \<Rightarrow>
               if latestProven = 0 \<or> latestProven \<le> lastDeleted then (Inr (), bs)
               else
                 (case fold cleanup_one (map of_nat [unat lastDeleted + 1..<unat latestProven]) (0, bs) of
                    (deleteCount, bs') \<Rightarrow>
                      if deleteCount > 0 then
                        (case SetLastDeletedBatch bs' (latestProven - 1) of
                           (Inl err, bs'') \<Rightarrow> (Inl ''failed to update tracker'', bs'')
                         | (Inr _, bs'') \<Rightarrow> (Inr (), bs''))
                      else (Inr (), bs'))))"

lemma fold_cleanup:
  assumes "batch_store_wf J bs" and "bs_count bs \<notin> set ns"
  shows "\<exists>bs'. fold cleanup_one ns (k, bs) = (k + length ns, bs') \<and> batch_store_wf J bs' \<and> bs_count bs' = bs_count bs \<and>
    bs_batches bs' = (\<lambda>n. if n \<in> set ns then None else bs_batches bs n)"
  using assms
proof (induction ns arbitrary: k bs)
  case (Cons n ns)
  note d = DeleteBatch_wf [OF Cons.prems(1), of n]
  have n: "n \<noteq> bs_count bs" using Cons.prems(2) by auto
  have one: "cleanup_one n (k, bs) = (k + 1, snd (DeleteBatch bs n))"
    using d(1) [OF n] by (cases "DeleteBatch bs n") (auto simp: cleanup_one_def)
  have "bs_count (snd (DeleteBatch bs n)) \<notin> set ns" using d(4) [OF n] Cons.prems(2) by simp
  from Cons.IH [OF d(2) [OF n] this, of "k + 1"] show ?case
    using d(3,4) [OF n] by (auto simp: one fun_eq_iff)
qed simp

text \<open>
  When the prover reports a batch p that the indexer has, the clean-up deletes exactly the batches
  after the last deleted one and before p, from the cache and from the database, and moves the tracker
  to p - 1: what the API answers is unchanged for every other number and is not found for those, and
  the store stays well formed.
\<close>

theorem cleanup_deletes_proven:
  assumes wf: "batch_store_wf J bs" and d: "GetLastDeletedBatch bs = Inr d" and p: "unat d + 1 < unat p" "p \<le> bs_count bs"
  shows "\<exists>bs'. CleanupOldBatches bs (Inr p) = (Inr (), bs') \<and> batch_store_wf J bs' \<and> GetLastDeletedBatch bs' = Inr (p - 1) \<and>
    (\<forall>n. fst (GetBatch_ix J bs' n) = (if d < n \<and> n < p then Inl ''batch not found'' else fst (GetBatch_ix J bs n)))"
proof -
  let ?ns = "map of_nat [unat d + 1..<unat p] :: u64 list"
  have mem: "n \<in> set ?ns \<longleftrightarrow> d < n \<and> n < p" for n
    using mem_span [of "unat p" n "unat d + 1"] unsigned_less [of p, where 'a = nat]
    by (simp add: span_def word_less_nat_alt Suc_le_eq)
  have "bs_count bs \<notin> set ?ns" unfolding mem using p(2) by (auto simp: not_less)
  from fold_cleanup [OF wf this, of 0] obtain bs1 where bs1: "fold cleanup_one ?ns (0, bs) = (length ?ns, bs1)"
    "batch_store_wf J bs1" "bs_batches bs1 = (\<lambda>n. if n \<in> set ?ns then None else bs_batches bs n)" by auto
  have inv: "store_inv (bs_kv bs1)" using bs1(2) by (simp add: batch_store_wf_def)
  define bs2 where "bs2 = snd (SetLastDeletedBatch bs1 (p - 1))"
  have s: "SetLastDeletedBatch bs1 (p - 1) = (Inr (), bs2)"
    unfolding bs2_def SetLastDeletedBatch_def using set_register_ok [OF inv] by simp
  have wf2: "batch_store_wf J bs2" unfolding bs2_def SetLastDeletedBatch_def by (rule set_register_wf [OF bs1(2)]) simp
  have t: "GetLastDeletedBatch bs2 = Inr (p - 1)"
    unfolding bs2_def SetLastDeletedBatch_def GetLastDeletedBatch_def using register_roundtrip [OF inv] by simp
  have "bs_batches bs2 = bs_batches bs1"
    by (simp add: bs2_def SetLastDeletedBatch_def set_register_ok [OF inv])
  then have b2: "bs_batches bs2 = (\<lambda>n. if d < n \<and> n < p then None else bs_batches bs n)" by (simp only: bs1(3) mem)
  have c: "p \<noteq> 0" "\<not> p \<le> d" "0 < length ?ns" using p(1) by (auto simp: word_le_nat_alt)
  have "CleanupOldBatches bs (Inr p) = (Inr (), bs2)"
    unfolding CleanupOldBatches_def d sum.case bs1(1) prod.case s using c by simp
  moreover have "fst (GetBatch_ix J bs2 n) = (if d < n \<and> n < p then Inl ''batch not found'' else fst (GetBatch_ix J bs n))" for n
    using GetBatch_wf [OF wf2, of n] GetBatch_wf [OF wf, of n] by (simp add: b2)
  ultimately show ?thesis using wf2 t by blast
qed

definition three_store :: batch_store where
  "three_store = fold (store_step demo_batch_json) (map (\<lambda>n. OpSave (demo_ibatch n)) [1, 2, 3])
     \<lparr>bs_batches = Map.empty, bs_count = 0, bs_kv = demo_kv\<rparr>"

lemma three_store_wf: "batch_store_wf demo_batch_json three_store"
proof -
  have e: "batch_store_wf demo_batch_json \<lparr>bs_batches = Map.empty, bs_count = 0, bs_kv = demo_kv\<rparr>"
    by (simp add: batch_store_wf_def cache_inv_def holds_batches_def store_inv_def demo_kv_def)
  have s: "batch_store_wf demo_batch_json (snd (SaveBatch demo_batch_json bs (demo_ibatch n)))"
    if "batch_store_wf demo_batch_json bs" "n \<noteq> 0" for bs n
    using that by (intro SaveBatch_wf(2) demo_keeps) (simp_all add: demo_ibatch_def)
  show ?thesis unfolding three_store_def by (simp add: s e)
qed

lemma cleanup_deletes_proven_witness:
  "\<exists>bs'. CleanupOldBatches three_store (Inr 3) = (Inr (), bs') \<and> GetLastDeletedBatch bs' = Inr 2 \<and>
     fst (GetBatch_ix demo_batch_json bs' 1) = Inl ''batch not found'' \<and> fst (GetBatch_ix demo_batch_json bs' 3) = Inr (demo_ibatch 3)"
proof -
  have c: "bs_count three_store = 3" "bs_batches three_store 3 = Some (demo_ibatch 3)"
    by (simp_all add: three_store_def SaveBatch_def demo_batch_json_def cacheBatch_def demo_ibatch_def demo_kv_def bg_update_def)
  have "GetLastDeletedBatch three_store = Inr 0"
    by (simp add: three_store_def SaveBatch_def demo_batch_json_def cacheBatch_def demo_ibatch_def demo_kv_def bg_update_def
        GetLastDeletedBatch_def get_register_def bg_get_def map_of_bg_put_other batchKey_def)
  then obtain bs' where "CleanupOldBatches three_store (Inr 3) = (Inr (), bs')" "GetLastDeletedBatch bs' = Inr (3 - 1)"
    "\<forall>n. fst (GetBatch_ix demo_batch_json bs' n) =
      (if 0 < n \<and> n < 3 then Inl ''batch not found'' else fst (GetBatch_ix demo_batch_json three_store n))"
    using cleanup_deletes_proven [OF three_store_wf, of 0 3] c by auto
  moreover have "fst (GetBatch_ix demo_batch_json three_store 3) = Inr (demo_ibatch 3)" using c by (simp add: GetBatch_ix_def)
  ultimately show ?thesis by auto
qed

section \<open>HTTP handlers\<close>

datatype ix_body = IxText string | IxBatch batch | IxStatus u64 "(u64 \<times> u64 \<times> u64 \<times> u64 option) option"

text \<open>A reply is a status and a body.\<close>

type_synonym ix_reply = "nat \<times> ix_body"

definition handleRoot_ix :: ix_reply where
  "handleRoot_ix = (302, IxText ''/swagger/index.html'')"

definition handleHealth_ix :: ix_reply where
  "handleHealth_ix = (200, IxText ''ok'')"

text \<open>The batch range is oldest, newest, total and, when there is one, the last deleted batch.\<close>

definition handleStatus_ix :: "batch_store \<Rightarrow> ix_reply" where
  "handleStatus_ix bs =
     (let batchCount = Count_ix bs;
          lastDeleted = (case GetLastDeletedBatch bs of Inl err \<Rightarrow> 0 | Inr n \<Rightarrow> n);
          oldestBatch = (if lastDeleted > 0 then lastDeleted + 1 else 1)
      in (200, IxStatus batchCount
            (if batchCount > 0
             then Some (oldestBatch, batchCount, batchCount - oldestBatch + 1, if lastDeleted > 0 then Some lastDeleted else None)
             else None)))"

definition handleLatestBatch_ix :: "batch_store \<Rightarrow> ix_reply" where
  "handleLatestBatch_ix bs = (case GetLatestBatch_ix bs of Inl err \<Rightarrow> (404, IxText err) | Inr b \<Rightarrow> (200, IxBatch b))"

text \<open>\<open>c.ParamsInt\<close> is \<open>Atoi\<close>; the conversion to uint64 wraps.\<close>

definition handleGetBatch_ix :: "batch_json \<Rightarrow> batch_store \<Rightarrow> string \<Rightarrow> ix_reply \<times> batch_store" where
  "handleGetBatch_ix J bs param =
     (case Atoi param of
        None \<Rightarrow> ((400, IxText ''invalid batch number''), bs)
      | Some number \<Rightarrow>
          (case GetBatch_ix J bs (of_int number) of
             (Inl err, bs') \<Rightarrow> ((404, IxText err), bs')
           | (Inr b, bs') \<Rightarrow> ((200, IxBatch b), bs')))"

definition handleLatestBatchForProver :: "batch_store \<Rightarrow> ix_reply" where
  "handleLatestBatchForProver bs = handleLatestBatch_ix bs"

definition handleGetBatchForProver :: "batch_json \<Rightarrow> batch_store \<Rightarrow> string \<Rightarrow> ix_reply \<times> batch_store" where
  "handleGetBatchForProver J bs param = handleGetBatch_ix J bs param"

lemma Atoi_dec_nat: "n < 2 ^ 63 \<Longrightarrow> Atoi (dec_nat n) = Some (int n)"
  by (simp add: Atoi_def parse_dec_dec_nat)

text \<open>
  The prover's request for a batch number is answered with the batch saved under that number, or
  with 404, and changes nothing, in every store reached by the indexer's operations; the request for the
  latest is the request for the count.
\<close>

theorem prover_reads_saved_batch:
  assumes "store_reachable J bs" and "unat n < 2 ^ 63"
  shows "handleGetBatchForProver J bs (dec_nat (unat n)) =
      ((case bs_batches bs n of None \<Rightarrow> (404, IxText ''batch not found'') | Some b \<Rightarrow> (200, IxBatch b)), bs) \<and>
    (bs_count bs \<noteq> 0 \<longrightarrow> (\<exists>b. bs_batches bs (bs_count bs) = Some b \<and> handleLatestBatchForProver bs = (200, IxBatch b)))"
proof -
  have wf: "batch_store_wf J bs" by (rule store_reachable_wf [OF assms(1)])
  have "handleGetBatchForProver J bs (dec_nat (unat n)) =
      ((case bs_batches bs n of None \<Rightarrow> (404, IxText ''batch not found'') | Some b \<Rightarrow> (200, IxBatch b)), bs)"
    using assms(2) GetBatch_wf [OF wf, of n]
    by (simp add: handleGetBatchForProver_def handleGetBatch_ix_def Atoi_dec_nat split: option.split)
  moreover have "\<exists>b. bs_batches bs (bs_count bs) = Some b \<and> handleLatestBatchForProver bs = (200, IxBatch b)" if "bs_count bs \<noteq> 0"
    using wf that by (auto simp: batch_store_wf_def cache_inv_def handleLatestBatchForProver_def handleLatestBatch_ix_def GetLatestBatch_ix_def)
  ultimately show ?thesis by blast
qed

lemma prover_reads_saved_batch_witness:
  "handleGetBatchForProver demo_batch_json (fold (store_step demo_batch_json) [OpSave (demo_ibatch 1)]
      \<lparr>bs_batches = Map.empty, bs_count = 0, bs_kv = demo_kv\<rparr>) ''1'' =
    ((200, IxBatch (demo_ibatch 1)), fold (store_step demo_batch_json) [OpSave (demo_ibatch 1)]
      \<lparr>bs_batches = Map.empty, bs_count = 0, bs_kv = demo_kv\<rparr>)"
proof -
  let ?s = "\<lparr>bs_batches = Map.empty, bs_count = 0, bs_kv = demo_kv\<rparr>"
  have "store_reachable demo_batch_json ?s"
    by (rule store_reachable.opened [of demo_kv]) (simp_all add: store_inv_def demo_kv_def NewBatchStore_def bg_keys_def)
  then have r: "store_reachable demo_batch_json (fold (store_step demo_batch_json) [OpSave (demo_ibatch 1)] ?s)"
    using store_reachable.operated [of demo_batch_json ?s "OpSave (demo_ibatch 1)"] demo_keeps by (simp add: demo_ibatch_def)
  have "dec_nat (unat (1 :: u64)) = ''1''" by (simp add: dec_nat.simps digit_def) (simp add: char_of_def bit_simps)
  moreover have "bs_batches (fold (store_step demo_batch_json) [OpSave (demo_ibatch 1)] ?s) 1 = Some (demo_ibatch 1)"
    by (simp add: SaveBatch_def demo_batch_json_def cacheBatch_def demo_ibatch_def demo_kv_def bg_update_def)
  ultimately show ?thesis using prover_reads_saved_batch [OF r, of 1] by simp
qed

section \<open>The transaction pool\<close>

record transaction_pool =
  tp_txs :: "rpc_tx list"
  tp_max :: nat

definition NewTransactionPool :: transaction_pool where
  "NewTransactionPool = \<lparr>tp_txs = [], tp_max = 10000\<rparr>"

definition AddTransaction :: "transaction_pool \<Rightarrow> rpc_tx \<Rightarrow> transaction_pool" where
  "AddTransaction p tx =
     (if \<exists>existing \<in> set (tp_txs p). rt_Hash existing = rt_Hash tx then p
      else
        let txs = tp_txs p @ [tx]
        in p\<lparr>tp_txs := (if length txs > tp_max p then drop 1 txs else txs)\<rparr>)"

text \<open>\<open>None\<close> is the panic of \<open>make\<close> with a negative length.\<close>

definition GetTransactions :: "transaction_pool \<Rightarrow> int \<Rightarrow> (rpc_tx list \<times> transaction_pool) option" where
  "GetTransactions p n =
     (let n = (if n > int (length (tp_txs p)) then int (length (tp_txs p)) else n)
      in if n < 0 then None else Some (take (nat n) (tp_txs p), p\<lparr>tp_txs := drop (nat n) (tp_txs p)\<rparr>))"

definition Size_pool :: "transaction_pool \<Rightarrow> nat" where
  "Size_pool p = length (tp_txs p)"

definition Clear_pool :: "transaction_pool \<Rightarrow> transaction_pool" where
  "Clear_pool p = p\<lparr>tp_txs := []\<rparr>"

definition pool_inv :: "transaction_pool \<Rightarrow> bool" where
  "pool_inv p \<longleftrightarrow> distinct (map rt_Hash (tp_txs p)) \<and> Size_pool p \<le> tp_max p"

lemma pool_inv_ops:
  assumes "pool_inv p"
  shows "pool_inv (AddTransaction p tx)" "GetTransactions p n = Some (txs, p') \<Longrightarrow> pool_inv p' \<and> tp_txs p = txs @ tp_txs p'"
    "pool_inv (Clear_pool p)"
proof -
  show "pool_inv (AddTransaction p tx)"
    using assms by (cases "tp_txs p") (auto simp: pool_inv_def AddTransaction_def Size_pool_def Let_def)
  show "pool_inv p' \<and> tp_txs p = txs @ tp_txs p'" if "GetTransactions p n = Some (txs, p')"
    using assms that by (auto simp: pool_inv_def GetTransactions_def Size_pool_def Let_def drop_map [symmetric] split: if_splits)
  show "pool_inv (Clear_pool p)" by (simp add: pool_inv_def Clear_pool_def Size_pool_def)
qed

section \<open>The placeholder tree\<close>

text \<open>
  \<open>order\<close> is the order in which the range over the map visits the keys, which Go leaves open; \<open>sha\<close> is
  SHA-256.
\<close>

record sparse_map =
  sm_leaves :: "string \<rightharpoonup> bytes"
  sm_root :: bytes

definition empty_root :: bytes where
  "empty_root = replicate 32 (CHR 0x00)"

definition NewSparseMap :: sparse_map where
  "NewSparseMap = \<lparr>sm_leaves = Map.empty, sm_root = empty_root\<rparr>"

definition computeRoot_map :: "(bytes \<Rightarrow> bytes) \<Rightarrow> string list \<Rightarrow> (string \<rightharpoonup> bytes) \<Rightarrow> bytes" where
  "computeRoot_map sha order leaves =
     (if order = [] then empty_root
      else sha (concat (map (\<lambda>k. k @ (case leaves k of None \<Rightarrow> [] | Some v \<Rightarrow> v)) order)))"

definition Update_map :: "(bytes \<Rightarrow> bytes) \<Rightarrow> string list \<Rightarrow> sparse_map \<Rightarrow> string \<Rightarrow> bytes \<Rightarrow> unit result \<times> sparse_map" where
  "Update_map sha order t key value =
     (if key = [] then (Inl ''key cannot be empty'', t)
      else
        let leaves = (sm_leaves t)(key \<mapsto> value)
        in (Inr (), \<lparr>sm_leaves = leaves, sm_root = computeRoot_map sha order leaves\<rparr>))"

definition Get_map :: "sparse_map \<Rightarrow> string \<Rightarrow> bytes option" where
  "Get_map t key = sm_leaves t key"

definition Delete_map :: "(bytes \<Rightarrow> bytes) \<Rightarrow> string list \<Rightarrow> sparse_map \<Rightarrow> string \<Rightarrow> unit result \<times> sparse_map" where
  "Delete_map sha order t key =
     (if sm_leaves t key = None then (Inl ''key not found'', t)
      else
        let leaves = (sm_leaves t)(key := None)
        in (Inr (), \<lparr>sm_leaves = leaves, sm_root = computeRoot_map sha order leaves\<rparr>))"

definition RootHex :: "sparse_map \<Rightarrow> string" where
  "RootHex t = ''0x'' @ hex_encode (sm_root t)"

definition HasKey :: "sparse_map \<Rightarrow> string \<Rightarrow> bool" where
  "HasKey t key \<longleftrightarrow> sm_leaves t key \<noteq> None"

definition Clear_map :: "sparse_map \<Rightarrow> sparse_map" where
  "Clear_map t = \<lparr>sm_leaves = Map.empty, sm_root = empty_root\<rparr>"

text \<open>
  Two maps with different contents have one root whatever the hash, and one map has a root for every
  order of its keys.
\<close>

lemma map_root_ambiguous:
  "sm_root (snd (Update_map sha [''a''] NewSparseMap ''a'' ''bc'')) = sm_root (snd (Update_map sha [''ab''] NewSparseMap ''ab'' ''c''))"
  "computeRoot_map sha [''k'', ''l''] [''k'' \<mapsto> ''1'', ''l'' \<mapsto> ''2''] = sha ''k1l2''"
  "computeRoot_map sha [''l'', ''k''] [''k'' \<mapsto> ''1'', ''l'' \<mapsto> ''2''] = sha ''l2k1''"
  by (simp_all add: Update_map_def computeRoot_map_def NewSparseMap_def)

end
