(* ===== verification/IndexerFeeds.thy ===== *)
theory IndexerFeeds imports WebSocketRun IndexerServices "HOL-Library.Sublist" begin

text \<open>
  The two feeds of the indexer: block headers in over the web socket (\<open>subscribeViaWebSocket\<close> of
  indexer.go, which the service no longer calls), and batch notifications out over the web sockets of
  its API (the hub of api.go). The hub is a step relation: clients come, write and go, and the broadcast
  loop takes one notification at a time.
\<close>

section \<open>Headers in\<close>

datatype feed_end = FeedPolling | FeedPanicked

text \<open>
  The headers the channel delivers before it is closed, each with the node as the block is processed. A
  header without a number is a nil pointer.
\<close>

fun header_loop :: "indexer_env \<Rightarrow> big_env \<Rightarrow> (node_view \<times> block_head) list \<Rightarrow> service \<Rightarrow> (feed_end \<times> service) option" where
  "header_loop E B [] s = Some (FeedPolling, s)"
| "header_loop E B ((V, header) # hs) s =
     (case hd_Number header of
        None \<Rightarrow> Some (FeedPanicked, s)
      | Some n \<Rightarrow>
          (let blockNum = Uint64 B n
           in case processBlock E V blockNum s of
                None \<Rightarrow> None
              | Some (Drained, s) \<Rightarrow> header_loop E B hs (set_last s blockNum)
              | Some (Aborted, s) \<Rightarrow> header_loop E B hs s
              | Some (Panicked, s) \<Rightarrow> Some (FeedPanicked, s)))"

definition subscribeViaWebSocket ::
  "indexer_env \<Rightarrow> big_env \<Rightarrow> node_view \<Rightarrow> bool \<Rightarrow> (node_view \<times> block_head) list \<Rightarrow> ws_client \<Rightarrow> service \<Rightarrow>
     (feed_end \<times> service) option" where
  "subscribeViaWebSocket E B V written headers w s =
     (case catchUpBlocks E V s of
        None \<Rightarrow> None
      | Some (Panicked, s) \<Rightarrow> Some (FeedPanicked, s)
      | Some (_, s) \<Rightarrow>
          (case fst (SubscribeNewHeads written w) of
             Inl err \<Rightarrow> Some (FeedPolling, s)
           | Inr _ \<Rightarrow> header_loop E B headers s))"

section \<open>Batches out\<close>

datatype hub_msg = Welcome | Pong | NewBatch u64

text \<open>
  The registered connections, those whose read loop runs, the frames written, the connections the hub
  closed, the channel of notifications, and (for the specification) those taken from it.
\<close>

record hub =
  hb_clients :: "nat list"
  hb_reading :: "nat list"
  hb_sent :: "(nat \<times> hub_msg) list"
  hb_closed :: "nat list"
  hb_queue :: "u64 list"
  hb_taken :: "u64 list"

definition new_hub :: hub where
  "new_hub = \<lparr>hb_clients = [], hb_reading = [], hb_sent = [], hb_closed = [], hb_queue = [], hb_taken = []\<rparr>"

definition hub_send :: "bool \<Rightarrow> nat \<Rightarrow> hub_msg \<Rightarrow> hub \<Rightarrow> hub" where
  "hub_send written c m h = (if written then h\<lparr>hb_sent := hb_sent h @ [(c, m)]\<rparr> else h)"

text \<open>
  \<open>handleWebSocket\<close>: registration and welcome, whose failure ends the handler at once; a message; the end
  of the read loop.
\<close>

definition ws_open :: "nat \<Rightarrow> bool \<Rightarrow> hub \<Rightarrow> hub" where
  "ws_open c written h =
     (let h = h\<lparr>hb_clients := c # hb_clients h\<rparr>
      in if written then (hub_send True c Welcome h)\<lparr>hb_reading := c # hb_reading h\<rparr> else h)"

definition ws_message :: "nat \<Rightarrow> json option \<Rightarrow> bool \<Rightarrow> hub \<Rightarrow> hub" where
  "ws_message c msg written h =
     (case msg of
        None \<Rightarrow> h
      | Some v \<Rightarrow>
          (case as_map v of
             None \<Rightarrow> h
           | Some parsed \<Rightarrow> if str_member parsed ''type'' = Some ''ping'' then hub_send written c Pong h else h))"

definition ws_gone :: "nat \<Rightarrow> hub \<Rightarrow> hub" where
  "ws_gone c h = h\<lparr>hb_clients := removeAll c (hb_clients h), hb_reading := removeAll c (hb_reading h)\<rparr>"

text \<open>One round of \<open>broadcastLoop\<close>; a connection that fails is closed and stays registered.\<close>

definition broadcast_one :: "(nat \<Rightarrow> bool) \<Rightarrow> u64 \<Rightarrow> nat \<Rightarrow> hub \<Rightarrow> hub" where
  "broadcast_one written batch c h =
     (if written c then hub_send True c (NewBatch batch) h else h\<lparr>hb_closed := c # hb_closed h\<rparr>)"

definition broadcastLoop :: "(nat \<Rightarrow> bool) \<Rightarrow> hub \<Rightarrow> hub" where
  "broadcastLoop written h =
     (case hb_queue h of
        [] \<Rightarrow> h
      | batch # q \<Rightarrow> fold (broadcast_one written batch) (hb_clients h) (h\<lparr>hb_queue := q, hb_taken := hb_taken h @ [batch]\<rparr>))"

definition hub_notify :: "u64 \<Rightarrow> hub \<Rightarrow> hub" where
  "hub_notify batch h = (if length (hb_queue h) < 100 then h\<lparr>hb_queue := hb_queue h @ [batch]\<rparr> else h)"

inductive hub_step :: "hub \<Rightarrow> hub \<Rightarrow> bool" where
  opens: "c \<notin> set (hb_clients h) \<Longrightarrow> hub_step h (ws_open c written h)"
| says: "c \<in> set (hb_reading h) \<Longrightarrow> hub_step h (ws_message c msg written h)"
| leaves: "c \<in> set (hb_reading h) \<Longrightarrow> hub_step h (ws_gone c h)"
| spreads: "hub_step h (broadcastLoop written h)"
| notified: "hub_step h (hub_notify batch h)"

inductive hub_run :: "hub \<Rightarrow> hub \<Rightarrow> bool" where
  here: "hub_run h h"
| onward: "hub_run h h' \<Longrightarrow> hub_step h' h'' \<Longrightarrow> hub_run h h''"

text \<open>What a client was told.\<close>

definition batches_to :: "nat \<Rightarrow> hub \<Rightarrow> u64 list" where
  "batches_to c h = List.map_filter (\<lambda>(d, m). case m of NewBatch n \<Rightarrow> if d = c then Some n else None | _ \<Rightarrow> None) (hb_sent h)"

lemma batches_send [simp]:
  "batches_to c (hub_send f d Welcome h) = batches_to c h" "batches_to c (hub_send f d Pong h) = batches_to c h"
  "batches_to c (hub_send True d (NewBatch n) h) = batches_to c h @ (if d = c then [n] else [])"
  by (simp_all add: hub_send_def batches_to_def map_filter_def)

lemma hub_send_fields [simp]:
  "hb_clients (hub_send f d m h) = hb_clients h" "hb_reading (hub_send f d m h) = hb_reading h"
  "hb_queue (hub_send f d m h) = hb_queue h" "hb_taken (hub_send f d m h) = hb_taken h"
  by (simp_all add: hub_send_def)

lemma batches_record [simp]:
  "batches_to c (h\<lparr>hb_clients := x\<rparr>) = batches_to c h" "batches_to c (h\<lparr>hb_reading := y\<rparr>) = batches_to c h"
  "batches_to c (h\<lparr>hb_closed := z\<rparr>) = batches_to c h" "batches_to c (h\<lparr>hb_queue := q\<rparr>) = batches_to c h"
  "batches_to c (h\<lparr>hb_taken := t\<rparr>) = batches_to c h"
  by (simp_all add: batches_to_def)

lemma broadcast_fold:
  "distinct cs \<Longrightarrow> batches_to c (fold (broadcast_one written n) cs h) = batches_to c h @ (if c \<in> set cs \<and> written c then [n] else [])"
  "hb_clients (fold (broadcast_one written n) cs h) = hb_clients h" "hb_reading (fold (broadcast_one written n) cs h) = hb_reading h"
  "hb_queue (fold (broadcast_one written n) cs h) = hb_queue h" "hb_taken (fold (broadcast_one written n) cs h) = hb_taken h"
  by (induction cs arbitrary: h) (auto simp: broadcast_one_def)

definition hub_inv :: "hub \<Rightarrow> bool" where
  "hub_inv h \<longleftrightarrow> distinct (hb_clients h) \<and> set (hb_reading h) \<subseteq> set (hb_clients h) \<and> length (hb_queue h) \<le> 100 \<and>
     (\<forall>c. subseq (batches_to c h) (hb_taken h))"

lemma hub_step_inv: "hub_step h h' \<Longrightarrow> hub_inv h \<Longrightarrow> hub_inv h'"
proof (induction rule: hub_step.induct)
  case (opens c h written)
  then show ?case by (auto simp: hub_inv_def ws_open_def Let_def)
next
  case (says c h msg written)
  then show ?case by (auto simp: hub_inv_def ws_message_def split: option.split)
next
  case (leaves c h)
  then show ?case by (auto simp: hub_inv_def ws_gone_def distinct_removeAll)
next
  case (spreads h written)
  show ?case
  proof (cases "hb_queue h")
    case (Cons batch q)
    with spreads show ?thesis
      by (auto simp: hub_inv_def broadcastLoop_def broadcast_fold intro: list_emb_append_mono subseq_append_le_same_iff subseq_order.trans)
  qed (use spreads in \<open>simp add: broadcastLoop_def\<close>)
next
  case (notified h batch)
  then show ?case by (auto simp: hub_inv_def hub_notify_def)
qed

theorem hub_in_order:
  "hub_run new_hub h \<Longrightarrow> length (hb_queue h) \<le> 100 \<and> distinct (hb_clients h) \<and> (\<forall>c. subseq (batches_to c h) (hb_taken h))"
proof -
  assume "hub_run new_hub h"
  moreover have "hub_run h0 h \<Longrightarrow> hub_inv h0 \<Longrightarrow> hub_inv h" for h0
    by (induction rule: hub_run.induct) (auto dest: hub_step_inv)
  moreover have "hub_inv new_hub" by (simp add: hub_inv_def new_hub_def batches_to_def)
  ultimately show ?thesis by (simp add: hub_inv_def)
qed

text \<open>A client whose welcome could not be written is never removed, and every broadcast still goes to it.\<close>

lemma stranded_step:
  "hub_step h h' \<Longrightarrow> set (hb_reading h) \<subseteq> set (hb_clients h) \<Longrightarrow> c \<in> set (hb_clients h) \<Longrightarrow> c \<notin> set (hb_reading h) \<Longrightarrow>
   set (hb_reading h') \<subseteq> set (hb_clients h') \<and> c \<in> set (hb_clients h') \<and> c \<notin> set (hb_reading h')"
  by (induction rule: hub_step.induct)
    (auto simp: ws_open_def ws_message_def ws_gone_def broadcastLoop_def broadcast_fold hub_notify_def Let_def
       split: option.split list.split)

theorem failed_welcome_stays:
  assumes "hub_run (ws_open c False new_hub) h"
  shows "c \<in> set (hb_clients h) \<and> c \<notin> set (hb_reading h)"
proof -
  have "set (hb_reading h) \<subseteq> set (hb_clients h) \<and> c \<in> set (hb_clients h) \<and> c \<notin> set (hb_reading h)"
    using assms
  proof (induction "ws_open c False new_hub" h rule: hub_run.induct)
    case (onward h' h'')
    then show ?case using stranded_step by blast
  qed (simp add: ws_open_def new_hub_def Let_def)
  then show ?thesis by blast
qed

lemma processBlock_returns: "\<exists>r s'. processBlock E V n s = Some (r, s') \<and> r \<noteq> Panicked"
  using block_loop_returns by (auto simp: processBlock_def split: sum.split)

text \<open>The header loop returns; only a header without a number crashes it.\<close>

theorem header_loop_total:
  "\<exists>s'. header_loop E B hs s =
     Some (if \<forall>(V, header) \<in> set hs. hd_Number header \<noteq> None then FeedPolling else FeedPanicked, s')"
proof (induction hs arbitrary: s)
  case (Cons h hs)
  obtain V header where h: "h = (V, header)" by (cases h)
  show ?case
  proof (cases "hd_Number header")
    case (Some n)
    obtain r t where p: "processBlock E V (Uint64 B n) s = Some (r, t)" "r \<noteq> Panicked" using processBlock_returns by blast
    then show ?thesis using Cons.IH [of t] Cons.IH [of "set_last t (Uint64 B n)"]
      by (cases r) (simp_all add: h Some Let_def)
  qed (simp add: h)
qed simp

end
