(* ===== verification/Commands.thy ===== *)
theory Commands imports IndexerFeeds ProverLoop begin

text \<open>
  What the commands do before their loops run: where the prover's start command finds its settings and
  key files, how the sequencer's main decides on the deposit watcher, and how the indexer's start command
  composes configuration, reset, the two RPC clients and the store. Printing, signals and directories are
  not modelled.
\<close>

section \<open>The prover's settings\<close>

record prover_cmd =
  pc_rpcURL :: string
  pc_contract :: string
  pc_privateKey :: string
  pc_dataDir :: string

text \<open>The first of a list of texts that is not empty, as a chain of \<open>if ... != ""\<close> leaves it.\<close>

fun first_set :: "string list \<Rightarrow> string" where
  "first_set [] = []"
| "first_set (s # ss) = (if s = [] then first_set ss else s)"

text \<open>
  Decoding JSON into the one map all three files share. A value that is not a string is an error, found
  at the end; its key is set to the empty string all the same, and what was decoded stays.
\<close>

fun into_strings :: "members \<Rightarrow> (string \<rightharpoonup> string) \<Rightarrow> bool \<times> (string \<rightharpoonup> string)" where
  "into_strings [] m = (True, m)"
| "into_strings ((k, v) # ms) m =
     (let (clean, m) = (case v of JStr s \<Rightarrow> (True, m(k \<mapsto> s)) | JNull \<Rightarrow> (True, m(k \<mapsto> [])) | _ \<Rightarrow> (False, m(k \<mapsto> [])));
          (rest, m) = into_strings ms m
      in (clean \<and> rest, m))"

datatype deployment_file = NoFile | NoJson | Deployments json

definition read_deployments :: "deployment_file \<Rightarrow> (string \<rightharpoonup> string) \<Rightarrow> bool \<times> (string \<rightharpoonup> string)" where
  "read_deployments f m =
     (case f of
        NoFile \<Rightarrow> (False, m)
      | NoJson \<Rightarrow> (False, m)
      | Deployments v \<Rightarrow> (case v of JObj ms \<Rightarrow> into_strings ms m | JNull \<Rightarrow> (True, Map.empty) | _ \<Rightarrow> (False, m)))"

fun find_contract :: "deployment_file list \<Rightarrow> (string \<rightharpoonup> string) \<Rightarrow> string" where
  "find_contract [] m = []"
| "find_contract (f # fs) m =
     (case read_deployments f m of
        (False, m) \<Rightarrow> find_contract fs m
      | (True, m) \<Rightarrow>
          (case m ''NowaRollup'' of
             Some addr \<Rightarrow> if addr \<noteq> [] \<and> addr \<noteq> ''null'' then addr else find_contract fs m
           | None \<Rightarrow> find_contract fs m))"

definition prover_settings :: "prover_cmd \<Rightarrow> (string \<Rightarrow> string) \<Rightarrow> deployment_file list \<Rightarrow> string \<Rightarrow> prover_cmd result" where
  "prover_settings c env files defaultDir =
     (let rpc = first_set [pc_rpcURL c, env ''L1_RPC_URL'', env ''RPC''];
          key = first_set [pc_privateKey c, env ''PRIVATE_KEY''];
          contract = first_set [pc_contract c, env ''ROLLUP_CONTRACT_ADDRESS'', env ''CONTRACT_ADDRESS''];
          contract = (if contract = [] then find_contract files Map.empty else contract)
      in if contract = [] then Inl ''Contract address required.''
         else if key = [] then Inl ''Private key required.''
         else Inr \<lparr>pc_rpcURL = rpc, pc_contract = contract, pc_privateKey = key,
                   pc_dataDir = (if pc_dataDir c = [] then defaultDir else pc_dataDir c)\<rparr>)"

text \<open>A file of the key directory: it does not open, does not decode, or holds a value.\<close>

datatype 'k key_file = Closed | Corrupt | Holds 'k

definition load_file :: "'k key_file \<Rightarrow> 'k key_file \<Rightarrow> string \<Rightarrow> 'k result" where
  "load_file preferred fallback what =
     (case (if preferred = Closed then fallback else preferred) of
        Closed \<Rightarrow> Inl (''cannot open '' @ what)
      | Corrupt \<Rightarrow> Inl (''failed to read '' @ what)
      | Holds k \<Rightarrow> Inr k)"

definition loadCircuitAndKeys ::
  "(string \<Rightarrow> 'c key_file) \<Rightarrow> (string \<Rightarrow> 'p key_file) \<Rightarrow> (string \<Rightarrow> 'v key_file) \<Rightarrow> string \<Rightarrow> ('c \<times> 'p \<times> 'v) result" where
  "loadCircuitAndKeys ccs pk vk dir =
     (case load_file (ccs (dir @ ''/rollup.r1cs'')) (ccs (dir @ ''/state.ccs'')) ''circuit file'' of
        Inl err \<Rightarrow> Inl err
      | Inr c \<Rightarrow>
     (case load_file (pk (dir @ ''/rollup.pk'')) (pk (dir @ ''/state.pk'')) ''proving key'' of
        Inl err \<Rightarrow> Inl err
      | Inr p \<Rightarrow>
     (case load_file (vk (dir @ ''/rollup.vk'')) (vk (dir @ ''/state.vk'')) ''verifying key'' of
        Inl err \<Rightarrow> Inl err
      | Inr v \<Rightarrow> Inr (c, p, v))))"

text \<open>The connection: go-ethereum's dial, key parser and transactor, and the node's network id, are parameters.\<close>

definition connectEthereum ::
  "(string \<Rightarrow> 'n result) \<Rightarrow> (string \<Rightarrow> 'k result) \<Rightarrow> ('n \<Rightarrow> int result) \<Rightarrow> ('k \<Rightarrow> int \<Rightarrow> 'a result) \<Rightarrow> string \<Rightarrow> string \<Rightarrow>
     ('n \<times> 'a \<times> 'k) result" where
  "connectEthereum dial parseKey networkID transactor rpcURL privateKeyHex =
     (case dial rpcURL of
        Inl err \<Rightarrow> Inl err
      | Inr client \<Rightarrow>
          (let hex = (if length privateKeyHex > 2 \<and> has_prefix ''0x'' privateKeyHex then drop 2 privateKeyHex else privateKeyHex)
           in case parseKey hex of
                Inl err \<Rightarrow> Inl err
              | Inr privateKey \<Rightarrow>
                  (case networkID client of
                     Inl err \<Rightarrow> Inl err
                   | Inr chainID \<Rightarrow>
                       (case transactor privateKey chainID of Inl err \<Rightarrow> Inl err | Inr auth \<Rightarrow> Inr (client, auth, privateKey)))))"

section \<open>The sequencer's deposit watcher\<close>

text \<open>The node and contract it watches, \<open>None\<close> when it is disabled.\<close>

definition watcher_target :: "(string \<Rightarrow> string) \<Rightarrow> (string \<times> string) option" where
  "watcher_target env =
     (let rpcURL = (if env ''L1_RPC_URL'' = [] then ''http://localhost:8545'' else env ''L1_RPC_URL'');
          contractAddr = env ''ROLLUP_CONTRACT_ADDRESS''
      in if contractAddr \<noteq> [] then Some (rpcURL, contractAddr) else None)"

section \<open>The indexer's start command\<close>

record indexer_process =
  ip_rpc :: rpc_client
  ip_ws :: "ws_client option"
  ip_service :: service
  ip_cleanup :: bool

text \<open>\<open>Start\<close>: the clients, then the store and the builder; the clean-up job only with a prover.\<close>

definition Start_ix :: "indexer_env \<Rightarrow> (string \<Rightarrow> string) \<Rightarrow> bool \<Rightarrow> badger \<Rightarrow> indexer_process result" where
  "Start_ix E env dialed kv =
     (case (if ic_RPCURL (ie_config E) \<noteq> [] then NewClient (ic_RPCURL (ie_config E)) [] else NewClientFromEnv env) of
        Inl err \<Rightarrow> Inl ''failed to create RPC client''
      | Inr rpc \<Rightarrow>
          (let ws = (if ic_WSURL (ie_config E) = [] then None
                     else (case NewWebSocketClient (ic_WSURL (ie_config E)) [] dialed of Inl err \<Rightarrow> None | Inr w \<Rightarrow> Some w))
           in case start_service E kv of
                Inl err \<Rightarrow> Inl err
              | Inr s \<Rightarrow> Inr \<lparr>ip_rpc = rpc, ip_ws = ws, ip_service = s, ip_cleanup = (ic_ProverAPI (ie_config E) \<noteq> [])\<rparr>))"

text \<open>The start command; a reset that fails is only logged.\<close>

definition start_command ::
  "(indexer_config \<Rightarrow> indexer_env) \<Rightarrow> (string \<Rightarrow> string) \<Rightarrow> (string \<Rightarrow> yaml_file) \<Rightarrow> string \<Rightarrow> string \<Rightarrow> string \<Rightarrow> string \<Rightarrow> int \<Rightarrow> int \<Rightarrow>
     bool \<Rightarrow> bool \<Rightarrow> badger \<Rightarrow> indexer_process result" where
  "start_command envOf env files configPath rpcURL wsURL stateDBPath batchSize apiPort reset dialed kv =
     (case LoadWithOverrides env files configPath rpcURL wsURL stateDBPath batchSize apiPort of
        Inl err \<Rightarrow> Inl err
      | Inr cfg \<Rightarrow>
          (let kv = (if reset then snd (ClearAllData (envOf cfg) kv) else kv)
           in Start_ix (envOf cfg) env dialed kv))"

text \<open>\<open>runCleanupJob\<close>, one pass per tick; what fails is only logged.\<close>

fun runCleanupJob :: "u64 result list \<Rightarrow> batch_store \<Rightarrow> batch_store" where
  "runCleanupJob [] bs = bs"
| "runCleanupJob (proven # ticks) bs = runCleanupJob ticks (snd (CleanupOldBatches bs proven))"

section \<open>What follows\<close>

lemma first_set_cases: "first_set ss = [] \<longleftrightarrow> (\<forall>s \<in> set ss. s = [])"
  by (induction ss) auto

text \<open>
  A flag wins over the environment, which wins over the files, and a setting that is found is never empty.
\<close>

theorem prover_settings_priority:
  assumes "prover_settings c env files dir = Inr s"
  shows "pc_contract s \<noteq> [] \<and> pc_privateKey s \<noteq> [] \<and> (pc_contract c \<noteq> [] \<longrightarrow> pc_contract s = pc_contract c) \<and>
    (pc_contract c = [] \<longrightarrow> env ''ROLLUP_CONTRACT_ADDRESS'' \<noteq> [] \<longrightarrow> pc_contract s = env ''ROLLUP_CONTRACT_ADDRESS'') \<and>
    (pc_rpcURL c \<noteq> [] \<longrightarrow> pc_rpcURL s = pc_rpcURL c)"
proof -
  let ?k = "first_set [pc_contract c, env ''ROLLUP_CONTRACT_ADDRESS'', env ''CONTRACT_ADDRESS'']"
  have "pc_contract s = (if ?k = [] then find_contract files Map.empty else ?k)" "pc_contract s \<noteq> []" "pc_privateKey s \<noteq> []"
    "pc_rpcURL s = first_set [pc_rpcURL c, env ''L1_RPC_URL'', env ''RPC'']"
    using assms unfolding prover_settings_def Let_def by (auto simp del: first_set.simps split: if_split_asm)
  then show ?thesis by simp
qed

text \<open>
  A deployment file that is refused still counts: its contract address is used when a later file is
  read without having one.
\<close>

theorem refused_file_counts:
  "find_contract [Deployments (JObj [(''NowaRollup'', JStr addr), (''ChainID'', JNum n)]), Deployments (JObj [])] Map.empty =
     (if addr = ''null'' then [] else addr)"
  by (simp add: read_deployments_def)

text \<open>The indexer starts whenever the RPC client can be made and the store opens; the web socket does not matter.\<close>

theorem Start_ignores_web_socket:
  "ic_RPCURL (ie_config E) \<noteq> [] \<Longrightarrow> start_service E kv = Inr s \<Longrightarrow>
   \<exists>p. Start_ix E env dialed kv = Inr p \<and> ip_service p = s \<and> rc_url (ip_rpc p) = ic_RPCURL (ie_config E)"
  by (simp add: Start_ix_def NewClient_def new_client_def Validate_rpc_def DefaultConfig_rpc_def Let_def)

end
