(* ===== verification/IndexerRpc.thy ===== *)
theory IndexerRpc imports RpcRun begin

text \<open>
  The indexer over its JSON-RPC client: a tick whose heights and blocks come from a node's HTTP replies
  through \<open>BlockNumber\<close> and \<open>GetBlockByNumber\<close>, retries included. The blocks of a range are fetched
  concurrently on one client, so each call starts from a client state of its own.
\<close>

section \<open>A tick over the client\<close>

record rpc_tick =
  tk_node :: rpc_node
  tk_height :: rpc_client
  tk_fetch :: "u64 \<Rightarrow> nat \<Rightarrow> rpc_client"
  tk_header :: "u64 \<Rightarrow> rpc_client"

definition rpc_view :: "big_env \<Rightarrow> rpc_tick \<Rightarrow> node_view" where
  "rpc_view B tk =
     \<lparr>nv_BlockNumber = fst (BlockNumber (tk_node tk) (tk_height tk)),
      nv_GetBlock = (\<lambda>n k. node_block B (tk_node tk) (tk_fetch tk n k) n),
      nv_GetHeader = (\<lambda>n. map_sum id block_of (fst (GetBlockByNumber B (tk_node tk) n False (tk_header tk n))))\<rparr>"

text \<open>One of the attempts is answered with the value, all earlier ones having failed; or all of them fail.\<close>

definition answered :: "rpc_node \<Rightarrow> rpc_request \<Rightarrow> rpc_client \<Rightarrow> json \<Rightarrow> bool" where
  "answered N req c v \<longleftrightarrow>
     (\<exists>k i. (\<forall>j < k. \<not> is_ok (reply_at N req (rc_sent c + j))) \<and>
        N (rc_sent c + k) req = Answer 200 (Body (eth_response i v)) \<and>
        int k \<le> rf_MaxRetries (rc_config c) \<and> - (2 ^ 63) \<le> i \<and> i < 2 ^ 63)"

definition unanswered :: "rpc_node \<Rightarrow> rpc_request \<Rightarrow> rpc_client \<Rightarrow> bool" where
  "unanswered N req c \<longleftrightarrow> (\<forall>j. int j \<le> rf_MaxRetries (rc_config c) \<longrightarrow> \<not> is_ok (reply_at N req (rc_sent c + j)))"

definition height_request :: "rpc_client \<Rightarrow> rpc_request" where
  "height_request c = request_of ''eth_blockNumber'' None c"

lemma scan_quantity: "scan_hex (hex_text (unat w)) = Inr w"
  unfolding hex_text_def by (rule scan_hex_nat)

lemma BlockNumber_answered:
  assumes "answered N (height_request c) c (quantity (unat h))"
  shows "fst (BlockNumber N c) = Inr h"
proof -
  obtain k i where k: "\<forall>j < k. \<not> is_ok (reply_at N (height_request c) (rc_sent c + j))"
    "N (rc_sent c + k) (height_request c) = Answer 200 (Body (eth_response i (quantity (unat h))))"
    "int k \<le> rf_MaxRetries (rc_config c)" "- (2 ^ 63) \<le> i" "i < 2 ^ 63"
    using assms by (auto simp: answered_def)
  let ?resp = "\<lparr>rr_JSONRPC = ''2.0'', rr_ID = i, rr_Result = Some (quantity (unat h)), rr_Error = None\<rparr>"
  have "first_reply N (height_request c) (rc_sent c) k ?resp"
    using k(1) reply_served [of N "rc_sent c + k" "height_request c" i] k(2,4,5) by (simp add: first_reply_def)
  from call_first [OF this [unfolded height_request_def] k(3)] show ?thesis
    by (simp add: BlockNumber_def call_string_def string_result_def scan_result_def rpc_answer_def quantity_def decode_str_def
        scan_quantity)
qed

lemma BlockNumber_unanswered:
  assumes "unanswered N (height_request c) c"
  shows "\<not> is_ok (fst (BlockNumber N c))"
proof -
  let ?c = "c\<lparr>rc_requestIDCounter := rc_requestIDCounter c + 1\<rparr>"
  have "\<forall>j < nat (rf_MaxRetries (rc_config ?c) + 1). \<not> is_ok (reply_at N (height_request c) (rc_sent ?c + j))"
    using assms by (auto simp: unanswered_def)
  from call_loop_none [OF this, of "''<nil>''"] obtain err where
    "call N ''eth_blockNumber'' None c = (Inl err, c\<lparr>rc_requestIDCounter := rc_requestIDCounter c + 1,
        rc_sent := rc_sent c + nat (rf_MaxRetries (rc_config c) + 1)\<rparr>)"
    by (auto simp: call_def Let_def height_request_def request_of_def)
  then show ?thesis by (simp add: BlockNumber_def call_string_def scan_result_def)
qed

lemma node_block_unanswered:
  assumes "unanswered N (block_request n c) c"
  shows "\<not> is_ok (node_block B N c n)"
proof -
  let ?c = "c\<lparr>rc_requestIDCounter := rc_requestIDCounter c + 1\<rparr>"
  have "\<forall>j < nat (rf_MaxRetries (rc_config ?c) + 1). \<not> is_ok (reply_at N (block_request n c) (rc_sent ?c + j))"
    using assms by (auto simp: unanswered_def)
  from call_loop_none [OF this, of "''<nil>''"] show ?thesis
    by (auto simp: node_block_def GetBlockByNumber_def get_block_def call_def Let_def block_request_def request_of_def hex_text_def)
qed

lemma node_block_answered:
  assumes "wf_block B b" and "answered N (block_request n c) c (eth_block b)"
  shows "node_block B N c n = Inr b"
proof -
  obtain ms where ms: "eth_block b = JObj ms" by (simp add: eth_block_def)
  obtain k i where k: "\<forall>j < k. \<not> is_ok (reply_at N (block_request n c) (rc_sent c + j))"
    "N (rc_sent c + k) (block_request n c) = Answer 200 (Body (eth_response i (eth_block b)))"
    "int k \<le> rf_MaxRetries (rc_config c)" "- (2 ^ 63) \<le> i" "i < 2 ^ 63"
    using assms(2) by (auto simp: answered_def)
  from GetBlock_served [OF k, of B] parse_eth_block [OF assms(1) ms] decode_eth_block [OF assms(1)]
  show ?thesis by (simp add: node_block_def ms as_map_def)
qed

text \<open>The fetch of a block: one of its five calls is answered, those before it not at all.\<close>

definition block_given :: "rpc_tick \<Rightarrow> u64 \<Rightarrow> rpc_block \<Rightarrow> bool" where
  "block_given tk n b \<longleftrightarrow>
     (\<exists>k \<in> {1..5}. answered (tk_node tk) (block_request n (tk_fetch tk n k)) (tk_fetch tk n k) (eth_block b) \<and>
        (\<forall>j \<in> {1..<k}. unanswered (tk_node tk) (block_request n (tk_fetch tk n j)) (tk_fetch tk n j)))"

lemma find_first:
  assumes "P k" "1 \<le> k" "k < m" "\<forall>j \<in> {1..<k}. \<not> P j"
  shows "List.find P [1..<m] = Some k"
  unfolding find_Some_iff by (rule exI [of _ "k - 1"]) (use assms in auto)

lemma fetch_given:
  assumes wf: "wf_block B b" and given: "block_given tk n b"
  shows "fetch_block (rpc_view B tk) n = Inr b"
proof -
  obtain k where k: "k \<in> {1..5}" "answered (tk_node tk) (block_request n (tk_fetch tk n k)) (tk_fetch tk n k) (eth_block b)"
    "\<forall>j \<in> {1..<k}. unanswered (tk_node tk) (block_request n (tk_fetch tk n j)) (tk_fetch tk n j)"
    using given by (auto simp: block_given_def)
  have at: "nv_GetBlock (rpc_view B tk) n k = Inr b" using node_block_answered [OF wf k(2)] by (simp add: rpc_view_def)
  have before: "\<forall>j \<in> {1..<k}. \<not> is_ok (nv_GetBlock (rpc_view B tk) n j)"
    using k(3) node_block_unanswered [of "tk_node tk" n _ B] by (simp add: rpc_view_def)
  have "List.find (\<lambda>k. is_ok (nv_GetBlock (rpc_view B tk) n k)) [1..<6] = Some k"
    by (rule find_first [OF _ _ _ before]) (use k(1) at in simp_all)
  then show ?thesis by (simp add: fetch_block_def at)
qed

text \<open>
  The node of a tick is on the chain: it does not give the height in any attempt, or it gives one and then
  the JSON of every block above the first and up to it.
\<close>

definition rpc_on_chain :: "big_env \<Rightarrow> (u64 \<Rightarrow> rpc_block) \<Rightarrow> u64 \<Rightarrow> u64 \<Rightarrow> rpc_tick \<Rightarrow> bool" where
  "rpc_on_chain B chain first tip tk \<longleftrightarrow>
     unanswered (tk_node tk) (height_request (tk_height tk)) (tk_height tk) \<or>
     (\<exists>h \<le> tip. answered (tk_node tk) (height_request (tk_height tk)) (tk_height tk) (quantity (unat h)) \<and>
        (\<forall>n \<in> set (span (Suc (unat first)) (Suc (unat h))). wf_block B (chain n) \<and> block_given tk n (chain n)))"

lemma rpc_view_on_chain:
  assumes "rpc_on_chain B chain first tip tk"
  shows "on_chain chain first tip (rpc_view B tk)"
  using assms unfolding rpc_on_chain_def
proof (elim disjE exE conjE)
  assume "unanswered (tk_node tk) (height_request (tk_height tk)) (tk_height tk)"
  from BlockNumber_unanswered [OF this] show ?thesis by (auto simp: on_chain_def rpc_view_def)
next
  fix h
  assume h: "h \<le> tip" "answered (tk_node tk) (height_request (tk_height tk)) (tk_height tk) (quantity (unat h))"
    and blocks: "\<forall>n \<in> set (span (Suc (unat first)) (Suc (unat h))). wf_block B (chain n) \<and> block_given tk n (chain n)"
  have "nv_BlockNumber (rpc_view B tk) = Inr h" using BlockNumber_answered [OF h(2)] by (simp add: rpc_view_def)
  moreover have "node_serves (rpc_view B tk) chain (span (Suc (unat first)) (Suc (unat h)))"
    unfolding node_serves_def using blocks by (auto intro: fetch_given)
  ultimately show ?thesis using h(1) by (simp add: on_chain_def)
qed

text \<open>
  C18: From its first start on an empty database, an indexer whose ticks all see one chain through the
  JSON-RPC client has batched that chain. In each tick the node either gives no height in any attempt, or
  gives one, and then the JSON of every block up to it, within the retries of one of the five calls of its
  fetch. After any
  number of ticks the indexer has processed the chain to the greatest height given, which is the stored
  cursor. The transactions of all its batches, in batch order, are exactly the transactions of the chain to
  the target contract with the target selector, in chain order, each once; each batch carries the traces,
  trades and hash of its transactions and at most BatchSize of them, and every batch but the latest is
  closed.
\<close>

theorem indexer_over_rpc:
  assumes db: "store_inv kv" "bg_db kv = []" and J: "json_total (ie_json E)" and size: "0 < ic_BatchSize (ie_config E)"
    and tip: "unat tip < 2 ^ 64 - 101" "first_block E \<le> tip"
    and ticks: "\<forall>tk \<in> set ticks. rpc_on_chain B chain (first_block E) tip tk"
    and d: "distinct (map rt_Hash (chain_txs E chain (span (Suc (unat (first_block E))) (Suc (unat tip)))))"
    and len: "length (chain_txs E chain (span (Suc (unat (first_block E))) (Suc (unat tip)))) < 2 ^ 64 - 1"
  shows "\<exists>L s. indexer_run E kv (map (rpc_view B) ticks) = Some (Drained, L, s) \<and> L \<le> tip \<and>
    (\<forall>tk \<in> set ticks. \<forall>h. answered (tk_node tk) (height_request (tk_height tk)) (tk_height tk) (quantity (unat h)) \<longrightarrow> h \<le> L) \<and>
    GetLastProcessedBlock (sv_batches s) = Inr L \<and>
    concat (map ib_Transactions (GetAllBatches (sv_batches s))) = chain_txs E chain (span (Suc (unat (first_block E))) (Suc (unat L))) \<and>
    (\<forall>n b. bs_batches (sv_batches s) n = Some b \<longrightarrow>
       ib_Number b = n \<and> built (ie_abi E) b \<and> int (length (ib_Transactions b)) \<le> ic_BatchSize (ie_config E) \<and>
       (n \<noteq> bs_count (sv_batches s) \<longrightarrow> closed_batch E b))"
proof -
  have "\<forall>V \<in> set (map (rpc_view B) ticks). on_chain chain (first_block E) tip V"
    using ticks rpc_view_on_chain by auto
  from indexer_batches_the_chain [OF db J size tip this d len] obtain L s where
    run: "indexer_run E kv (map (rpc_view B) ticks) = Some (Drained, L, s)" "L \<le> tip"
    and seen: "\<forall>tk \<in> set ticks. \<forall>h. nv_BlockNumber (rpc_view B tk) = Inr h \<longrightarrow> h \<le> L"
    and rest: "GetLastProcessedBlock (sv_batches s) = Inr L"
      "concat (map ib_Transactions (GetAllBatches (sv_batches s))) = chain_txs E chain (span (Suc (unat (first_block E))) (Suc (unat L)))"
      "\<forall>n b. bs_batches (sv_batches s) n = Some b \<longrightarrow>
         ib_Number b = n \<and> built (ie_abi E) b \<and> int (length (ib_Transactions b)) \<le> ic_BatchSize (ie_config E) \<and>
         (n \<noteq> bs_count (sv_batches s) \<longrightarrow> closed_batch E b)" by auto
  have "h \<le> L" if "tk \<in> set ticks" "answered (tk_node tk) (height_request (tk_height tk)) (tk_height tk) (quantity (unat h))" for tk h
    using seen that BlockNumber_answered [OF that(2)] by (simp add: rpc_view_def)
  with run rest show ?thesis by blast
qed

section \<open>A run over a node\<close>

definition rpc_chain :: "u64 \<Rightarrow> rpc_block" where
  "rpc_chain n = (demo_chain n)\<lparr>rb_Number := Some (uint n)\<rparr>"

text \<open>A node that drops every first connection, gives its height and serves the blocks asked for.\<close>

definition chain_node :: "u64 \<Rightarrow> rpc_node" where
  "chain_node h k req =
     (if k = 0 then NoConnection
      else Answer 200 (Body (eth_response 1
        (if rq_Method req = ''eth_blockNumber'' then quantity (unat h)
         else (case rq_Params req of
                 Some (JStr s # _) \<Rightarrow> (case scan_hex s of Inr n \<Rightarrow> eth_block (rpc_chain n) | Inl _ \<Rightarrow> JNull)
               | _ \<Rightarrow> JNull)))))"

definition chain_tick :: "u64 \<Rightarrow> rpc_tick" where
  "chain_tick h = \<lparr>tk_node = chain_node h, tk_height = demo_client, tk_fetch = (\<lambda>_ _. demo_client), tk_header = (\<lambda>_. demo_client)\<rparr>"

lemma rpc_chain_wf: "wf_block B (rpc_chain n)"
  by (auto simp: wf_block_def wf_tx_def natural_def rpc_chain_def demo_chain_def demo_block_def demo_tx_def deploys_def no_recipient_def)

lemma answered_second:
  "N 0 req = NoConnection \<Longrightarrow> N 1 req = Answer 200 (Body (eth_response 1 v)) \<Longrightarrow> answered N req demo_client v"
  by (auto simp: answered_def demo_client_facts reply_at_def intro!: exI [of _ "1 :: nat"] exI [of _ "1 :: int"])

lemma chain_tick_on_chain: "h \<le> tip \<Longrightarrow> rpc_on_chain B rpc_chain 0 tip (chain_tick h)"
  unfolding rpc_on_chain_def
  by (intro disjI2 exI [of _ h])
    (auto simp: chain_tick_def chain_node_def height_request_def block_request_def request_of_def scan_quantity
       rpc_chain_wf block_given_def intro!: answered_second bexI [of _ 1])

lemma rpc_chain_txs: "chain_txs E rpc_chain ns = chain_txs E demo_chain ns"
  by (simp add: chain_txs_def rpc_chain_def)

theorem indexer_over_rpc_witness:
  "\<exists>s. indexer_run demo_indexer demo_kv (map (rpc_view demo_big) [chain_tick 1, chain_tick 2]) = Some (Drained, 2, s) \<and>
     concat (map ib_Transactions (GetAllBatches (sv_batches s))) =
       [demo_tx ''a'' ''0xAB'', demo_tx ''b'' ''0xab'', demo_tx ''c'' ''0xab'', demo_tx ''d'' ''0xab'']"
proof -
  have first: "first_block demo_indexer = 0" by (simp add: first_block_def demo_indexer_def DefaultConfig_def)
  have ticks: "\<forall>tk \<in> set [chain_tick 1, chain_tick 2]. rpc_on_chain demo_big rpc_chain (first_block demo_indexer) 2 tk"
    using chain_tick_on_chain by (simp add: first)
  have d: "distinct (map rt_Hash (chain_txs demo_indexer rpc_chain (span (Suc (unat (0 :: u64))) (Suc (unat (2 :: u64))))))"
    "length (chain_txs demo_indexer rpc_chain (span (Suc (unat (0 :: u64))) (Suc (unat (2 :: u64))))) < 2 ^ 64 - 1"
    using demo_chain_txs demo_span by (simp_all add: demo_tx_def rpc_chain_txs)
  have kv: "store_inv demo_kv" "bg_db demo_kv = []" by (simp_all add: store_inv_def demo_kv_def)
  have size: "0 < ic_BatchSize (ie_config demo_indexer)" by (simp add: demo_indexer_def)
  have seen: "answered (tk_node (chain_tick 2)) (height_request (tk_height (chain_tick 2))) (tk_height (chain_tick 2)) (quantity (unat (2 :: u64)))"
    by (auto simp: chain_tick_def chain_node_def height_request_def request_of_def intro!: answered_second)
  obtain L s where r: "indexer_run demo_indexer demo_kv (map (rpc_view demo_big) [chain_tick 1, chain_tick 2]) = Some (Drained, L, s)" "L \<le> 2"
    "\<forall>tk \<in> set [chain_tick 1, chain_tick 2]. \<forall>h. answered (tk_node tk) (height_request (tk_height tk)) (tk_height tk) (quantity (unat h)) \<longrightarrow> h \<le> L"
    "concat (map ib_Transactions (GetAllBatches (sv_batches s))) = chain_txs demo_indexer rpc_chain (span (Suc (unat (0 :: u64))) (Suc (unat L)))"
    using indexer_over_rpc [OF kv demo_total size _ _ ticks d [folded first], unfolded first] by auto
  have "2 \<le> L" using r(3) seen by simp
  then have "L = 2" using r(2) by simp
  then show ?thesis using r(1,4) demo_chain_txs demo_span by (simp add: rpc_chain_txs)
qed

end
