(* ===== verification/Spec2Isabelle.thy ===== *)
theory Spec2Isabelle
  imports Engine MerkleDB CircuitTree CircuitSound Batcher Sequencer ProofInput Settlement SequencerRun Blob Reconstruct Escape ProverAPI ProverRun SequencerRace DepositWatcher EndToEnd Commands IndexerRpc
begin

text \<open>
  A development for nowa-zk, a validity rollup for an order-book exchange. A Go sequencer matches orders
  and keeps balances in a sparse Merkle tree; a Go prover turns sealed batches of 25 operations into
  Groth16 proofs and settles them on L1 with an EIP-4844 blob; a Solidity contract keeps the root, the
  deposits and the escape hatch; two command-line tools rebuild the tree from L1 and claim from the
  contract without the sequencer; a Go indexer collects the transactions of a node into batches of its
  own and serves them. Paths below are relative to src.
\<close>

section \<open>Overview\<close>

subsection \<open>Parts of the program and their theories\<close>

text \<open>
  Foundations. Prelude: fixed-width integers, byte strings, decimal, hexadecimal and big-endian text, the
  locale \<open>codec\<close>. GoText: the parts of \<open>strings\<close> and \<open>strconv\<close> the servers use. Json: the part of
  \<open>encoding/json\<close> the RPC client uses. Types: the structs of sequencer/internal/types/types.go.
  Badger: the key-value store of the prover and the indexer, with the locales \<open>kv_store\<close> and \<open>kv_table\<close>.
  Field: the BN254 scalar field and MiMC as prover/gen\_mimc.go and the contract's library compute it,
  with the locale \<open>field_hash\<close>.

  Sequencer. PriceSide states the matching of one side of a book for any price order (locale
  \<open>price_side\<close>); Engine models sequencer/internal/engine and interprets the locale for asks and bids.
  MerkleSpec states what a sparse Merkle tree promises (locale \<open>auth_tree\<close>); MerkleDB models
  sequencer/internal/state/merkle\_db.go and interprets it, CircuitTree does so for the prover's tree of
  prover/circuits/merkle.go. Batcher models sequencer/internal/batcher. Sequencer models the state
  transitions of cmd/sequencer/main.go and deposit\_watcher.go and of internal/api/account.go.
  ServerAPI models the handlers of internal/api/server.go. SequencerRun is the whole: a run is a
  sequence of trades, deposits and first credits (\<open>seq_run\<close>). DepositWatcher is the goroutine of
  deposit\_watcher.go over what its subscription delivers. SequencerRace cuts a trade between its loads and
  its writes and lets a deposit in.

  Prover. Circuit is the relation constrained by prover/circuits/state\_circuit.go, over the interface
  \<open>gnark_api\<close>; CircuitSound says what a satisfied circuit means for the state under the root.
  ProofInput and ProverLoop model cmd/prover/start.go from the assignment of a batch to the loop, over the
  store of ProverStore (internal/storage/store.go) and the blob of Blob (internal/da/blob.go); Settlement
  joins the sequencer's transitions to the circuit's constraints, ProverRun runs the loop; ProverAPI is
  internal/api/server.go.

  L1 and the tools. Rollup models contracts/src/NowaRollup.sol. Replay and Reconstruct model
  sequencer/cmd/reconstruct-proof, Escape models sequencer/cmd/claim-escape against the contract.
  EndToEnd and this theory put all of it together.

  Indexer (indexer/). IndexerConfig: configuration. IndexerStore: the batch store. IndexerBatch: the
  call-data parser and batch builder. Indexer: the service of indexer.go and process\_block\_range.go.
  IndexerRun and IndexerFaults: its runs, and its behaviour under reorganisations, failures and
  restarts. IndexerServices: clean-up, handlers, transaction pool, placeholder Merkle tree. RpcClient and
  RpcRun: pkg/rpc over HTTP; IndexerRpc: the service over that client. WebSocket and WebSocketRun:
  pkg/rpc/websocket.go as a relation of interleaved steps. IndexerFeeds: the header loop and the
  web-socket hub of the API. Commands: the start-up of the prover, the sequencer's deposit watcher and
  the indexer's start command.
\<close>

subsection \<open>How the code is modelled\<close>

text \<open>
  A struct is a record with the field names of the source behind a short prefix, an operation is a
  definition of the source's name (with a suffix where two packages share it). A method takes its receiver
  and returns it changed. An error is \<open>Inl\<close> of its text, a reply of a server its status and value, a panic
  a value of its own. \<open>uint64\<close> and \<open>uint32\<close> are words and wrap; \<open>*big.Int\<close> is \<open>int\<close>, with \<open>None\<close> for nil
  where nil can occur; \<open>int\<close> is \<open>int\<close> with \<open>wrap64\<close> written out where it can overflow; an \<open>fr.Element\<close> is
  a residue. A database is its content with predicates for the operations that fail.

  An operation is one step. Where a mutex covers it (the engine, the batcher, the batch store) that is
  what the code guarantees; where steps of several goroutines interleave between locks (the engine, the
  API, the web-socket client) runs are inductive step relations. The sequencer's tree has no lock, though
  trades, deposits and handlers use it from goroutines of their own: the runs of SequencerRun, and with
  them the end-to-end theorems, are those in which these operations do not overlap, and SequencerRace
  shows what an overlap can do.

  Libraries are parameters: MiMC and EdDSA of gnark (\<open>crypto_scheme\<close>, \<open>gnark\<close>), Groth16, KZG, gzip, JSON of
  batches (\<open>da_env\<close>, \<open>prover_env\<close>, \<open>store_json\<close>, \<open>batch_json\<close>), the contract's hash constants, ABI
  decoding, EIP-712 and secp256k1 (\<open>abi_lib\<close>), the L1 node (\<open>l1_env\<close>) and the indexer's node (\<open>node_view\<close>, and
  below it \<open>rpc_node\<close>). What a theorem needs of them is a named hypothesis (\<open>gnark_laws\<close>, \<open>da_laws\<close>,
  \<open>json_total\<close>, \<open>same_mimc\<close>, \<open>pack_laws\<close>); each property with hypotheses has a witness at concrete
  instances of the parameters. Hash collisions are never assumed away: a theorem that needs their absence
  says among which tuples.

  Bounds and loops. The tree has depth 28, a leaf index is the account times 256 plus the token. A batch
  has 25 operations. Loops that end are recursive functions with their measures; the batching loop of the
  indexer can spin, so it is a partial function into \<open>option\<close>, and \<open>processBlockRange_returns\<close> proves that it
  ends for every positive batch size while \<open>zero_batch_size_hangs\<close> shows the other case. Loops over time
  are lists of the rounds or ticks they meet. No fuel is used anywhere.
\<close>

subsection \<open>What the lemmas show\<close>

text \<open>
  The engine keeps its books sorted, live and uncrossed and fills by price and time. The state tree
  refines a map of balances, its paths prove updates, and the two tree implementations agree. A trade
  conserves every token and satisfies the circuit; the circuit accepts exactly the operations described
  and takes the root of a state to the root of the next. Batches are blocks of 25 in order, and each is
  provable. The prover settles one batch per round with cooperating services. The payload survives the
  blob, the reconstruction rebuilds the sequencer's tree from L1, and the escape hatch pays what it
  holds. The indexer puts each relevant transaction into its batches once and in order, over retried
  JSON-RPC requests. The web-socket client never sends on a closed channel.

  The theorems on failures are as faithful to the source: a deposit that overlaps a trade is lost and
  leaves a batch without a proof (\<open>raced_trade_unprovable\<close>), a deposit that L1 withdraws is credited
  again and one after a subscription error never, a self trade creates tokens, a bogus
  circuit signature or a crash at the wrong moment stops the prover for good, leaf positions are not tied
  to indices, an escape claim can be paid again at an aliased index, a reorganisation never resolves, a
  failed range is skipped, a missing block is swallowed, a restart overwrites a batch, a Close can crash a
  Subscribe, a reconnect forgets the subscriptions.
\<close>

subsection \<open>Not modelled\<close>

text \<open>
  Generated code: the abigen bindings and swag documents. Libraries: Fiber's routing and middleware,
  LevelDB and Badger files, gnark's compiler, proving and key files, go-ethereum's transaction handling
  beyond the fields the prover sets. The trusted set-up and the writer of the Solidity verifier
  (prover/cmd/prover/setup.go, cmd/gen\_verifier): calls of gnark and file output. Logging, error wrappers
  (indexer/pkg/errors, pkg/logger), flag tables, signals and shutdown. The traffic generator of the
  indexer, the test client and the root printer of the sequencer: tools for trying the system by hand. The
  flattened order-book contract and deployment scripts, which the Go code only calls. Time: tickers,
  back-off waits and timeouts pass without effect other than the steps they allow.
\<close>

section \<open>The rollup from end to end\<close>



end
